(* ===== verification/Prelude.thy ===== *)
theory Prelude
  imports Main "HOL-Library.Word" "HOL-Library.Char_ord" "HOL-Library.List_Lexorder"
    "HOL-Library.Sublist"
begin

text \<open>
  The vocabulary every component shares: the Rust types the sources use (bytes, UTF-8 strings,
  fixed-width integers, \<^verbatim>\<open>Result\<close>), the parts of the Rust standard library the sources call
  (string slicing and searching, ASCII case folding, decimal parsing and printing, saturating
  and wrapping integer operations), and the generic lemmas about them.

  A Rust \<^verbatim>\<open>String\<close> is its UTF-8 byte sequence, so it is a \<^typ>\<open>string\<close> whose characters are
  bytes and whose length is what \<^verbatim>\<open>str::len\<close> returns.  Unsigned machine integers are words:
  \<^verbatim>\<open>+\<close>, \<^verbatim>\<open>-\<close> and \<^verbatim>\<open>*\<close> wrap, which is what the released build does.
\<close>

named_theorems str_simps \<open>equations of the string library\<close>
named_theorems sat_simps \<open>values of the saturating operations as natural numbers\<close>

section \<open>Types\<close>

type_synonym byte = "8 word"
type_synonym bytes = "byte list"
type_synonym u32 = "32 word"
type_synonym u64 = "64 word"
type_synonym u128 = "128 word"
type_synonym u256 = "256 word"
type_synonym i64 = "64 word"

text \<open>\<^verbatim>\<open>Result<T, String>\<close>: \<^const>\<open>Inl\<close> carries the error.\<close>

type_synonym 'a result = "string + 'a"

definition map_err :: "('e \<Rightarrow> 'f) \<Rightarrow> 'e + 'a \<Rightarrow> 'f + 'a" where
  "map_err f r = (case r of Inl e \<Rightarrow> Inl (f e) | Inr a \<Rightarrow> Inr a)"

definition ok_or :: "'e \<Rightarrow> 'a option \<Rightarrow> 'e + 'a" where
  "ok_or e x = (case x of None \<Rightarrow> Inl e | Some a \<Rightarrow> Inr a)"

definition unwrap_or :: "'a \<Rightarrow> 'a option \<Rightarrow> 'a" where
  "unwrap_or d x = (case x of None \<Rightarrow> d | Some a \<Rightarrow> a)"

definition bind_res :: "'e + 'a \<Rightarrow> ('a \<Rightarrow> 'e + 'b) \<Rightarrow> 'e + 'b" where
  "bind_res r f = (case r of Inl e \<Rightarrow> Inl e | Inr a \<Rightarrow> f a)"

lemma map_err_simps [simp]:
  "map_err f (Inl e) = Inl (f e)"
  "map_err f (Inr a) = Inr a"
  "(map_err f r = Inr b) = (r = Inr b)"
  by (auto simp: map_err_def split: sum.splits)

lemma ok_or_simps [simp]:
  "ok_or e None = Inl e"
  "ok_or e (Some a) = Inr a"
  "(ok_or e x = Inr b) = (x = Some b)"
  by (auto simp: ok_or_def split: option.splits)

lemma unwrap_or_simps [simp]: "unwrap_or d None = d" "unwrap_or d (Some a) = a"
  by (simp_all add: unwrap_or_def)

lemma bind_res_simps [simp]: "bind_res (Inl e) f = Inl e" "bind_res (Inr a) f = f a"
  by (simp_all add: bind_res_def)

lemma bind_res_Inr: "(bind_res r f = Inr b) = (\<exists>a. r = Inr a \<and> f a = Inr b)"
  by (cases r) auto

section \<open>Byte strings\<close>

definition as_bytes :: "string \<Rightarrow> bytes" where
  "as_bytes s = map of_char s"

definition from_bytes :: "bytes \<Rightarrow> string" where
  "from_bytes b = map (\<lambda>x. char_of (unat x)) b"

lemma unat_of_char [simp]: "unat (of_char c :: byte) = of_char c"
proof -
  have "(of_char c :: nat) < 256" by simp
  then have "unat (of_nat (of_char c) :: byte) = of_char c"
    by (simp add: unat_of_nat)
  then show ?thesis by (simp only: of_nat_of_char)
qed

lemma from_bytes_as_bytes [simp]: "from_bytes (as_bytes s) = s"
  by (simp add: from_bytes_def as_bytes_def map_idI)

lemma as_bytes_inject [simp]: "(as_bytes s = as_bytes t) = (s = t)"
  by (metis from_bytes_as_bytes)

lemma length_as_bytes [simp]: "length (as_bytes s) = length s"
  by (simp add: as_bytes_def)

lemma as_bytes_append [simp]: "as_bytes (s @ t) = as_bytes s @ as_bytes t"
  by (simp add: as_bytes_def)

section \<open>String operations of the standard library\<close>

text \<open>\<^verbatim>\<open>str::strip_prefix\<close>, \<^verbatim>\<open>str::starts_with\<close> and \<^verbatim>\<open>str::contains\<close>.\<close>

fun strip_prefix :: "string \<Rightarrow> string \<Rightarrow> string option" where
  "strip_prefix [] s = Some s"
| "strip_prefix (p # ps) [] = None"
| "strip_prefix (p # ps) (c # s) = (if p = c then strip_prefix ps s else None)"

definition starts_with :: "string \<Rightarrow> string \<Rightarrow> bool" where
  "starts_with p s = (strip_prefix p s \<noteq> None)"

fun contains :: "string \<Rightarrow> string \<Rightarrow> bool" where
  "contains [] p = starts_with p []"
| "contains (c # s) p = (starts_with p (c # s) \<or> contains s p)"

lemma strip_prefix_Some [str_simps]: "(strip_prefix p s = Some t) = (s = p @ t)"
  by (induction p s rule: strip_prefix.induct) auto

lemma strip_prefix_append [simp]: "strip_prefix p (p @ s) = Some s"
  by (simp add: strip_prefix_Some)

lemma starts_with_iff [str_simps]: "starts_with p s = prefix p s"
proof -
  have "starts_with p s = (\<exists>t. strip_prefix p s = Some t)"
    by (auto simp: starts_with_def)
  then show ?thesis by (simp add: strip_prefix_Some prefix_def)
qed

lemma contains_iff_sublist [str_simps]: "contains s p = sublist p s"
proof (induction s)
  case Nil
  then show ?case by (simp add: starts_with_iff)
next
  case (Cons c s)
  then show ?case by (simp add: starts_with_iff sublist_Cons_right)
qed

lemma contains_infix [simp]: "contains (a @ p @ b) p"
  by (simp add: contains_iff_sublist sublist_appendI)

text \<open>The idiom \<^verbatim>\<open>value.strip_prefix("0x").unwrap_or(value)\<close>.\<close>

definition strip_0x :: "string \<Rightarrow> string" where
  "strip_0x s = unwrap_or s (strip_prefix ''0x'' s)"

lemma strip_0x_0x [simp]: "strip_0x (CHR ''0'' # CHR ''x'' # s) = s"
  by (simp add: strip_0x_def)

lemma strip_0x_Nil [simp]: "strip_0x [] = []"
  by (simp add: strip_0x_def)

lemma strip_0x_cases:
  obtains "s = ''0x'' @ strip_0x s" | "strip_0x s = s" "strip_prefix ''0x'' s = None"
  by (cases "strip_prefix ''0x'' s") (auto simp: strip_0x_def strip_prefix_Some)

lemma length_strip_0x: "length (strip_0x s) \<le> length s"
  by (rule strip_0x_cases [of s]) (metis le_add2 length_append, simp)

text \<open>ASCII classes and case folding, bytewise as in \<^verbatim>\<open>u8::is_ascii_hexdigit\<close> and
  \<^verbatim>\<open>str::to_ascii_lowercase\<close>.\<close>

definition is_ascii_digit :: "char \<Rightarrow> bool" where
  "is_ascii_digit c = (let n = (of_char c :: nat) in 48 \<le> n \<and> n \<le> 57)"

definition is_ascii_hexdigit :: "char \<Rightarrow> bool" where
  "is_ascii_hexdigit c =
     (let n = (of_char c :: nat)
      in 48 \<le> n \<and> n \<le> 57 \<or> 65 \<le> n \<and> n \<le> 70 \<or> 97 \<le> n \<and> n \<le> 102)"

definition is_lower_hexdigit :: "char \<Rightarrow> bool" where
  "is_lower_hexdigit c =
     (let n = (of_char c :: nat) in 48 \<le> n \<and> n \<le> 57 \<or> 97 \<le> n \<and> n \<le> 102)"

definition ascii_lower :: "char \<Rightarrow> char" where
  "ascii_lower c =
     (let n = (of_char c :: nat) in if 65 \<le> n \<and> n \<le> 90 then char_of (n + 32) else c)"

definition to_ascii_lowercase :: "string \<Rightarrow> string" where
  "to_ascii_lowercase s = map ascii_lower s"

definition is_ascii :: "string \<Rightarrow> bool" where
  "is_ascii s = list_all (\<lambda>c. (of_char c :: nat) < 128) s"

lemma ascii_lower_idem [simp]: "ascii_lower (ascii_lower c) = ascii_lower c"
  by (auto simp: ascii_lower_def Let_def)

lemma to_ascii_lowercase_idem [simp]:
  "to_ascii_lowercase (to_ascii_lowercase s) = to_ascii_lowercase s"
  by (simp add: to_ascii_lowercase_def)

lemma length_to_ascii_lowercase [simp]: "length (to_ascii_lowercase s) = length s"
  by (simp add: to_ascii_lowercase_def)

lemma to_ascii_lowercase_append [simp]:
  "to_ascii_lowercase (s @ t) = to_ascii_lowercase s @ to_ascii_lowercase t"
  by (simp add: to_ascii_lowercase_def)

lemma lower_hexdigit_hexdigit: "is_lower_hexdigit c \<Longrightarrow> is_ascii_hexdigit c"
  by (auto simp: is_lower_hexdigit_def is_ascii_hexdigit_def Let_def)

lemma ascii_lower_hexdigit: "is_ascii_hexdigit c \<Longrightarrow> is_lower_hexdigit (ascii_lower c)"
  by (auto simp: is_lower_hexdigit_def is_ascii_hexdigit_def ascii_lower_def Let_def)

lemma ascii_lower_fixed: "is_lower_hexdigit c \<Longrightarrow> ascii_lower c = c"
  by (auto simp: is_lower_hexdigit_def ascii_lower_def Let_def)

lemma to_ascii_lowercase_fixed:
  "list_all is_lower_hexdigit s \<Longrightarrow> to_ascii_lowercase s = s"
  by (induction s) (auto simp: to_ascii_lowercase_def ascii_lower_fixed)

lemma list_all_lower_hexdigit:
  "list_all is_ascii_hexdigit s \<Longrightarrow> list_all is_lower_hexdigit (to_ascii_lowercase s)"
  by (induction s) (auto simp: to_ascii_lowercase_def ascii_lower_hexdigit)

lemma list_all_hexdigit_mono:
  "list_all is_lower_hexdigit s \<Longrightarrow> list_all is_ascii_hexdigit s"
  by (induction s) (auto simp: lower_hexdigit_hexdigit)

lemma lower_hex_no_x: "list_all is_lower_hexdigit s \<Longrightarrow> strip_0x s = s"
proof (rule strip_0x_cases [of s])
  assume "list_all is_lower_hexdigit s" "s = ''0x'' @ strip_0x s"
  then have "is_lower_hexdigit CHR ''x''"
    by (metis append_Cons list.pred_inject(2))
  then show ?thesis by (simp add: is_lower_hexdigit_def)
qed simp

text \<open>
  \<^verbatim>\<open>str::trim\<close> removes leading and trailing code points with the Unicode \<^verbatim>\<open>White_Space\<close>
  property; \<open>white_space\<close> lists their UTF-8 encodings.
\<close>

definition utf8 :: "nat list \<Rightarrow> string" where
  "utf8 bs = map char_of bs"

definition white_space :: "string list" where
  "white_space =
     map (\<lambda>b. utf8 [b]) [9, 10, 11, 12, 13, 32]
     @ map utf8 [[194, 133], [194, 160], [225, 154, 128]]
     @ map (\<lambda>b. utf8 [226, 128, b]) [128, 129, 130, 131, 132, 133, 134, 135, 136, 137, 138]
     @ map utf8 [[226, 128, 168], [226, 128, 169], [226, 128, 175], [226, 129, 159],
                 [227, 128, 128]]"

fun strip_any :: "string list \<Rightarrow> string \<Rightarrow> string option" where
  "strip_any [] s = None"
| "strip_any (w # ws) s = (case strip_prefix w s of Some t \<Rightarrow> Some t | None \<Rightarrow> strip_any ws s)"

lemma strip_any_shorter:
  "strip_any ws s = Some t \<Longrightarrow> \<forall>w \<in> set ws. w \<noteq> [] \<Longrightarrow> length t < length s"
  by (induction ws) (auto split: option.splits simp: strip_prefix_Some)

lemma white_space_nonempty: "w \<in> set white_space \<Longrightarrow> w \<noteq> []"
  by (auto simp: white_space_def utf8_def)

lemma rev_white_space_nonempty: "w \<in> set (map rev white_space) \<Longrightarrow> w \<noteq> []"
  using white_space_nonempty by auto

lemma strip_any_white_space: "strip_any white_space s = Some t \<Longrightarrow> length t < length s"
  using strip_any_shorter white_space_nonempty by blast

lemma strip_any_rev_white_space:
  "strip_any (map rev white_space) s = Some t \<Longrightarrow> length t < length s"
  using strip_any_shorter rev_white_space_nonempty by blast

function trim_start :: "string \<Rightarrow> string" where
  "trim_start s = (case strip_any white_space s of None \<Rightarrow> s | Some t \<Rightarrow> trim_start t)"
  by pat_completeness auto
termination
  by (relation "measure length") (auto intro: strip_any_white_space)

function trim_rev :: "string \<Rightarrow> string" where
  "trim_rev s = (case strip_any (map rev white_space) s of None \<Rightarrow> s | Some t \<Rightarrow> trim_rev t)"
  by pat_completeness auto
termination
  by (relation "measure length") (auto intro: strip_any_rev_white_space)

declare trim_start.simps [simp del] trim_rev.simps [simp del]

definition trim :: "string \<Rightarrow> string" where
  "trim s = rev (trim_rev (rev (trim_start s)))"

lemma length_trim_start: "length (trim_start s) \<le> length s"
proof (induction s rule: trim_start.induct)
  case (1 s)
  show ?case
  proof (cases "strip_any white_space s")
    case None
    then show ?thesis by (simp add: trim_start.simps [of s])
  next
    case (Some t)
    have "length t < length s" using Some by (rule strip_any_white_space)
    moreover have "length (trim_start t) \<le> length t" using "1.IH" Some by blast
    ultimately show ?thesis using Some by (simp add: trim_start.simps [of s])
  qed
qed

lemma length_trim_rev: "length (trim_rev s) \<le> length s"
proof (induction s rule: trim_rev.induct)
  case (1 s)
  show ?case
  proof (cases "strip_any (map rev white_space) s")
    case None
    then show ?thesis by (simp add: trim_rev.simps [of s])
  next
    case (Some t)
    have "length t < length s" using Some by (rule strip_any_rev_white_space)
    moreover have "length (trim_rev t) \<le> length t" using "1.IH" Some by blast
    ultimately show ?thesis using Some by (simp add: trim_rev.simps [of s])
  qed
qed

lemma length_trim: "length (trim s) \<le> length s"
  using length_trim_rev [of "rev (trim_start s)"] length_trim_start [of s]
  by (simp add: trim_def)

lemma strip_any_None: "strip_any ws s = None \<longleftrightarrow> (\<forall>w \<in> set ws. \<not> prefix w s)"
proof (induction ws)
  case (Cons w ws)
  have "strip_prefix w s = None \<longleftrightarrow> \<not> prefix w s"
    by (cases "strip_prefix w s") (auto simp: strip_prefix_Some prefix_def)
  then show ?case using Cons by (auto split: option.splits)
qed simp

lemma strip_any_suffix: "strip_any ws s = Some t \<Longrightarrow> suffix t s"
  by (induction ws) (auto simp: strip_prefix_Some suffix_def split: option.splits)

lemma trim_start_done: "strip_any white_space (trim_start s) = None"
proof (induction s rule: trim_start.induct)
  case (1 s)
  then show ?case
    by (cases "strip_any white_space s") (simp_all add: trim_start.simps [of s])
qed

lemma trim_rev_done: "strip_any (map rev white_space) (trim_rev s) = None"
proof (induction s rule: trim_rev.induct)
  case (1 s)
  then show ?case
    by (cases "strip_any (map rev white_space) s") (simp_all add: trim_rev.simps [of s])
qed

lemma trim_rev_suffix: "suffix (trim_rev s) s"
proof (induction s rule: trim_rev.induct)
  case (1 s)
  then show ?case
    using strip_any_suffix suffix_order.trans
    by (cases "strip_any (map rev white_space) s") (fastforce simp: trim_rev.simps [of s])+
qed

lemma trim_idem [simp]: "trim (trim s) = trim s"
proof -
  have "prefix (trim s) (trim_start s)"
    using trim_rev_suffix [of "rev (trim_start s)"] by (simp add: trim_def suffix_to_prefix)
  then have "strip_any white_space (trim s) = None"
    using trim_start_done [of s] prefix_order.trans unfolding strip_any_None by blast
  then have "trim_start (trim s) = trim s" by (simp add: trim_start.simps [of "trim s"])
  moreover have "trim_rev (rev (trim s)) = rev (trim s)"
    using trim_rev_done [of "rev (trim_start s)"]
    by (simp add: trim_def trim_rev.simps [of "trim_rev (rev (trim_start s))"])
  ultimately show ?thesis by (simp add: trim_def [of "trim s"])
qed

text \<open>Decimal printing (\<^verbatim>\<open>{n}\<close> in a format string) and \<^verbatim>\<open>str::parse\<close> for an unsigned
  integer of \<open>w\<close> bits: one optional \<^verbatim>\<open>+\<close>, at least one digit, no overflow.\<close>

fun decimal :: "nat \<Rightarrow> string" where
  "decimal n =
     (if n < 10 then [char_of (48 + n)] else decimal (n div 10) @ [char_of (48 + n mod 10)])"

declare decimal.simps [simp del]

definition digit_value :: "char \<Rightarrow> nat" where
  "digit_value c = of_char c - 48"

definition digits_value :: "string \<Rightarrow> nat" where
  "digits_value s = foldl (\<lambda>v c. 10 * v + digit_value c) 0 s"

definition parse_unsigned :: "nat \<Rightarrow> string \<Rightarrow> nat option" where
  "parse_unsigned w s =
     (let t = unwrap_or s (strip_prefix ''+'' s)
      in if t \<noteq> [] \<and> list_all is_ascii_digit t \<and> digits_value t < 2 ^ w
         then Some (digits_value t) else None)"

lemma digit_char:
  assumes "d < 10"
  shows "is_ascii_digit (char_of (48 + d))" "digit_value (char_of (48 + d)) = d"
    "char_of (48 + d) \<noteq> CHR ''+''"
proof -
  have v: "(of_char (char_of (48 + d)) :: nat) = 48 + d"
    using assms by simp
  show "is_ascii_digit (char_of (48 + d))" "digit_value (char_of (48 + d)) = d"
    using assms v by (auto simp: is_ascii_digit_def digit_value_def Let_def)
  show "char_of (48 + d) \<noteq> CHR ''+''"
  proof
    assume "char_of (48 + d) = CHR ''+''"
    then have "(of_char CHR ''+'' :: nat) = 48 + d" using v by simp
    then show False by simp
  qed
qed

lemma decimal_correct:
  "decimal n \<noteq> [] \<and> list_all is_ascii_digit (decimal n) \<and> digits_value (decimal n) = n
     \<and> strip_prefix ''+'' (decimal n) = None"
proof (induction n rule: decimal.induct)
  case (1 n)
  show ?case
  proof (cases "n < 10")
    case True
    then show ?thesis
      using digit_char [OF True] by (simp add: decimal.simps [of n] digits_value_def)
  next
    case False
    have d: "n mod 10 < 10" by simp
    have IH: "decimal (n div 10) \<noteq> [] \<and> list_all is_ascii_digit (decimal (n div 10))
        \<and> digits_value (decimal (n div 10)) = n div 10
        \<and> strip_prefix ''+'' (decimal (n div 10)) = None"
      using False by (rule "1.IH")
    then obtain c cs where c: "decimal (n div 10) = c # cs" by (cases "decimal (n div 10)") auto
    with IH have "CHR ''+'' \<noteq> c" by (auto split: if_splits)
    moreover have "digits_value (decimal n) = n"
      using False IH digit_char [OF d] by (simp add: decimal.simps [of n] digits_value_def)
    ultimately show ?thesis
      using False IH c digit_char [OF d] by (simp add: decimal.simps [of n])
  qed
qed

lemma parse_unsigned_decimal: "n < 2 ^ w \<Longrightarrow> parse_unsigned w (decimal n) = Some n"
  using decimal_correct [of n] by (simp add: parse_unsigned_def)

lemma decimal_inject [simp]: "(decimal m = decimal n) = (m = n)"
  by (metis decimal_correct)

lemma parse_unsigned_bound: "parse_unsigned w s = Some n \<Longrightarrow> n < 2 ^ w"
  by (auto simp: parse_unsigned_def Let_def split: if_splits)

section \<open>Fixed-width integers\<close>

text \<open>\<^verbatim>\<open>saturating_add\<close>, \<^verbatim>\<open>saturating_sub\<close> and \<^verbatim>\<open>saturating_mul\<close> of an unsigned integer type:
  the all-ones word is its maximum.\<close>

definition saturating_add :: "'a::len word \<Rightarrow> 'a word \<Rightarrow> 'a word" where
  "saturating_add a b = (if unat a + unat b < 2 ^ LENGTH('a) then a + b else - 1)"

definition saturating_mul :: "'a::len word \<Rightarrow> 'a word \<Rightarrow> 'a word" where
  "saturating_mul a b = (if unat a * unat b < 2 ^ LENGTH('a) then a * b else - 1)"

definition saturating_sub :: "'a::len word \<Rightarrow> 'a word \<Rightarrow> 'a word" where
  "saturating_sub a b = (if b \<le> a then a - b else 0)"

lemma unat_max_word: "unat (- 1 :: 'a::len word) = 2 ^ LENGTH('a) - 1"
  by (simp add: unsigned_minus_1_eq_mask mask_eq_exp_minus_1)

lemma unat_saturating_add [sat_simps]:
  "unat (saturating_add a b :: 'a::len word) = min (unat a + unat b) (2 ^ LENGTH('a) - 1)"
  by (auto simp: saturating_add_def unat_max_word unat_word_ariths)

lemma unat_saturating_mul [sat_simps]:
  "unat (saturating_mul a b :: 'a::len word) = min (unat a * unat b) (2 ^ LENGTH('a) - 1)"
  by (auto simp: saturating_mul_def unat_max_word unat_word_ariths)

lemma unat_saturating_sub [sat_simps]:
  "unat (saturating_sub a b :: 'a::len word) = unat a - unat b"
  by (auto simp: saturating_sub_def unat_sub word_le_nat_alt)

lemma unat_max [sat_simps]: "unat (max a b :: 'a::len word) = max (unat a) (unat b)"
  by (auto simp: max_def word_le_nat_alt)

lemma unat_min [sat_simps]: "unat (min a b :: 'a::len word) = min (unat a) (unat b)"
  by (auto simp: min_def word_le_nat_alt)

text \<open>A checked narrowing \<^verbatim>\<open>try_from\<close>: the value when it fits the target width.\<close>

definition try_narrow :: "'a::len word \<Rightarrow> 'b::len word option" where
  "try_narrow a = (if unat a < 2 ^ LENGTH('b) then Some (of_nat (unat a)) else None)"

lemma try_narrow_Some:
  "try_narrow (a :: 'a::len word) = Some (b :: 'b::len word) \<Longrightarrow> unat b = unat a"
  by (auto simp: try_narrow_def unsigned_ucast_eq take_bit_nat_eq_self split: if_splits)

text \<open>Big-endian bytes of a number (\<^verbatim>\<open>to_be_bytes\<close>), and their value.\<close>

fun be_bytes :: "nat \<Rightarrow> nat \<Rightarrow> bytes" where
  "be_bytes 0 x = []"
| "be_bytes (Suc n) x = be_bytes n (x div 256) @ [of_nat x]"

definition be_value :: "bytes \<Rightarrow> nat" where
  "be_value b = foldl (\<lambda>v x. 256 * v + unat x) 0 b"

lemma length_be_bytes [simp]: "length (be_bytes n x) = n"
  by (induction n arbitrary: x) auto

lemma be_value_be_bytes: "x < 256 ^ n \<Longrightarrow> be_value (be_bytes n x) = x"
proof (induction n arbitrary: x)
  case 0
  then show ?case by (simp add: be_value_def)
next
  case (Suc n)
  then have "x div 256 < 256 ^ n"
    by (simp add: less_mult_imp_div_less mult.commute)
  then have "be_value (be_bytes n (x div 256)) = x div 256" by (rule Suc.IH)
  then show ?case by (simp add: be_value_def unat_of_nat)
qed

lemma be_bytes_inject:
  "x < 256 ^ n \<Longrightarrow> y < 256 ^ n \<Longrightarrow> (be_bytes n x = be_bytes n y) = (x = y)"
  by (metis be_value_be_bytes)

end
