(* ===== verification/Sol_Types.thy ===== *)
theory Sol_Types
  imports Prelude
begin

text \<open>
  The registry's Solidity interface as \<^verbatim>\<open>p256-registrar/src/protocol.rs\<close> declares it in its
  \<^verbatim>\<open>sol!\<close> block: the structs that cross the ABI and one constructor of \<open>registry_call\<close> per
  function of \<^verbatim>\<open>interface WebAuthnP256PublicKeyRegistry\<close> the service calls.
\<close>

record entry_sol =
  es_publicKey :: bytes
  es_attestation :: bytes
  es_credentialId :: bytes
  es_authenticatorAttachment :: bytes
  es_transports :: bytes
  es_createdAt :: u256

record unit_sol =
  us_rpId :: string
  us_metadata :: bytes
  us_groupPublicKey :: bytes
  us_contentHash :: bytes
  us_memberCount :: u32
  us_createdAt :: u256

record reference_sol =
  rs_entryId :: u256
  rs_unitId :: u256
  rs_metadata :: bytes
  rs_createdAt :: u256

record proof_sol =
  ps_authenticatorData :: bytes
  ps_clientDataJSON :: string
  ps_challengeIndex :: u256
  ps_typeIndex :: u256
  ps_r :: u256
  ps_s :: u256

record member_sol =
  ms_publicKey :: bytes
  ms_attestation :: bytes
  ms_credentialId :: bytes
  ms_authenticatorAttachment :: bytes
  ms_transports :: bytes
  ms_proof :: proof_sol

datatype registry_call =
    registerCall string bytes bytes proof_sol "member_sol list"
  | referCall bytes bytes member_sol
  | getTotalEntriesCall
  | getEntryCall u256
  | hasEntryCall bytes
  | getEntryByKeyCall bytes
  | getGroupsOfKeyCall bytes u256 u256 bool
  | getTotalUnitsCall
  | getUnitCall u256
  | getUnitByGroupKeyCall bytes
  | isContentRegisteredCall bytes
  | getGroupMembersCall u256 u256 u256 bool
  | getTotalReferencesCall
  | getReferenceCall u256
  | isReferencedCall bytes bytes
  | getReferencesOfKeyCall bytes u256 u256 bool
  | getReferencesToGroupCall bytes u256 u256 bool
  | getTotalRpIdsCall
  | getGroupsByRpIdCall string u256 u256 bool
  | getRpIdsCall u256 u256 bool

end
