(* ===== verification/Externs.thy ===== *)
theory Externs
  imports Sol_Types
begin

text \<open>
  The third-party code the registrar calls: the \<^verbatim>\<open>hex\<close>, \<^verbatim>\<open>sha2\<close>, \<^verbatim>\<open>p256\<close> and \<^verbatim>\<open>alloy\<close> crates.
  None of it is part of the repository, so every definition that uses it takes an
  \<open>externs\<close> record as its argument, and what the code relies on is collected in
  \<open>externs_ok\<close>: hex encoding and decoding are mutually inverse, digests have 32 bytes, and
  the ABI encoding of values of the same types is injective.  The locale \<open>externs_laws\<close>
  states that contract once; \<open>ref_externs\<close> is a concrete instance of it, used to evaluate
  the model on concrete inputs.
\<close>

section \<open>Values handed to the ABI encoder\<close>

text \<open>The argument types of \<^verbatim>\<open>abi_encode_params\<close> in \<^verbatim>\<open>protocol.rs\<close>.\<close>

datatype abi_value =
    AbiUint u256
  | AbiAddress bytes
  | AbiString string
  | AbiBytes bytes
  | AbiBytes32 bytes
  | AbiBytes32s "bytes list"

fun abi_type :: "abi_value \<Rightarrow> nat" where
  "abi_type (AbiUint _) = 0"
| "abi_type (AbiAddress _) = 1"
| "abi_type (AbiString _) = 2"
| "abi_type (AbiBytes _) = 3"
| "abi_type (AbiBytes32 _) = 4"
| "abi_type (AbiBytes32s _) = 5"

text \<open>Values of the Rust types: fixed arrays have their length, and no slice is longer than
  the address space.\<close>

fun abi_wf :: "abi_value \<Rightarrow> bool" where
  "abi_wf (AbiUint _) = True"
| "abi_wf (AbiAddress b) = (length b = 20)"
| "abi_wf (AbiString s) = (length s < 2 ^ 64)"
| "abi_wf (AbiBytes b) = (length b < 2 ^ 64)"
| "abi_wf (AbiBytes32 b) = (length b = 32)"
| "abi_wf (AbiBytes32s bs) = (length bs < 2 ^ 64 \<and> list_all (\<lambda>b. length b = 32) bs)"

section \<open>The external functions\<close>

record externs =
  hex_encode :: "bytes \<Rightarrow> string"
  hex_decode :: "string \<Rightarrow> bytes option"
  keccak256 :: "bytes \<Rightarrow> bytes"
  sha256 :: "bytes \<Rightarrow> bytes"
  hex_error :: "string \<Rightarrow> string"           \<comment> \<open>the text of a \<^verbatim>\<open>FromHexError\<close>\<close>
  abi_encode_params :: "abi_value list \<Rightarrow> bytes"
  abi_encode_call :: "registry_call \<Rightarrow> bytes"  \<comment> \<open>\<^verbatim>\<open>SolCall::abi_encode\<close>\<close>
  dec_entry :: "bytes \<Rightarrow> entry_sol option"   \<comment> \<open>\<^verbatim>\<open>abi_decode_returns\<close> of each view call\<close>
  dec_entry_by_key :: "bytes \<Rightarrow> (bool \<times> u256 \<times> entry_sol) option"
  dec_unit :: "bytes \<Rightarrow> unit_sol option"
  dec_unit_by_group_key :: "bytes \<Rightarrow> (bool \<times> u256 \<times> unit_sol) option"
  dec_reference :: "bytes \<Rightarrow> reference_sol option"
  dec_id_page :: "bytes \<Rightarrow> (u256 \<times> u256 list) option"
  dec_group_members :: "bytes \<Rightarrow> (u256 \<times> u256 list \<times> entry_sol list) option"
  dec_bool :: "bytes \<Rightarrow> bool option"
  dec_u256 :: "bytes \<Rightarrow> u256 option"
  dec_rp_ids :: "bytes \<Rightarrow> (u256 \<times> string list \<times> u256 list \<times> u256 list) option"
  fmt_b256 :: "bytes \<Rightarrow> string"             \<comment> \<open>\<^verbatim>\<open>format!("{:#x}", B256)\<close>\<close>
  parse_address :: "string \<Rightarrow> bytes option"  \<comment> \<open>\<^verbatim>\<open>Address::from_str\<close>\<close>
  point_ok :: "bytes \<Rightarrow> bool"                \<comment> \<open>\<^verbatim>\<open>p256::PublicKey::from_sec1_bytes\<close> succeeds\<close>
  vkey_ok :: "bytes \<Rightarrow> bool"                 \<comment> \<open>\<^verbatim>\<open>VerifyingKey::from_sec1_bytes\<close> succeeds\<close>
  scalars_ok :: "bytes \<Rightarrow> bytes \<Rightarrow> bool"     \<comment> \<open>\<^verbatim>\<open>Signature::from_scalars\<close> succeeds\<close>
  verify_prehash :: "bytes \<Rightarrow> bytes \<Rightarrow> bytes \<Rightarrow> bytes \<Rightarrow> bool"
    \<comment> \<open>key, digest, r, s\<close>
  p256verify :: "bytes \<Rightarrow> nat \<Rightarrow> nat \<Rightarrow> nat \<Rightarrow> nat \<Rightarrow> bool"
    \<comment> \<open>the P256VERIFY precompile: digest, r, s, x, y\<close>
  unicode_lowercase :: "string \<Rightarrow> string"    \<comment> \<open>\<^verbatim>\<open>str::to_lowercase\<close> on non-ASCII text\<close>

text \<open>\<^verbatim>\<open>str::to_lowercase\<close> is ASCII case folding on ASCII text.\<close>

definition to_lowercase :: "externs \<Rightarrow> string \<Rightarrow> string" where
  "to_lowercase X s = (if is_ascii s then to_ascii_lowercase s else unicode_lowercase X s)"

section \<open>What the code relies on\<close>

text \<open>Lowercase hex, two digits per byte, high digit first; both cases are decoded.\<close>

definition hex_digit :: "nat \<Rightarrow> char" where
  "hex_digit n = (if n < 10 then char_of (48 + n) else char_of (87 + n))"

locale hex_codec =
  fixes enc :: "bytes \<Rightarrow> string"
    and dec :: "string \<Rightarrow> bytes option"
  assumes dec_enc: "dec (enc b) = Some b"
    and enc_dec: "dec s = Some b \<Longrightarrow> enc b = to_ascii_lowercase s"
    and dec_defined: "(\<exists>b. dec s = Some b) = (even (length s) \<and> list_all is_ascii_hexdigit s)"
    and dec_length: "dec s = Some b \<Longrightarrow> length s = 2 * length b"
    and enc_Cons: "enc (x # b) = hex_digit (unat x div 16) # hex_digit (unat x mod 16) # enc b"
begin

lemma length_enc: "length (enc b) = 2 * length b"
  using dec_length [OF dec_enc] .

lemma enc_hexdigits: "list_all is_ascii_hexdigit (enc b)"
  using dec_defined [of "enc b"] dec_enc by blast

lemma enc_lower: "list_all is_lower_hexdigit (enc b)"
proof -
  have "enc b = to_ascii_lowercase (enc b)" by (rule enc_dec [OF dec_enc])
  then show ?thesis using list_all_lower_hexdigit [OF enc_hexdigits, of b] by simp
qed

lemma enc_inject: "(enc a = enc b) = (a = b)"
  by (metis dec_enc option.inject)

lemma enc_Nil: "(enc b = []) = (b = [])"
  using length_enc [of b] by auto

lemma dec_lower: "dec s = Some b \<Longrightarrow> dec (to_ascii_lowercase s) = Some b"
  using enc_dec [of s b] dec_enc [of b] by simp

lemma dec_total: "even (length s) \<Longrightarrow> list_all is_ascii_hexdigit s \<Longrightarrow> \<exists>b. dec s = Some b"
  using dec_defined by blast

end

definition hex_ok :: "externs \<Rightarrow> bool" where
  "hex_ok X = hex_codec (hex_encode X) (hex_decode X)"

definition digests_ok :: "externs \<Rightarrow> bool" where
  "digests_ok X = ((\<forall>b. length (keccak256 X b) = 32) \<and> (\<forall>b. length (sha256 X b) = 32))"

definition abi_ok :: "externs \<Rightarrow> bool" where
  "abi_ok X =
     (\<forall>vs ws. list_all abi_wf vs \<longrightarrow> list_all abi_wf ws \<longrightarrow> map abi_type vs = map abi_type ws
        \<longrightarrow> abi_encode_params X vs = abi_encode_params X ws \<longrightarrow> vs = ws)"

definition format_ok :: "externs \<Rightarrow> bool" where
  "format_ok X =
     ((\<forall>b. fmt_b256 X b = ''0x'' @ hex_encode X b)
      \<and> (\<forall>s a. parse_address X s = Some a \<longrightarrow> length a = 20))"

definition externs_ok :: "externs \<Rightarrow> bool" where
  "externs_ok X = (hex_ok X \<and> digests_ok X \<and> abi_ok X \<and> format_ok X)"

text \<open>The curve of FIPS 186 P-256, and an uncompressed point's coordinates.\<close>

definition P256_P :: nat where
  "P256_P = 0xffffffff00000001000000000000000000000000ffffffffffffffffffffffff"

definition P256_B :: nat where
  "P256_B = 0x5ac635d8aa3a93e7b3ebbd55769886bc651d06b0cc53b0f63bce3c3e27d2604b"

definition on_curve :: "nat \<Rightarrow> nat \<Rightarrow> bool" where
  "on_curve x y =
     (x < P256_P \<and> y < P256_P
      \<and> (y * y) mod P256_P = (x * x * x + (P256_P - 3) * x + P256_B) mod P256_P)"

definition key_x :: "bytes \<Rightarrow> nat" where "key_x key = be_value (take 32 (drop 1 key))"

definition key_y :: "bytes \<Rightarrow> nat" where "key_y key = be_value (take 32 (drop 33 key))"

definition uncompressed :: "bytes \<Rightarrow> bool" where
  "uncompressed key = (length key = 65 \<and> key ! 0 = 4)"

text \<open>On uncompressed keys the \<^verbatim>\<open>p256\<close> crate accepts exactly the curve's points, and its verification
  and the precompile's are the same ECDSA verification.\<close>

definition p256_ok :: "externs \<Rightarrow> bool" where
  "p256_ok X =
     (\<forall>key. uncompressed key \<longrightarrow>
        point_ok X key = on_curve (key_x key) (key_y key) \<and> vkey_ok X key = point_ok X key
        \<and> (\<forall>d r s. length d = 32 \<longrightarrow> length r = 32 \<longrightarrow> length s = 32 \<longrightarrow> vkey_ok X key
             \<longrightarrow> scalars_ok X r s \<longrightarrow>
             p256verify X d (be_value r) (be_value s) (key_x key) (key_y key)
               = verify_prehash X key d r s))"

locale externs_laws =
  fixes X :: externs
  assumes laws: "externs_ok X"
begin

lemma keccak_length: "length (keccak256 X b) = 32"
  using laws by (simp add: externs_ok_def digests_ok_def)

lemma sha_length: "length (sha256 X b) = 32"
  using laws by (simp add: externs_ok_def digests_ok_def)

lemma fmt_b256: "fmt_b256 X b = ''0x'' @ hex_encode X b"
  using laws by (simp add: externs_ok_def format_ok_def)

lemma address_length: "parse_address X s = Some a \<Longrightarrow> length a = 20"
  using laws by (simp add: externs_ok_def format_ok_def)

lemma abi_inject:
  "list_all abi_wf vs \<Longrightarrow> list_all abi_wf ws \<Longrightarrow> map abi_type vs = map abi_type ws \<Longrightarrow>
   (abi_encode_params X vs = abi_encode_params X ws) = (vs = ws)"
  using laws by (auto simp: externs_ok_def abi_ok_def)

end

sublocale externs_laws \<subseteq> hex: hex_codec "hex_encode X" "hex_decode X"
  using laws by (simp add: externs_ok_def hex_ok_def)

section \<open>A concrete instance\<close>

definition hex_value :: "char \<Rightarrow> nat option" where
  "hex_value c =
     (let n = (of_char c :: nat)
      in if 48 \<le> n \<and> n \<le> 57 then Some (n - 48)
         else if 65 \<le> n \<and> n \<le> 70 then Some (n - 55)
         else if 97 \<le> n \<and> n \<le> 102 then Some (n - 87)
         else None)"

definition ref_hex_encode :: "bytes \<Rightarrow> string" where
  "ref_hex_encode b = concat (map (\<lambda>x. [hex_digit (unat x div 16), hex_digit (unat x mod 16)]) b)"

fun ref_hex_decode :: "string \<Rightarrow> bytes option" where
  "ref_hex_decode [] = Some []"
| "ref_hex_decode [_] = None"
| "ref_hex_decode (c # d # s) =
     (case (hex_value c, hex_value d, ref_hex_decode s) of
        (Some h, Some l, Some b) \<Rightarrow> Some (of_nat (16 * h + l) # b)
      | _ \<Rightarrow> None)"

lemma hex_value_digit: "n < 16 \<Longrightarrow> hex_value (hex_digit n) = Some n"
  by (auto simp: hex_value_def hex_digit_def Let_def)

lemma hex_value_Some:
  assumes "hex_value c = Some v"
  shows "v < 16 \<and> hex_digit v = ascii_lower c"
proof -
  have "char_of (of_char c :: nat) = c" by simp
  then show ?thesis
    using assms by (auto simp: hex_value_def hex_digit_def ascii_lower_def Let_def split: if_splits)
qed

lemma hex_value_defined: "(\<exists>v. hex_value c = Some v) = is_ascii_hexdigit c"
  by (auto simp: hex_value_def is_ascii_hexdigit_def Let_def)

lemma ref_hex_decode_Cons2:
  "(ref_hex_decode (c # d # s) = Some b) =
   (\<exists>h l r. hex_value c = Some h \<and> hex_value d = Some l \<and> ref_hex_decode s = Some r
      \<and> b = of_nat (16 * h + l) # r)"
  by (auto split: option.splits)

lemma hex_pair_value:
  assumes "h < 16" "l < 16"
  shows "unat (of_nat (16 * h + l) :: byte) div 16 = h"
    "unat (of_nat (16 * h + l) :: byte) mod 16 = l"
proof -
  have "16 * h + l < 256" using assms by simp
  then have "unat (of_nat (16 * h + l) :: byte) = 16 * h + l"
    by (simp add: unat_of_nat del: of_nat_add of_nat_mult)
  then show "unat (of_nat (16 * h + l) :: byte) div 16 = h"
    "unat (of_nat (16 * h + l) :: byte) mod 16 = l"
    using assms by (simp_all del: of_nat_add of_nat_mult)
qed

lemma ref_hex_dec_enc: "ref_hex_decode (ref_hex_encode b) = Some b"
proof (induction b)
  case Nil
  then show ?case by (simp add: ref_hex_encode_def)
next
  case (Cons x b)
  have "unat x div 16 < 16" using unsigned_less [of x, where ?'a = nat] by simp
  moreover have "16 * (unat x div 16) + unat x mod 16 = unat x" by simp
  ultimately show ?case
    using Cons hex_value_digit [of "unat x div 16"] hex_value_digit [of "unat x mod 16"]
    by (simp add: ref_hex_encode_def del: of_nat_add of_nat_mult)
qed

lemma ref_hex_enc_dec: "ref_hex_decode s = Some b \<Longrightarrow> ref_hex_encode b = to_ascii_lowercase s"
proof (induction s arbitrary: b rule: ref_hex_decode.induct)
  case (3 c d s)
  then obtain h l r where v: "hex_value c = Some h" "hex_value d = Some l"
    and r: "ref_hex_decode s = Some r" "b = of_nat (16 * h + l) # r"
    by (auto simp: ref_hex_decode_Cons2 simp del: ref_hex_decode.simps)
  have "ref_hex_encode r = to_ascii_lowercase s" by (rule "3.IH") (rule r)
  then show ?case
    using hex_value_Some [OF v(1)] hex_value_Some [OF v(2)] r hex_pair_value [of h l]
    by (simp add: ref_hex_encode_def to_ascii_lowercase_def del: of_nat_add of_nat_mult)
qed (auto simp: ref_hex_encode_def to_ascii_lowercase_def)

lemma ref_hex_defined:
  "(\<exists>b. ref_hex_decode s = Some b) = (even (length s) \<and> list_all is_ascii_hexdigit s)"
proof (induction s rule: ref_hex_decode.induct)
  case (3 c d s)
  have "(\<exists>b. ref_hex_decode (c # d # s) = Some b) =
      ((\<exists>h. hex_value c = Some h) \<and> (\<exists>l. hex_value d = Some l) \<and> (\<exists>r. ref_hex_decode s = Some r))"
    by (auto simp: ref_hex_decode_Cons2 simp del: ref_hex_decode.simps)
  then show ?case using "3.IH" by (simp add: hex_value_defined del: ref_hex_decode.simps) blast
qed auto

lemma ref_hex_length: "ref_hex_decode s = Some b \<Longrightarrow> length s = 2 * length b"
  by (induction s arbitrary: b rule: ref_hex_decode.induct) (auto split: option.splits)

interpretation ref_hex: hex_codec ref_hex_encode ref_hex_decode
  by unfold_locales
    (fact ref_hex_dec_enc ref_hex_enc_dec ref_hex_defined ref_hex_length | simp add: ref_hex_encode_def)+

text \<open>A self-delimiting serialisation stands for the ABI encoder.\<close>

fun delimit :: "bytes \<Rightarrow> bytes" where
  "delimit [] = [0]"
| "delimit (x # b) = 1 # x # delimit b"

fun delimits :: "bytes list \<Rightarrow> bytes" where
  "delimits [] = [0]"
| "delimits (x # b) = 1 # delimit x @ delimits b"

fun ref_abi :: "abi_value \<Rightarrow> bytes" where
  "ref_abi (AbiUint w) = be_bytes 32 (unat w)"
| "ref_abi (AbiAddress b) = delimit b"
| "ref_abi (AbiString s) = delimit (as_bytes s)"
| "ref_abi (AbiBytes b) = delimit b"
| "ref_abi (AbiBytes32 b) = delimit b"
| "ref_abi (AbiBytes32s bs) = delimits bs"

definition ref_abi_params :: "abi_value list \<Rightarrow> bytes" where
  "ref_abi_params vs = concat (map ref_abi vs)"

lemma delimit_inject: "(delimit a @ r = delimit b @ q) = (a = b \<and> r = q)"
proof (induction a arbitrary: b)
  case Nil
  then show ?case by (cases b) auto
next
  case (Cons x a)
  then show ?case by (cases b) auto
qed

lemma delimits_inject: "(delimits a @ r = delimits b @ q) = (a = b \<and> r = q)"
proof (induction a arbitrary: b)
  case Nil
  then show ?case by (cases b) auto
next
  case (Cons x a)
  then show ?case by (cases b) (auto simp: delimit_inject)
qed

lemma ref_abi_inject:
  "abi_type v = abi_type w \<Longrightarrow> (ref_abi v @ r = ref_abi w @ q) = (v = w \<and> r = q)"
proof (cases v; cases w)
  fix a b assume vw: "v = AbiUint a" "w = AbiUint b"
  have "(be_bytes 32 (unat a) = be_bytes 32 (unat b)) = (unat a = unat b)"
    using unsigned_less [of a, where ?'a = nat] unsigned_less [of b, where ?'a = nat] by (intro be_bytes_inject) simp_all
  then show "(ref_abi v @ r = ref_abi w @ q) = (v = w \<and> r = q)"
    using vw by (simp add: word_unat_eq_iff)
qed (auto simp: delimit_inject delimits_inject)

lemma ref_abi_params_inject:
  "map abi_type vs = map abi_type ws \<Longrightarrow> ref_abi_params vs = ref_abi_params ws \<Longrightarrow> vs = ws"
proof (induction vs arbitrary: ws)
  case (Cons v vs)
  then obtain w ws' where "ws = w # ws'" by (cases ws) auto
  then show ?case using Cons by (auto simp: ref_abi_params_def ref_abi_inject)
qed simp

definition ref_digest :: "bytes \<Rightarrow> bytes" where
  "ref_digest b = take 32 (b @ replicate 32 0)"

definition ref_externs :: externs where
  "ref_externs =
     \<lparr>hex_encode = ref_hex_encode, hex_decode = ref_hex_decode,
      keccak256 = ref_digest, sha256 = ref_digest, hex_error = (\<lambda>s. ''bad hex''),
      abi_encode_params = ref_abi_params, abi_encode_call = (\<lambda>c. []),
      dec_entry = (\<lambda>b. None), dec_entry_by_key = (\<lambda>b. None), dec_unit = (\<lambda>b. None),
      dec_unit_by_group_key = (\<lambda>b. None), dec_reference = (\<lambda>b. None),
      dec_id_page = (\<lambda>b. None), dec_group_members = (\<lambda>b. None),
      dec_bool = (\<lambda>b. if b = [] then None else Some (\<exists>x \<in> set b. x \<noteq> 0)),
      dec_u256 = (\<lambda>b. if length b = 32 then Some (of_nat (be_value b)) else None),
      dec_rp_ids = (\<lambda>b. None),
      fmt_b256 = (\<lambda>b. ''0x'' @ ref_hex_encode b),
      parse_address = (\<lambda>s. case ref_hex_decode (strip_0x s) of
          Some a \<Rightarrow> if length a = 20 then Some a else None | None \<Rightarrow> None),
      point_ok = (\<lambda>b. uncompressed b \<and> on_curve (key_x b) (key_y b)),
      vkey_ok = (\<lambda>b. uncompressed b \<and> on_curve (key_x b) (key_y b)),
      scalars_ok = (\<lambda>r s. r \<noteq> [] \<and> s \<noteq> []),
      verify_prehash = (\<lambda>key digest r s. length digest = 32),
      p256verify = (\<lambda>digest r s x y. length digest = 32), unicode_lowercase = id\<rparr>"

lemma ref_externs_ok: "externs_ok ref_externs"
  unfolding externs_ok_def
proof (intro conjI)
  show "hex_ok ref_externs"
    using ref_hex.hex_codec_axioms by (simp add: hex_ok_def ref_externs_def)
  show "digests_ok ref_externs"
    by (auto simp: digests_ok_def ref_externs_def ref_digest_def min_def)
  show "abi_ok ref_externs"
    using ref_abi_params_inject by (auto simp: abi_ok_def ref_externs_def)
  show "format_ok ref_externs"
    by (auto simp: format_ok_def ref_externs_def split: option.splits if_splits)
qed

lemma ref_p256_ok: "p256_ok ref_externs"
  by (simp add: p256_ok_def ref_externs_def)

interpretation ref: externs_laws ref_externs
  by unfold_locales (rule ref_externs_ok)

end
