(* ===== verification/Task.thy ===== *)
theory Task
  imports Externs
begin

text \<open>
  The task vocabulary of \<^verbatim>\<open>p256-registrar/src/task.rs\<close>: possession proofs, members, and the
  \<open>register_task\<close> record that carries one chain write from an accepted request to its
  outcome.
\<close>

record webauthn_proof =
  pf_authenticator_data :: string
  pf_client_data_json :: string
  pf_challenge_index :: u64
  pf_type_index :: u64
  pf_r :: string
  pf_s :: string

record member =
  m_public_key :: string
  m_attestation :: string
  m_credential_id :: string
  m_authenticator_attachment :: string
  m_transports :: string
  m_proof :: webauthn_proof

datatype task_kind = Register | Refer

datatype task_status = Pending | DoneStatus | Failed

definition is_terminal :: "task_status \<Rightarrow> bool" where
  "is_terminal s = (case s of Pending \<Rightarrow> False | DoneStatus \<Rightarrow> True | Failed \<Rightarrow> True)"

lemma is_terminal_simps [simp]:
  "\<not> is_terminal Pending" "is_terminal DoneStatus" "is_terminal Failed"
  by (simp_all add: is_terminal_def)

lemma not_terminal_iff: "\<not> is_terminal s \<longleftrightarrow> s = Pending"
  by (cases s) simp_all

record register_task =
  t_id :: string
  t_status :: task_status
  t_kind :: task_kind
  t_rp_id :: string
  t_metadata :: string
  t_content_hash :: string
  t_group_public_key :: string
  t_group_proof :: "webauthn_proof option"
  t_members :: "member list"
  t_tx_hash :: "string option"
  t_on_chain_id :: "u64 option"
  t_error :: "string option"
  t_retries :: u32
  t_created_at :: i64
  t_admitted :: bool

end
