(* ===== verification/Protocol.thy ===== *)
theory Protocol
  imports Task
begin

text \<open>
  \<^verbatim>\<open>p256-registrar/src/protocol.rs\<close>: chain-error classification, hex parsing, the challenge and
  content-hash construction, and the calldata of the two chain writes.
\<close>

section \<open>Chain errors\<close>

datatype chain_error =
    Unavailable
  | Reverted string
  | InvalidResponse
  | MissingSigner
  | Rejected string

definition chain_error_text :: "chain_error \<Rightarrow> string" where
  "chain_error_text e = (case e of
       Unavailable \<Rightarrow> ''chain RPC temporarily unavailable''
     | Reverted _ \<Rightarrow> ''EVM execution reverted''
     | InvalidResponse \<Rightarrow> ''chain RPC returned an invalid response''
     | MissingSigner \<Rightarrow> ''PRIVATE_KEY is required for chain writes''
     | Rejected _ \<Rightarrow> ''chain RPC rejected the request'')"

definition SELECTOR_GROUP_KEY_ALREADY_USED :: string where
  "SELECTOR_GROUP_KEY_ALREADY_USED = ''0x10eafb1a''"

definition SELECTOR_ALREADY_REFERENCED :: string where
  "SELECTOR_ALREADY_REFERENCED = ''0x40709c5d''"

definition SELECTOR_GROUP_NOT_FOUND :: string where
  "SELECTOR_GROUP_NOT_FOUND = ''0xdec308b4''"

definition SELECTOR_INVALID_PROOF :: string where
  "SELECTOR_INVALID_PROOF = ''0x09bde339''"

definition is_revert :: "string \<Rightarrow> bool" where
  "is_revert text =
     (let value = to_ascii_lowercase text
      in contains value ''execution reverted''
         \<or> contains value ''revert''
         \<or> contains value SELECTOR_GROUP_KEY_ALREADY_USED
         \<or> contains value SELECTOR_ALREADY_REFERENCED
         \<or> contains value SELECTOR_INVALID_PROOF)"

definition is_group_not_found_error :: "chain_error \<Rightarrow> bool" where
  "is_group_not_found_error e =
     (let test = (\<lambda>value. contains value ''GroupNotFound'' \<or> contains value SELECTOR_GROUP_NOT_FOUND)
      in case e of Reverted value \<Rightarrow> test value | Rejected value \<Rightarrow> test value | _ \<Rightarrow> False)"

definition is_already_exists_error :: "chain_error \<Rightarrow> bool" where
  "is_already_exists_error e =
     (let test = (\<lambda>value. contains value ''GroupKeyAlreadyUsed''
                   \<or> contains value SELECTOR_GROUP_KEY_ALREADY_USED
                   \<or> contains value ''AlreadyReferenced''
                   \<or> contains value SELECTOR_ALREADY_REFERENCED)
      in case e of Reverted value \<Rightarrow> test value | Rejected value \<Rightarrow> test value | _ \<Rightarrow> False)"

definition is_replacement_underpriced :: "chain_error \<Rightarrow> bool" where
  "is_replacement_underpriced e =
     (let test = (\<lambda>text. let value = to_ascii_lowercase text
                   in contains value ''underpriced''
                      \<or> contains value ''replacement transaction''
                      \<or> contains value ''already known'')
      in case e of Rejected value \<Rightarrow> test value | Reverted value \<Rightarrow> test value | _ \<Rightarrow> False)"

definition is_transient :: "chain_error \<Rightarrow> bool" where
  "is_transient e = (case e of
       Unavailable \<Rightarrow> True
     | InvalidResponse \<Rightarrow> True
     | Rejected value \<Rightarrow>
         \<not> is_revert value
         \<and> \<not> contains value ''GroupKeyAlreadyUsed''
         \<and> \<not> contains value ''AlreadyReferenced''
         \<and> \<not> contains value ''InvalidProof''
     | Reverted _ \<Rightarrow> False
     | MissingSigner \<Rightarrow> False)"

datatype error_class = AlreadyExists | Transient | Poison

definition classify_chain_error :: "chain_error \<Rightarrow> error_class" where
  "classify_chain_error e =
     (if is_already_exists_error e then AlreadyExists
      else if is_group_not_found_error e \<or> is_transient e then Transient
      else Poison)"

section \<open>Hex plumbing\<close>

definition parse_hex_bytes :: "externs \<Rightarrow> string \<Rightarrow> bytes result" where
  "parse_hex_bytes X value =
     (let raw = strip_0x value
      in if length raw mod 2 \<noteq> 0 then Inl ''invalid hex''
         else ok_or (hex_error X raw) (hex_decode X raw))"

definition parse_b256 :: "externs \<Rightarrow> string \<Rightarrow> bytes result" where
  "parse_b256 X value =
     bind_res (parse_hex_bytes X value)
       (\<lambda>b. if length b \<noteq> 32 then Inl ''expected 32 bytes'' else Inr b)"

section \<open>Challenge and content hash\<close>

definition challenge_for :: "externs \<Rightarrow> u64 \<Rightarrow> bytes \<Rightarrow> string \<Rightarrow> bytes \<Rightarrow> bytes \<Rightarrow> bytes" where
  "challenge_for X chain_id registry rp_id public_key binding =
     keccak256 X (abi_encode_params X
       [AbiUint (ucast chain_id), AbiAddress registry, AbiString rp_id, AbiBytes public_key,
        AbiBytes32 binding])"

definition member_binding_for :: "externs \<Rightarrow> bytes \<Rightarrow> bytes \<Rightarrow> bytes" where
  "member_binding_for X group_public_key attestation =
     keccak256 X (abi_encode_params X [AbiBytes group_public_key, AbiBytes attestation])"

definition reference_binding_for :: "externs \<Rightarrow> bytes \<Rightarrow> bytes \<Rightarrow> bytes \<Rightarrow> bytes" where
  "reference_binding_for X group_public_key attestation metadata =
     keccak256 X (abi_encode_params X
       [AbiBytes group_public_key, AbiBytes attestation, AbiBytes metadata])"

text \<open>The loop over the members: the hash of every (key, attestation) pair, in order.\<close>

fun member_hashes :: "externs \<Rightarrow> member list \<Rightarrow> bytes list result" where
  "member_hashes X [] = Inr []"
| "member_hashes X (m # ms) =
     bind_res (parse_hex_bytes X (m_public_key m)) (\<lambda>public_key.
     bind_res (parse_hex_bytes X (m_attestation m)) (\<lambda>attestation.
     bind_res (member_hashes X ms) (\<lambda>hs.
       Inr (keccak256 X (abi_encode_params X [AbiBytes public_key, AbiBytes attestation]) # hs))))"

definition content_hash_for :: "externs \<Rightarrow> register_task \<Rightarrow> bytes result" where
  "content_hash_for X task =
     bind_res (parse_hex_bytes X (t_group_public_key task)) (\<lambda>group.
     bind_res (parse_hex_bytes X (t_metadata task)) (\<lambda>metadata.
     bind_res (member_hashes X (t_members task)) (\<lambda>hashes.
       case t_kind task of
         Register \<Rightarrow>
           Inr (keccak256 X (abi_encode_params X
             [AbiString (t_rp_id task), AbiBytes metadata, AbiBytes group, AbiBytes32s hashes]))
       | Refer \<Rightarrow>
           (case t_members task of
              [] \<Rightarrow> Inl ''refer task has no member''
            | m # _ \<Rightarrow>
                bind_res (parse_hex_bytes X (m_public_key m)) (\<lambda>member_key.
                  Inr (keccak256 X (abi_encode_params X [AbiBytes group, AbiBytes member_key]))))))) "

section \<open>Calldata of the two writes\<close>

definition proof_sol_of :: "externs \<Rightarrow> webauthn_proof \<Rightarrow> proof_sol result" where
  "proof_sol_of X p =
     bind_res (parse_hex_bytes X (pf_authenticator_data p)) (\<lambda>auth.
     bind_res (parse_b256 X (pf_r p)) (\<lambda>r.
     bind_res (parse_b256 X (pf_s p)) (\<lambda>s.
       Inr \<lparr>ps_authenticatorData = auth, ps_clientDataJSON = pf_client_data_json p,
            ps_challengeIndex = ucast (pf_challenge_index p), ps_typeIndex = ucast (pf_type_index p),
            ps_r = of_nat (be_value r), ps_s = of_nat (be_value s)\<rparr>)))"

definition member_sol_of :: "externs \<Rightarrow> member \<Rightarrow> member_sol result" where
  "member_sol_of X m =
     bind_res (parse_hex_bytes X (m_public_key m)) (\<lambda>key.
     bind_res (parse_hex_bytes X (m_attestation m)) (\<lambda>attestation.
     bind_res (parse_hex_bytes X (m_credential_id m)) (\<lambda>credential.
     bind_res (proof_sol_of X (m_proof m)) (\<lambda>p.
       Inr \<lparr>ms_publicKey = key, ms_attestation = attestation, ms_credentialId = credential,
            ms_authenticatorAttachment = as_bytes (m_authenticator_attachment m),
            ms_transports = as_bytes (m_transports m), ms_proof = p\<rparr>))))"

fun member_sols_of :: "externs \<Rightarrow> member list \<Rightarrow> member_sol list result" where
  "member_sols_of X [] = Inr []"
| "member_sols_of X (m # ms) =
     bind_res (member_sol_of X m) (\<lambda>s. bind_res (member_sols_of X ms) (\<lambda>ss. Inr (s # ss)))"

definition register_calldata :: "externs \<Rightarrow> register_task \<Rightarrow> bytes result" where
  "register_calldata X task =
     bind_res (member_sols_of X (t_members task)) (\<lambda>members.
     bind_res (ok_or ''register task has no group proof'' (t_group_proof task)) (\<lambda>group_proof.
     bind_res (parse_hex_bytes X (t_metadata task)) (\<lambda>metadata.
     bind_res (parse_hex_bytes X (t_group_public_key task)) (\<lambda>group.
     bind_res (proof_sol_of X group_proof) (\<lambda>p.
       Inr (abi_encode_call X (registerCall (t_rp_id task) metadata group p members)))))))"

definition refer_calldata :: "externs \<Rightarrow> register_task \<Rightarrow> bytes result" where
  "refer_calldata X task =
     (case t_members task of
        [] \<Rightarrow> Inl ''refer task has no member''
      | m # _ \<Rightarrow>
          bind_res (parse_hex_bytes X (t_group_public_key task)) (\<lambda>group.
          bind_res (parse_hex_bytes X (t_metadata task)) (\<lambda>metadata.
          bind_res (member_sol_of X m) (\<lambda>member.
            Inr (abi_encode_call X (referCall group metadata member))))))"

definition write_calldata :: "externs \<Rightarrow> register_task \<Rightarrow> bytes result" where
  "write_calldata X task =
     (case t_kind task of Register \<Rightarrow> register_calldata X task | Refer \<Rightarrow> refer_calldata X task)"

section \<open>Hex lemmas\<close>

lemma parse_b256_iff: "parse_b256 X v = Inr b \<longleftrightarrow> parse_hex_bytes X v = Inr b \<and> length b = 32"
  by (cases "parse_hex_bytes X v") (auto simp: parse_b256_def)

lemma parse_hex_bytes_iff:
  "parse_hex_bytes X v = Inr b \<longleftrightarrow> even (length (strip_0x v)) \<and> hex_decode X (strip_0x v) = Some b"
  by (cases "hex_decode X (strip_0x v)") (auto simp: parse_hex_bytes_def Let_def even_iff_mod_2_eq_zero)

context externs_laws
begin

lemma parse_hex_encode [simp]: "parse_hex_bytes X (hex_encode X b) = Inr b"
  by (simp add: parse_hex_bytes_iff lower_hex_no_x hex.enc_lower hex.dec_enc hex.length_enc)

lemma parse_hex_encode_0x [simp]: "parse_hex_bytes X (''0x'' @ hex_encode X b) = Inr b"
  by (simp add: parse_hex_bytes_iff hex.dec_enc hex.length_enc)

lemma parse_b256_fmt: "length b = 32 \<Longrightarrow> parse_b256 X (fmt_b256 X b) = Inr b"
  unfolding parse_b256_iff fmt_b256 by (simp only: parse_hex_encode_0x)

lemma parse_hex_bytes_total:
  "(\<exists>b. parse_hex_bytes X v = Inr b) \<longleftrightarrow>
     even (length (strip_0x v)) \<and> list_all is_ascii_hexdigit (strip_0x v)"
  using hex.dec_defined by (auto simp: parse_hex_bytes_iff)

lemma parse_hex_bytes_text:
  "parse_hex_bytes X v = Inr b \<Longrightarrow> hex_encode X b = to_ascii_lowercase (strip_0x v)"
  by (auto simp: parse_hex_bytes_iff intro: hex.enc_dec)

lemma parse_hex_bytes_length:
  "parse_hex_bytes X v = Inr b \<Longrightarrow> length (strip_0x v) = 2 * length b"
  by (auto simp: parse_hex_bytes_iff intro: hex.dec_length)

end

section \<open>What a content hash commits to\<close>

text \<open>The parsed content of a task: rpId, metadata, group key, and the (key, attestation) pairs in
  order; and the byte strings hashed on the way to its content hash.\<close>

type_synonym content = "string \<times> bytes \<times> bytes \<times> (bytes \<times> bytes) list"

fun parse_members :: "externs \<Rightarrow> member list \<Rightarrow> (bytes \<times> bytes) list result" where
  "parse_members X [] = Inr []"
| "parse_members X (m # ms) =
     bind_res (parse_hex_bytes X (m_public_key m)) (\<lambda>k.
     bind_res (parse_hex_bytes X (m_attestation m)) (\<lambda>a.
     bind_res (parse_members X ms) (\<lambda>ps. Inr ((k, a) # ps))))"

definition content_of :: "externs \<Rightarrow> register_task \<Rightarrow> content result" where
  "content_of X task =
     bind_res (parse_hex_bytes X (t_group_public_key task)) (\<lambda>group.
     bind_res (parse_hex_bytes X (t_metadata task)) (\<lambda>metadata.
     bind_res (parse_members X (t_members task)) (\<lambda>ps. Inr (t_rp_id task, metadata, group, ps))))"

definition pair_preimage :: "externs \<Rightarrow> bytes \<times> bytes \<Rightarrow> bytes" where
  "pair_preimage X p = abi_encode_params X [AbiBytes (fst p), AbiBytes (snd p)]"

definition content_preimage :: "externs \<Rightarrow> content \<Rightarrow> bytes" where
  "content_preimage X c =
     (case c of (rp_id, metadata, grp, ps) \<Rightarrow>
        abi_encode_params X [AbiString rp_id, AbiBytes metadata, AbiBytes grp,
          AbiBytes32s (map (\<lambda>p. keccak256 X (pair_preimage X p)) ps)])"

definition content_preimages :: "externs \<Rightarrow> content \<Rightarrow> bytes set" where
  "content_preimages X c =
     insert (content_preimage X c) (pair_preimage X ` set (snd (snd (snd c))))"

text \<open>No value is longer than the address space.\<close>

definition content_sized :: "content \<Rightarrow> bool" where
  "content_sized c =
     (case c of (rp_id, metadata, grp, ps) \<Rightarrow>
        length rp_id < 2 ^ 64 \<and> length metadata < 2 ^ 64 \<and> length grp < 2 ^ 64
        \<and> length ps < 2 ^ 64
        \<and> list_all (\<lambda>p. length (fst p) < 2 ^ 64 \<and> length (snd p) < 2 ^ 64) ps)"

lemma member_hashes_parse:
  "member_hashes X ms =
     bind_res (parse_members X ms) (\<lambda>ps. Inr (map (\<lambda>p. keccak256 X (pair_preimage X p)) ps))"
proof (induction ms)
  case (Cons m ms)
  then show ?case
    by (cases "parse_hex_bytes X (m_public_key m)"; cases "parse_hex_bytes X (m_attestation m)";
        cases "parse_members X ms") (simp_all add: pair_preimage_def)
qed simp

lemma content_hash_register:
  "t_kind task = Register \<Longrightarrow>
     content_hash_for X task =
       bind_res (content_of X task) (\<lambda>c. Inr (keccak256 X (content_preimage X c)))"
  by (cases "parse_hex_bytes X (t_group_public_key task)"; cases "parse_hex_bytes X (t_metadata task)";
      cases "parse_members X (t_members task)")
    (simp_all add: content_hash_for_def content_of_def member_hashes_parse content_preimage_def)

lemma content_hash_refer:
  "t_kind task = Refer \<Longrightarrow>
     content_hash_for X task =
       bind_res (content_of X task) (\<lambda>(_, _, grp, ps).
         case ps of [] \<Rightarrow> Inl ''refer task has no member''
         | p # _ \<Rightarrow> Inr (keccak256 X (abi_encode_params X [AbiBytes grp, AbiBytes (fst p)])))"
  by (cases "parse_hex_bytes X (t_group_public_key task)"; cases "parse_hex_bytes X (t_metadata task)";
      cases "parse_members X (t_members task)"; cases "t_members task";
      cases "parse_hex_bytes X (m_public_key (hd (t_members task)))";
      cases "parse_hex_bytes X (m_attestation (hd (t_members task)))";
      cases "parse_members X (tl (t_members task))")
    (auto simp: content_hash_for_def content_of_def member_hashes_parse content_preimage_def)

context externs_laws
begin

lemma pair_preimage_inject:
  "length (fst p) < 2 ^ 64 \<Longrightarrow> length (snd p) < 2 ^ 64 \<Longrightarrow> length (fst q) < 2 ^ 64 \<Longrightarrow>
   length (snd q) < 2 ^ 64 \<Longrightarrow> pair_preimage X p = pair_preimage X q \<Longrightarrow> p = q"
  using abi_inject [of "[AbiBytes (fst p), AbiBytes (snd p)]" "[AbiBytes (fst q), AbiBytes (snd q)]"]
  by (simp add: pair_preimage_def prod_eq_iff)

lemma pair_hashes_inject:
  assumes "map (\<lambda>p. keccak256 X (pair_preimage X p)) ps = map (\<lambda>p. keccak256 X (pair_preimage X p)) qs"
    and "inj_on (keccak256 X) (pair_preimage X ` set ps \<union> pair_preimage X ` set qs)"
    and "list_all (\<lambda>p. length (fst p) < 2 ^ 64 \<and> length (snd p) < 2 ^ 64) (ps @ qs)"
  shows "ps = qs"
proof -
  have "inj_on (\<lambda>p. keccak256 X (pair_preimage X p)) (set ps \<union> set qs)"
  proof (rule inj_onI)
    fix p q assume pq: "p \<in> set ps \<union> set qs" "q \<in> set ps \<union> set qs"
      "keccak256 X (pair_preimage X p) = keccak256 X (pair_preimage X q)"
    then have "pair_preimage X p = pair_preimage X q"
      using inj_onD [OF assms(2) pq(3)] by blast
    then show "p = q"
      using assms(3) pq by (intro pair_preimage_inject) (auto simp: list_all_iff)
  qed
  then show ?thesis using assms(1) by (meson inj_on_map_eq_map)
qed

lemma content_hash_commits:
  assumes "content_sized c" "content_sized d"
    and "inj_on (keccak256 X) (content_preimages X c \<union> content_preimages X d)"
    and "keccak256 X (content_preimage X c) = keccak256 X (content_preimage X d)"
  shows "c = d"
proof -
  obtain rp md g ps where c: "c = (rp, md, g, ps)" by (cases c)
  obtain rp' md' g' qs where d: "d = (rp', md', g', qs)" by (cases d)
  have "content_preimage X c = content_preimage X d"
    using inj_onD [OF assms(3,4)] by (simp add: content_preimages_def)
  then have "rp = rp'" "md = md'" "g = g'"
    and "map (\<lambda>p. keccak256 X (pair_preimage X p)) ps = map (\<lambda>p. keccak256 X (pair_preimage X p)) qs"
    using assms(1,2)
    unfolding content_preimage_def c d prod.case
    by (subst (asm) abi_inject; simp add: content_sized_def list_all_iff keccak_length)+
  moreover have "inj_on (keccak256 X) (pair_preimage X ` set ps \<union> pair_preimage X ` set qs)"
    by (rule inj_on_subset [OF assms(3)]) (auto simp: content_preimages_def c d)
  ultimately show ?thesis
    using assms(1,2) pair_hashes_inject [of ps qs] by (simp add: c d content_sized_def)
qed

end

end
