(* ===== verification/Utf8.thy ===== *)
theory Utf8
  imports Prelude
begin

text \<open>
  \<^verbatim>\<open>String::from_utf8_lossy\<close> of the Rust standard library, which \<^verbatim>\<open>entry_from_sol\<close> uses to show the
  display hints stored on-chain: maximal valid prefixes are kept, every maximal invalid
  subsequence becomes U+FFFD.
\<close>

definition in_range :: "nat \<Rightarrow> nat \<Rightarrow> nat \<Rightarrow> bool" where
  "in_range lo hi n = (lo \<le> n \<and> n \<le> hi)"

text \<open>The byte at an index, 0 past the end.\<close>

definition safe_get :: "bytes \<Rightarrow> nat \<Rightarrow> nat" where
  "safe_get s i = (if i < length s then unat (s ! i) else 0)"

abbreviation cont :: "bytes \<Rightarrow> nat \<Rightarrow> bool" where
  "cont s i \<equiv> in_range 128 191 (safe_get s i)"

definition utf8_char_width :: "nat \<Rightarrow> nat" where
  "utf8_char_width b =
     (if b < 128 then 1 else if in_range 194 223 b then 2
      else if in_range 224 239 b then 3 else if in_range 240 244 b then 4 else 0)"

definition second_ok :: "nat \<Rightarrow> nat \<Rightarrow> bool" where
  "second_ok b c =
     (if b = 224 then in_range 160 191 c
      else if b = 237 then in_range 128 159 c
      else if b = 240 then in_range 144 191 c
      else if b = 244 then in_range 128 143 c
      else in_range 128 191 c)"

text \<open>One step at a non-empty input: whether a character starts there, and how many bytes the
  character, or the invalid subsequence, has.\<close>

definition utf8_step :: "bytes \<Rightarrow> bool \<times> nat" where
  "utf8_step s =
     (let b = safe_get s 0; w = utf8_char_width b
      in if w = 0 then (False, 1)
         else if w = 1 then (True, 1)
         else if \<not> second_ok b (safe_get s 1) then (False, 1)
         else if w = 2 then (True, 2)
         else if \<not> cont s 2 then (False, 2)
         else if w = 3 then (True, 3)
         else if \<not> cont s 3 then (False, 3)
         else (True, 4))"

lemma utf8_step_pos: "0 < snd (utf8_step s)"
  by (simp add: utf8_step_def Let_def)

definition replacement_character :: bytes where
  "replacement_character = [239, 191, 189]"

function from_utf8_lossy :: "bytes \<Rightarrow> bytes" where
  "from_utf8_lossy s =
     (if s = [] then []
      else (let (ok, n) = utf8_step s
            in (if ok then take n s else replacement_character) @ from_utf8_lossy (drop n s)))"
  by pat_completeness auto
termination
  by (relation "measure length") (use utf8_step_pos in \<open>auto simp: prod_eq_iff\<close>)

function valid_utf8 :: "bytes \<Rightarrow> bool" where
  "valid_utf8 s =
     (if s = [] then True
      else (let (ok, n) = utf8_step s in ok \<and> valid_utf8 (drop n s)))"
  by pat_completeness auto
termination
  by (relation "measure length") (use utf8_step_pos in \<open>auto simp: prod_eq_iff\<close>)

declare from_utf8_lossy.simps [simp del] valid_utf8.simps [simp del]

lemma from_utf8_lossy_Nil [simp]: "from_utf8_lossy [] = []"
  by (simp add: from_utf8_lossy.simps [of "[]"])

lemma valid_utf8_Nil [simp]: "valid_utf8 []"
  by (simp add: valid_utf8.simps [of "[]"])

lemma from_utf8_lossy_valid: "valid_utf8 s \<Longrightarrow> from_utf8_lossy s = s"
proof (induction s rule: from_utf8_lossy.induct)
  case (1 s)
  show ?case
  proof (cases "s = []")
    case False
    obtain ok n where step: "utf8_step s = (ok, n)" by fastforce
    have valid: "ok" "valid_utf8 (drop n s)"
      using "1.prems" False step by (simp_all add: valid_utf8.simps [of s])
    have "from_utf8_lossy s = take n s @ from_utf8_lossy (drop n s)"
      using False step valid by (simp add: from_utf8_lossy.simps [of s])
    then show ?thesis using "1.IH" [OF False step [symmetric]] valid step by simp
  qed simp
qed

text \<open>A character does not depend on what follows it.\<close>

lemma safe_get_append: "i < length s \<Longrightarrow> safe_get (s @ t) i = safe_get s i"
  by (simp add: safe_get_def nth_append)

lemma safe_get_in: "lo \<le> safe_get s i \<Longrightarrow> 0 < lo \<Longrightarrow> i < length s"
  by (simp add: safe_get_def split: if_splits)

lemma cont_in: "cont s i \<Longrightarrow> i < length s"
  by (auto simp: in_range_def intro: safe_get_in)

lemma second_ok_in: "second_ok b (safe_get s i) \<Longrightarrow> i < length s"
  by (rule safe_get_in [of 128]) (auto simp: second_ok_def in_range_def split: if_splits)

lemma utf8_step_True_length:
  assumes "s \<noteq> []" "utf8_step s = (True, n)"
  shows "n \<le> length s"
proof -
  have "1 \<le> length s" using assms(1) by (cases s) auto
  moreover have "second_ok (safe_get s 0) (safe_get s 1) \<Longrightarrow> 2 \<le> length s"
    using second_ok_in [of _ s 1] by fastforce
  moreover have "cont s 2 \<Longrightarrow> 3 \<le> length s" "cont s 3 \<Longrightarrow> 4 \<le> length s"
    using cont_in [of s 2] cont_in [of s 3] by linarith+
  ultimately show ?thesis
    using assms(2) unfolding utf8_step_def Let_def by (metis prod.inject)
qed

lemma utf8_step_append:
  assumes "s \<noteq> []" "utf8_step s = (True, n)"
  shows "utf8_step (s @ t) = (True, n)"
proof -
  have "length s \<ge> n" using utf8_step_True_length assms by blast
  then show ?thesis
    using assms
    by (auto simp: utf8_step_def Let_def safe_get_append split: if_splits)
qed

lemma valid_utf8_append: "valid_utf8 s \<Longrightarrow> valid_utf8 t \<Longrightarrow> valid_utf8 (s @ t)"
proof (induction s rule: from_utf8_lossy.induct)
  case (1 s)
  show ?case
  proof (cases "s = []")
    case False
    obtain ok n where step: "utf8_step s = (ok, n)" by fastforce
    have valid: "ok" "valid_utf8 (drop n s)"
      using "1.prems" False step by (simp_all add: valid_utf8.simps [of s])
    have "utf8_step (s @ t) = (True, n)"
      using utf8_step_append False step valid by simp
    moreover have "n \<le> length s" using utf8_step_True_length False step valid by simp
    ultimately show ?thesis
      using "1.IH" [OF False step [symmetric]] valid step "1.prems"(2) False
      by (simp add: valid_utf8.simps [of "s @ t"])
  qed (use "1.prems" in simp)
qed

lemma valid_utf8_replacement: "valid_utf8 replacement_character"
  by (simp add: replacement_character_def valid_utf8.simps [of "[_, _, _]"] utf8_step_def safe_get_def
      utf8_char_width_def second_ok_def in_range_def)

lemma valid_utf8_take_step:
  assumes "s \<noteq> []" "utf8_step s = (True, n)"
  shows "valid_utf8 (take n s)"
proof -
  have len: "n \<le> length s" "0 < n"
    using utf8_step_True_length assms utf8_step_pos [of s] by auto
  have get: "i < n \<Longrightarrow> safe_get (take n s) i = safe_get s i" for i
    using len by (simp add: safe_get_def)
  have "utf8_step (take n s) = (True, n)"
    using assms(2) get len by (auto simp: utf8_step_def Let_def split: if_splits)
  then show ?thesis
    using len by (simp add: valid_utf8.simps [of "take n s"])
qed

lemma valid_from_utf8_lossy: "valid_utf8 (from_utf8_lossy s)"
proof (induction s rule: from_utf8_lossy.induct)
  case (1 s)
  show ?case
  proof (cases "s = []")
    case False
    obtain ok n where step: "utf8_step s = (ok, n)" by fastforce
    have "valid_utf8 (if ok then take n s else replacement_character)"
      using valid_utf8_take_step False step valid_utf8_replacement by auto
    then show ?thesis
      using "1.IH" [OF False step [symmetric]] False step
      by (simp add: from_utf8_lossy.simps [of s] valid_utf8_append)
  qed simp
qed

end
