(* ===== verification/Wire.thy ===== *)
theory Wire
  imports Protocol Utf8
begin

text \<open>
  The read half of \<^verbatim>\<open>p256-registrar/src/protocol.rs\<close> (view calldata and response decoders) and the
  records of \<^verbatim>\<open>lookup.rs\<close> the decoders produce.
\<close>

record entry_record =
  e_entry_id :: u64
  e_public_key :: string
  e_attestation :: string
  e_credential_id :: string
  e_authenticator_attachment :: string
  e_transports :: string
  e_created_at :: u64

record unit_record =
  u_unit_id :: u64
  u_rp_id :: string
  u_metadata :: string
  u_group_public_key :: string
  u_content_hash :: string
  u_member_count :: u32
  u_created_at :: u64

record reference_record =
  rf_reference_id :: u64
  rf_entry_id :: u64
  rf_unit_id :: u64
  rf_metadata :: string
  rf_created_at :: u64

section \<open>Read calldata\<close>

definition total_entries_calldata :: "externs \<Rightarrow> bytes" where
  "total_entries_calldata X = abi_encode_call X getTotalEntriesCall"

definition total_units_calldata :: "externs \<Rightarrow> bytes" where
  "total_units_calldata X = abi_encode_call X getTotalUnitsCall"

definition total_references_calldata :: "externs \<Rightarrow> bytes" where
  "total_references_calldata X = abi_encode_call X getTotalReferencesCall"

definition total_rp_ids_calldata :: "externs \<Rightarrow> bytes" where
  "total_rp_ids_calldata X = abi_encode_call X getTotalRpIdsCall"

definition get_entry_calldata :: "externs \<Rightarrow> u64 \<Rightarrow> bytes" where
  "get_entry_calldata X entry_id = abi_encode_call X (getEntryCall (ucast entry_id))"

definition get_entry_by_key_calldata :: "externs \<Rightarrow> bytes \<Rightarrow> bytes" where
  "get_entry_by_key_calldata X public_key = abi_encode_call X (getEntryByKeyCall public_key)"

definition has_entry_calldata :: "externs \<Rightarrow> bytes \<Rightarrow> bytes" where
  "has_entry_calldata X public_key = abi_encode_call X (hasEntryCall public_key)"

definition groups_of_key_calldata :: "externs \<Rightarrow> bytes \<Rightarrow> u64 \<Rightarrow> u64 \<Rightarrow> bool \<Rightarrow> bytes" where
  "groups_of_key_calldata X public_key offset limit desc =
     abi_encode_call X (getGroupsOfKeyCall public_key (ucast offset) (ucast limit) desc)"

definition references_of_key_calldata :: "externs \<Rightarrow> bytes \<Rightarrow> u64 \<Rightarrow> u64 \<Rightarrow> bool \<Rightarrow> bytes" where
  "references_of_key_calldata X public_key offset limit desc =
     abi_encode_call X (getReferencesOfKeyCall public_key (ucast offset) (ucast limit) desc)"

definition references_to_group_calldata :: "externs \<Rightarrow> bytes \<Rightarrow> u64 \<Rightarrow> u64 \<Rightarrow> bool \<Rightarrow> bytes" where
  "references_to_group_calldata X group_public_key offset limit desc =
     abi_encode_call X (getReferencesToGroupCall group_public_key (ucast offset) (ucast limit) desc)"

definition get_unit_by_group_key_calldata :: "externs \<Rightarrow> bytes \<Rightarrow> bytes" where
  "get_unit_by_group_key_calldata X public_key =
     abi_encode_call X (getUnitByGroupKeyCall public_key)"

definition get_unit_calldata :: "externs \<Rightarrow> u64 \<Rightarrow> bytes" where
  "get_unit_calldata X unit_id = abi_encode_call X (getUnitCall (ucast unit_id))"

definition get_reference_calldata :: "externs \<Rightarrow> u64 \<Rightarrow> bytes" where
  "get_reference_calldata X reference_id = abi_encode_call X (getReferenceCall (ucast reference_id))"

definition get_group_members_calldata :: "externs \<Rightarrow> u64 \<Rightarrow> u64 \<Rightarrow> u64 \<Rightarrow> bool \<Rightarrow> bytes" where
  "get_group_members_calldata X unit_id offset limit desc =
     abi_encode_call X (getGroupMembersCall (ucast unit_id) (ucast offset) (ucast limit) desc)"

definition groups_by_rp_id_calldata :: "externs \<Rightarrow> string \<Rightarrow> u64 \<Rightarrow> u64 \<Rightarrow> bool \<Rightarrow> bytes" where
  "groups_by_rp_id_calldata X rp_id offset limit desc =
     abi_encode_call X (getGroupsByRpIdCall rp_id (ucast offset) (ucast limit) desc)"

definition rp_ids_calldata :: "externs \<Rightarrow> u64 \<Rightarrow> u64 \<Rightarrow> bool \<Rightarrow> bytes" where
  "rp_ids_calldata X offset limit desc =
     abi_encode_call X (getRpIdsCall (ucast offset) (ucast limit) desc)"

definition is_content_registered_calldata :: "externs \<Rightarrow> bytes \<Rightarrow> bytes" where
  "is_content_registered_calldata X content_hash =
     abi_encode_call X (isContentRegisteredCall content_hash)"

definition is_referenced_calldata :: "externs \<Rightarrow> bytes \<Rightarrow> bytes \<Rightarrow> bytes" where
  "is_referenced_calldata X group_public_key member_public_key =
     abi_encode_call X (isReferencedCall group_public_key member_public_key)"

section \<open>Response decoders\<close>

text \<open>\<^verbatim>\<open>u64::try_from(U256)\<close>, and the seconds-to-milliseconds conversion of the timestamps.\<close>

definition u64_try_from :: "u256 \<Rightarrow> u64 option" where
  "u64_try_from v = try_narrow v"

definition created_at_millis :: "u256 \<Rightarrow> u64" where
  "created_at_millis v = saturating_mul (unwrap_or (- 1) (u64_try_from v)) 1000"

definition entry_from_sol :: "externs \<Rightarrow> u64 \<Rightarrow> entry_sol \<Rightarrow> entry_record" where
  "entry_from_sol X entry_id value =
     \<lparr>e_entry_id = entry_id,
      e_public_key = hex_encode X (es_publicKey value),
      e_attestation = hex_encode X (es_attestation value),
      e_credential_id = hex_encode X (es_credentialId value),
      e_authenticator_attachment = from_bytes (from_utf8_lossy (es_authenticatorAttachment value)),
      e_transports = from_bytes (from_utf8_lossy (es_transports value)),
      e_created_at = created_at_millis (es_createdAt value)\<rparr>"

definition unit_from_sol :: "externs \<Rightarrow> u64 \<Rightarrow> unit_sol \<Rightarrow> unit_record" where
  "unit_from_sol X unit_id value =
     \<lparr>u_unit_id = unit_id,
      u_rp_id = us_rpId value,
      u_metadata = hex_encode X (us_metadata value),
      u_group_public_key = hex_encode X (us_groupPublicKey value),
      u_content_hash = fmt_b256 X (us_contentHash value),
      u_member_count = us_memberCount value,
      u_created_at = created_at_millis (us_createdAt value)\<rparr>"

definition decode_entry :: "externs \<Rightarrow> u64 \<Rightarrow> bytes \<Rightarrow> entry_record result" where
  "decode_entry X entry_id b =
     bind_res (ok_or ''invalid getEntry response'' (dec_entry X b))
       (\<lambda>value. Inr (entry_from_sol X entry_id value))"

definition decode_entry_by_key :: "externs \<Rightarrow> bytes \<Rightarrow> entry_record option result" where
  "decode_entry_by_key X b =
     bind_res (ok_or ''invalid getEntryByKey response'' (dec_entry_by_key X b)) (\<lambda>(exists, eid, value).
       if \<not> exists then Inr None
       else bind_res (ok_or ''entry id exceeds u64'' (u64_try_from eid))
              (\<lambda>entry_id. Inr (Some (entry_from_sol X entry_id value))))"

definition decode_unit_by_group_key :: "externs \<Rightarrow> bytes \<Rightarrow> unit_record option result" where
  "decode_unit_by_group_key X b =
     bind_res (ok_or ''invalid getUnitByGroupKey response'' (dec_unit_by_group_key X b))
       (\<lambda>(exists, uid, value).
          if \<not> exists then Inr None
          else bind_res (ok_or ''unit id exceeds u64'' (u64_try_from uid))
                 (\<lambda>unit_id. Inr (Some (unit_from_sol X unit_id value))))"

definition decode_unit :: "externs \<Rightarrow> u64 \<Rightarrow> bytes \<Rightarrow> unit_record result" where
  "decode_unit X unit_id b =
     bind_res (ok_or ''invalid getUnit response'' (dec_unit X b))
       (\<lambda>value. Inr (unit_from_sol X unit_id value))"

definition decode_reference :: "externs \<Rightarrow> u64 \<Rightarrow> bytes \<Rightarrow> reference_record result" where
  "decode_reference X reference_id b =
     bind_res (ok_or ''invalid getReference response'' (dec_reference X b)) (\<lambda>value.
     bind_res (ok_or ''entry id exceeds u64'' (u64_try_from (rs_entryId value))) (\<lambda>entry_id.
     bind_res (ok_or ''unit id exceeds u64'' (u64_try_from (rs_unitId value))) (\<lambda>unit_id.
       Inr \<lparr>rf_reference_id = reference_id, rf_entry_id = entry_id, rf_unit_id = unit_id,
            rf_metadata = hex_encode X (rs_metadata value),
            rf_created_at = created_at_millis (rs_createdAt value)\<rparr>)))"

text \<open>\<^verbatim>\<open>collect::<Result<Vec<_>>>()\<close> over the narrowed ids.\<close>

fun narrow_all :: "string \<Rightarrow> u256 list \<Rightarrow> u64 list result" where
  "narrow_all message [] = Inr []"
| "narrow_all message (v # vs) =
     bind_res (ok_or message (u64_try_from v))
       (\<lambda>x. bind_res (narrow_all message vs) (\<lambda>xs. Inr (x # xs)))"

definition decode_id_page :: "externs \<Rightarrow> bytes \<Rightarrow> (u64 \<times> u64 list) result" where
  "decode_id_page X b =
     bind_res (ok_or ''invalid id-page response'' (dec_id_page X b)) (\<lambda>(total, unit_ids).
     bind_res (narrow_all ''id exceeds u64'' unit_ids) (\<lambda>ids.
     bind_res (ok_or ''total exceeds u64'' (u64_try_from total)) (\<lambda>n. Inr (n, ids))))"

fun entries_of :: "externs \<Rightarrow> (u256 \<times> entry_sol) list \<Rightarrow> entry_record list result" where
  "entries_of X [] = Inr []"
| "entries_of X ((eid, value) # rest) =
     bind_res (ok_or ''entry id exceeds u64'' (u64_try_from eid))
       (\<lambda>entry_id. bind_res (entries_of X rest) (\<lambda>es. Inr (entry_from_sol X entry_id value # es)))"

definition decode_group_members :: "externs \<Rightarrow> bytes \<Rightarrow> (u64 \<times> entry_record list) result" where
  "decode_group_members X b =
     bind_res (ok_or ''invalid getGroupMembers response'' (dec_group_members X b))
       (\<lambda>(total, entry_ids, entries).
          bind_res (entries_of X (zip entry_ids entries)) (\<lambda>es.
          bind_res (ok_or ''total exceeds u64'' (u64_try_from total)) (\<lambda>n. Inr (n, es))))"

definition decode_has_entry :: "externs \<Rightarrow> bytes \<Rightarrow> bool result" where
  "decode_has_entry X b = ok_or ''invalid hasEntry response'' (dec_bool X b)"

definition decode_bool :: "externs \<Rightarrow> bytes \<Rightarrow> bool result" where
  "decode_bool X b = ok_or ''invalid bool response'' (dec_bool X b)"

definition decode_total :: "externs \<Rightarrow> bytes \<Rightarrow> u64 result" where
  "decode_total X b =
     bind_res (ok_or ''invalid total response'' (dec_u256 X b))
       (\<lambda>value. ok_or ''total exceeds u64'' (u64_try_from value))"

fun sites_of :: "((string \<times> u256) \<times> u256) list \<Rightarrow> (string \<times> u64 \<times> u64) list result" where
  "sites_of [] = Inr []"
| "sites_of (((rp_id, cnt), created_at) # rest) =
     bind_res (ok_or ''count exceeds u64'' (u64_try_from cnt)) (\<lambda>n.
     bind_res (ok_or ''timestamp exceeds u64'' (u64_try_from created_at)) (\<lambda>c.
     bind_res (sites_of rest) (\<lambda>ss. Inr ((rp_id, n, saturating_mul c 1000) # ss))))"

definition decode_rp_ids :: "externs \<Rightarrow> bytes \<Rightarrow> (u64 \<times> (string \<times> u64 \<times> u64) list) result" where
  "decode_rp_ids X b =
     bind_res (ok_or ''invalid getRpIds response'' (dec_rp_ids X b))
       (\<lambda>(total, rp_ids, counts, created_ats).
          bind_res (sites_of (zip (zip rp_ids counts) created_ats)) (\<lambda>sites.
          bind_res (ok_or ''total exceeds u64'' (u64_try_from total)) (\<lambda>n. Inr (n, sites))))"

end
