(* ===== verification/Gas.thy ===== *)
theory Gas
  imports Prelude
begin

text \<open>
  \<^verbatim>\<open>p256-registrar/src/gas.rs\<close>: the price of a fresh transaction and of a same-nonce replacement,
  in 256-bit saturating arithmetic as the code computes it.
\<close>

definition DEFAULT_MAX_FEE_WEI :: u128 where "DEFAULT_MAX_FEE_WEI = 10000000"
definition DEFAULT_TIP_WEI :: u128 where "DEFAULT_TIP_WEI = 1000"
definition BASE_FEE_HEADROOM_NUM :: u64 where "BASE_FEE_HEADROOM_NUM = 200"
definition BASE_FEE_HEADROOM_DEN :: u64 where "BASE_FEE_HEADROOM_DEN = 100"
definition REPLACEMENT_NUM :: u64 where "REPLACEMENT_NUM = 150"
definition REPLACEMENT_DEN :: u64 where "REPLACEMENT_DEN = 100"
definition MIN_REPLACEMENT_NUM :: u64 where "MIN_REPLACEMENT_NUM = 110"
definition MIN_REPLACEMENT_DEN :: u64 where "MIN_REPLACEMENT_DEN = 100"
definition MAX_GAS_LIMIT :: u64 where "MAX_GAS_LIMIT = 12000000"

lemmas gas_consts = BASE_FEE_HEADROOM_NUM_def BASE_FEE_HEADROOM_DEN_def REPLACEMENT_NUM_def
  REPLACEMENT_DEN_def MIN_REPLACEMENT_NUM_def MIN_REPLACEMENT_DEN_def

record fee_plan =
  max_fee_per_gas :: u256
  max_priority_fee_per_gas :: u256

datatype fee_verdict = Send fee_plan | TooExpensive u256 u256

definition fee_verdict_plan :: "fee_verdict \<Rightarrow> fee_plan option" where
  "fee_verdict_plan v = (case v of Send plan \<Rightarrow> Some plan | TooExpensive _ _ \<Rightarrow> None)"

definition is_too_expensive :: "fee_verdict \<Rightarrow> bool" where
  "is_too_expensive v = (case v of Send _ \<Rightarrow> False | TooExpensive _ _ \<Rightarrow> True)"

text \<open>\<^verbatim>\<open>base_fee * headroom + tip\<close>, the comfortable ceiling of both planners.\<close>

definition headroom_price :: "u256 \<Rightarrow> u256 \<Rightarrow> u256" where
  "headroom_price base_fee tip =
     saturating_add (saturating_mul base_fee (ucast BASE_FEE_HEADROOM_NUM) div ucast BASE_FEE_HEADROOM_DEN) tip"

definition plan_fees :: "u256 \<Rightarrow> u256 \<Rightarrow> u256 \<Rightarrow> fee_verdict" where
  "plan_fees base_fee tip cap =
     (let minimum = saturating_add base_fee tip
      in if minimum > cap then TooExpensive minimum cap
         else (let max_fee = min (headroom_price base_fee tip) cap
               in Send \<lparr>max_fee_per_gas = max_fee, max_priority_fee_per_gas = min tip max_fee\<rparr>))"

definition strictly_above :: "u256 \<Rightarrow> u64 \<Rightarrow> u64 \<Rightarrow> u256" where
  "strictly_above v num den =
     (if v = 0 then 0
      else (let d = ucast den :: u256; scaled = saturating_mul v (ucast num);
                ceiling = saturating_add scaled (saturating_sub d 1) div d
            in max ceiling (saturating_add v 1)))"

primrec escalate_steps :: "nat \<Rightarrow> u256 \<Rightarrow> u256" where
  "escalate_steps 0 v = v"
| "escalate_steps (Suc n) v = escalate_steps n (strictly_above v REPLACEMENT_NUM REPLACEMENT_DEN)"

definition escalate :: "u256 \<Rightarrow> u32 \<Rightarrow> u256" where
  "escalate v attempts = escalate_steps (unat (min attempts 16)) v"

text \<open>\<^verbatim>\<open>previous.unwrap_or_else(...)\<close>: the bid to beat, assumed when it was not recorded.\<close>

definition previous_bid :: "fee_plan option \<Rightarrow> u256 \<Rightarrow> u256 \<Rightarrow> u32 \<Rightarrow> fee_plan" where
  "previous_bid previous base_fee tip attempts =
     (case previous of
        Some plan \<Rightarrow> plan
      | None \<Rightarrow>
          (let assumed_tip = escalate (saturating_add base_fee 1) attempts
           in \<lparr>max_fee_per_gas = max (escalate (headroom_price base_fee tip) attempts) assumed_tip,
               max_priority_fee_per_gas = assumed_tip\<rparr>))"

definition plan_replacement ::
  "fee_plan option \<Rightarrow> u256 \<Rightarrow> u256 \<Rightarrow> u256 \<Rightarrow> u32 \<Rightarrow> fee_verdict" where
  "plan_replacement previous base_fee tip cap attempts =
     (let market_ceiling = headroom_price base_fee tip;
          prev = previous_bid previous base_fee tip attempts;
          fee_floor = strictly_above (max_fee_per_gas prev) MIN_REPLACEMENT_NUM MIN_REPLACEMENT_DEN;
          tip_floor = strictly_above (max_priority_fee_per_gas prev) MIN_REPLACEMENT_NUM MIN_REPLACEMENT_DEN;
          required = max (max fee_floor tip_floor) (saturating_add base_fee tip_floor)
      in if required > cap then TooExpensive required cap
         else
           (let new_tip =
                  min (max (max (max (strictly_above (max_priority_fee_per_gas prev) REPLACEMENT_NUM REPLACEMENT_DEN)
                                     tip_floor) tip) 1) cap;
                new_max_fee =
                  min (max (max (max (strictly_above (max_fee_per_gas prev) REPLACEMENT_NUM REPLACEMENT_DEN)
                                     fee_floor) market_ceiling) new_tip) cap
            in Send \<lparr>max_fee_per_gas = new_max_fee,
                     max_priority_fee_per_gas = min new_tip new_max_fee\<rparr>))"

definition gas_limit_within_bounds :: "u64 \<Rightarrow> bool" where
  "gas_limit_within_bounds gas_limit = (gas_limit \<le> MAX_GAS_LIMIT)"

definition required_balance :: "u64 \<Rightarrow> u256 \<Rightarrow> u256" where
  "required_balance gas_limit max_fee = saturating_mul (ucast gas_limit) max_fee"

definition too_expensive_reason :: "u256 \<Rightarrow> u256 \<Rightarrow> string" where
  "too_expensive_reason required cap =
     ''gas price '' @ decimal (unat required) @ '' wei exceeds the configured cap of ''
     @ decimal (unat cap) @ '' wei; batch requeued''"

section \<open>Arithmetic\<close>

lemma unat_headroom_price:
  assumes "unat base_fee < 2 ^ 128" "unat tip < 2 ^ 128"
  shows "unat (headroom_price base_fee tip) = 2 * unat base_fee + unat tip"
  using assms
  by (simp add: headroom_price_def gas_consts sat_simps unat_div)

text \<open>\<open>bumped n d v\<close>: the least integer that is at least n/d of v and above v, 0 at 0.\<close>

definition bumped :: "nat \<Rightarrow> nat \<Rightarrow> nat \<Rightarrow> nat" where
  "bumped n d v = (if v = 0 then 0 else max ((v * n + (d - 1)) div d) (v + 1))"

lemma unat_ucast_64_256: "unat (ucast (x :: u64) :: u256) = unat x"
  using unsigned_less [of x, where ?'a = nat]
  by (simp add: unsigned_ucast_eq take_bit_nat_eq_self)

lemma unat_strictly_above:
  assumes "unat v < 2 ^ 160" "unat num < 2 ^ 32" "0 < unat den"
  shows "unat (strictly_above v num den) = bumped (unat num) (unat den) (unat v)"
proof (cases "v = 0")
  case False
  have "unat v * unat num < 2 ^ 160 * 2 ^ 32"
    using assms by (intro mult_strict_mono') simp_all
  moreover have "unat den < 2 ^ 64" using unsigned_less [of den, where ?'a = nat] by simp
  ultimately have "unat v * unat num + (unat den - 1) < 2 ^ 256 - 1" by simp
  then show ?thesis
    using False assms
    by (simp add: strictly_above_def bumped_def sat_simps unat_div Let_def unat_ucast_64_256
        unat_eq_zero)
qed (simp add: strictly_above_def bumped_def)

lemma bumped_mono_ratio: "0 < v \<Longrightarrow> 0 < d \<Longrightarrow> v * n \<le> bumped n d v * d"
proof -
  assume "0 < v" "0 < d"
  have "v * n \<le> (v * n + (d - 1)) div d * d"
    using \<open>0 < d\<close> div_mult_mod_eq [of "v * n + (d - 1)" d] mod_less_divisor [of d "v * n + (d - 1)"]
    by linarith
  also have "\<dots> \<le> bumped n d v * d" using \<open>0 < v\<close> by (simp add: bumped_def)
  finally show ?thesis .
qed

lemma bumped_greater: "0 < v \<Longrightarrow> v < bumped n d v"
  by (simp add: bumped_def)

lemma strictly_above_zero [simp]: "strictly_above 0 num den = 0"
  by (simp add: strictly_above_def)

lemma saturating_add_ge: "a \<le> saturating_add (a :: u256) b"
  using unsigned_less [of a, where ?'a = nat] by (simp add: word_le_nat_alt sat_simps)

lemma strictly_above_ge: "v \<le> strictly_above v num den"
  using saturating_add_ge [of v 1] by (simp add: strictly_above_def Let_def le_max_iff_disj)

text \<open>A bump below \<^term>\<open>2 ^ 128 :: nat\<close> was computed without saturation.\<close>

lemma strictly_above_small:
  assumes "unat (strictly_above v num den) < 2 ^ 128" "unat num < 2 ^ 32" "0 < unat den"
  shows "unat (strictly_above v num den) = bumped (unat num) (unat den) (unat v)"
proof -
  have "unat v \<le> unat (strictly_above v num den)"
    using strictly_above_ge [of v num den] by (simp add: word_le_nat_alt)
  then show ?thesis using assms by (intro unat_strictly_above) simp_all
qed

lemma escalate_steps_ge: "v \<le> escalate_steps n v"
  by (induction n arbitrary: v) (auto intro: order_trans [OF strictly_above_ge])

lemma escalate_ge: "v \<le> escalate v attempts"
  by (simp add: escalate_def escalate_steps_ge)

section \<open>The planners\<close>

lemma plan_fees_small:
  assumes "unat cap < 2 ^ 128"
  shows "plan_fees base_fee tip cap =
    (if unat base_fee + unat tip \<le> unat cap
     then Send \<lparr>max_fee_per_gas = of_nat (min (2 * unat base_fee + unat tip) (unat cap)),
                max_priority_fee_per_gas = tip\<rparr>
     else TooExpensive (saturating_add base_fee tip) cap)"
proof (cases "unat base_fee + unat tip \<le> unat cap")
  case True
  have price: "unat (headroom_price base_fee tip) = 2 * unat base_fee + unat tip"
    using True assms by (intro unat_headroom_price) linarith+
  have fee: "min (headroom_price base_fee tip) cap
      = of_nat (min (2 * unat base_fee + unat tip) (unat cap))"
  proof -
    have "min (2 * unat base_fee + unat tip) (unat cap) < 2 ^ 256" using assms by simp
    then show ?thesis
      using price by (simp add: word_unat_eq_iff sat_simps unsigned_of_nat take_bit_nat_eq_self)
  qed
  have "min tip (min (headroom_price base_fee tip) cap) = tip"
    using True price by (simp add: word_unat_eq_iff sat_simps)
  moreover have "\<not> saturating_add base_fee tip > cap"
    using True assms by (simp add: word_less_nat_alt sat_simps)
  ultimately show ?thesis using True fee by (simp add: plan_fees_def Let_def)
next
  case False
  then have "saturating_add base_fee tip > cap"
    using assms by (simp add: word_less_nat_alt sat_simps)
  then show ?thesis using False by (simp add: plan_fees_def)
qed

text \<open>Every fee of a replacement clears its floor, and all of them fit under the cap.\<close>

definition bid_floor :: "u256 \<Rightarrow> u256" where
  "bid_floor v = strictly_above v MIN_REPLACEMENT_NUM MIN_REPLACEMENT_DEN"

lemma plan_replacement_Send:
  assumes "plan_replacement previous base_fee tip cap attempts = Send plan" "1 \<le> cap"
  defines "prev \<equiv> previous_bid previous base_fee tip attempts"
  shows "bid_floor (max_fee_per_gas prev) \<le> max_fee_per_gas plan"
    and "bid_floor (max_priority_fee_per_gas prev) \<le> max_priority_fee_per_gas plan"
    and "1 \<le> max_priority_fee_per_gas plan"
    and "max_priority_fee_per_gas plan \<le> max_fee_per_gas plan"
    and "max_fee_per_gas plan \<le> cap"
    and "min (headroom_price base_fee tip) cap \<le> max_fee_per_gas plan"
    and "saturating_add base_fee (bid_floor (max_priority_fee_per_gas prev)) \<le> cap"
proof -
  define ff where "ff = bid_floor (max_fee_per_gas prev)"
  define tf where "tf = bid_floor (max_priority_fee_per_gas prev)"
  define mc where "mc = headroom_price base_fee tip"
  define a where "a = strictly_above (max_priority_fee_per_gas prev) REPLACEMENT_NUM REPLACEMENT_DEN"
  define b where "b = strictly_above (max_fee_per_gas prev) REPLACEMENT_NUM REPLACEMENT_DEN"
  define nt where "nt = min (max (max (max a tf) tip) 1) cap"
  define nm where "nm = min (max (max (max b ff) mc) nt) cap"
  have verdict: "plan_replacement previous base_fee tip cap attempts =
      (if max (max ff tf) (saturating_add base_fee tf) > cap
       then TooExpensive (max (max ff tf) (saturating_add base_fee tf)) cap
       else Send \<lparr>max_fee_per_gas = nm, max_priority_fee_per_gas = min nt nm\<rparr>)"
    unfolding plan_replacement_def Let_def nm_def nt_def a_def b_def mc_def ff_def tf_def
      bid_floor_def prev_def ..
  have small: "ff \<le> cap" "tf \<le> cap" "saturating_add base_fee tf \<le> cap"
    and plan: "plan = \<lparr>max_fee_per_gas = nm, max_priority_fee_per_gas = min nt nm\<rparr>"
    using assms(1) unfolding verdict by (auto simp: not_less split: if_splits)
  have nt: "tf \<le> nt" "1 \<le> nt" "nt \<le> cap"
    using small assms(2) by (simp_all add: nt_def le_max_iff_disj)
  have nm: "ff \<le> nm" "nt \<le> nm" "nm \<le> cap" "min mc cap \<le> nm"
    using small nt by (simp_all add: nm_def le_max_iff_disj)
  have tip: "max_priority_fee_per_gas plan = nt" using nm(2) by (simp add: plan min_def)
  have fee: "max_fee_per_gas plan = nm" by (simp add: plan)
  show "bid_floor (max_fee_per_gas prev) \<le> max_fee_per_gas plan" using nm fee ff_def by simp
  show "bid_floor (max_priority_fee_per_gas prev) \<le> max_priority_fee_per_gas plan"
    using nt tip tf_def by simp
  show "1 \<le> max_priority_fee_per_gas plan" using nt tip by simp
  show "max_priority_fee_per_gas plan \<le> max_fee_per_gas plan" using nm tip fee by simp
  show "max_fee_per_gas plan \<le> cap" using nm fee by simp
  show "min (headroom_price base_fee tip) cap \<le> max_fee_per_gas plan" using nm fee mc_def by simp
  show "saturating_add base_fee (bid_floor (max_priority_fee_per_gas prev)) \<le> cap"
    using small tf_def by simp
qed

lemma bid_floor_outbids:
  assumes "bid_floor v \<le> w" "unat w < 2 ^ 128" "1 \<le> w"
  shows "v < w" "110 * unat v \<le> 100 * unat w"
proof -
  have "unat (bid_floor v) < 2 ^ 128" using assms by (simp add: word_le_nat_alt)
  then have bump: "bumped 110 100 (unat v) \<le> unat w"
    using strictly_above_small [of v MIN_REPLACEMENT_NUM MIN_REPLACEMENT_DEN] assms(1)
    by (simp add: bid_floor_def gas_consts word_le_nat_alt)
  show "v < w"
    using bump bumped_greater [of "unat v" 110 100] assms(3)
    by (cases "unat v") (simp_all add: word_less_nat_alt word_le_nat_alt)
  show "110 * unat v \<le> 100 * unat w"
    using bump bumped_mono_ratio [of "unat v" 100 110] by (cases "unat v") simp_all
qed

lemma previous_bid_legacy:
  "base_fee \<le> max_priority_fee_per_gas (previous_bid None base_fee tip attempts)"
  "base_fee \<le> max_fee_per_gas (previous_bid None base_fee tip attempts)"
proof -
  have "base_fee \<le> escalate (saturating_add base_fee 1) attempts"
    using saturating_add_ge escalate_ge order_trans by blast
  then show "base_fee \<le> max_priority_fee_per_gas (previous_bid None base_fee tip attempts)"
    "base_fee \<le> max_fee_per_gas (previous_bid None base_fee tip attempts)"
    by (simp_all add: previous_bid_def Let_def le_max_iff_disj)
qed

section \<open>Properties\<close>

text \<open>C27: \<^verbatim>\<open>plan_fees\<close> sends exactly when the minimum includable price, base fee plus tip, fits under
  the cap (a \<^verbatim>\<open>u128\<close> setting), and then it offers the whole tip under a ceiling of twice the base
  fee plus the tip clamped to the cap: the ceiling covers the current base fee and the tip and
  never exceeds the cap.\<close>

theorem plan_fees_correct:
  assumes "unat cap < 2 ^ 128"
  shows "case plan_fees base_fee tip cap of
      Send plan \<Rightarrow>
        unat base_fee + unat tip \<le> unat cap
        \<and> max_priority_fee_per_gas plan = tip
        \<and> unat (max_fee_per_gas plan) = min (2 * unat base_fee + unat tip) (unat cap)
        \<and> unat base_fee + unat tip \<le> unat (max_fee_per_gas plan)
        \<and> max_fee_per_gas plan \<le> cap
    | TooExpensive required c \<Rightarrow> unat cap < unat base_fee + unat tip \<and> cap < required \<and> c = cap"
proof -
  let ?fee = "min (2 * unat base_fee + unat tip) (unat cap)"
  have fee: "unat (of_nat ?fee :: u256) = ?fee"
  proof -
    have "?fee < 2 ^ 256" using assms by simp
    then show ?thesis by (simp add: unsigned_of_nat take_bit_nat_eq_self)
  qed
  show ?thesis
  proof (cases "unat base_fee + unat tip \<le> unat cap")
    case True
    then show ?thesis
      unfolding plan_fees_small [OF assms] if_P [OF True] fee_verdict.case fee_plan.simps
        word_le_nat_alt fee
      by simp
  next
    case False
    then show ?thesis
      using assms by (simp add: plan_fees_small [OF assms] word_less_nat_alt sat_simps)
  qed
qed

theorem plan_fees_correct_witness:
  "plan_fees 9000 1000 10000000 = Send \<lparr>max_fee_per_gas = 19000, max_priority_fee_per_gas = 1000\<rparr>
   \<and> unat (19000 :: u256) = min (2 * unat (9000 :: u256) + unat (1000 :: u256)) (unat (10000000 :: u256))"
  using plan_fees_correct [of "10000000" "9000" "1000"]
  by (simp add: plan_fees_small)

text \<open>C21: A same-nonce replacement that \<^verbatim>\<open>plan_replacement\<close> prices is one a node accepts: under a
  positive \<^verbatim>\<open>u128\<close> cap both fee fields strictly exceed the bid to beat and reach 110% of it, the
  tip never exceeds the ceiling, the ceiling covers the current base fee and never exceeds the
  cap.  The bid to beat is the recorded pair, or for a row without one a pair of at least the
  base fee on both fields.\<close>

theorem plan_replacement_outbids:
  assumes "plan_replacement previous base_fee tip cap attempts = Send plan"
    and "0 < cap" "unat cap < 2 ^ 128" "unat base_fee < 2 ^ 128" "unat tip < 2 ^ 128"
  defines "prev \<equiv> previous_bid previous base_fee tip attempts"
  shows "max_fee_per_gas prev < max_fee_per_gas plan
    \<and> max_priority_fee_per_gas prev < max_priority_fee_per_gas plan
    \<and> 110 * unat (max_fee_per_gas prev) \<le> 100 * unat (max_fee_per_gas plan)
    \<and> 110 * unat (max_priority_fee_per_gas prev) \<le> 100 * unat (max_priority_fee_per_gas plan)
    \<and> max_priority_fee_per_gas plan \<le> max_fee_per_gas plan
    \<and> base_fee \<le> max_fee_per_gas plan \<and> max_fee_per_gas plan \<le> cap
    \<and> (previous = Some q \<longrightarrow> prev = q)
    \<and> (previous = None \<longrightarrow> base_fee \<le> max_fee_per_gas prev \<and> base_fee \<le> max_priority_fee_per_gas prev)"
proof -
  have cap: "1 \<le> cap" using assms(2) by (simp add: word_less_nat_alt word_le_nat_alt)
  note send = plan_replacement_Send [OF assms(1) cap, folded prev_def]
  have fee: "unat (max_fee_per_gas plan) < 2 ^ 128"
    using send(5) assms(3) by (simp add: word_le_nat_alt)
  have tip: "unat (max_priority_fee_per_gas plan) < 2 ^ 128"
    using send(4) fee by (simp add: word_le_nat_alt)
  have "1 \<le> max_fee_per_gas plan" using send(3,4) by simp
  note outbid_fee = bid_floor_outbids [OF send(1) fee this]
  note outbid_tip = bid_floor_outbids [OF send(2) tip send(3)]
  have "base_fee \<le> headroom_price base_fee tip" "base_fee \<le> cap"
    using unat_headroom_price [OF assms(4,5)] order_trans [OF saturating_add_ge send(7)]
    by (simp_all add: word_le_nat_alt)
  then have "base_fee \<le> max_fee_per_gas plan"
    using send(6) by (meson min.boundedI order_trans)
  moreover have "previous = Some q \<longrightarrow> prev = q"
    by (simp add: prev_def previous_bid_def)
  moreover have "previous = None \<longrightarrow>
      base_fee \<le> max_fee_per_gas prev \<and> base_fee \<le> max_priority_fee_per_gas prev"
    unfolding prev_def using previous_bid_legacy by blast
  ultimately show ?thesis
    using outbid_fee outbid_tip send(4,5) by blast
qed

theorem plan_replacement_outbids_witness:
  "\<exists>plan. plan_replacement (Some \<lparr>max_fee_per_gas = 19000, max_priority_fee_per_gas = 1000\<rparr>)
       20000 1000 10000000 1 = Send plan
   \<and> 19000 < max_fee_per_gas plan \<and> 1000 < max_priority_fee_per_gas plan
   \<and> 110 * 19000 \<le> 100 * unat (max_fee_per_gas plan)"
proof -
  let ?q = "\<lparr>max_fee_per_gas = 19000, max_priority_fee_per_gas = 1000\<rparr>"
  have run: "plan_replacement (Some ?q) 20000 1000 10000000 1 =
      Send \<lparr>max_fee_per_gas = 41000, max_priority_fee_per_gas = 1500\<rparr>"
  proof -
    have "strictly_above 19000 MIN_REPLACEMENT_NUM MIN_REPLACEMENT_DEN = 20900"
      "strictly_above 1000 MIN_REPLACEMENT_NUM MIN_REPLACEMENT_DEN = 1100"
      "strictly_above 19000 REPLACEMENT_NUM REPLACEMENT_DEN = 28500"
      "strictly_above 1000 REPLACEMENT_NUM REPLACEMENT_DEN = 1500"
      "headroom_price 20000 1000 = 41000" "saturating_add 20000 1100 = (21100 :: u256)"
      by (simp_all add: strictly_above_def headroom_price_def gas_consts saturating_add_def
          saturating_mul_def saturating_sub_def)
    note prices = this
    show ?thesis
      unfolding plan_replacement_def previous_bid_def option.case fee_plan.simps prices
      by (simp add: Let_def prices)
  qed
  have "max_fee_per_gas ?q < 41000 \<and> max_priority_fee_per_gas ?q < 1500
      \<and> 110 * unat (max_fee_per_gas ?q) \<le> 100 * unat (41000 :: u256)"
    using plan_replacement_outbids [OF run, of ?q] unfolding previous_bid_def option.case fee_plan.simps
    by simp
  then show ?thesis unfolding run by simp
qed

end
