(* ===== verification/Rescue.thy ===== *)
theory Rescue
  imports Prelude
begin

text \<open>
  \<^verbatim>\<open>p256-registrar/src/rescue.rs\<close>: the plan of the unstick sweep over the broadcast ledger.
\<close>

definition STUCK_TX_AGE_MS :: u64 where "STUCK_TX_AGE_MS = 120000"
definition MAX_UNSTICK_PER_CYCLE :: nat where "MAX_UNSTICK_PER_CYCLE = 5"
definition UNSTICK_ALERT_ATTEMPTS :: u32 where "UNSTICK_ALERT_ATTEMPTS = 5"
definition UNSTICK_ALERT_AGE_MS :: u64 where "UNSTICK_ALERT_AGE_MS = 600000"

record ledger_row =
  lr_role :: string
  lr_nonce :: u64
  lr_hash :: string
  lr_sent_at_ms :: u64
  lr_attempts :: u32
  lr_fees_wei :: "(u128 \<times> u128) option"

datatype rescue_action =
    DropConsumedRow u64
  | Escalate string
  | Replace u64 u32 "(u128 \<times> u128) option"

text \<open>The four bytes of the leading symbol, then the text.\<close>

definition stuck_alert :: "string \<Rightarrow> u64 \<Rightarrow> u32 \<Rightarrow> u64 \<Rightarrow> string" where
  "stuck_alert role nonce attempts age_ms =
     [CHR 0xF0, CHR 0x9F, CHR 0x9B, CHR 0x91]
     @ '' [webauthnp256-publickey-index] stuck '' @ role @ '' nonce '' @ decimal (unat nonce)
     @ '' not clearing (attempts '' @ decimal (unat attempts) @ '', stuck ~''
     @ decimal (unat (age_ms div 60000)) @ '' min). Manual intervention may be required.''"

text \<open>The loop body over the remaining rows, with the number of replacements so far.\<close>

fun sweep_rows :: "u64 \<Rightarrow> u64 \<Rightarrow> ledger_row list \<Rightarrow> nat \<Rightarrow> rescue_action list" where
  "sweep_rows confirmed_nonce now_ms [] replaced = []"
| "sweep_rows confirmed_nonce now_ms (row # rows) replaced =
     (if lr_nonce row < confirmed_nonce
      then DropConsumedRow (lr_nonce row) # sweep_rows confirmed_nonce now_ms rows replaced
      else
        (let age_ms = saturating_sub now_ms (lr_sent_at_ms row)
         in (if UNSTICK_ALERT_ATTEMPTS \<le> lr_attempts row \<or> UNSTICK_ALERT_AGE_MS \<le> age_ms
             then [Escalate (stuck_alert (lr_role row) (lr_nonce row) (lr_attempts row) age_ms)]
             else [])
            @ (if MAX_UNSTICK_PER_CYCLE \<le> replaced
               then sweep_rows confirmed_nonce now_ms rows replaced
               else Replace (lr_nonce row) (lr_attempts row + 1) (lr_fees_wei row)
                    # sweep_rows confirmed_nonce now_ms rows (replaced + 1))))"

definition plan_role_sweep :: "string \<Rightarrow> u64 \<Rightarrow> ledger_row list \<Rightarrow> u64 \<Rightarrow> rescue_action list" where
  "plan_role_sweep role confirmed_nonce ledger now_ms =
     sweep_rows confirmed_nonce now_ms
       (sort_key lr_nonce (filter (\<lambda>row. lr_role row = role) ledger)) 0"

section \<open>What a plan does\<close>

fun drops :: "rescue_action list \<Rightarrow> u64 list" where
  "drops [] = []"
| "drops (a # as) = (case a of DropConsumedRow n \<Rightarrow> n # drops as | _ \<Rightarrow> drops as)"

fun replacements :: "rescue_action list \<Rightarrow> (u64 \<times> u32 \<times> (u128 \<times> u128) option) list" where
  "replacements [] = []"
| "replacements (a # as) = (case a of Replace n k f \<Rightarrow> (n, k, f) # replacements as | _ \<Rightarrow> replacements as)"

fun pages :: "rescue_action list \<Rightarrow> string list" where
  "pages [] = []"
| "pages (a # as) = (case a of Escalate m \<Rightarrow> m # pages as | _ \<Rightarrow> pages as)"

definition row_alert :: "u64 \<Rightarrow> ledger_row \<Rightarrow> string" where
  "row_alert now_ms row =
     stuck_alert (lr_role row) (lr_nonce row) (lr_attempts row)
       (saturating_sub now_ms (lr_sent_at_ms row))"

definition overdue :: "u64 \<Rightarrow> ledger_row \<Rightarrow> bool" where
  "overdue now_ms row =
     (UNSTICK_ALERT_ATTEMPTS \<le> lr_attempts row
      \<or> UNSTICK_ALERT_AGE_MS \<le> saturating_sub now_ms (lr_sent_at_ms row))"

lemma drops_append [simp]: "drops (as @ bs) = drops as @ drops bs"
  by (induction as) (auto split: rescue_action.splits)

lemma replacements_append [simp]: "replacements (as @ bs) = replacements as @ replacements bs"
  by (induction as) (auto split: rescue_action.splits)

lemma pages_append [simp]: "pages (as @ bs) = pages as @ pages bs"
  by (induction as) (auto split: rescue_action.splits)

lemma sweep_drops:
  "drops (sweep_rows confirmed now rows k) = map lr_nonce (filter (\<lambda>r. lr_nonce r < confirmed) rows)"
  by (induction rows arbitrary: k) (simp_all add: Let_def)

lemma sweep_pages:
  "pages (sweep_rows confirmed now rows k) =
     map (row_alert now) (filter (\<lambda>r. \<not> lr_nonce r < confirmed \<and> overdue now r) rows)"
  by (induction rows arbitrary: k) (simp_all add: Let_def overdue_def row_alert_def)

lemma sweep_replacements:
  "replacements (sweep_rows confirmed now rows k) =
     map (\<lambda>r. (lr_nonce r, lr_attempts r + 1, lr_fees_wei r))
       (take (MAX_UNSTICK_PER_CYCLE - k) (filter (\<lambda>r. \<not> lr_nonce r < confirmed) rows))"
proof (induction rows arbitrary: k)
  case (Cons r rows)
  show ?case
  proof (cases "MAX_UNSTICK_PER_CYCLE \<le> k")
    case False
    then have "MAX_UNSTICK_PER_CYCLE - k = Suc (MAX_UNSTICK_PER_CYCLE - Suc k)" by simp
    then show ?thesis using Cons False by (simp add: Let_def)
  qed (simp add: Cons Let_def)
qed simp

section \<open>Properties\<close>

text \<open>C29: One sweep of a role drops exactly the ledger rows of that role whose nonce the chain has
  consumed, replaces exactly the five lowest unconsumed nonces of the role, in ascending order,
  each with its own recorded fee pair and one more attempt, and pages for exactly the unconsumed
  rows past the attempt or age threshold, replaced or not.\<close>

theorem plan_role_sweep_correct:
  fixes role confirmed ledger now
  defines "rows \<equiv> sort_key lr_nonce (filter (\<lambda>r. lr_role r = role) ledger)"
  defines "live \<equiv> filter (\<lambda>r. confirmed \<le> lr_nonce r) rows"
  defines "plan \<equiv> plan_role_sweep role confirmed ledger now"
  shows "drops plan = map lr_nonce (filter (\<lambda>r. lr_nonce r < confirmed) rows)
    \<and> replacements plan = map (\<lambda>r. (lr_nonce r, lr_attempts r + 1, lr_fees_wei r)) (take 5 live)
    \<and> pages plan = map (row_alert now) (filter (overdue now) live)
    \<and> sorted (map lr_nonce live)"
proof -
  have "sorted (map lr_nonce rows)" by (simp add: rows_def)
  then have "sorted (map lr_nonce live)" unfolding live_def by (rule sorted_filter)
  then show ?thesis
    by (simp add: plan_def plan_role_sweep_def rows_def [symmetric] sweep_drops sweep_pages
        sweep_replacements live_def MAX_UNSTICK_PER_CYCLE_def not_less conj_commute)
qed

end
