(* ===== verification/Roster.thy ===== *)
theory Roster
  imports Prelude
begin

text \<open>
  \<^verbatim>\<open>p256-registrar/src/roster.rs\<close>: node selection and failure cooldown behind the RPC pool.  A cursor
  is a 64-bit \<^verbatim>\<open>usize\<close> that wraps; the failure table is a map from URL to the time of the
  failure, shared by both lanes.
\<close>

definition RPC_COOLDOWN_MS :: u64 where "RPC_COOLDOWN_MS = 60000"
definition MAX_READ_ATTEMPTS :: nat where "MAX_READ_ATTEMPTS = 3"

datatype lane = Read | Write

record roster =
  ro_reads :: "string list"
  ro_writes :: "string list"
  ro_read_cursor :: u64
  ro_write_cursor :: u64
  ro_failed :: "string \<rightharpoonup> u64"

definition roster_new :: "string list \<Rightarrow> string list \<Rightarrow> roster" where
  "roster_new reads writes =
     \<lparr>ro_reads = reads, ro_writes = writes, ro_read_cursor = 0, ro_write_cursor = 0,
      ro_failed = Map.empty\<rparr>"

definition lane_urls :: "lane \<Rightarrow> roster \<Rightarrow> string list" where
  "lane_urls lane R = (case lane of Read \<Rightarrow> ro_reads R | Write \<Rightarrow> ro_writes R)"

definition lane_cursor :: "lane \<Rightarrow> roster \<Rightarrow> u64" where
  "lane_cursor lane R = (case lane of Read \<Rightarrow> ro_read_cursor R | Write \<Rightarrow> ro_write_cursor R)"

definition advance :: "lane \<Rightarrow> roster \<Rightarrow> u64 \<times> roster" where
  "advance lane R =
     (case lane of
        Read \<Rightarrow> (ro_read_cursor R, R\<lparr>ro_read_cursor := ro_read_cursor R + 1\<rparr>)
      | Write \<Rightarrow> (ro_write_cursor R, R\<lparr>ro_write_cursor := ro_write_cursor R + 1\<rparr>))"

definition available :: "string \<Rightarrow> u64 \<Rightarrow> roster \<Rightarrow> bool \<times> roster" where
  "available url now_ms R =
     (case ro_failed R url of
        Some at \<Rightarrow>
          if saturating_sub now_ms at < RPC_COOLDOWN_MS then (False, R)
          else (True, R\<lparr>ro_failed := (ro_failed R)(url := None)\<rparr>)
      | None \<Rightarrow> (True, R))"

text \<open>\<^verbatim>\<open>for _ in 0..len\<close>, then the forced pick.\<close>

fun select_loop :: "nat \<Rightarrow> lane \<Rightarrow> u64 \<Rightarrow> roster \<Rightarrow> string \<times> roster" where
  "select_loop 0 lane now_ms R =
     (let (cursor, R1) = advance lane R
      in (lane_urls lane R ! (unat cursor mod length (lane_urls lane R)), R1))"
| "select_loop (Suc n) lane now_ms R =
     (let (cursor, R1) = advance lane R;
          url = lane_urls lane R ! (unat cursor mod length (lane_urls lane R));
          (ok, R2) = available url now_ms R1
      in if ok then (url, R2) else select_loop n lane now_ms R2)"

definition select :: "lane \<Rightarrow> u64 \<Rightarrow> roster \<Rightarrow> string option \<times> roster" where
  "select lane now_ms R =
     (let len = length (lane_urls lane R)
      in if len = 0 then (None, R)
         else (let (url, R1) = select_loop len lane now_ms R in (Some url, R1)))"

definition mark_failed :: "string \<Rightarrow> u64 \<Rightarrow> roster \<Rightarrow> roster" where
  "mark_failed url now_ms R = R\<lparr>ro_failed := (ro_failed R)(url \<mapsto> now_ms)\<rparr>"

definition mark_healthy :: "string \<Rightarrow> roster \<Rightarrow> roster" where
  "mark_healthy url R = R\<lparr>ro_failed := (ro_failed R)(url := None)\<rparr>"

definition read_attempts :: "roster \<Rightarrow> nat" where
  "read_attempts R = min (length (ro_reads R)) MAX_READ_ATTEMPTS"

text \<open>\<^verbatim>\<open>urls.iter().any(|url| self.available(url, now))\<close>: stops at the first eligible node.\<close>

fun any_available :: "string list \<Rightarrow> u64 \<Rightarrow> roster \<Rightarrow> bool \<times> roster" where
  "any_available [] now_ms R = (False, R)"
| "any_available (url # urls) now_ms R =
     (let (ok, R1) = available url now_ms R
      in if ok then (True, R1) else any_available urls now_ms R1)"

definition circuit_state :: "u64 \<Rightarrow> roster \<Rightarrow> string \<times> roster" where
  "circuit_state now_ms R =
     (let (ok, R1) = any_available (ro_reads R) now_ms R
      in (if ok then ''closed'' else ''open'', R1))"

section \<open>Cooling\<close>

definition cooling :: "roster \<Rightarrow> u64 \<Rightarrow> string \<Rightarrow> bool" where
  "cooling R now_ms url =
     (case ro_failed R url of
        Some at \<Rightarrow> saturating_sub now_ms at < RPC_COOLDOWN_MS | None \<Rightarrow> False)"

text \<open>Two rosters that agree on which nodes are cooling from a time on.\<close>

definition same_view :: "u64 \<Rightarrow> roster \<Rightarrow> roster \<Rightarrow> bool" where
  "same_view now_ms R S =
     (ro_reads R = ro_reads S \<and> ro_writes R = ro_writes S
      \<and> (\<forall>t \<ge> now_ms. \<forall>url. cooling R t url = cooling S t url))"

lemma same_view_refl [simp]: "same_view t R R"
  by (simp add: same_view_def)

lemma same_view_trans: "same_view t R S \<Longrightarrow> same_view t S T \<Longrightarrow> same_view t R T"
  by (simp add: same_view_def)

lemma fst_available [simp]: "fst (available url now R) = (\<not> cooling R now url)"
  by (simp add: available_def cooling_def split: option.splits)

lemma available_unexpired:
  assumes "\<not> saturating_sub now at < RPC_COOLDOWN_MS" "now \<le> t"
  shows "\<not> saturating_sub t at < RPC_COOLDOWN_MS"
  using assms by (simp add: word_less_nat_alt word_le_nat_alt sat_simps)

lemma available_same_view: "same_view now R (snd (available url now R))"
  using available_unexpired
  by (auto simp: same_view_def available_def cooling_def split: option.splits)

lemma available_cursor [simp]: "lane_cursor lane (snd (available url now R)) = lane_cursor lane R"
  by (auto simp: lane_cursor_def available_def split: lane.splits option.splits)

lemma lane_urls_same_view: "same_view t R S \<Longrightarrow> lane_urls lane S = lane_urls lane R"
  by (simp add: same_view_def lane_urls_def split: lane.splits)

lemma advance_cursor: "advance lane R = (lane_cursor lane R, snd (advance lane R))"
  by (simp add: advance_def lane_cursor_def split: lane.splits)

lemma advance_next [simp]: "lane_cursor lane (snd (advance lane R)) = lane_cursor lane R + 1"
  by (simp add: advance_def lane_cursor_def split: lane.splits)

lemma advance_same_view: "same_view t R (snd (advance lane R))"
  by (simp add: same_view_def advance_def cooling_def split: lane.splits)

section \<open>Selection\<close>

abbreviation nth_url :: "lane \<Rightarrow> roster \<Rightarrow> nat \<Rightarrow> string" where
  "nth_url lane R i \<equiv>
     lane_urls lane R ! ((unat (lane_cursor lane R) + i) mod length (lane_urls lane R))"

lemma unat_cursor_Suc: "unat (c :: u64) + Suc n < 2 ^ 64 \<Longrightarrow> unat (c + 1) = Suc (unat c)"
  by (simp add: unat_word_ariths)

lemma nth_url_step:
  assumes "same_view t (snd (advance lane R)) S" "lane_cursor lane S = lane_cursor lane R + 1"
    and "unat (lane_cursor lane R) + Suc n < 2 ^ 64"
  shows "nth_url lane S i = nth_url lane R (Suc i)"
  using assms lane_urls_same_view [OF assms(1), of lane]
    lane_urls_same_view [OF advance_same_view, of lane lane R]
  by (simp add: unat_cursor_Suc)

text \<open>The loop returns the first node from the cursor on that is not cooling, or the one after a
  full round; the cursor moves past the node returned.\<close>

lemma select_loop_spec:
  assumes "unat (lane_cursor lane R) + n < 2 ^ 64" "select_loop n lane now R = (url, S)"
  shows "\<exists>i \<le> n. url = nth_url lane R i \<and> (\<forall>j < i. cooling R now (nth_url lane R j))
    \<and> (i < n \<longrightarrow> \<not> cooling R now url) \<and> lane_cursor lane S = lane_cursor lane R + of_nat i + 1
    \<and> same_view now R S"
  using assms
proof (induction n arbitrary: R)
  case 0
  then show ?case
    using advance_same_view [of now R lane]
    by (subst (asm) select_loop.simps, subst (asm) advance_cursor) auto
next
  case (Suc n)
  define R1 where "R1 = snd (advance lane R)"
  define u where "u = lane_urls lane R ! (unat (lane_cursor lane R) mod length (lane_urls lane R))"
  define R2 where "R2 = snd (available u now R1)"
  have view: "same_view now R R1" "same_view now R1 R2" "same_view now R R2"
    using advance_same_view available_same_view same_view_trans unfolding R1_def R2_def by blast+
  have cursor: "lane_cursor lane R2 = lane_cursor lane R + 1" by (simp add: R2_def R1_def)
  have cool: "cooling R1 now v = cooling R now v" "cooling R2 now v = cooling R now v" for v
    using view by (auto simp: same_view_def)
  have loop: "select_loop (Suc n) lane now R =
      (if cooling R now u then select_loop n lane now R2 else (u, R2))"
    using prod.collapse [of "available u now R1"] fst_available [of u now R1] cool(1) [of u]
    by (subst select_loop.simps, subst advance_cursor)
      (simp add: R1_def [symmetric] u_def [symmetric] R2_def [symmetric] Let_def split_beta)
  show ?case
  proof (cases "cooling R now u")
    case False
    then show ?thesis using Suc.prems(2) loop view cursor by (intro exI [of _ 0]) (simp add: u_def)
  next
    case True
    have step: "nth_url lane R2 i = nth_url lane R (Suc i)" for i
      using nth_url_step [OF _ cursor Suc.prems(1)] view(2) unfolding R1_def by blast
    have "unat (lane_cursor lane R2) + n < 2 ^ 64"
      using Suc.prems(1) unat_cursor_Suc [OF Suc.prems(1)] by (simp add: cursor)
    then obtain i where i: "i \<le> n" "url = nth_url lane R2 i"
      "\<forall>j < i. cooling R2 now (nth_url lane R2 j)" "i < n \<longrightarrow> \<not> cooling R2 now url"
      "lane_cursor lane S = lane_cursor lane R2 + of_nat i + 1" "same_view now R2 S"
      using Suc.IH [of R2] Suc.prems(2) True loop by auto
    have "\<forall>j < Suc i. cooling R now (nth_url lane R j)"
      using i(3) True unfolding step cool u_def by (simp add: All_less_Suc2)
    moreover have "url = nth_url lane R (Suc i)" using i(2) unfolding step .
    moreover have "lane_cursor lane S = lane_cursor lane R + of_nat (Suc i) + 1"
      using i(5) by (simp add: cursor)
    moreover have "same_view now R S" using same_view_trans [OF view(3) i(6)] .
    moreover have "Suc i < Suc n \<longrightarrow> \<not> cooling R now url" using i(4) cool by simp
    ultimately show ?thesis using i(1) by (intro exI [of _ "Suc i"]) blast
  qed
qed

lemma rotation_covers:
  assumes "u \<in> set us"
  shows "\<exists>i < length us. us ! ((c + i) mod length us) = u"
proof -
  obtain k where k: "k < length us" "us ! k = u" using assms by (auto simp: in_set_conv_nth)
  let ?n = "length us"
  let ?i = "(k + ?n - c mod ?n) mod ?n"
  have "(c + ?i) mod ?n = (c mod ?n + (k + ?n - c mod ?n)) mod ?n"
    by (simp add: mod_simps)
  also have "c mod ?n + (k + ?n - c mod ?n) = k + ?n"
    using k mod_less_divisor [of ?n c] by linarith
  also have "(k + ?n) mod ?n = k" using k by simp
  finally show ?thesis using k by (intro exI [of _ ?i]) (auto intro: mod_less_divisor)
qed

text \<open>What one selection returns, for its clients: an eligible node whenever the lane has one.\<close>

lemma select_spec:
  assumes "lane_urls lane R \<noteq> []" "unat (lane_cursor lane R) + length (lane_urls lane R) < 2 ^ 64"
  shows "\<exists>i url S. select lane now R = (Some url, S)
    \<and> i \<le> length (lane_urls lane R) \<and> url = nth_url lane R i \<and> url \<in> set (lane_urls lane R)
    \<and> (\<forall>j < i. cooling R now (nth_url lane R j))
    \<and> ((\<exists>u \<in> set (lane_urls lane R). \<not> cooling R now u) \<longrightarrow> \<not> cooling R now url)
    \<and> lane_cursor lane S = lane_cursor lane R + of_nat i + 1 \<and> same_view now R S"
proof -
  let ?us = "lane_urls lane R"
  obtain url S where loop: "select_loop (length ?us) lane now R = (url, S)" by fastforce
  obtain i where i: "i \<le> length ?us" "url = nth_url lane R i" "\<forall>j < i. cooling R now (nth_url lane R j)"
    "i < length ?us \<longrightarrow> \<not> cooling R now url"
    "lane_cursor lane S = lane_cursor lane R + of_nat i + 1" "same_view now R S"
    using select_loop_spec [OF assms(2) loop] by blast
  have "\<not> cooling R now url" if eligible: "\<exists>u \<in> set ?us. \<not> cooling R now u"
  proof -
    obtain j where "j < length ?us" "\<not> cooling R now (nth_url lane R j)"
      using eligible rotation_covers [of _ ?us "unat (lane_cursor lane R)"] by blast
    then have "\<not> j < i" using i(3) by blast
    then show ?thesis using i(4) \<open>j < length ?us\<close> by simp
  qed
  moreover have "url \<in> set ?us" using i(2) assms(1) by (simp add: nth_mem)
  moreover have "select lane now R = (Some url, S)" using assms(1) loop by (simp add: select_def)
  ultimately show ?thesis using i by blast
qed

section \<open>Properties\<close>

text \<open>C28: While the lane's cursor does not wrap within the call, \<^verbatim>\<open>select\<close> on a non-empty lane returns
  the first node from the cursor on that is not cooling, so an eligible node whenever one
  exists, and the node a full round later when every node is cooling; the cursor moves past
  the node returned, and forgetting expired failures on the way changes no node's eligibility
  at this or any later time.\<close>

theorem select_correct:
  fixes R lane
  defines "us \<equiv> lane_urls lane R" and "c \<equiv> lane_cursor lane R"
  assumes "us \<noteq> []" "unat c + length us < 2 ^ 64"
  shows "\<exists>i url S. select lane now R = (Some url, S)
    \<and> i \<le> length us \<and> url = us ! ((unat c + i) mod length us) \<and> url \<in> set us
    \<and> (\<forall>j < i. cooling R now (us ! ((unat c + j) mod length us)))
    \<and> ((\<exists>u \<in> set us. \<not> cooling R now u) \<longrightarrow> \<not> cooling R now url)
    \<and> lane_cursor lane S = c + of_nat i + 1 \<and> same_view now R S"
  using select_spec [of lane R now] assms(3,4) unfolding us_def c_def by blast

theorem select_correct_witness:
  "\<exists>url S. select Read 5000
       (mark_failed ''a'' 1000 (roster_new [''a'', ''b''] [])) = (Some url, S)
     \<and> url = ''b''"
proof -
  let ?R = "mark_failed ''a'' 1000 (roster_new [''a'', ''b''] [])"
  have urls: "lane_urls Read ?R = [''a'', ''b'']" "lane_cursor Read ?R = 0"
    by (simp_all add: lane_urls_def lane_cursor_def mark_failed_def roster_new_def)
  have cool: "cooling ?R 5000 ''a''" "\<not> cooling ?R 5000 ''b''"
    by (simp_all add: cooling_def mark_failed_def roster_new_def RPC_COOLDOWN_MS_def
        saturating_sub_def)
  show ?thesis
    using select_correct [of Read ?R 5000] cool unfolding urls by fastforce
qed

end
