(* ===== verification/Sentinel.thy ===== *)
theory Sentinel
  imports Prelude
begin

text \<open>
  \<^verbatim>\<open>p256-registrar/src/sentinel.rs\<close>: the retry back-off, the health verdict and the alert throttle.
  Durations are in seconds unless the name says milliseconds.  The funding-runway estimate and
  the heartbeat text compute with floating point and are not modelled.
\<close>

definition BACKOFF_BASE :: u64 where "BACKOFF_BASE = 5"
definition BACKOFF_MAX :: u64 where "BACKOFF_MAX = 12 * 60 * 60"

definition saturating_pow :: "u64 \<Rightarrow> u32 \<Rightarrow> u64" where
  "saturating_pow b e = (if unat b ^ unat e < 2 ^ 64 then b ^ unat e else - 1)"

definition backoff_delay :: "u32 \<Rightarrow> u64" where
  "backoff_delay retries =
     (let exponent = min (saturating_sub retries 1) 32;
          scaled = saturating_mul BACKOFF_BASE (saturating_pow 3 exponent)
      in min scaled BACKOFF_MAX)"

record queue_health =
  qh_depth :: u64
  qh_dlq_count :: u64
  qh_oldest_active_age_ms :: u64

definition HEALTH_QUEUE_DEPTH :: u64 where "HEALTH_QUEUE_DEPTH = 2000"
definition HEALTH_DLQ_COUNT :: u64 where "HEALTH_DLQ_COUNT = 25"
definition HEALTH_OLDEST_JOB_MS :: u64 where "HEALTH_OLDEST_JOB_MS = 30 * 60000"

definition health_reasons :: "queue_health \<Rightarrow> string list" where
  "health_reasons queue =
     (if HEALTH_QUEUE_DEPTH \<le> qh_depth queue then [''queue-depth''] else [])
     @ (if HEALTH_DLQ_COUNT \<le> qh_dlq_count queue then [''dlq''] else [])
     @ (if HEALTH_OLDEST_JOB_MS \<le> qh_oldest_active_age_ms queue then [''oldest-job''] else [])"

definition ALERT_THROTTLE_MS :: u64 where "ALERT_THROTTLE_MS = 6 * 60 * 60 * 1000"
definition DLQ_ALERT_THRESHOLD :: u64 where "DLQ_ALERT_THRESHOLD = 10"

definition alert_due :: "u64 option \<Rightarrow> u64 \<Rightarrow> bool" where
  "alert_due last_fired_ms now_ms =
     (case last_fired_ms of
        Some at \<Rightarrow> ALERT_THROTTLE_MS \<le> saturating_sub now_ms at
      | None \<Rightarrow> True)"

definition dlq_alert :: "u64 \<Rightarrow> string" where
  "dlq_alert dlq_count =
     [CHR 0xE2, CHR 0x9A, CHR 0xA0, CHR 0xEF, CHR 0xB8, CHR 0x8F]
     @ '' [webauthnp256-publickey-index] DLQ has '' @ decimal (unat dlq_count)
     @ '' quarantined create(s) '' @ [CHR 0xE2, CHR 0x80, CHR 0x94] @ '' inspect.''"

section \<open>The back-off schedule\<close>

lemma unat_saturating_pow:
  "unat (saturating_pow b e) = min (unat b ^ unat e) (2 ^ 64 - 1)"
proof (cases "unat b ^ unat e < 2 ^ 64")
  case True
  have "unat (b ^ n) = unat b ^ n mod 2 ^ 64" for n
    by (induction n) (simp_all add: unat_word_ariths mod_mult_right_eq)
  then show ?thesis using True by (simp add: saturating_pow_def)
qed (simp add: saturating_pow_def unat_max_word)

lemma unat_backoff_delay:
  "unat (backoff_delay retries) = min (5 * 3 ^ (unat retries - 1)) 43200"
proof -
  let ?e = "unat retries - 1"
  have exponent: "unat (min (saturating_sub retries 1) (32 :: u32)) = min ?e 32"
    by (simp add: sat_simps)
  have "min (5 * min (3 ^ min ?e 32) (2 ^ 64 - 1)) 43200 = min (5 * 3 ^ ?e) (43200 :: nat)"
  proof (cases "?e \<le> 32")
    case True
    have "(3 :: nat) ^ ?e \<le> 3 ^ 32" using True by (rule power_increasing) simp
    then show ?thesis using True by (simp add: min_def)
  next
    case False
    have "(3 :: nat) ^ 32 \<le> 3 ^ ?e" using False by (intro power_increasing) simp_all
    then show ?thesis using False by (simp add: min_def)
  qed
  then show ?thesis
    by (simp add: backoff_delay_def BACKOFF_BASE_def BACKOFF_MAX_def Let_def sat_simps
        unat_saturating_pow exponent min.assoc)
qed

section \<open>Properties\<close>

text \<open>C30: The delay before the next attempt after \<^verbatim>\<open>retries\<close> transient failures is
  \<^verbatim>\<open>min(5s * 3^(retries-1), 12h)\<close> for every 32-bit count, with zero treated as the first attempt: the
  saturating code computes the documented curve, which never decreases.\<close>

theorem backoff_delay_correct:
  "unat (backoff_delay n) = min (5 * 3 ^ (unat n - 1)) (12 * 60 * 60)
   \<and> (n \<le> m \<longrightarrow> backoff_delay n \<le> backoff_delay m)"
proof -
  have "unat n \<le> unat m \<Longrightarrow> (3 :: nat) ^ (unat n - 1) \<le> 3 ^ (unat m - 1)"
    by (rule power_increasing) simp_all
  then have "n \<le> m \<longrightarrow> backoff_delay n \<le> backoff_delay m"
    unfolding word_le_nat_alt unat_backoff_delay by (meson min.mono mult_le_mono2 order_refl)
  then show ?thesis by (simp add: unat_backoff_delay)
qed

theorem backoff_delay_correct_witness:
  "unat (backoff_delay 9) = 32805 \<and> unat (backoff_delay 10) = 43200 \<and> backoff_delay 9 \<le> backoff_delay 10"
  using backoff_delay_correct [of 9 10] backoff_delay_correct [of 10 10] by simp

end
