(* ===== verification/Verify.thy ===== *)
theory Verify
  imports Protocol
begin

text \<open>
  \<^verbatim>\<open>p256-registrar/src/verify.rs\<close>: the possession-proof check the service runs before it spends
  gas, with the unpadded base64url encoding of a 32-byte challenge.
\<close>

unbundle bit_operations_syntax

section \<open>Definitions\<close>

definition BASE64URL_ALPHABET :: string where
  "BASE64URL_ALPHABET = ''ABCDEFGHIJKLMNOPQRSTUVWXYZabcdefghijklmnopqrstuvwxyz0123456789-_''"

definition base64url_char :: "u32 \<Rightarrow> char" where
  "base64url_char v = BASE64URL_ALPHABET ! unat (v AND 0x3f)"

definition chunk_word :: "byte \<Rightarrow> byte \<Rightarrow> byte \<Rightarrow> u32" where
  "chunk_word a b c = push_bit 16 (ucast a) OR push_bit 8 (ucast b) OR ucast c"

definition tail_word :: "byte \<Rightarrow> byte \<Rightarrow> u32" where
  "tail_word a b = push_bit 8 (ucast a) OR ucast b"

text \<open>The loop over \<^verbatim>\<open>bytes[..30].chunks(3)\<close>, then the two trailing bytes.\<close>

fun base64url_chunks :: "bytes \<Rightarrow> string" where
  "base64url_chunks (a # b # c # rest) =
     (let v = chunk_word a b c
      in base64url_char (drop_bit 18 v) # base64url_char (drop_bit 12 v)
         # base64url_char (drop_bit 6 v) # base64url_char v # base64url_chunks rest)"
| "base64url_chunks _ = []"

definition base64url_32 :: "bytes \<Rightarrow> string" where
  "base64url_32 value =
     (let tail = tail_word (value ! 30) (value ! 31)
      in base64url_chunks (take 30 value)
         @ [base64url_char (drop_bit 10 tail), base64url_char (drop_bit 4 tail),
            base64url_char (push_bit 2 tail AND 0x3f)])"

text \<open>\<^verbatim>\<open>usize\<close> is 64 bits; \<^verbatim>\<open>checked_add\<close> fails when the end does not fit.\<close>

definition check_substring :: "bytes \<Rightarrow> u64 \<Rightarrow> bytes \<Rightarrow> bool" where
  "check_substring data offset expected =
     (let start = unat offset; end = start + length expected
      in end < 2 ^ 64 \<and> end \<le> length data \<and> take (length expected) (drop start data) = expected)"

definition type_marker :: string where
  "type_marker = ''\"type\":\"webauthn.get\"''"

definition challenge_marker :: "bytes \<Rightarrow> string" where
  "challenge_marker challenge = ''\"challenge\":\"'' @ base64url_32 challenge @ ''\"''"

definition verify_proof ::
  "externs \<Rightarrow> webauthn_proof \<Rightarrow> bytes \<Rightarrow> string \<Rightarrow> bytes \<Rightarrow> unit result" where
  "verify_proof X p challenge rp_id public_key =
     bind_res (map_err (\<lambda>_. ''authenticatorData must be a valid hex string'')
                (parse_hex_bytes X (pf_authenticator_data p))) (\<lambda>auth_data.
     if length auth_data < 37 then Inl ''authenticatorData must be at least 37 bytes''
     else if take 32 auth_data \<noteq> sha256 X (as_bytes rp_id)
       then Inl ''authenticatorData rpIdHash does not match rpId''
     else if (auth_data ! 32) AND 1 = 0
       then Inl ''authenticatorData user-present flag is not set''
     else (let client_data = as_bytes (pf_client_data_json p) in
       if \<not> check_substring client_data (pf_type_index p) (as_bytes type_marker)
         then Inl ''clientDataJSON does not carry \"type\":\"webauthn.get\" at typeIndex''
       else if \<not> check_substring client_data (pf_challenge_index p)
                   (as_bytes (challenge_marker challenge))
         then Inl ''clientDataJSON does not carry the storage-authorization challenge at challengeIndex''
       else (let digest = sha256 X (auth_data @ sha256 X client_data) in
         if \<not> vkey_ok X public_key then Inl ''publicKey is not a valid P-256 point''
         else
           bind_res (map_err (\<lambda>_. ''signature r must be 32-byte hex'') (parse_b256 X (pf_r p))) (\<lambda>r.
           bind_res (map_err (\<lambda>_. ''signature s must be 32-byte hex'') (parse_b256 X (pf_s p))) (\<lambda>s.
             if \<not> scalars_ok X r s then Inl ''signature scalars are out of range''
             else if \<not> verify_prehash X public_key digest r s
               then Inl ''signature does not verify for this publicKey''
             else Inr ())))))"

section \<open>The base64url encoding\<close>

lemma alphabet_length: "length BASE64URL_ALPHABET = 64"
  by (simp add: BASE64URL_ALPHABET_def)

lemma alphabet_distinct: "distinct BASE64URL_ALPHABET"
  unfolding BASE64URL_ALPHABET_def by code_simp

lemma unat_and_63: "unat ((v :: u32) AND 0x3f) < 64"
proof -
  have "v AND 0x3f \<le> 0x3f" by (rule word_and_le1)
  then have "unat (v AND 0x3f) \<le> unat (0x3f :: u32)" by (simp add: word_le_nat_alt)
  then show ?thesis by simp
qed

lemma base64url_char_inject:
  "(base64url_char v = base64url_char w) = (v AND 0x3f = w AND 0x3f)"
  using nth_eq_iff_index_eq [OF alphabet_distinct, of "unat (v AND 0x3f)" "unat (w AND 0x3f)"]
  by (simp add: base64url_char_def alphabet_length unat_and_63 word_unat_eq_iff)

lemma and_0x3f: "(v :: u32) AND 0x3f = take_bit 6 v"
  by (simp add: take_bit_eq_mask mask_eq_exp_minus_1)

lemma sextet_bits:
  assumes "drop_bit k (v :: u32) AND 0x3f = drop_bit k w AND 0x3f" "k \<le> n" "n < k + 6"
  shows "bit v n = bit w n"
proof -
  have "bit (take_bit 6 (drop_bit k v)) (n - k) = bit (take_bit 6 (drop_bit k w)) (n - k)"
    using assms(1) by (simp add: and_0x3f)
  moreover have "n - k < 6" using assms(2,3) by linarith
  ultimately show ?thesis using assms(2) by (simp add: bit_take_bit_iff bit_drop_bit_eq)
qed

lemma chunk_word_bits:
  assumes "n < 8"
  shows "bit (chunk_word a b c) (n + 16) = bit a n" "bit (chunk_word a b c) (n + 8) = bit b n"
    "bit (chunk_word a b c) n = bit c n"
  using assms bit_imp_le_length [of b "8 + n"] bit_imp_le_length [of c "n + 8"]
    bit_imp_le_length [of c "n + 16"]
  by (auto simp: chunk_word_def bit_or_iff bit_push_bit_iff bit_ucast_iff)

lemma tail_word_bits:
  assumes "n < 8"
  shows "bit (tail_word a b) (n + 8) = bit a n" "bit (tail_word a b) n = bit b n"
  using assms bit_imp_le_length [of b "n + 8"]
  by (auto simp: tail_word_def bit_or_iff bit_push_bit_iff bit_ucast_iff)

lemma byte_eqI: "(\<And>n. n < 8 \<Longrightarrow> bit (a :: byte) n = bit b n) \<Longrightarrow> a = b"
  by (rule bit_word_eqI) simp

lemma chunk_word_sextets:
  assumes "drop_bit 18 v AND 0x3f = drop_bit 18 w AND 0x3f" "drop_bit 12 v AND 0x3f = drop_bit 12 w AND 0x3f"
    "drop_bit 6 v AND 0x3f = drop_bit 6 w AND 0x3f" "v AND 0x3f = w AND 0x3f" "n < 24"
  shows "bit (v :: u32) n = bit w n"
proof -
  consider "n < 6" | "6 \<le> n" "n < 12" | "12 \<le> n" "n < 18" | "18 \<le> n" using assms(5) by linarith
  then show ?thesis
    using sextet_bits [of 18 v w n] sextet_bits [of 12 v w n] sextet_bits [of 6 v w n]
      sextet_bits [of 0 v w n] assms
    by cases simp_all
qed

lemma chunk_word_inject:
  assumes "\<And>n. n < 24 \<Longrightarrow> bit (chunk_word a b c) n = bit (chunk_word a' b' c') n"
  shows "a = a' \<and> b = b' \<and> c = c'"
proof (intro conjI byte_eqI)
  fix n :: nat
  assume n: "n < 8"
  show "bit a n = bit a' n" "bit b n = bit b' n" "bit c n = bit c' n"
    using assms [of "n + 16"] assms [of "n + 8"] assms [of n] n by (simp_all add: chunk_word_bits)
qed

lemma base64url_chunks_inject:
  "length xs = length ys \<Longrightarrow> 3 dvd length xs \<Longrightarrow> base64url_chunks xs = base64url_chunks ys \<Longrightarrow> xs = ys"
proof (induction xs arbitrary: ys rule: base64url_chunks.induct)
  case (1 a b c rest)
  obtain a' b' c' rest' where ys: "ys = a' # b' # c' # rest'"
    using "1.prems"(1) by (cases ys rule: base64url_chunks.cases) auto
  let ?v = "chunk_word a b c" and ?w = "chunk_word a' b' c'"
  have sextets: "drop_bit 18 ?v AND 0x3f = drop_bit 18 ?w AND 0x3f"
    "drop_bit 12 ?v AND 0x3f = drop_bit 12 ?w AND 0x3f"
    "drop_bit 6 ?v AND 0x3f = drop_bit 6 ?w AND 0x3f" "?v AND 0x3f = ?w AND 0x3f"
    and rest: "base64url_chunks rest = base64url_chunks rest'"
    using "1.prems"(3) unfolding ys base64url_chunks.simps Let_def list.inject base64url_char_inject
    by blast+
  have "bit ?v n = bit ?w n" if "n < 24" for n
    by (rule chunk_word_sextets [OF sextets that])
  then have "a = a' \<and> b = b' \<and> c = c'" by (rule chunk_word_inject)
  moreover have "3 dvd length rest"
    using "1.prems"(2) dvd_add_right_iff [of 3 3 "length rest"] by (simp add: numeral_3_eq_3)
  then have "rest = rest'"
    using "1.prems"(1) "1.IH" [OF refl _ _ rest] by (simp add: ys)
  ultimately show ?case by (simp add: ys)
qed (auto dest: dvd_imp_le)

lemma tail_word_inject:
  assumes "drop_bit 10 (tail_word a b) AND 0x3f = drop_bit 10 (tail_word a' b') AND 0x3f"
    and "drop_bit 4 (tail_word a b) AND 0x3f = drop_bit 4 (tail_word a' b') AND 0x3f"
    and "push_bit 2 (tail_word a b) AND 0x3f = push_bit 2 (tail_word a' b') AND 0x3f"
  shows "a = a' \<and> b = b'"
proof -
  let ?v = "tail_word a b" and ?w = "tail_word a' b'"
  have low: "bit ?v n = bit ?w n" if "n < 4" for n
  proof -
    have "bit (take_bit 6 (push_bit 2 ?v)) (n + 2) = bit (take_bit 6 (push_bit 2 ?w)) (n + 2)"
      using assms(3) by (simp only: and_0x3f)
    then show ?thesis using that by (simp add: bit_take_bit_iff bit_push_bit_iff)
  qed
  have all: "bit ?v n = bit ?w n" if "n < 16" for n
    using sextet_bits [OF assms(1), of n] sextet_bits [OF assms(2), of n] low [of n] that
    by linarith
  show ?thesis
  proof (intro conjI byte_eqI)
    fix n :: nat
    assume n: "n < 8"
    show "bit a n = bit a' n" "bit b n = bit b' n"
      using all [of "n + 8"] all [of n] n by (simp_all add: tail_word_bits)
  qed
qed

lemma length_base64url_chunks: "length (base64url_chunks b) = 4 * (length b div 3)"
proof (induction b rule: base64url_chunks.induct)
  case (1 a b c rest)
  have "length (a # b # c # rest) div 3 = Suc (length rest div 3)" by simp
  then show ?case using 1 by (simp only: base64url_chunks.simps Let_def list.size) simp
qed simp_all

lemma length_base64url_32: "length b = 32 \<Longrightarrow> length (base64url_32 b) = 43"
  by (simp add: base64url_32_def Let_def length_base64url_chunks)

lemma base64url_32_injective:
  assumes "length a = 32" "length b = 32" "base64url_32 a = base64url_32 b"
  shows "a = b"
proof -
  have split: "x = take 30 x @ [x ! 30, x ! 31]" if "length x = 32" for x :: bytes
    using that by (intro nth_equalityI) (auto simp: nth_append nth_Cons' less_Suc_eq numeral_eq_Suc)
  have chunks: "base64url_chunks (take 30 a) = base64url_chunks (take 30 b)"
    using assms by (simp add: base64url_32_def Let_def length_base64url_chunks)
  then have "take 30 a = take 30 b"
    using assms by (intro base64url_chunks_inject) simp_all
  moreover have "a ! 30 = b ! 30 \<and> a ! 31 = b ! 31"
    using assms(3) chunks
    by (intro tail_word_inject)
      (simp_all add: base64url_32_def Let_def base64url_char_inject and.assoc)
  ultimately show ?thesis using split [OF assms(1)] split [OF assms(2)] by simp
qed

lemma challenge_marker_inject:
  "length a = 32 \<Longrightarrow> length b = 32 \<Longrightarrow> challenge_marker a = challenge_marker b \<Longrightarrow> a = b"
  by (simp add: challenge_marker_def base64url_32_injective)

lemma length_challenge_marker: "length b = 32 \<Longrightarrow> length (challenge_marker b) = 57"
  by (simp add: challenge_marker_def length_base64url_32)

section \<open>Proof verification\<close>

lemma check_substring_iff:
  assumes "length data < 2 ^ 64"
  shows "check_substring data offset expected =
    (\<exists>pre post. data = pre @ expected @ post \<and> length pre = unat offset)"
proof
  assume "check_substring data offset expected"
  then have *: "unat offset + length expected \<le> length data"
    "take (length expected) (drop (unat offset) data) = expected"
    by (simp_all add: check_substring_def Let_def)
  have "data = take (unat offset) data @ expected
      @ drop (length expected) (drop (unat offset) data)"
    by (metis *(2) append_take_drop_id)
  then show "\<exists>pre post. data = pre @ expected @ post \<and> length pre = unat offset"
    using *(1) by (metis add_leE length_take min.absorb2)
next
  assume "\<exists>pre post. data = pre @ expected @ post \<and> length pre = unat offset"
  then obtain pre post where "data = pre @ expected @ post" "length pre = unat offset" by blast
  then show "check_substring data offset expected"
    using assms by (simp add: check_substring_def Let_def)
qed

lemma check_substring_unique:
  "check_substring data offset a \<Longrightarrow> check_substring data offset b \<Longrightarrow> length a = length b \<Longrightarrow> a = b"
  by (simp add: check_substring_def Let_def)

lemma verify_proof_iff:
  "verify_proof X p challenge rp_id public_key = Inr () \<longleftrightarrow>
     (\<exists>auth r s. parse_hex_bytes X (pf_authenticator_data p) = Inr auth
        \<and> 37 \<le> length auth \<and> take 32 auth = sha256 X (as_bytes rp_id) \<and> (auth ! 32) AND 1 \<noteq> 0
        \<and> check_substring (as_bytes (pf_client_data_json p)) (pf_type_index p) (as_bytes type_marker)
        \<and> check_substring (as_bytes (pf_client_data_json p)) (pf_challenge_index p)
             (as_bytes (challenge_marker challenge))
        \<and> vkey_ok X public_key \<and> parse_b256 X (pf_r p) = Inr r \<and> parse_b256 X (pf_s p) = Inr s
        \<and> scalars_ok X r s
        \<and> verify_prehash X public_key
             (sha256 X (auth @ sha256 X (as_bytes (pf_client_data_json p)))) r s)"
  by (cases "parse_hex_bytes X (pf_authenticator_data p)"; cases "parse_b256 X (pf_r p)";
      cases "parse_b256 X (pf_s p)") (auto simp: verify_proof_def Let_def)

lemma verify_proof_challenge:
  assumes "verify_proof X p c rp k = Inr ()" "verify_proof X p c' rp' k' = Inr ()"
    and "length c = 32" "length c' = 32"
  shows "c = c'"
proof -
  have "as_bytes (challenge_marker c) = as_bytes (challenge_marker c')"
    using assms unfolding verify_proof_iff
    by (intro check_substring_unique) (auto simp: length_challenge_marker)
  then show ?thesis using challenge_marker_inject assms(3,4) by simp
qed

lemma verify_proof_rp_id:
  "verify_proof X p c rp k = Inr () \<Longrightarrow> verify_proof X p c' rp' k' = Inr () \<Longrightarrow>
     sha256 X (as_bytes rp) = sha256 X (as_bytes rp')"
  unfolding verify_proof_iff by auto

end
