(* ===== verification/Validation.thy ===== *)
theory Validation
  imports Verify
begin

text \<open>
  The validation half of \<^verbatim>\<open>p256-registrar/src/admission.rs\<close>: a request becomes a canonical task
  whose possession proofs verify, or a message naming the field that failed.
\<close>

section \<open>Requests\<close>

definition MAX_MEMBERS :: nat where "MAX_MEMBERS = 7"
definition MAX_METADATA_BYTES :: nat where "MAX_METADATA_BYTES = 2048"
definition ATTESTATION_BYTES :: nat where "ATTESTATION_BYTES = 20"
definition ATTESTATION_VERSION :: byte where "ATTESTATION_VERSION = 1"

record proof_request =
  pq_authenticator_data :: "string option"
  pq_client_data_json :: "string option"
  pq_challenge_index :: "u64 option"
  pq_type_index :: "u64 option"
  pq_r :: "string option"
  pq_s :: "string option"

record member_request =
  mq_public_key :: "string option"
  mq_attestation :: "string option"
  mq_credential_id :: "string option"
  mq_authenticator_attachment :: "string option"
  mq_transports :: "string option"
  mq_proof :: "proof_request option"

record register_request =
  rq_rp_id :: "string option"
  rq_metadata :: "string option"
  rq_group_public_key :: "string option"
  rq_group_proof :: "proof_request option"
  rq_members :: "member_request list option"

record refer_request =
  fq_rp_id :: "string option"
  fq_group_public_key :: "string option"
  fq_metadata :: "string option"
  fq_member :: "member_request option"

datatype admission_request = RegisterRequest register_request | ReferRequest refer_request

section \<open>Results that may panic\<close>

text \<open>A \<^verbatim>\<open>Result<T, String>\<close> computed by code with \<^verbatim>\<open>expect\<close>: \<^const>\<open>None\<close> is a panic.\<close>

type_synonym 'a checked = "'a result option"

definition bind_checked :: "'a checked \<Rightarrow> ('a \<Rightarrow> 'b checked) \<Rightarrow> 'b checked" where
  "bind_checked c f =
     (case c of None \<Rightarrow> None | Some (Inl e) \<Rightarrow> Some (Inl e) | Some (Inr a) \<Rightarrow> f a)"

definition expect :: "'a option \<Rightarrow> 'a checked" where
  "expect x = map_option Inr x"

definition ok_of :: "'a result \<Rightarrow> 'a option" where
  "ok_of r = (case r of Inl _ \<Rightarrow> None | Inr a \<Rightarrow> Some a)"

definition prefix_err :: "string \<Rightarrow> 'a checked \<Rightarrow> 'a checked" where
  "prefix_err p c = map_option (map_err (\<lambda>m. p @ m)) c"

lemma bind_checked_simps [simp]:
  "bind_checked None f = None" "bind_checked (Some (Inl e)) f = Some (Inl e)"
  "bind_checked (Some (Inr a)) f = f a"
  by (simp_all add: bind_checked_def)

lemma expect_simps [simp]: "expect None = None" "expect (Some a) = Some (Inr a)"
  by (simp_all add: expect_def)

lemma ok_of_simps [simp]: "ok_of (Inl e) = None" "ok_of (Inr a) = Some a"
  by (simp_all add: ok_of_def)

lemma prefix_err_simps [simp]:
  "prefix_err p None = None" "prefix_err p (Some (Inl m)) = Some (Inl (p @ m))"
  "prefix_err p (Some (Inr a)) = Some (Inr a)"
  by (simp_all add: prefix_err_def)

lemma bind_checked_Inr:
  "bind_checked c f = Some (Inr b) \<longleftrightarrow> (\<exists>a. c = Some (Inr a) \<and> f a = Some (Inr b))"
  by (auto simp: bind_checked_def split: option.splits sum.splits)

lemma bind_checked_None:
  "bind_checked c f = None \<longleftrightarrow> c = None \<or> (\<exists>a. c = Some (Inr a) \<and> f a = None)"
  by (auto simp: bind_checked_def split: option.splits sum.splits)

lemma prefix_err_Inr: "prefix_err p c = Some (Inr a) \<longleftrightarrow> c = Some (Inr a)"
  by (cases c; cases "the c") (auto simp: prefix_err_def)

lemma prefix_err_None: "prefix_err p c = None \<longleftrightarrow> c = None"
  by (simp add: prefix_err_def)

lemma map_err_Inr: "map_err g r = Inr a \<longleftrightarrow> r = Inr a"
  by (cases r) auto

lemma expect_Inr: "expect x = Some (Inr a) \<longleftrightarrow> x = Some a"
  by (cases x) auto

lemma expect_None: "expect x = None \<longleftrightarrow> x = None"
  by (cases x) auto

section \<open>Field parsers\<close>

text \<open>\<^verbatim>\<open>""\<close> or \<^verbatim>\<open>0x\<close> and the lowercase hex of the bytes.\<close>

definition hex_or_empty :: "externs \<Rightarrow> bytes \<Rightarrow> string" where
  "hex_or_empty X b = (if b = [] then [] else ''0x'' @ hex_encode X b)"

definition parse_public_key :: "externs \<Rightarrow> string option \<Rightarrow> string checked" where
  "parse_public_key X value =
     (case value of
        None \<Rightarrow> Some (Inl ''publicKey is required'')
      | Some public_key \<Rightarrow>
          (let raw = strip_0x public_key
           in if length raw \<noteq> 130 \<or> \<not> list_all is_ascii_hexdigit raw
              then Some (Inl ''publicKey must be an uncompressed P-256 point (04 + 128 hex chars)'')
              else if \<not> starts_with ''04'' raw
              then Some (Inl ''publicKey must start with the uncompressed prefix 04'')
              else
                (let public_key = to_ascii_lowercase raw
                 in bind_checked (expect (hex_decode X public_key)) (\<lambda>key_bytes.
                      if \<not> point_ok X key_bytes
                      then Some (Inl ''publicKey must be a valid point on the P-256 curve'')
                      else Some (Inr public_key)))))"

definition validate_public_key_hex :: "externs \<Rightarrow> string \<Rightarrow> string checked" where
  "validate_public_key_hex X value = parse_public_key X (Some value)"

definition validate_attestation_hex :: "externs \<Rightarrow> string \<Rightarrow> string result" where
  "validate_attestation_hex X value =
     bind_res (map_err (\<lambda>_. ''attestation must be a valid hex string'') (parse_hex_bytes X value))
       (\<lambda>b. if b \<noteq> [] \<and> length b \<noteq> ATTESTATION_BYTES
            then Inl (''attestation must be '' @ decimal ATTESTATION_BYTES @ '' bytes'')
            else if b \<noteq> [] \<and> b ! 0 \<noteq> ATTESTATION_VERSION
            then Inl ''attestation must start with version byte 0x01''
            else Inr (hex_or_empty X b))"

definition normalize_credential_id :: "externs \<Rightarrow> string \<Rightarrow> string result" where
  "normalize_credential_id X value =
     bind_res (map_err (\<lambda>_. ''credentialId must be a valid hex string'') (parse_hex_bytes X value))
       (\<lambda>b. if 1023 < length b then Inl ''credentialId exceeds 1023 bytes''
            else Inr (hex_or_empty X b))"

definition normalize_hint :: "string \<Rightarrow> nat \<Rightarrow> string \<Rightarrow> string result" where
  "normalize_hint value max_bytes field =
     (let trimmed = trim value
      in if max_bytes < length trimmed then Inl (field @ '' exceeds '' @ decimal max_bytes @ '' bytes'')
         else Inr trimmed)"

definition parse_proof :: "proof_request option \<Rightarrow> webauthn_proof result" where
  "parse_proof p =
     bind_res (ok_or ''proof is required'' p) (\<lambda>p.
     bind_res (ok_or ''proof.authenticatorData is required'' (pq_authenticator_data p)) (\<lambda>a.
     bind_res (ok_or ''proof.clientDataJSON is required'' (pq_client_data_json p)) (\<lambda>c.
     bind_res (ok_or ''proof.challengeIndex is required'' (pq_challenge_index p)) (\<lambda>ci.
     bind_res (ok_or ''proof.typeIndex is required'' (pq_type_index p)) (\<lambda>ti.
     bind_res (ok_or ''proof.r is required'' (pq_r p)) (\<lambda>r.
     bind_res (ok_or ''proof.s is required'' (pq_s p)) (\<lambda>s.
       Inr \<lparr>pf_authenticator_data = a, pf_client_data_json = c, pf_challenge_index = ci,
            pf_type_index = ti, pf_r = r, pf_s = s\<rparr>)))))))"

definition parse_member :: "externs \<Rightarrow> member_request \<Rightarrow> member checked" where
  "parse_member X m =
     bind_checked (parse_public_key X (mq_public_key m)) (\<lambda>public_key.
     bind_checked (Some (validate_attestation_hex X (unwrap_or [] (mq_attestation m)))) (\<lambda>attestation.
     bind_checked (Some (normalize_credential_id X (unwrap_or [] (mq_credential_id m)))) (\<lambda>credential_id.
     bind_checked (Some (normalize_hint (unwrap_or [] (mq_authenticator_attachment m)) 32
                           ''authenticatorAttachment'')) (\<lambda>attachment.
     bind_checked (Some (normalize_hint (unwrap_or [] (mq_transports m)) 255 ''transports'')) (\<lambda>transports.
     bind_checked (Some (parse_proof (mq_proof m))) (\<lambda>p.
       Some (Inr \<lparr>m_public_key = public_key, m_attestation = attestation,
                  m_credential_id = credential_id, m_authenticator_attachment = attachment,
                  m_transports = transports, m_proof = p\<rparr>)))))))"

section \<open>Requests to tasks\<close>

definition member_label :: "nat \<Rightarrow> string" where
  "member_label index = ''members['' @ decimal index @ '']: ''"

text \<open>The loop over the members, with the members accepted so far.\<close>

fun parse_members_loop ::
  "externs \<Rightarrow> string \<Rightarrow> nat \<Rightarrow> member_request list \<Rightarrow> member list \<Rightarrow> member list checked" where
  "parse_members_loop X grp index [] parsed = Some (Inr parsed)"
| "parse_members_loop X grp index (m # ms) parsed =
     bind_checked (prefix_err (member_label index) (parse_member X m)) (\<lambda>member.
       if m_public_key member = grp
       then Some (Inl (member_label index @ ''the group key cannot also be a member''))
       else if list_ex (\<lambda>earlier. m_public_key earlier = m_public_key member) parsed
       then Some (Inl (member_label index @ ''duplicate public key within the unit''))
       else parse_members_loop X grp (index + 1) ms (parsed @ [member]))"

text \<open>The loop over the member proofs, for a group key of \<open>group_key_bytes\<close>.\<close>

fun verify_members_loop ::
  "externs \<Rightarrow> u64 \<Rightarrow> bytes \<Rightarrow> string \<Rightarrow> bytes \<Rightarrow> nat \<Rightarrow> member list \<Rightarrow> unit checked" where
  "verify_members_loop X chain_id registry rp_id group_key_bytes index [] = Some (Inr ())"
| "verify_members_loop X chain_id registry rp_id group_key_bytes index (m # ms) =
     bind_checked (expect (hex_decode X (m_public_key m))) (\<lambda>key_bytes.
     bind_checked (expect (ok_of (parse_hex_bytes X (m_attestation m)))) (\<lambda>attestation_bytes.
     let binding = member_binding_for X group_key_bytes attestation_bytes;
         challenge = challenge_for X chain_id registry rp_id key_bytes binding
     in bind_checked (Some (map_err (\<lambda>e. member_label index @ ''proof rejected: '' @ e)
                        (verify_proof X (m_proof m) challenge rp_id key_bytes))) (\<lambda>_.
          verify_members_loop X chain_id registry rp_id group_key_bytes (index + 1) ms)))"

definition parse_registry :: "externs \<Rightarrow> string \<Rightarrow> bytes result" where
  "parse_registry X registry =
     ok_or ''service misconfigured: invalid registry address'' (parse_address X registry)"

definition validate_rp_id :: "string option \<Rightarrow> string result" where
  "validate_rp_id rp_id =
     (case rp_id of
        None \<Rightarrow> Inl ''rpId is required''
      | Some v \<Rightarrow> if v = [] then Inl ''rpId is required''
                  else if 253 < length v then Inl ''rpId exceeds max length (253)''
                  else Inr v)"

definition validate_metadata :: "externs \<Rightarrow> string option \<Rightarrow> string result" where
  "validate_metadata X metadata =
     bind_res (map_err (\<lambda>_. ''metadata must be a valid hex string'')
                (parse_hex_bytes X (unwrap_or [] metadata)))
       (\<lambda>b. if MAX_METADATA_BYTES < length b
            then Inl (''metadata exceeds max length ('' @ decimal MAX_METADATA_BYTES @ '' bytes)'')
            else Inr (hex_or_empty X b))"

definition pending_task ::
  "string \<Rightarrow> task_kind \<Rightarrow> string \<Rightarrow> string \<Rightarrow> string \<Rightarrow> webauthn_proof option \<Rightarrow> member list \<Rightarrow> u64
     \<Rightarrow> register_task" where
  "pending_task new_task_id kind rp_id metadata grp group_proof members now_ms =
     \<lparr>t_id = new_task_id, t_status = Pending, t_kind = kind, t_rp_id = rp_id, t_metadata = metadata,
      t_content_hash = [], t_group_public_key = grp, t_group_proof = group_proof,
      t_members = members, t_tx_hash = None, t_on_chain_id = None, t_error = None, t_retries = 0,
      t_created_at = ucast now_ms, t_admitted = False\<rparr>"

definition validate_register ::
  "externs \<Rightarrow> register_request \<Rightarrow> string \<Rightarrow> u64 \<Rightarrow> u64 \<Rightarrow> string \<Rightarrow> (register_task \<times> string) checked" where
  "validate_register X req new_task_id now_ms chain_id registry =
     bind_checked (Some (parse_registry X registry)) (\<lambda>registry.
     bind_checked (Some (validate_rp_id (rq_rp_id req))) (\<lambda>rp_id.
     bind_checked (Some (validate_metadata X (rq_metadata req))) (\<lambda>metadata.
     bind_checked (Some (case rq_members req of
          None \<Rightarrow> Inl ''members is required (1 to 7 entries)''
        | Some ms \<Rightarrow> if ms = [] then Inl ''members is required (1 to 7 entries)'' else Inr ms)) (\<lambda>members.
     if MAX_MEMBERS < length members
     then Some (Inl (''members must contain 1 to '' @ decimal MAX_MEMBERS @ '' entries''))
     else
     bind_checked (prefix_err ''groupPublicKey: '' (parse_public_key X (rq_group_public_key req))) (\<lambda>grp.
     bind_checked (Some (map_err (\<lambda>m. ''groupProof: '' @ m) (parse_proof (rq_group_proof req)))) (\<lambda>gp.
     bind_checked (parse_members_loop X grp 0 members []) (\<lambda>parsed.
     let task = pending_task new_task_id Register rp_id metadata grp (Some gp) parsed now_ms in
     bind_checked (Some (content_hash_for X task)) (\<lambda>content_hash.
     let task = task\<lparr>t_content_hash := fmt_b256 X content_hash\<rparr> in
     bind_checked (expect (hex_decode X (t_group_public_key task))) (\<lambda>group_key_bytes.
     bind_checked (expect (t_group_proof task)) (\<lambda>group_proof.
     bind_checked (Some (map_err (\<lambda>e. ''groupProof: proof rejected: '' @ e)
         (verify_proof X group_proof
            (challenge_for X chain_id registry (t_rp_id task) group_key_bytes content_hash)
            (t_rp_id task) group_key_bytes))) (\<lambda>_.
     bind_checked (verify_members_loop X chain_id registry (t_rp_id task) group_key_bytes 0 (t_members task)) (\<lambda>_.
       Some (Inr (task, t_content_hash task))))))))))))))"

definition validate_refer ::
  "externs \<Rightarrow> refer_request \<Rightarrow> string \<Rightarrow> u64 \<Rightarrow> u64 \<Rightarrow> string \<Rightarrow> (register_task \<times> string) checked" where
  "validate_refer X req new_task_id now_ms chain_id registry =
     bind_checked (Some (parse_registry X registry)) (\<lambda>registry.
     bind_checked (Some (validate_rp_id (fq_rp_id req))) (\<lambda>rp_id.
     bind_checked (prefix_err ''groupPublicKey: '' (parse_public_key X (fq_group_public_key req))) (\<lambda>grp.
     bind_checked (Some (validate_metadata X (fq_metadata req))) (\<lambda>metadata.
     bind_checked (Some (ok_or ''member is required'' (fq_member req))) (\<lambda>m.
     bind_checked (prefix_err ''member: '' (parse_member X m)) (\<lambda>member.
     if m_public_key member = grp then Some (Inl ''member: the group key cannot also be a member'')
     else
     let task = pending_task new_task_id Refer rp_id metadata grp None [member] now_ms in
     bind_checked (Some (content_hash_for X task)) (\<lambda>content_hash.
     let task = task\<lparr>t_content_hash := fmt_b256 X content_hash\<rparr> in
     bind_checked (expect (hex_decode X (t_group_public_key task))) (\<lambda>group_key_bytes.
     bind_checked (expect (hex_decode X (m_public_key member))) (\<lambda>key_bytes.
     bind_checked (expect (ok_of (parse_hex_bytes X (m_attestation member)))) (\<lambda>attestation_bytes.
     bind_checked (expect (ok_of (parse_hex_bytes X (t_metadata task)))) (\<lambda>metadata_bytes.
     let binding = reference_binding_for X group_key_bytes attestation_bytes metadata_bytes;
         challenge = challenge_for X chain_id registry (t_rp_id task) key_bytes binding
     in bind_checked (Some (map_err (\<lambda>e. ''member: proof rejected: '' @ e)
            (verify_proof X (m_proof member) challenge (t_rp_id task) key_bytes))) (\<lambda>_.
          Some (Inr (task, t_content_hash task))))))))))))))"

section \<open>Canonical tasks\<close>

definition canonical_key :: "externs \<Rightarrow> string \<Rightarrow> bytes \<Rightarrow> bool" where
  "canonical_key X k b = (k = hex_encode X b \<and> uncompressed b \<and> point_ok X b)"

definition attestation_ok :: "bytes \<Rightarrow> bool" where
  "attestation_ok b = (b = [] \<or> length b = 20 \<and> b ! 0 = 1)"

record member_bytes =
  mb_key :: bytes
  mb_attestation :: bytes
  mb_credential_id :: bytes

definition canonical_member :: "externs \<Rightarrow> member \<Rightarrow> member_bytes \<Rightarrow> bool" where
  "canonical_member X m b =
     (canonical_key X (m_public_key m) (mb_key b)
      \<and> m_attestation m = hex_or_empty X (mb_attestation b) \<and> attestation_ok (mb_attestation b)
      \<and> m_credential_id m = hex_or_empty X (mb_credential_id b) \<and> length (mb_credential_id b) \<le> 1023
      \<and> length (m_authenticator_attachment m) \<le> 32 \<and> length (m_transports m) \<le> 255
      \<and> trim (m_authenticator_attachment m) = m_authenticator_attachment m
      \<and> trim (m_transports m) = m_transports m)"

context externs_laws
begin

lemma parse_hex_or_empty [simp]: "parse_hex_bytes X (hex_or_empty X b) = Inr b"
  using parse_hex_encode_0x [of b] hex.dec_enc [of "[]"] hex.enc_Nil [of "[]"]
  by (auto simp: hex_or_empty_def parse_hex_bytes_iff)

lemma first_byte:
  assumes "hex_encode X b = CHR ''0'' # CHR ''4'' # s"
  shows "b ! 0 = 4"
proof -
  obtain x b' where b: "b = x # b'" using assms hex.enc_Nil [of "[]"] by (cases b) auto
  have "hex_digit (unat x div 16) = CHR ''0''" "hex_digit (unat x mod 16) = CHR ''4''"
    using assms hex.enc_Cons [of x b'] by (simp_all add: b)
  moreover have "unat x div 16 < 16" "unat x mod 16 < 16"
    using unsigned_less [of x, where ?'a = nat] by simp_all
  ultimately have "unat x div 16 = 0" "unat x mod 16 = 4"
    using hex_value_digit [of "unat x div 16"] hex_value_digit [of "unat x mod 16"]
    by (simp_all add: hex_value_def)
  then have "unat x = 4" using div_mult_mod_eq [of "unat x" 16] by simp
  then show ?thesis by (simp add: b word_unat_eq_iff)
qed

lemma parse_public_key_Inr:
  assumes "parse_public_key X v = Some (Inr k)"
  shows "\<exists>b. canonical_key X k b"
proof -
  obtain p b where p: "v = Some p" "length (strip_0x p) = 130" "starts_with ''04'' (strip_0x p)"
    "k = to_ascii_lowercase (strip_0x p)" "hex_decode X k = Some b" "point_ok X b"
    using assms
    by (auto simp: parse_public_key_def Let_def bind_checked_Inr expect_Inr
        split: option.splits if_splits)
  have enc: "k = hex_encode X b" using hex.enc_dec [OF p(5)] p(4) by simp
  have "length b = 65" using hex.dec_length [OF p(5)] p(2,4) by (simp add: to_ascii_lowercase_def)
  moreover have "b ! 0 = 4"
  proof -
    obtain s where "strip_0x p = ''04'' @ s" using p(3) by (auto simp: starts_with_iff prefix_def)
    then have "k = CHR ''0'' # CHR ''4'' # to_ascii_lowercase s"
      using p(4) by (simp add: to_ascii_lowercase_def ascii_lower_def Let_def)
    then show ?thesis using first_byte enc by simp
  qed
  ultimately show ?thesis using enc p(6) by (auto simp: canonical_key_def uncompressed_def)
qed

lemma parse_public_key_no_panic [simp]: "parse_public_key X v \<noteq> None"
proof
  assume panic: "parse_public_key X v = None"
  then obtain p where p: "hex_decode X (to_ascii_lowercase (strip_0x p)) = None"
    "length (strip_0x p) = 130" "list_all is_ascii_hexdigit (strip_0x p)"
    by (auto simp: parse_public_key_def Let_def bind_checked_None expect_None
        split: option.splits if_splits)
  then obtain b where "hex_decode X (strip_0x p) = Some b" using hex.dec_total by fastforce
  then show False using hex.dec_lower p(1) by fastforce
qed

lemma canonical_key_decode: "canonical_key X k b \<Longrightarrow> hex_decode X k = Some b"
  by (simp add: canonical_key_def hex.dec_enc)

lemma canonical_key_parse: "canonical_key X k b \<Longrightarrow> parse_hex_bytes X k = Inr b"
  by (simp add: canonical_key_def)

lemma canonical_key_inject: "canonical_key X k b \<Longrightarrow> canonical_key X k' b' \<Longrightarrow> (k = k') = (b = b')"
  by (simp add: canonical_key_def hex.enc_inject)

lemma validate_attestation_Inr:
  "validate_attestation_hex X v = Inr a \<Longrightarrow> \<exists>b. a = hex_or_empty X b \<and> attestation_ok b"
  by (cases "parse_hex_bytes X v")
    (auto simp: validate_attestation_hex_def attestation_ok_def ATTESTATION_BYTES_def
      ATTESTATION_VERSION_def split: if_splits)

lemma normalize_credential_Inr:
  "normalize_credential_id X v = Inr a \<Longrightarrow> \<exists>b. a = hex_or_empty X b \<and> length b \<le> 1023"
  by (cases "parse_hex_bytes X v") (auto simp: normalize_credential_id_def split: if_splits)

lemma parse_member_Inr:
  assumes "parse_member X mq = Some (Inr m)"
  shows "\<exists>b. canonical_member X m b"
proof -
  obtain b1 where "canonical_key X (m_public_key m) b1"
    using assms parse_public_key_Inr by (fastforce simp: parse_member_def bind_checked_Inr)
  moreover obtain b2 where "m_attestation m = hex_or_empty X b2" "attestation_ok b2"
    using assms validate_attestation_Inr by (fastforce simp: parse_member_def bind_checked_Inr)
  moreover obtain b3 where "m_credential_id m = hex_or_empty X b3" "length b3 \<le> 1023"
    using assms normalize_credential_Inr by (fastforce simp: parse_member_def bind_checked_Inr)
  moreover have "length (m_authenticator_attachment m) \<le> 32" "length (m_transports m) \<le> 255"
    "trim (m_authenticator_attachment m) = m_authenticator_attachment m"
    "trim (m_transports m) = m_transports m"
    using assms
    by (auto simp: parse_member_def bind_checked_Inr normalize_hint_def Let_def split: if_splits)
  ultimately show ?thesis
    by (intro exI [of _ "\<lparr>mb_key = b1, mb_attestation = b2, mb_credential_id = b3\<rparr>"])
      (simp add: canonical_member_def)
qed

lemma parse_member_no_panic [simp]: "parse_member X mq \<noteq> None"
proof
  assume "parse_member X mq = None"
  then show False by (auto simp: parse_member_def bind_checked_None)
qed

end

section \<open>Ready tasks\<close>

text \<open>What validation establishes: canonical fields within the contract's bounds, pairwise
  distinct keys, the content hash, and a verifying proof for every key involved.\<close>

definition member_proved ::
  "externs \<Rightarrow> u64 \<Rightarrow> bytes \<Rightarrow> string \<Rightarrow> (bytes \<Rightarrow> bytes) \<Rightarrow> member \<Rightarrow> member_bytes \<Rightarrow> bool" where
  "member_proved X chain_id registry rp_id binding m b =
     (verify_proof X (m_proof m)
        (challenge_for X chain_id registry rp_id (mb_key b) (binding (mb_attestation b)))
        rp_id (mb_key b) = Inr ())"

definition fields_ready ::
  "externs \<Rightarrow> register_task \<Rightarrow> bytes \<Rightarrow> bytes \<Rightarrow> bytes \<Rightarrow> member_bytes list \<Rightarrow> bool" where
  "fields_ready X task metadata grp h bs =
     (t_rp_id task \<noteq> [] \<and> length (t_rp_id task) \<le> 253
      \<and> t_metadata task = hex_or_empty X metadata \<and> length metadata \<le> 2048
      \<and> canonical_key X (t_group_public_key task) grp
      \<and> list_all2 (canonical_member X) (t_members task) bs
      \<and> bs \<noteq> [] \<and> length bs \<le> 7 \<and> distinct (grp # map mb_key bs)
      \<and> content_hash_for X task = Inr h \<and> t_content_hash task = fmt_b256 X h)"

definition register_ready :: "externs \<Rightarrow> u64 \<Rightarrow> bytes \<Rightarrow> register_task \<Rightarrow> bool" where
  "register_ready X chain_id registry task =
     (t_kind task = Register
      \<and> (\<exists>metadata grp h bs gp. fields_ready X task metadata grp h bs
           \<and> t_group_proof task = Some gp
           \<and> verify_proof X gp (challenge_for X chain_id registry (t_rp_id task) grp h)
               (t_rp_id task) grp = Inr ()
           \<and> list_all2 (member_proved X chain_id registry (t_rp_id task) (member_binding_for X grp))
               (t_members task) bs))"

definition refer_ready :: "externs \<Rightarrow> u64 \<Rightarrow> bytes \<Rightarrow> register_task \<Rightarrow> bool" where
  "refer_ready X chain_id registry task =
     (t_kind task = Refer \<and> t_group_proof task = None
      \<and> (\<exists>metadata grp h m b. fields_ready X task metadata grp h [b] \<and> t_members task = [m]
           \<and> member_proved X chain_id registry (t_rp_id task)
               (\<lambda>a. reference_binding_for X grp a metadata) m b))"

definition fresh_task :: "register_task \<Rightarrow> string \<Rightarrow> u64 \<Rightarrow> bool" where
  "fresh_task task new_task_id now_ms =
     (t_id task = new_task_id \<and> t_status task = Pending \<and> \<not> t_admitted task \<and> t_retries task = 0
      \<and> t_tx_hash task = None \<and> t_on_chain_id task = None \<and> t_error task = None
      \<and> t_created_at task = ucast now_ms)"

lemma content_hash_ignores [simp]:
  "content_hash_for X (task\<lparr>t_content_hash := h\<rparr>) = content_hash_for X task"
  by (simp add: content_hash_for_def cong: task_kind.case_cong list.case_cong)

context externs_laws
begin

lemma parse_members_loop_Inr:
  "parse_members_loop X grp i mqs parsed = Some (Inr ms) \<Longrightarrow>
     \<exists>new. ms = parsed @ new \<and> length new = length mqs
       \<and> (\<forall>m \<in> set new. m_public_key m \<noteq> grp \<and> (\<exists>b. canonical_member X m b))
       \<and> (distinct (map m_public_key parsed) \<longrightarrow> distinct (map m_public_key ms))"
proof (induction mqs arbitrary: i parsed)
  case (Cons mq mqs)
  then obtain m where m: "parse_member X mq = Some (Inr m)" "m_public_key m \<noteq> grp"
    "\<not> list_ex (\<lambda>e. m_public_key e = m_public_key m) parsed"
    "parse_members_loop X grp (i + 1) mqs (parsed @ [m]) = Some (Inr ms)"
    by (auto simp: bind_checked_Inr prefix_err_Inr split: if_splits)
  obtain new where new: "ms = (parsed @ [m]) @ new" "length new = length mqs"
    "\<forall>m \<in> set new. m_public_key m \<noteq> grp \<and> (\<exists>b. canonical_member X m b)"
    "distinct (map m_public_key (parsed @ [m])) \<longrightarrow> distinct (map m_public_key ms)"
    using Cons.IH [OF m(4)] by blast
  show ?case
    using new m parse_member_Inr [OF m(1)]
    by (intro exI [of _ "m # new"]) (auto simp: list_ex_iff)
qed simp

lemma parse_members_loop_no_panic [simp]: "parse_members_loop X grp i mqs parsed \<noteq> None"
proof (induction mqs arbitrary: i parsed)
  case (Cons mq mqs)
  show ?case
  proof
    assume "parse_members_loop X grp i (mq # mqs) parsed = None"
    then obtain m where "parse_members_loop X grp (i + 1) mqs (parsed @ [m]) = None"
      by (auto simp: bind_checked_None prefix_err_None split: if_splits)
    then show False using Cons.IH by blast
  qed
qed simp

lemma canonical_members_exist:
  "\<forall>m \<in> set ms. \<exists>b. canonical_member X m b \<Longrightarrow> \<exists>bs. list_all2 (canonical_member X) ms bs"
proof (induction ms)
  case (Cons m ms)
  then obtain b bs where "canonical_member X m b" "list_all2 (canonical_member X) ms bs" by auto
  then show ?case by blast
qed blast

lemma canonical_member_key: "canonical_member X m b \<Longrightarrow> m_public_key m = hex_encode X (mb_key b)"
  by (simp add: canonical_member_def canonical_key_def)

lemma canonical_members_keys:
  "list_all2 (canonical_member X) ms bs \<Longrightarrow> map m_public_key ms = map (hex_encode X) (map mb_key bs)"
  by (induction rule: list_all2_induct) (simp_all add: canonical_member_key)

lemma hex_encode_distinct: "distinct (map (hex_encode X) bs) = distinct bs"
  by (auto simp: distinct_map hex.enc_inject inj_on_def)

lemma verify_members_loop_Inr:
  "verify_members_loop X chain_id registry rp_id grp i ms = Some (Inr u) \<Longrightarrow>
     list_all2 (canonical_member X) ms bs \<Longrightarrow>
     list_all2 (member_proved X chain_id registry rp_id (member_binding_for X grp)) ms bs"
proof (induction ms arbitrary: i bs)
  case (Cons m ms)
  obtain b bs' where bs: "bs = b # bs'" "canonical_member X m b" "list_all2 (canonical_member X) ms bs'"
    using Cons.prems(2) by (auto simp: list_all2_Cons1)
  have "hex_decode X (m_public_key m) = Some (mb_key b)"
    "parse_hex_bytes X (m_attestation m) = Inr (mb_attestation b)"
    using bs(2) canonical_key_decode by (auto simp: canonical_member_def)
  then have step: "member_proved X chain_id registry rp_id (member_binding_for X grp) m b"
    "verify_members_loop X chain_id registry rp_id grp (i + 1) ms = Some (Inr u)"
    using Cons.prems(1)
    by (auto simp: Let_def bind_checked_Inr member_proved_def map_err_def split: sum.splits)
  show ?case using Cons.IH [OF step(2) bs(3)] step(1) bs(1) by simp
qed simp

lemma verify_members_loop_no_panic:
  "list_all2 (canonical_member X) ms bs \<Longrightarrow>
     verify_members_loop X chain_id registry rp_id grp i ms \<noteq> None"
proof (induction ms arbitrary: i bs)
  case (Cons m ms)
  obtain b bs' where bs: "bs = b # bs'" "canonical_member X m b" "list_all2 (canonical_member X) ms bs'"
    using Cons.prems by (auto simp: list_all2_Cons1)
  have "hex_decode X (m_public_key m) = Some (mb_key b)"
    "parse_hex_bytes X (m_attestation m) = Inr (mb_attestation b)"
    using bs(2) canonical_key_decode by (auto simp: canonical_member_def)
  then show ?case using Cons.IH [OF bs(3)] by (auto simp: Let_def bind_checked_def split: sum.splits)
qed simp

lemma validate_metadata_Inr:
  "validate_metadata X v = Inr m \<Longrightarrow> \<exists>b. m = hex_or_empty X b \<and> length b \<le> 2048"
  by (cases "parse_hex_bytes X (unwrap_or [] v)")
    (auto simp: validate_metadata_def MAX_METADATA_BYTES_def split: if_splits)

end

lemma validate_rp_id_Inr: "validate_rp_id v = Inr r \<Longrightarrow> r \<noteq> [] \<and> length r \<le> 253"
  by (auto simp: validate_rp_id_def split: option.splits if_splits)

section \<open>Validation is sound and never panics\<close>

context externs_laws
begin

lemma validate_register_sound:
  assumes "validate_register X req new_task_id now_ms chain_id registry = Some (Inr (task, ch))"
  shows "\<exists>a. parse_address X registry = Some a \<and> register_ready X chain_id a task
    \<and> fresh_task task new_task_id now_ms \<and> ch = t_content_hash task"
proof -
  let ?t = "\<lambda>rp_id metadata grp gp ms.
    pending_task new_task_id Register rp_id metadata grp (Some gp) ms now_ms"
  obtain a rp_id metadata mqs grp gp ms h g u v where
    r: "parse_registry X registry = Inr a" "validate_rp_id (rq_rp_id req) = Inr rp_id"
      "validate_metadata X (rq_metadata req) = Inr metadata"
      "mqs \<noteq> []" "length mqs \<le> 7"
      "parse_public_key X (rq_group_public_key req) = Some (Inr grp)"
      "parse_members_loop X grp 0 mqs [] = Some (Inr ms)"
      "content_hash_for X (?t rp_id metadata grp gp ms) = Inr h"
      "hex_decode X grp = Some g"
      "verify_proof X gp (challenge_for X chain_id a rp_id g h) rp_id g = Inr u"
      "verify_members_loop X chain_id a rp_id g 0 ms = Some (Inr v)"
      "task = (?t rp_id metadata grp gp ms)\<lparr>t_content_hash := fmt_b256 X h\<rparr>"
      "ch = t_content_hash task"
    using assms
    unfolding validate_register_def
    by (auto simp: bind_checked_Inr prefix_err_Inr expect_Inr Let_def map_err_Inr MAX_MEMBERS_def
        pending_task_def not_less split: if_splits option.splits)
  have members: "length ms = length mqs"
    "\<forall>m \<in> set ms. m_public_key m \<noteq> grp \<and> (\<exists>b. canonical_member X m b)" "distinct (map m_public_key ms)"
    using parse_members_loop_Inr [OF r(7)] by auto
  obtain bs where bs: "list_all2 (canonical_member X) ms bs"
    using canonical_members_exist members(2) by blast
  obtain md where md: "metadata = hex_or_empty X md" "length md \<le> 2048"
    using validate_metadata_Inr [OF r(3)] by blast
  have key: "canonical_key X grp g"
    using parse_public_key_Inr [OF r(6)] canonical_key_decode r(9) by fastforce
  have keys: "distinct (g # map mb_key bs)"
  proof -
    have "distinct (map mb_key bs)"
      using members(3) canonical_members_keys [OF bs] hex_encode_distinct [of "map mb_key bs"]
      by (simp only:)
    moreover have "grp \<notin> set (map (hex_encode X) (map mb_key bs))"
      using members(2) canonical_members_keys [OF bs, symmetric] by auto
    ultimately show ?thesis
      using key by (auto simp: canonical_key_def)
  qed
  have hash: "content_hash_for X task = Inr h" using r(8) by (simp only: r(12) content_hash_ignores)
  have "fields_ready X task md g h bs"
    using r(4,5,12) hash md key keys bs members(1) list_all2_lengthD [OF bs] validate_rp_id_Inr [OF r(2)]
    by (auto simp: fields_ready_def pending_task_def)
  moreover have "list_all2 (member_proved X chain_id a rp_id (member_binding_for X g)) ms bs"
    using verify_members_loop_Inr [OF r(11) bs] .
  moreover have fields: "t_kind task = Register" "t_rp_id task = rp_id" "t_members task = ms"
    "t_group_proof task = Some gp"
    using r(12) by (simp_all add: pending_task_def)
  ultimately have "register_ready X chain_id a task"
    using r(10) unfolding register_ready_def fields by auto
  moreover have "parse_address X registry = Some a"
    using r(1) by (cases "parse_address X registry") (simp_all add: parse_registry_def)
  moreover have "fresh_task task new_task_id now_ms"
    using r(12) by (simp add: fresh_task_def pending_task_def)
  ultimately show ?thesis using r(13) by blast
qed

lemma validate_refer_sound:
  assumes "validate_refer X req new_task_id now_ms chain_id registry = Some (Inr (task, ch))"
  shows "\<exists>a. parse_address X registry = Some a \<and> refer_ready X chain_id a task
    \<and> fresh_task task new_task_id now_ms \<and> ch = t_content_hash task"
proof -
  let ?t = "\<lambda>rp_id metadata grp m. pending_task new_task_id Refer rp_id metadata grp None [m] now_ms"
  obtain a rp_id metadata mq grp m h g k att md u where
    r: "parse_registry X registry = Inr a" "validate_rp_id (fq_rp_id req) = Inr rp_id"
      "validate_metadata X (fq_metadata req) = Inr metadata"
      "parse_public_key X (fq_group_public_key req) = Some (Inr grp)"
      "parse_member X mq = Some (Inr m)" "m_public_key m \<noteq> grp"
      "content_hash_for X (?t rp_id metadata grp m) = Inr h"
      "hex_decode X grp = Some g" "hex_decode X (m_public_key m) = Some k"
      "ok_of (parse_hex_bytes X (m_attestation m)) = Some att"
      "ok_of (parse_hex_bytes X metadata) = Some md"
      "verify_proof X (m_proof m)
         (challenge_for X chain_id a rp_id k (reference_binding_for X g att md)) rp_id k = Inr u"
      "task = (?t rp_id metadata grp m)\<lparr>t_content_hash := fmt_b256 X h\<rparr>"
      "ch = t_content_hash task"
    using assms
    unfolding validate_refer_def
    by (auto simp: bind_checked_Inr prefix_err_Inr expect_Inr Let_def map_err_Inr
        pending_task_def split: if_splits option.splits)
  obtain md' where md': "metadata = hex_or_empty X md'" "length md' \<le> 2048"
    using validate_metadata_Inr [OF r(3)] by blast
  then have md: "metadata = hex_or_empty X md" "length md \<le> 2048" using r(11) by auto
  have key: "canonical_key X grp g"
    using parse_public_key_Inr [OF r(4)] canonical_key_decode r(8) by fastforce
  obtain b where b: "canonical_member X m b" using parse_member_Inr [OF r(5)] by blast
  have kb: "k = mb_key b" "att = mb_attestation b"
    using b r(9,10) canonical_key_decode by (auto simp: canonical_member_def)
  have "g \<noteq> mb_key b" using r(6) key b by (auto simp: canonical_key_def canonical_member_def)
  moreover have "content_hash_for X task = Inr h"
    using r(7) by (simp only: r(13) content_hash_ignores)
  ultimately have "fields_ready X task md g h [b]"
    using r(13) md key b validate_rp_id_Inr [OF r(2)] by (auto simp: fields_ready_def pending_task_def)
  moreover have "member_proved X chain_id a rp_id (\<lambda>a. reference_binding_for X g a md) m b"
    using r(12) by (simp add: member_proved_def kb)
  moreover have fields: "t_kind task = Refer" "t_rp_id task = rp_id" "t_members task = [m]"
    "t_group_proof task = None"
    using r(13) by (simp_all add: pending_task_def)
  ultimately have "refer_ready X chain_id a task"
    unfolding refer_ready_def fields by auto
  moreover have "parse_address X registry = Some a"
    using r(1) by (cases "parse_address X registry") (simp_all add: parse_registry_def)
  moreover have "fresh_task task new_task_id now_ms"
    using r(13) by (simp add: fresh_task_def pending_task_def)
  ultimately show ?thesis using r(14) by blast
qed

lemma validate_register_no_panic: "validate_register X req new_task_id now_ms chain_id registry \<noteq> None"
proof
  assume "validate_register X req new_task_id now_ms chain_id registry = None"
  then obtain a rp_id grp mqs ms g where
    r: "parse_public_key X (rq_group_public_key req) = Some (Inr grp)"
    "parse_members_loop X grp 0 mqs [] = Some (Inr ms)"
    "hex_decode X grp = None \<or> verify_members_loop X chain_id a rp_id g 0 ms = None"
    unfolding validate_register_def
    by (auto simp: bind_checked_None prefix_err_Inr prefix_err_None expect_Inr expect_None Let_def
        map_err_Inr pending_task_def split: if_splits option.splits)
  obtain bs where "list_all2 (canonical_member X) ms bs"
    using parse_members_loop_Inr [OF r(2)] canonical_members_exist [of ms] by auto
  moreover obtain g where "hex_decode X grp = Some g"
    using parse_public_key_Inr [OF r(1)] canonical_key_decode by blast
  ultimately show False
    using r(3) verify_members_loop_no_panic by simp
qed

lemma validate_refer_no_panic: "validate_refer X req new_task_id now_ms chain_id registry \<noteq> None"
proof
  assume "validate_refer X req new_task_id now_ms chain_id registry = None"
  then obtain grp mq m metadata where
    r: "parse_public_key X (fq_group_public_key req) = Some (Inr grp)"
    "parse_member X mq = Some (Inr m)" "validate_metadata X (fq_metadata req) = Inr metadata"
    "hex_decode X grp = None \<or> hex_decode X (m_public_key m) = None
     \<or> ok_of (parse_hex_bytes X (m_attestation m)) = None \<or> ok_of (parse_hex_bytes X metadata) = None"
    unfolding validate_refer_def
    by (auto simp: bind_checked_None prefix_err_Inr prefix_err_None expect_Inr expect_None Let_def
        map_err_Inr pending_task_def split: if_splits option.splits)
  obtain b where "canonical_member X m b" using parse_member_Inr [OF r(2)] by blast
  moreover obtain md where "metadata = hex_or_empty X md" using validate_metadata_Inr [OF r(3)] by blast
  moreover obtain g where "canonical_key X grp g" using parse_public_key_Inr [OF r(1)] by blast
  ultimately show False
    using r(4) canonical_key_decode by (fastforce simp: canonical_member_def)
qed

end

section \<open>Validation accepts every ready task\<close>

text \<open>The request that carries a task's own fields.\<close>

definition proof_request_of :: "webauthn_proof \<Rightarrow> proof_request" where
  "proof_request_of p =
     \<lparr>pq_authenticator_data = Some (pf_authenticator_data p),
      pq_client_data_json = Some (pf_client_data_json p),
      pq_challenge_index = Some (pf_challenge_index p), pq_type_index = Some (pf_type_index p),
      pq_r = Some (pf_r p), pq_s = Some (pf_s p)\<rparr>"

definition member_request_of :: "member \<Rightarrow> member_request" where
  "member_request_of m =
     \<lparr>mq_public_key = Some (m_public_key m), mq_attestation = Some (m_attestation m),
      mq_credential_id = Some (m_credential_id m),
      mq_authenticator_attachment = Some (m_authenticator_attachment m),
      mq_transports = Some (m_transports m), mq_proof = Some (proof_request_of (m_proof m))\<rparr>"

definition register_request_of :: "register_task \<Rightarrow> register_request" where
  "register_request_of task =
     \<lparr>rq_rp_id = Some (t_rp_id task), rq_metadata = Some (t_metadata task),
      rq_group_public_key = Some (t_group_public_key task),
      rq_group_proof = map_option proof_request_of (t_group_proof task),
      rq_members = Some (map member_request_of (t_members task))\<rparr>"

definition refer_request_of :: "register_task \<Rightarrow> refer_request" where
  "refer_request_of task =
     \<lparr>fq_rp_id = Some (t_rp_id task), fq_group_public_key = Some (t_group_public_key task),
      fq_metadata = Some (t_metadata task),
      fq_member = map_option member_request_of (case t_members task of [] \<Rightarrow> None | m # _ \<Rightarrow> Some m)\<rparr>"

lemma parse_proof_request [simp]: "parse_proof (Some (proof_request_of p)) = Inr p"
  by (simp add: parse_proof_def proof_request_of_def)

context externs_laws
begin

lemma parse_public_key_canonical:
  assumes "canonical_key X k b"
  shows "parse_public_key X (Some k) = Some (Inr k)"
proof -
  obtain b' where b: "b = 4 # b'" "length b' = 64"
    using assms by (cases b) (auto simp: canonical_key_def uncompressed_def)
  have k: "k = hex_encode X b" using assms by (simp add: canonical_key_def)
  have "k = CHR ''0'' # CHR ''4'' # hex_encode X b'"
  proof -
    have "hex_digit 0 = CHR ''0''" "hex_digit 4 = CHR ''4''" by code_simp+
    then show ?thesis using hex.enc_Cons [of 4 b'] by (simp add: k b)
  qed
  then have "starts_with ''04'' k" by (simp add: starts_with_iff)
  moreover have "strip_0x k = k" unfolding k by (intro lower_hex_no_x hex.enc_lower)
  moreover have "to_ascii_lowercase k = k" unfolding k
    by (intro to_ascii_lowercase_fixed hex.enc_lower)
  moreover have "list_all is_ascii_hexdigit k" unfolding k by (rule hex.enc_hexdigits)
  moreover have "length k = 130" using b by (simp add: k hex.length_enc)
  moreover have "hex_decode X k = Some b" by (rule canonical_key_decode [OF assms])
  moreover have "point_ok X b" using assms by (simp add: canonical_key_def)
  ultimately show ?thesis by (simp add: parse_public_key_def Let_def)
qed

lemma parse_member_canonical:
  assumes "canonical_member X m b"
  shows "parse_member X (member_request_of m) = Some (Inr m)"
proof -
  have "validate_attestation_hex X (m_attestation m) = Inr (m_attestation m)"
    using assms
    by (auto simp: canonical_member_def validate_attestation_hex_def attestation_ok_def
        ATTESTATION_BYTES_def ATTESTATION_VERSION_def)
  moreover have "normalize_credential_id X (m_credential_id m) = Inr (m_credential_id m)"
    using assms by (simp add: canonical_member_def normalize_credential_id_def)
  moreover have "normalize_hint (m_authenticator_attachment m) 32 f = Inr (m_authenticator_attachment m)"
    "normalize_hint (m_transports m) 255 f = Inr (m_transports m)" for f
    using assms by (simp_all add: canonical_member_def normalize_hint_def)
  moreover have "parse_public_key X (Some (m_public_key m)) = Some (Inr (m_public_key m))"
    using assms parse_public_key_canonical by (auto simp: canonical_member_def)
  ultimately show ?thesis by (simp add: parse_member_def member_request_of_def)
qed

lemma parse_members_loop_canonical:
  "list_all2 (canonical_member X) ms bs \<Longrightarrow> distinct (map m_public_key (parsed @ ms)) \<Longrightarrow>
   grp \<notin> m_public_key ` set ms \<Longrightarrow>
   parse_members_loop X grp i (map member_request_of ms) parsed = Some (Inr (parsed @ ms))"
proof (induction ms arbitrary: i bs parsed)
  case (Cons m ms)
  obtain b bs' where bs: "bs = b # bs'" "canonical_member X m b" "list_all2 (canonical_member X) ms bs'"
    using Cons.prems(1) by (auto simp: list_all2_Cons1)
  have "\<not> list_ex (\<lambda>e. m_public_key e = m_public_key m) parsed"
  proof -
    have "m_public_key m \<notin> set (map m_public_key parsed)" using Cons.prems(2) by auto
    then show ?thesis unfolding list_ex_iff by (metis image_eqI set_map)
  qed
  then show ?case
    using Cons.IH [OF bs(3), of "parsed @ [m]" "i + 1"] Cons.prems(2,3)
      parse_member_canonical [OF bs(2)]
    by auto
qed simp

lemma verify_members_loop_ok:
  "list_all2 (canonical_member X) ms bs \<Longrightarrow>
   list_all2 (member_proved X chain_id registry rp_id (member_binding_for X grp)) ms bs \<Longrightarrow>
   verify_members_loop X chain_id registry rp_id grp i ms = Some (Inr ())"
proof (induction ms arbitrary: i bs)
  case (Cons m ms)
  obtain b bs' where bs: "bs = b # bs'" "canonical_member X m b" "list_all2 (canonical_member X) ms bs'"
    "member_proved X chain_id registry rp_id (member_binding_for X grp) m b"
    "list_all2 (member_proved X chain_id registry rp_id (member_binding_for X grp)) ms bs'"
    using Cons.prems by (auto simp: list_all2_Cons1)
  have "hex_decode X (m_public_key m) = Some (mb_key b)"
    "parse_hex_bytes X (m_attestation m) = Inr (mb_attestation b)"
    using bs(2) canonical_key_decode by (auto simp: canonical_member_def)
  then show ?case using Cons.IH [OF bs(3,5)] bs(4) by (simp add: Let_def member_proved_def)
qed simp

lemma fresh_task_eq:
  assumes "fresh_task task new_task_id now_ms"
  shows "task = (pending_task new_task_id (t_kind task) (t_rp_id task) (t_metadata task)
     (t_group_public_key task) (t_group_proof task) (t_members task) now_ms)
     \<lparr>t_content_hash := t_content_hash task\<rparr>"
  using assms by (cases task) (simp add: fresh_task_def pending_task_def)

lemma fields_ready_parts:
  assumes "fields_ready X task metadata grp h bs"
  shows "validate_rp_id (Some (t_rp_id task)) = Inr (t_rp_id task)"
    and "validate_metadata X (Some (t_metadata task)) = Inr (t_metadata task)"
    and "distinct (map m_public_key (t_members task))"
    and "t_group_public_key task \<notin> m_public_key ` set (t_members task)"
proof -
  show "validate_rp_id (Some (t_rp_id task)) = Inr (t_rp_id task)"
    "validate_metadata X (Some (t_metadata task)) = Inr (t_metadata task)"
    using assms by (simp_all add: fields_ready_def validate_rp_id_def validate_metadata_def
        MAX_METADATA_BYTES_def)
  have keys: "map m_public_key (t_members task) = map (hex_encode X) (map mb_key bs)"
    using assms canonical_members_keys by (auto simp: fields_ready_def)
  show "distinct (map m_public_key (t_members task))"
    using assms hex_encode_distinct [of "map mb_key bs"] unfolding keys by (simp add: fields_ready_def)
  have "set (map m_public_key (t_members task)) = hex_encode X ` mb_key ` set bs"
    unfolding keys by auto
  then show "t_group_public_key task \<notin> m_public_key ` set (t_members task)"
    using assms by (auto simp: fields_ready_def canonical_key_def hex.enc_inject)
qed

lemma validate_register_complete:
  assumes "register_ready X chain_id a task" "fresh_task task new_task_id now_ms"
    and "parse_address X registry = Some a"
  shows "validate_register X (register_request_of task) new_task_id now_ms chain_id registry
    = Some (Inr (task, t_content_hash task))"
proof -
  let ?t = "pending_task new_task_id Register (t_rp_id task) (t_metadata task)
     (t_group_public_key task) (t_group_proof task) (t_members task) now_ms"
  obtain metadata grp h bs gp where ready: "fields_ready X task metadata grp h bs"
    "t_group_proof task = Some gp"
    "verify_proof X gp (challenge_for X chain_id a (t_rp_id task) grp h) (t_rp_id task) grp = Inr ()"
    "list_all2 (member_proved X chain_id a (t_rp_id task) (member_binding_for X grp)) (t_members task) bs"
    and kind: "t_kind task = Register"
    using assms(1) by (auto simp: register_ready_def)
  have task: "task = ?t\<lparr>t_content_hash := fmt_b256 X h\<rparr>"
  proof -
    have ch: "t_content_hash task = fmt_b256 X h" using ready(1) by (simp add: fields_ready_def)
    show ?thesis using fresh_task_eq [OF assms(2)] unfolding kind ch .
  qed
  have members: "list_all2 (canonical_member X) (t_members task) bs" "t_members task \<noteq> []"
    "length (t_members task) \<le> 7"
    using ready(1) by (auto simp: fields_ready_def dest: list_all2_lengthD)
  have key: "canonical_key X (t_group_public_key task) grp" using ready(1) by (simp add: fields_ready_def)
  have hash: "content_hash_for X ?t = Inr h"
  proof -
    have "content_hash_for X task = Inr h" using ready(1) by (simp add: fields_ready_def)
    then show ?thesis by (subst (asm) task) simp
  qed
  have loop: "parse_members_loop X (t_group_public_key task) 0 (map member_request_of (t_members task)) []
      = Some (Inr (t_members task))"
    using parse_members_loop_canonical [OF members(1), of "[]"] fields_ready_parts(3,4) [OF ready(1)] by simp
  have "t_group_proof ?t = Some gp" "t_group_public_key ?t = t_group_public_key task"
    "t_rp_id ?t = t_rp_id task" "t_members ?t = t_members task"
    using ready(2) by (simp_all add: pending_task_def)
  note parts = this
  have "validate_register X (register_request_of task) new_task_id now_ms chain_id registry =
      Some (Inr (?t\<lparr>t_content_hash := fmt_b256 X h\<rparr>, fmt_b256 X h))"
    using fields_ready_parts(1,2) [OF ready(1)] members(2,3) loop hash ready(3)
      parse_public_key_canonical [OF key] canonical_key_decode [OF key]
      verify_members_loop_ok [OF members(1) ready(4)] assms(3)
    by (simp add: validate_register_def register_request_of_def parse_registry_def MAX_MEMBERS_def
        Let_def ready(2) parts [unfolded ready(2)])
  then show ?thesis using ready(1) unfolding task [symmetric] by (simp add: fields_ready_def)
qed

lemma validate_refer_complete:
  assumes "refer_ready X chain_id a task" "fresh_task task new_task_id now_ms"
    and "parse_address X registry = Some a"
  shows "validate_refer X (refer_request_of task) new_task_id now_ms chain_id registry
    = Some (Inr (task, t_content_hash task))"
proof -
  obtain metadata grp h m b where ready: "fields_ready X task metadata grp h [b]"
    "t_members task = [m]"
    "member_proved X chain_id a (t_rp_id task) (\<lambda>a. reference_binding_for X grp a metadata) m b"
    and kind: "t_kind task = Refer" "t_group_proof task = None"
    using assms(1) by (auto simp: refer_ready_def)
  let ?t = "pending_task new_task_id Refer (t_rp_id task) (t_metadata task)
     (t_group_public_key task) None [m] now_ms"
  have task: "task = ?t\<lparr>t_content_hash := fmt_b256 X h\<rparr>"
  proof -
    have ch: "t_content_hash task = fmt_b256 X h" using ready(1) by (simp add: fields_ready_def)
    show ?thesis using fresh_task_eq [OF assms(2)] unfolding kind ready(2) ch .
  qed
  have key: "canonical_key X (t_group_public_key task) grp" using ready(1) by (simp add: fields_ready_def)
  have member: "canonical_member X m b" using ready(1,2) by (simp add: fields_ready_def)
  have parsed: "hex_decode X (m_public_key m) = Some (mb_key b)"
    "parse_hex_bytes X (m_attestation m) = Inr (mb_attestation b)"
    "parse_hex_bytes X (t_metadata task) = Inr metadata"
    using member ready(1) canonical_key_decode by (auto simp: canonical_member_def fields_ready_def)
  have hash: "content_hash_for X ?t = Inr h"
  proof -
    have "content_hash_for X task = Inr h" using ready(1) by (simp add: fields_ready_def)
    then show ?thesis by (subst (asm) task) simp
  qed
  have "m_public_key m \<noteq> t_group_public_key task" using fields_ready_parts(4) [OF ready(1)] ready(2) by auto
  moreover have "t_metadata ?t = t_metadata task" "t_group_public_key ?t = t_group_public_key task"
    "t_rp_id ?t = t_rp_id task"
    by (simp_all add: pending_task_def)
  ultimately have "validate_refer X (refer_request_of task) new_task_id now_ms chain_id registry =
      Some (Inr (?t\<lparr>t_content_hash := fmt_b256 X h\<rparr>, fmt_b256 X h))"
    using fields_ready_parts(1,2) [OF ready(1)] hash ready(3) parsed
      parse_public_key_canonical [OF key] canonical_key_decode [OF key]
      parse_member_canonical [OF member] assms(3)
    by (simp add: validate_refer_def refer_request_of_def parse_registry_def ready(2)
        Let_def member_proved_def)
  then show ?thesis using ready(1) unfolding task [symmetric] by (simp add: fields_ready_def)
qed

end

end
