(* ===== verification/Samples.thy ===== *)
theory Samples
  imports Validation
begin

text \<open>
  Concrete data under the reference externs: two curve points, a proof that verifies for a given
  challenge, and a ready register task and refer task.  The theorems with hypotheses are applied
  to them.
\<close>

section \<open>Keys\<close>

text \<open>The P-256 generator and its double.\<close>

definition point_key :: "nat \<Rightarrow> nat \<Rightarrow> bytes" where
  "point_key x y = 4 # be_bytes 32 x @ be_bytes 32 y"

definition key_1 :: bytes where
  "key_1 = point_key
     0x6B17D1F2E12C4247F8BCE6E563A440F277037D812DEB33A0F4A13945D898C296
     0x4FE342E2FE1A7F9B8EE7EB4A7C0F9E162BCE33576B315ECECBB6406837BF51F5"

definition key_2 :: bytes where
  "key_2 = point_key
     0x7CF27B188D034F7E8A52380304B51AC3C08969E277F21B35A60B48FC47669978
     0x07775510DB8ED040293D9AC69F7430DBBA7DADE63CE982299E04B79D227873D1"

lemma point_key_coordinates:
  "x < 2 ^ 256 \<Longrightarrow> y < 2 ^ 256 \<Longrightarrow>
     uncompressed (point_key x y) \<and> key_x (point_key x y) = x \<and> key_y (point_key x y) = y"
  by (simp add: point_key_def uncompressed_def key_x_def key_y_def length_be_bytes be_value_be_bytes)

lemma key_1_ok: "uncompressed key_1" "on_curve (key_x key_1) (key_y key_1)"
  by (simp_all add: key_1_def point_key_coordinates on_curve_def P256_P_def P256_B_def)

lemma key_2_ok: "uncompressed key_2" "on_curve (key_x key_2) (key_y key_2)"
  by (simp_all add: key_2_def point_key_coordinates on_curve_def P256_P_def P256_B_def)

lemma keys_differ: "key_1 \<noteq> key_2"
proof
  assume "key_1 = key_2"
  then have "key_x key_1 = key_x key_2" by simp
  then show False by (simp add: key_1_def key_2_def point_key_coordinates)
qed

section \<open>Proofs\<close>

definition ref_proof :: "string \<Rightarrow> bytes \<Rightarrow> webauthn_proof" where
  "ref_proof rp_id challenge =
     \<lparr>pf_authenticator_data = ref_hex_encode (ref_digest (as_bytes rp_id) @ [1, 0, 0, 0, 0]),
      pf_client_data_json = type_marker @ '','' @ challenge_marker challenge,
      pf_challenge_index = 22, pf_type_index = 0,
      pf_r = ref_hex_encode (replicate 32 1), pf_s = ref_hex_encode (replicate 32 1)\<rparr>"

lemma length_ref_digest [simp]: "length (ref_digest b) = 32"
  by (simp add: ref_digest_def)

lemma ref_fields [simp]:
  "hex_encode ref_externs = ref_hex_encode" "sha256 ref_externs = ref_digest"
  "keccak256 ref_externs = ref_digest"
  "scalars_ok ref_externs r s = (r \<noteq> [] \<and> s \<noteq> [])"
  "verify_prehash ref_externs key digest r s = (length digest = 32)"
  "vkey_ok ref_externs key = (uncompressed key \<and> on_curve (key_x key) (key_y key))"
  "point_ok ref_externs key = (uncompressed key \<and> on_curve (key_x key) (key_y key))"
  by (simp_all add: ref_externs_def)

lemma ref_parse_hex [simp]: "parse_hex_bytes ref_externs (ref_hex_encode b) = Inr b"
  using ref.parse_hex_encode [of b] by simp

lemma type_marker_length: "length type_marker = 21"
  by (simp add: type_marker_def)

lemma ref_proof_verifies:
  assumes "uncompressed key" "on_curve (key_x key) (key_y key)" "length challenge = 32"
  shows "verify_proof ref_externs (ref_proof rp_id challenge) challenge rp_id key = Inr ()"
proof -
  let ?data = "as_bytes (type_marker @ '','' @ challenge_marker challenge)"
  have len: "length ?data < 2 ^ 64"
    by (simp add: type_marker_length length_challenge_marker [OF assms(3)])
  have split: "?data = [] @ as_bytes type_marker @ as_bytes ('','' @ challenge_marker challenge)"
    "?data = as_bytes (type_marker @ '','') @ as_bytes (challenge_marker challenge) @ []"
    by (simp_all add: as_bytes_def)
  have "check_substring ?data 0 (as_bytes type_marker)"
    unfolding check_substring_iff [OF len]
    by (rule exI [of _ "[]"], rule exI [of _ "as_bytes ('','' @ challenge_marker challenge)"])
      (use split(1) in simp)
  moreover have "check_substring ?data 22 (as_bytes (challenge_marker challenge))"
    unfolding check_substring_iff [OF len]
    by (rule exI [of _ "as_bytes (type_marker @ '','')"], rule exI [of _ "[]"])
      (use split(2) in \<open>simp add: type_marker_length\<close>)
  ultimately show ?thesis
    using assms
    by (simp add: verify_proof_iff ref_proof_def parse_b256_iff nth_append)
qed

section \<open>Tasks\<close>

definition sample_chain :: u64 where "sample_chain = 100"
definition sample_registry :: bytes where "sample_registry = replicate 20 0"
definition sample_registry_text :: string where "sample_registry_text = ''0x'' @ ref_hex_encode sample_registry"
definition sample_rp :: string where "sample_rp = ''a.io''"

definition sample_content :: content where
  "sample_content = (sample_rp, [], key_2, [(key_1, [])])"

definition sample_hash :: bytes where
  "sample_hash = keccak256 ref_externs (content_preimage ref_externs sample_content)"

definition sample_member :: "(bytes \<Rightarrow> bytes) \<Rightarrow> member" where
  "sample_member binding =
     \<lparr>m_public_key = ref_hex_encode key_1, m_attestation = [],
      m_credential_id = ''0x'' @ ref_hex_encode [1, 2], m_authenticator_attachment = [],
      m_transports = [],
      m_proof = ref_proof sample_rp
        (challenge_for ref_externs sample_chain sample_registry sample_rp key_1 (binding []))\<rparr>"

definition sample_register :: register_task where
  "sample_register =
     (pending_task ''t1'' Register sample_rp [] (ref_hex_encode key_2)
        (Some (ref_proof sample_rp
           (challenge_for ref_externs sample_chain sample_registry sample_rp key_2 sample_hash)))
        [sample_member (member_binding_for ref_externs key_2)] 7)
       \<lparr>t_content_hash := fmt_b256 ref_externs sample_hash\<rparr>"

definition sample_refer_hash :: bytes where
  "sample_refer_hash =
     keccak256 ref_externs (abi_encode_params ref_externs [AbiBytes key_2, AbiBytes key_1])"

definition sample_refer :: register_task where
  "sample_refer =
     (pending_task ''t2'' Refer sample_rp [] (ref_hex_encode key_2) None
        [sample_member (\<lambda>a. reference_binding_for ref_externs key_2 a [])] 8)
       \<lparr>t_content_hash := fmt_b256 ref_externs sample_refer_hash\<rparr>"

lemma sample_address: "parse_address ref_externs sample_registry_text = Some sample_registry"
  using ref_hex.dec_enc [of sample_registry]
  by (simp add: ref_externs_def sample_registry_text_def sample_registry_def)

lemma sample_keys_canonical:
  "canonical_key ref_externs (ref_hex_encode key_1) key_1"
  "canonical_key ref_externs (ref_hex_encode key_2) key_2"
  using key_1_ok key_2_ok by (simp_all add: canonical_key_def)

definition sample_bytes :: member_bytes where
  "sample_bytes = \<lparr>mb_key = key_1, mb_attestation = [], mb_credential_id = [1, 2]\<rparr>"

lemma trim_Nil [simp]: "trim [] = []"
  using length_trim [of "[]"] by simp

lemma sample_member_canonical: "canonical_member ref_externs (sample_member binding) sample_bytes"
  using sample_keys_canonical(1)
  by (simp add: canonical_member_def sample_member_def sample_bytes_def hex_or_empty_def attestation_ok_def)

lemma challenge_length [simp]: "length (challenge_for ref_externs c r rp k b) = 32"
  by (simp add: challenge_for_def)

lemma sample_member_proved:
  "member_proved ref_externs sample_chain sample_registry sample_rp binding
     (sample_member binding) sample_bytes"
  using ref_proof_verifies [OF key_1_ok]
  by (simp add: member_proved_def sample_member_def sample_bytes_def)

lemma ref_parse_Nil [simp]: "parse_hex_bytes ref_externs [] = Inr []"
  using ref_parse_hex [of "[]"] by (simp add: ref_hex_encode_def)

lemma sample_register_fields:
  "t_kind sample_register = Register" "t_rp_id sample_register = sample_rp"
  "t_members sample_register = [sample_member (member_binding_for ref_externs key_2)]"
  "t_group_proof sample_register = Some (ref_proof sample_rp
     (challenge_for ref_externs sample_chain sample_registry sample_rp key_2 sample_hash))"
  by (simp_all add: sample_register_def pending_task_def)

lemma sample_refer_fields:
  "t_kind sample_refer = Refer" "t_rp_id sample_refer = sample_rp" "t_group_proof sample_refer = None"
  "t_members sample_refer = [sample_member (\<lambda>a. reference_binding_for ref_externs key_2 a [])]"
  by (simp_all add: sample_refer_def pending_task_def)

lemma sample_register_ready:
  "register_ready ref_externs sample_chain sample_registry sample_register"
  "fresh_task sample_register ''t1'' 7"
proof -
  have "content_of ref_externs sample_register = Inr sample_content"
    by (simp add: content_of_def sample_register_def pending_task_def sample_content_def sample_member_def)
  moreover have "t_kind sample_register = Register"
    by (simp add: sample_register_def pending_task_def)
  ultimately have "content_hash_for ref_externs sample_register = Inr sample_hash"
    by (simp add: content_hash_register sample_hash_def)
  then have "fields_ready ref_externs sample_register [] key_2 sample_hash [sample_bytes]"
    using sample_keys_canonical(2) sample_member_canonical keys_differ
    by (simp add: fields_ready_def sample_register_def pending_task_def sample_rp_def hex_or_empty_def)
      (simp add: sample_bytes_def)
  then show "register_ready ref_externs sample_chain sample_registry sample_register"
    unfolding register_ready_def sample_register_fields
    using ref_proof_verifies [OF key_2_ok challenge_length] sample_member_proved by blast
  show "fresh_task sample_register ''t1'' 7"
    by (simp add: fresh_task_def sample_register_def pending_task_def)
qed

lemma sample_refer_ready:
  "refer_ready ref_externs sample_chain sample_registry sample_refer"
  "fresh_task sample_refer ''t2'' 8"
proof -
  have "content_hash_for ref_externs sample_refer = Inr sample_refer_hash"
    by (simp add: content_hash_for_def sample_refer_def pending_task_def sample_member_def
        sample_refer_hash_def)
  then have "fields_ready ref_externs sample_refer [] key_2 sample_refer_hash [sample_bytes]"
    using sample_keys_canonical(2) sample_member_canonical keys_differ
    by (simp add: fields_ready_def sample_refer_def pending_task_def sample_rp_def hex_or_empty_def)
      (simp add: sample_bytes_def)
  then show "refer_ready ref_externs sample_chain sample_registry sample_refer"
    unfolding refer_ready_def sample_refer_fields using sample_member_proved by blast
  show "fresh_task sample_refer ''t2'' 8"
    by (simp add: fresh_task_def sample_refer_def pending_task_def)
qed

end
