(* ===== verification/Commitments.thy ===== *)
theory Commitments
  imports Samples
begin

text \<open>
  What signatures and digests commit to, and what validation accepts: the properties of
  \<^verbatim>\<open>verify.rs\<close>, of the digests of \<^verbatim>\<open>protocol.rs\<close> and of the validation half of \<^verbatim>\<open>admission.rs\<close>.
\<close>

section \<open>Possession proofs\<close>

text \<open>C22: One possession proof authorises one challenge: if the same proof verifies for two
  challenges, whatever the keys, the challenges are equal and the two rpIds have the same
  hash.  The challenge is carried as 43 base64url characters, an injective encoding.\<close>

theorem proof_binds_challenge:
  assumes "verify_proof X p c rp_id key = Inr ()" "verify_proof X p c' rp_id' key' = Inr ()"
    and "length c = 32" "length c' = 32"
  shows "c = c' \<and> sha256 X (as_bytes rp_id) = sha256 X (as_bytes rp_id')
    \<and> length (base64url_32 c) = 43"
  using verify_proof_challenge [OF assms] verify_proof_rp_id [OF assms(1,2)]
    length_base64url_32 [OF assms(3)]
  by blast

theorem proof_binds_challenge_witness:
  "verify_proof ref_externs (ref_proof ''a.io'' (replicate 32 5)) (replicate 32 5) ''a.io'' key_1 = Inr ()
   \<and> length (base64url_32 (replicate 32 5)) = 43"
proof -
  have ok: "verify_proof ref_externs (ref_proof ''a.io'' (replicate 32 5)) (replicate 32 5) ''a.io'' key_1 = Inr ()"
    by (rule ref_proof_verifies) (simp_all add: key_1_ok)
  show ?thesis using proof_binds_challenge [OF ok ok] ok by simp
qed

section \<open>Content hashes\<close>

text \<open>C23: Two register tasks with the same content hash have the same content: rpId, metadata bytes,
  group key, and the (key, attestation) pairs of the members in order, provided keccak256 does
  not collide on the byte strings hashed for the two tasks and no field is as long as the
  address space.\<close>

theorem content_hash_binds_register:
  assumes "externs_ok X" "t_kind t = Register" "t_kind u = Register"
    and "content_of X t = Inr c" "content_of X u = Inr d" "content_sized c" "content_sized d"
    and "inj_on (keccak256 X) (content_preimages X c \<union> content_preimages X d)"
    and "content_hash_for X t = content_hash_for X u"
  shows "c = d"
proof -
  have "keccak256 X (content_preimage X c) = keccak256 X (content_preimage X d)"
    using assms by (simp add: content_hash_register)
  then show ?thesis
    using externs_laws.content_hash_commits [OF externs_laws.intro [OF assms(1)] assms(6,7,8)] by blast
qed

text \<open>The digests of the sample content's two preimages differ in their second byte.\<close>

lemma sample_digests:
  "ref_digest (content_preimage ref_externs sample_content) ! 1 = 97"
  "ref_digest (pair_preimage ref_externs (key_1, [])) ! 1 = 4"
  by (simp_all add: ref_digest_def content_preimage_def pair_preimage_def sample_content_def
      ref_externs_def ref_abi_params_def sample_rp_def as_bytes_def key_1_def point_key_def)

lemma sample_no_collision:
  "inj_on (keccak256 ref_externs) (content_preimages ref_externs sample_content)"
  using sample_digests
  by (auto simp: content_preimages_def sample_content_def inj_on_def)

lemma sample_content_of: "content_of ref_externs sample_register = Inr sample_content"
  by (simp add: content_of_def sample_register_def pending_task_def sample_content_def sample_member_def)

lemma sample_sized: "content_sized sample_content"
  using key_1_ok key_2_ok by (simp add: content_sized_def sample_content_def sample_rp_def uncompressed_def)

theorem content_hash_binds_register_witness:
  "\<exists>d. content_of ref_externs (sample_register\<lparr>t_id := ''t9'', t_retries := 3\<rparr>) = Inr d
     \<and> content_hash_for ref_externs (sample_register\<lparr>t_id := ''t9'', t_retries := 3\<rparr>)
         = content_hash_for ref_externs sample_register
     \<and> sample_content = d"
proof -
  let ?u = "sample_register\<lparr>t_id := ''t9'', t_retries := 3\<rparr>"
  have u: "content_of ref_externs ?u = Inr sample_content"
    using sample_content_of by (simp add: content_of_def)
  have kinds: "t_kind sample_register = Register" "t_kind ?u = Register"
    by (simp_all add: sample_register_fields)
  have same: "content_hash_for ref_externs ?u = content_hash_for ref_externs sample_register"
    by (simp add: content_hash_register kinds sample_content_of u)
  have "sample_content = sample_content"
    by (rule content_hash_binds_register [OF ref_externs_ok kinds sample_content_of u sample_sized
          sample_sized _ same [symmetric]])
      (use sample_no_collision in simp)
  then show ?thesis using u same by blast
qed

text \<open>C24: The identity of a refer task is its (group key, member key) pair alone: two refer tasks have
  the same content hash exactly when they name the same group and the same key, whatever their
  metadata, attestation and rpId, provided keccak256 does not collide on the two byte strings
  hashed.\<close>

theorem content_hash_identifies_refer:
  assumes "externs_ok X" "t_kind t = Refer" "t_kind u = Refer"
    and "content_of X t = Inr (rp, md, g, (k, a) # ps)"
    and "content_of X u = Inr (rp', md', g', (k', a') # qs)"
    and "content_sized (rp, md, g, (k, a) # ps)" "content_sized (rp', md', g', (k', a') # qs)"
    and "inj_on (keccak256 X) {abi_encode_params X [AbiBytes g, AbiBytes k],
                               abi_encode_params X [AbiBytes g', AbiBytes k']}"
  shows "content_hash_for X t = content_hash_for X u \<longleftrightarrow> g = g' \<and> k = k'"
proof -
  have "abi_encode_params X [AbiBytes g, AbiBytes k] = abi_encode_params X [AbiBytes g', AbiBytes k']
      \<longleftrightarrow> g = g' \<and> k = k'"
    using externs_laws.abi_inject [OF externs_laws.intro [OF assms(1)],
        of "[AbiBytes g, AbiBytes k]" "[AbiBytes g', AbiBytes k']"] assms(6,7)
    by (simp add: content_sized_def)
  moreover have "content_hash_for X t = content_hash_for X u \<longleftrightarrow>
      keccak256 X (abi_encode_params X [AbiBytes g, AbiBytes k])
      = keccak256 X (abi_encode_params X [AbiBytes g', AbiBytes k'])"
    using assms(2-5) by (simp add: content_hash_refer)
  ultimately show ?thesis using assms(8) by (auto simp: inj_on_def)
qed

theorem content_hash_identifies_refer_witness:
  "content_hash_for ref_externs sample_refer
     = content_hash_for ref_externs (sample_refer\<lparr>t_metadata := ''0x'' @ ref_hex_encode [7]\<rparr>)"
proof -
  let ?u = "sample_refer\<lparr>t_metadata := ''0x'' @ ref_hex_encode [7]\<rparr>"
  have kinds: "t_kind sample_refer = Refer" "t_kind ?u = Refer" by (simp_all add: sample_refer_fields)
  have t: "content_of ref_externs sample_refer = Inr (sample_rp, [], key_2, [(key_1, [])])"
    by (simp add: content_of_def sample_refer_def pending_task_def sample_member_def)
  have "parse_hex_bytes ref_externs (''0x'' @ ref_hex_encode [7]) = Inr [7]"
    using ref.parse_hex_encode_0x [of "[7]"] by simp
  then have u: "content_of ref_externs ?u = Inr (sample_rp, [7], key_2, [(key_1, [])])"
    by (simp add: content_of_def sample_refer_def pending_task_def sample_member_def)
  show ?thesis
    using content_hash_identifies_refer [OF ref_externs_ok kinds t u] key_1_ok key_2_ok
    by (simp add: content_sized_def sample_rp_def uncompressed_def)
qed

section \<open>Validation\<close>

text \<open>C19: Validation of a register request never panics, and a request it accepts yields a pending task
  the contract's own checks accept: rpId of 1 to 253 bytes, at most 2048 bytes of metadata, 1 to 7
  members with pairwise distinct keys different from the group key, every key an uncompressed curve
  point, attestations empty or 20 bytes of version 1, bounded credential ids and hints, the content
  hash of exactly these fields, a group proof over the content hash and a proof of every member over
  the group key and its own attestation.  Resubmitting an accepted task's fields yields the same task.\<close>

theorem validate_register_correct:
  assumes "externs_ok X"
  shows "validate_register X req new_task_id now_ms chain_id registry \<noteq> None
    \<and> (\<forall>task ch. validate_register X req new_task_id now_ms chain_id registry = Some (Inr (task, ch)) \<longrightarrow>
      (\<exists>a. parse_address X registry = Some a \<and> register_ready X chain_id a task)
      \<and> fresh_task task new_task_id now_ms \<and> ch = t_content_hash task
      \<and> validate_register X (register_request_of task) new_task_id now_ms chain_id registry
          = Some (Inr (task, ch)))"
proof (intro conjI allI impI)
  note laws = externs_laws.intro [OF assms]
  show "validate_register X req new_task_id now_ms chain_id registry \<noteq> None"
    by (rule externs_laws.validate_register_no_panic [OF laws])
next
  fix task ch
  note laws = externs_laws.intro [OF assms]
  assume "validate_register X req new_task_id now_ms chain_id registry = Some (Inr (task, ch))"
  then obtain a where a: "parse_address X registry = Some a" "register_ready X chain_id a task"
    "fresh_task task new_task_id now_ms" "ch = t_content_hash task"
    using externs_laws.validate_register_sound [OF laws] by blast
  then show "\<exists>a. parse_address X registry = Some a \<and> register_ready X chain_id a task"
    "fresh_task task new_task_id now_ms" "ch = t_content_hash task"
    "validate_register X (register_request_of task) new_task_id now_ms chain_id registry = Some (Inr (task, ch))"
    using externs_laws.validate_register_complete [OF laws] by blast+
qed

theorem validate_register_correct_witness:
  "register_ready ref_externs sample_chain sample_registry sample_register
   \<and> validate_register ref_externs (register_request_of sample_register) ''t1'' 7 sample_chain
       sample_registry_text = Some (Inr (sample_register, t_content_hash sample_register))"
proof -
  have "validate_register ref_externs (register_request_of sample_register) ''t1'' 7 sample_chain
       sample_registry_text = Some (Inr (sample_register, t_content_hash sample_register))"
    by (rule ref.validate_register_complete [OF sample_register_ready sample_address])
  note accepted = this
  obtain a where "parse_address ref_externs sample_registry_text = Some a"
    "register_ready ref_externs sample_chain a sample_register"
    using validate_register_correct [OF ref_externs_ok, of "register_request_of sample_register" "''t1''" 7
        sample_chain sample_registry_text] accepted by blast
  then show ?thesis using accepted sample_address by simp
qed

text \<open>C20: Validation of a refer request never panics, and a request it accepts yields a pending task with
  one member, different from the group key and within the contract's bounds, whose proof binds the
  group key, the member's attestation and the reference metadata.  Resubmitting an accepted task's
  fields yields the same task.\<close>

theorem validate_refer_correct:
  assumes "externs_ok X"
  shows "validate_refer X req new_task_id now_ms chain_id registry \<noteq> None
    \<and> (\<forall>task ch. validate_refer X req new_task_id now_ms chain_id registry = Some (Inr (task, ch)) \<longrightarrow>
      (\<exists>a. parse_address X registry = Some a \<and> refer_ready X chain_id a task)
      \<and> fresh_task task new_task_id now_ms \<and> ch = t_content_hash task
      \<and> validate_refer X (refer_request_of task) new_task_id now_ms chain_id registry
          = Some (Inr (task, ch)))"
proof (intro conjI allI impI)
  note laws = externs_laws.intro [OF assms]
  show "validate_refer X req new_task_id now_ms chain_id registry \<noteq> None"
    by (rule externs_laws.validate_refer_no_panic [OF laws])
next
  fix task ch
  note laws = externs_laws.intro [OF assms]
  assume "validate_refer X req new_task_id now_ms chain_id registry = Some (Inr (task, ch))"
  then obtain a where a: "parse_address X registry = Some a" "refer_ready X chain_id a task"
    "fresh_task task new_task_id now_ms" "ch = t_content_hash task"
    using externs_laws.validate_refer_sound [OF laws] by blast
  then show "\<exists>a. parse_address X registry = Some a \<and> refer_ready X chain_id a task"
    "fresh_task task new_task_id now_ms" "ch = t_content_hash task"
    "validate_refer X (refer_request_of task) new_task_id now_ms chain_id registry = Some (Inr (task, ch))"
    using externs_laws.validate_refer_complete [OF laws] by blast+
qed

theorem validate_refer_correct_witness:
  "refer_ready ref_externs sample_chain sample_registry sample_refer
   \<and> validate_refer ref_externs (refer_request_of sample_refer) ''t2'' 8 sample_chain
       sample_registry_text = Some (Inr (sample_refer, t_content_hash sample_refer))"
proof -
  have "validate_refer ref_externs (refer_request_of sample_refer) ''t2'' 8 sample_chain
       sample_registry_text = Some (Inr (sample_refer, t_content_hash sample_refer))"
    by (rule ref.validate_refer_complete [OF sample_refer_ready sample_address])
  note accepted = this
  obtain a where "parse_address ref_externs sample_registry_text = Some a"
    "refer_ready ref_externs sample_chain a sample_refer"
    using validate_refer_correct [OF ref_externs_ok, of "refer_request_of sample_refer" "''t2''" 8
        sample_chain sample_registry_text] accepted by blast
  then show ?thesis using accepted sample_address by simp
qed

end
