(* ===== verification/Program.thy ===== *)
theory Program
  imports Prelude
begin

text \<open>
  The decision programs of \<^verbatim>\<open>p256-registrar\<close> (admission, lookup, submission) are crux apps: a
  program asks its shell to perform one operation at a time and continues with the shell's
  answer (\<^verbatim>\<open>ctx.request_from_shell(op).await\<close>).  A \<open>prog\<close> is exactly that: it is finished,
  or it asks an operation and continues with any answer, or it panics.  The shell is not part
  of the program, so a property of a program is a property of every sequence of answers:

  \<^item> \<open>exec p tr out\<close>: there are answers under which \<open>p\<close> asks the operations of the trace
    \<open>tr\<close>, one after the other, and ends with \<open>out\<close> (\<open>None\<close> for a panic);
  \<^item> \<open>wlp p Q h\<close>: started with history \<open>h\<close>, every execution of \<open>p\<close> ends in a history and an
    outcome that satisfy \<open>Q\<close>.  It computes by unfolding, so a property of a program is
    proved by simplification over the finitely many kinds of answer;
  \<^item> \<open>run h p s\<close>: the execution against a shell with state \<open>s\<close> and operation handler \<open>h\<close>.

  Every program is a finite tree, so every execution ends: \<open>run\<close> is total.
\<close>

section \<open>Programs\<close>

datatype ('op, 'res, 'a) prog =
    Done 'a
  | Ask 'op "'res \<Rightarrow> ('op, 'res, 'a) prog"
  | Panic

primrec bind_prog :: "('op, 'res, 'a) prog \<Rightarrow> ('a \<Rightarrow> ('op, 'res, 'b) prog) \<Rightarrow> ('op, 'res, 'b) prog"
where
  "bind_prog (Done a) f = f a"
| "bind_prog (Ask q k) f = Ask q (\<lambda>r. bind_prog (k r) f)"
| "bind_prog Panic f = Panic"

text \<open>\<^verbatim>\<open>Flow<T> = Result<T, Outcome>\<close> and its \<^verbatim>\<open>?\<close> operator: \<^const>\<open>Inl\<close> leaves the
  program at once.\<close>

type_synonym ('op, 'res, 'e, 'a) flow = "('op, 'res, 'e + 'a) prog"

definition bind_flow ::
  "('op, 'res, 'e, 'a) flow \<Rightarrow> ('a \<Rightarrow> ('op, 'res, 'e, 'b) flow) \<Rightarrow> ('op, 'res, 'e, 'b) flow"
where
  "bind_flow p f = bind_prog p (\<lambda>x. case x of Inl e \<Rightarrow> Done (Inl e) | Inr a \<Rightarrow> f a)"

text \<open>\<^verbatim>\<open>match flow { Ok(x) | Err(x) => x }\<close>.\<close>

definition settle :: "('op, 'res, 'a, 'a) flow \<Rightarrow> ('op, 'res, 'a) prog" where
  "settle p = bind_prog p (\<lambda>x. case x of Inl e \<Rightarrow> Done e | Inr a \<Rightarrow> Done a)"

lemma bind_flow_simps [simp]:
  "bind_flow (Done (Inl e)) f = Done (Inl e)"
  "bind_flow (Done (Inr a)) f = f a"
  "bind_flow (Ask q k) f = Ask q (\<lambda>r. bind_flow (k r) f)"
  "bind_flow Panic f = Panic"
  by (simp_all add: bind_flow_def)

lemma settle_simps [simp]:
  "settle (Done (Inl e)) = Done e"
  "settle (Done (Inr a)) = Done a"
  "settle (Ask q k) = Ask q (\<lambda>r. settle (k r))"
  "settle Panic = Panic"
  by (simp_all add: settle_def)

section \<open>Executions\<close>

type_synonym ('op, 'res) history = "('op \<times> 'res) list"

inductive exec :: "('op, 'res, 'a) prog \<Rightarrow> ('op, 'res) history \<Rightarrow> 'a option \<Rightarrow> bool" where
  exec_done: "exec (Done a) [] (Some a)"
| exec_ask: "exec (k r) tr out \<Longrightarrow> exec (Ask q k) ((q, r) # tr) out"
| exec_panic: "exec Panic [] None"

inductive_simps exec_Done [simp]: "exec (Done a) tr out"
inductive_simps exec_Panic [simp]: "exec Panic tr out"
inductive_simps exec_Ask: "exec (Ask q k) tr out"
inductive_simps exec_Ask_Cons [simp]: "exec (Ask q k) (x # tr) out"
inductive_simps exec_Ask_Nil [simp]: "exec (Ask q k) [] out"

lemma exec_bind_prog:
  "exec (bind_prog p f) tr out =
   ((\<exists>a tr1 tr2. tr = tr1 @ tr2 \<and> exec p tr1 (Some a) \<and> exec (f a) tr2 out)
    \<or> exec p tr None \<and> out = None)"
proof (induction p arbitrary: tr)
  case (Ask q k)
  have IH: "exec (bind_prog (k r) f) tr out =
     ((\<exists>a tr1 tr2. tr = tr1 @ tr2 \<and> exec (k r) tr1 (Some a) \<and> exec (f a) tr2 out)
      \<or> exec (k r) tr None \<and> out = None)" for r tr
    using Ask.IH by (simp add: rangeI)
  show ?case
  proof (cases tr)
    case Nil
    then show ?thesis by simp
  next
    case (Cons x xs)
    obtain q' r where x: "x = (q', r)" by (cases x)
    have "(\<exists>a tr1 tr2. tr = tr1 @ tr2 \<and> exec (Ask q k) tr1 (Some a) \<and> exec (f a) tr2 out) =
      (q' = q \<and> (\<exists>a tr1 tr2. xs = tr1 @ tr2 \<and> exec (k r) tr1 (Some a) \<and> exec (f a) tr2 out))"
      (is "?l = ?r")
    proof
      assume ?l
      then obtain a tr1 tr2 where *: "tr = tr1 @ tr2" "exec (Ask q k) tr1 (Some a)"
        "exec (f a) tr2 out" by blast
      then obtain r' tr1' where "tr1 = (q, r') # tr1'" "exec (k r') tr1' (Some a)"
        by (auto simp: exec_Ask)
      then show ?r using * Cons x by auto
    next
      assume ?r
      then obtain a tr1 tr2 where *: "q' = q" "xs = tr1 @ tr2" "exec (k r) tr1 (Some a)"
        "exec (f a) tr2 out" by blast
      then have "tr = ((q, r) # tr1) @ tr2" "exec (Ask q k) ((q, r) # tr1) (Some a)"
        using Cons x by simp_all
      then show ?l using * by blast
    qed
    then show ?thesis using Cons x IH by auto
  qed
qed auto

lemma exec_bind_flow:
  "exec (bind_flow p f) tr out =
   ((\<exists>a tr1 tr2. tr = tr1 @ tr2 \<and> exec p tr1 (Some (Inr a)) \<and> exec (f a) tr2 out)
    \<or> (\<exists>e. exec p tr (Some (Inl e)) \<and> out = Some (Inl e)) \<or> exec p tr None \<and> out = None)"
  unfolding bind_flow_def exec_bind_prog by (simp add: split_sum_ex) blast

lemma exec_settle:
  "exec (settle p) tr out =
   (\<exists>x. exec p tr x \<and> out = map_option (\<lambda>x. case x of Inl e \<Rightarrow> e | Inr a \<Rightarrow> a) x)"
  unfolding settle_def exec_bind_prog split_option_ex by (simp add: split_sum_ex) blast

section \<open>Properties of every execution\<close>

primrec wlp ::
  "('op, 'res, 'a) prog \<Rightarrow> (('op, 'res) history \<Rightarrow> 'a option \<Rightarrow> bool) \<Rightarrow> ('op, 'res) history \<Rightarrow> bool"
where
  "wlp (Done a) Q h = Q h (Some a)"
| "wlp (Ask q k) Q h = (\<forall>r. wlp (k r) Q (h @ [(q, r)]))"
| "wlp Panic Q h = Q h None"

lemma wlp_exec: "wlp p Q h = (\<forall>tr out. exec p tr out \<longrightarrow> Q (h @ tr) out)"
proof (induction p arbitrary: h)
  case (Ask q k)
  have IH: "wlp (k r) Q h = (\<forall>tr out. exec (k r) tr out \<longrightarrow> Q (h @ tr) out)" for r h
    using Ask.IH by (simp add: rangeI)
  show ?case by (auto simp: IH exec_Ask)
qed auto

lemma wlp_sound: "wlp p Q [] \<Longrightarrow> exec p tr out \<Longrightarrow> Q tr out"
  by (simp add: wlp_exec)

lemma wlp_mono: "wlp p Q h \<Longrightarrow> (\<And>tr out. Q tr out \<Longrightarrow> R tr out) \<Longrightarrow> wlp p R h"
  by (simp add: wlp_exec)

lemma wlp_bind_prog:
  "wlp (bind_prog p f) Q h =
   wlp p (\<lambda>h' out. case out of None \<Rightarrow> Q h' None | Some a \<Rightarrow> wlp (f a) Q h') h"
proof (induction p arbitrary: h)
  case (Ask q k)
  then show ?case by (simp add: rangeI)
qed auto

lemma wlp_bind_flow:
  "wlp (bind_flow p f) Q h =
   wlp p (\<lambda>h' out. case out of None \<Rightarrow> Q h' None | Some (Inl e) \<Rightarrow> Q h' (Some (Inl e))
     | Some (Inr a) \<Rightarrow> wlp (f a) Q h') h"
proof -
  have "(case out of None \<Rightarrow> Q h' None
      | Some a \<Rightarrow> wlp (case a of Inl e \<Rightarrow> Done (Inl e) | Inr a \<Rightarrow> f a) Q h') =
     (case out of None \<Rightarrow> Q h' None | Some (Inl e) \<Rightarrow> Q h' (Some (Inl e))
      | Some (Inr a) \<Rightarrow> wlp (f a) Q h')" for h' out
    by (auto split: option.splits sum.splits)
  then show ?thesis by (simp add: bind_flow_def wlp_bind_prog)
qed

lemma wlp_settle:
  "wlp (settle p) Q h =
   wlp p (\<lambda>h' out. Q h' (map_option (\<lambda>x. case x of Inl e \<Rightarrow> e | Inr a \<Rightarrow> a) out)) h"
proof -
  have "(case out of None \<Rightarrow> Q h' None
      | Some a \<Rightarrow> wlp (case a of Inl e \<Rightarrow> Done e | Inr a \<Rightarrow> Done a) Q h') =
     Q h' (map_option (\<lambda>x. case x of Inl e \<Rightarrow> e | Inr a \<Rightarrow> a) out)" for h' out
    by (auto split: option.splits sum.splits)
  then show ?thesis by (simp add: settle_def wlp_bind_prog)
qed

text \<open>Every step of a trace is allowed by the steps before it.\<close>

fun guarded :: "('x list \<Rightarrow> 'x \<Rightarrow> bool) \<Rightarrow> 'x list \<Rightarrow> 'x list \<Rightarrow> bool" where
  "guarded G past [] = True"
| "guarded G past (x # xs) = (G past x \<and> guarded G (past @ [x]) xs)"

lemma guarded_append [simp]: "guarded G past (xs @ ys) = (guarded G past xs \<and> guarded G (past @ xs) ys)"
  by (induction xs arbitrary: past) simp_all

lemma guarded_mono:
  "guarded G past tr \<Longrightarrow> (\<And>p s. G p s \<Longrightarrow> H p s) \<Longrightarrow> guarded H past tr"
  by (induction tr arbitrary: past) auto

lemma guarded_step: "guarded G [] (pre @ x # post) \<Longrightarrow> G pre x"
  by simp

text \<open>An answer that a program does not distinguish from another may be replaced by it.\<close>

primrec insensitive :: "('op \<Rightarrow> 'res \<Rightarrow> 'res) \<Rightarrow> ('op, 'res, 'a) prog \<Rightarrow> bool" where
  "insensitive f (Done a) = True"
| "insensitive f (Ask q k) = ((\<forall>r. k (f q r) = k r) \<and> (\<forall>r. insensitive f (k r)))"
| "insensitive f Panic = True"

lemma insensitive_exec:
  "insensitive f p \<Longrightarrow> exec p tr out \<Longrightarrow> exec p (map (\<lambda>(q, r). (q, f q r)) tr) out"
proof (induction p arbitrary: tr)
  case (Ask q k)
  obtain r tr' where tr: "tr = (q, r) # tr'" "exec (k r) tr' out"
    using Ask.prems(2) by (auto simp: exec_Ask)
  have "exec (k r) (map (\<lambda>(q, r). (q, f q r)) tr') out"
    using Ask.IH tr(2) Ask.prems(1) by (simp add: rangeI)
  then show ?case using Ask.prems(1) tr(1) by simp
qed auto

lemma insensitive_bind_prog:
  "insensitive f p \<Longrightarrow> (\<And>a. insensitive f (g a)) \<Longrightarrow> insensitive f (bind_prog p g)"
  by (induction p) (simp_all add: rangeI)

lemma insensitive_bind_flow:
  "insensitive f p \<Longrightarrow> (\<And>a. insensitive f (g a)) \<Longrightarrow> insensitive f (bind_flow p g)"
  unfolding bind_flow_def by (rule insensitive_bind_prog) (auto split: sum.splits)

lemma insensitive_settle: "insensitive f p \<Longrightarrow> insensitive f (settle p)"
  unfolding settle_def by (rule insensitive_bind_prog) (auto split: sum.splits)

section \<open>Running against a shell\<close>

primrec run ::
  "('s \<Rightarrow> 'op \<Rightarrow> 'res \<times> 's) \<Rightarrow> ('op, 'res, 'a) prog \<Rightarrow> 's \<Rightarrow> 'a option \<times> ('op, 'res) history \<times> 's"
where
  "run h (Done a) s = (Some a, [], s)"
| "run h (Ask q k) s =
     (let (r, s') = h s q; (out, tr, s'') = run h (k r) s' in (out, (q, r) # tr, s''))"
| "run h Panic s = (None, [], s)"

lemma run_exec: "run h p s = (out, tr, s') \<Longrightarrow> exec p tr out"
proof (induction p arbitrary: s out tr s')
  case (Ask q k)
  then show ?case
    by (auto simp: Let_def rangeI split: prod.splits)
qed auto

text \<open>An invariant of the shell's state that every operation keeps holds after a run.\<close>

lemma run_invariant:
  assumes "\<And>s q r s'. I s \<Longrightarrow> h s q = (r, s') \<Longrightarrow> I s'"
  shows "I s \<Longrightarrow> run h p s = (out, tr, s') \<Longrightarrow> I s'"
proof (induction p arbitrary: s out tr s')
  case (Ask q k)
  obtain r s1 where h: "h s q = (r, s1)" by fastforce
  obtain o1 tr1 s2 where k: "run h (k r) s1 = (o1, tr1, s2)" by (metis prod_cases3)
  have "I s1" using assms Ask.prems(1) h by blast
  then have "I s2" using Ask.IH k by (blast intro: rangeI)
  then show ?case using Ask.prems(2) h k by simp
qed auto

end
