(* ===== verification/Admission.thy ===== *)
theory Admission
  imports Samples Program
begin

text \<open>
  The program of \<^verbatim>\<open>p256-registrar/src/admission.rs\<close>: one request is driven to an outcome through the
  operations it asks its shell for.  \<^verbatim>\<open>Ok(outcome)\<close> is \<^const>\<open>Inr\<close> and \<^verbatim>\<open>Err(outcome)\<close> is \<^const>\<open>Inl\<close>;
  the app settles on either.
\<close>

definition MAX_ACTIVE_QUEUE_DEPTH :: u64 where "MAX_ACTIVE_QUEUE_DEPTH = 10000"
definition RETRY_COALESCE_TTL_SECS :: u64 where "RETRY_COALESCE_TTL_SECS = 24 * 60 * 60"

datatype admission_operation =
    AllowIpCreate
  | FindTaskByContent string
  | FindTaskByRetryDigest string
  | RecordRetryDigest string string
  | CheckContentRegistered string
  | CheckReferenced string string
  | CheckGroupExists string
  | FindTaskByKey string
  | QueueDepth
  | AllowGlobalCreate
  | Admit register_task
  | LoadTask string
  | Enqueue register_task
  | MarkAdmitted string

datatype admit_outcome = New | Existing string

datatype admission_result =
    Allowed bool
  | TaskFound "register_task option"
  | ChainBool bool
  | ChainReadFailed
  | Depth u64
  | Admitted admit_outcome
  | Enqueued
  | QueueUnavailable
  | Persisted
  | StoreUnavailable

datatype admission_outcome =
    Invalid string
  | RateLimited
  | Queued string task_status
  | AlreadyRegistered string
  | ReferGroupMissing
  | Busy
  | DependencyUnavailable string

type_synonym 'a admission_flow =
  "(admission_operation, admission_result, admission_outcome, 'a) flow"

definition redis_down :: admission_outcome where
  "redis_down = DependencyUnavailable ''redis''"

section \<open>The retry digest\<close>

definition length_prefixed :: "string \<Rightarrow> bytes" where
  "length_prefixed part = be_bytes 4 (length part mod 2 ^ 32) @ as_bytes part"

definition retry_preimage :: "externs \<Rightarrow> register_task \<Rightarrow> bytes" where
  "retry_preimage X task =
     (let member_keys = sort (map (\<lambda>m. to_lowercase X (m_public_key m)) (t_members task))
      in concat (map length_prefixed (t_rp_id task # t_metadata task # member_keys)))"

definition register_retry_digest :: "externs \<Rightarrow> register_task \<Rightarrow> string" where
  "register_retry_digest X task = hex_encode X (keccak256 X (retry_preimage X task))"

section \<open>The program\<close>

definition enqueue :: "register_task \<Rightarrow> admission_outcome admission_flow" where
  "enqueue task =
     Ask (Enqueue task) (\<lambda>res. case res of
         Enqueued \<Rightarrow>
           Ask (MarkAdmitted (t_id task)) (\<lambda>res. case res of
               TaskFound (Some task) \<Rightarrow> Done (Inr (Queued (t_id task) (t_status task)))
             | _ \<Rightarrow> Done (Inl redis_down))
       | QueueUnavailable \<Rightarrow> Done (Inl (DependencyUnavailable ''queue''))
       | _ \<Rightarrow> Done (Inl redis_down))"

definition refer_group_gate :: "register_task \<Rightarrow> unit admission_flow" where
  "refer_group_gate task =
     Ask (CheckGroupExists (t_group_public_key task)) (\<lambda>res. case res of
         ChainBool True \<Rightarrow> Done (Inr ())
       | ChainReadFailed \<Rightarrow> Done (Inr ())
       | ChainBool False \<Rightarrow>
           Ask (FindTaskByKey (t_group_public_key task)) (\<lambda>res. case res of
               TaskFound found \<Rightarrow>
                 (case found of
                    Some pending \<Rightarrow>
                      if t_kind pending = Register
                         \<and> t_group_public_key pending = t_group_public_key task
                         \<and> \<not> is_terminal (t_status pending)
                      then Done (Inr ()) else Done (Inl ReferGroupMissing)
                  | None \<Rightarrow> Done (Inl ReferGroupMissing))
             | _ \<Rightarrow> Done (Inl redis_down))
       | _ \<Rightarrow> Done (Inl redis_down))"

definition two_phase_admission ::
  "register_task \<Rightarrow> string option \<Rightarrow> admission_outcome admission_flow" where
  "two_phase_admission task retry_digest =
     Ask (Admit task) (\<lambda>res. case res of
         Admitted (Existing i) \<Rightarrow>
           Ask (LoadTask i) (\<lambda>res. case res of
               TaskFound (Some existing) \<Rightarrow>
                 if t_admitted existing
                 then Done (Inr (Queued (t_id existing) (t_status existing)))
                 else enqueue existing
             | _ \<Rightarrow> Done (Inl redis_down))
       | Admitted New \<Rightarrow>
           (case retry_digest of
              Some digest \<Rightarrow> Ask (RecordRetryDigest digest (t_id task)) (\<lambda>_. enqueue task)
            | None \<Rightarrow> enqueue task)
       | _ \<Rightarrow> Done (Inl redis_down))"

definition write_gates :: "register_task \<Rightarrow> string option \<Rightarrow> admission_outcome admission_flow" where
  "write_gates task retry_digest =
     Ask QueueDepth (\<lambda>res. case res of
         Depth depth \<Rightarrow>
           if MAX_ACTIVE_QUEUE_DEPTH \<le> depth then Done (Inr Busy)
           else
             Ask AllowGlobalCreate (\<lambda>res. case res of
                 Allowed allowed \<Rightarrow>
                   if allowed then two_phase_admission task retry_digest else Done (Inr Busy)
               | _ \<Rightarrow> Done (Inl redis_down))
       | _ \<Rightarrow> Done (Inl redis_down))"

definition chain_precheck ::
  "register_task \<Rightarrow> string \<Rightarrow> string option \<Rightarrow> admission_outcome admission_flow" where
  "chain_precheck task content_hash retry_digest =
     (let check = (\<lambda>precheck.
        Ask precheck (\<lambda>res. case res of
            ChainBool True \<Rightarrow> Done (Inr (AlreadyRegistered content_hash))
          | ChainBool False \<Rightarrow>
              (if t_kind task = Refer
               then bind_flow (refer_group_gate task) (\<lambda>_. write_gates task retry_digest)
               else write_gates task retry_digest)
          | ChainReadFailed \<Rightarrow>
              (if t_kind task = Refer
               then bind_flow (refer_group_gate task) (\<lambda>_. write_gates task retry_digest)
               else write_gates task retry_digest)
          | _ \<Rightarrow> Done (Inl redis_down)))
      in case t_kind task of
           Register \<Rightarrow> check (CheckContentRegistered content_hash)
         | Refer \<Rightarrow>
             (case t_members task of
                [] \<Rightarrow> Panic
              | m # _ \<Rightarrow> check (CheckReferenced (t_group_public_key task) (m_public_key m))))"

text \<open>A task found under the content hash or the retry digest: report it, or repair phase two.\<close>

definition report_existing :: "register_task \<Rightarrow> admission_outcome admission_flow" where
  "report_existing existing =
     (if t_admitted existing \<or> is_terminal (t_status existing)
      then Done (Inr (Queued (t_id existing) (t_status existing)))
      else enqueue existing)"

definition retry_net ::
  "externs \<Rightarrow> register_task \<Rightarrow> string \<Rightarrow> admission_outcome admission_flow" where
  "retry_net X task content_hash =
     (if t_kind task = Register
      then
        (let digest = register_retry_digest X task
         in Ask (FindTaskByRetryDigest digest) (\<lambda>res. case res of
                TaskFound (Some existing) \<Rightarrow>
                  if t_status existing \<noteq> Failed then report_existing existing
                  else chain_precheck task content_hash (Some digest)
              | TaskFound None \<Rightarrow> chain_precheck task content_hash (Some digest)
              | _ \<Rightarrow> Done (Inl redis_down)))
      else chain_precheck task content_hash None)"

definition admit_validated ::
  "externs \<Rightarrow> register_task \<Rightarrow> string \<Rightarrow> admission_outcome admission_flow" where
  "admit_validated X task content_hash =
     Ask AllowIpCreate (\<lambda>res. case res of
         Allowed allowed \<Rightarrow>
           if \<not> allowed then Done (Inr RateLimited)
           else
             Ask (FindTaskByContent content_hash) (\<lambda>res. case res of
                 TaskFound (Some existing) \<Rightarrow> report_existing existing
               | TaskFound None \<Rightarrow> retry_net X task content_hash
               | _ \<Rightarrow> Done (Inl redis_down))
       | _ \<Rightarrow> Done (Inl redis_down))"

definition validate ::
  "externs \<Rightarrow> admission_request \<Rightarrow> string \<Rightarrow> u64 \<Rightarrow> u64 \<Rightarrow> string \<Rightarrow> (register_task \<times> string) checked" where
  "validate X submitted new_task_id now_ms chain_id registry =
     (case submitted of
        RegisterRequest req \<Rightarrow> validate_register X req new_task_id now_ms chain_id registry
      | ReferRequest req \<Rightarrow> validate_refer X req new_task_id now_ms chain_id registry)"

definition drive_admission ::
  "externs \<Rightarrow> admission_request \<Rightarrow> string \<Rightarrow> u64 \<Rightarrow> u64 \<Rightarrow> string \<Rightarrow> admission_outcome admission_flow" where
  "drive_admission X submitted new_task_id now_ms chain_id registry =
     (case validate X submitted new_task_id now_ms chain_id registry of
        None \<Rightarrow> Panic
      | Some (Inl message) \<Rightarrow> Done (Inr (Invalid message))
      | Some (Inr (task, content_hash)) \<Rightarrow> admit_validated X task content_hash)"

section \<open>The app\<close>

datatype admission_event =
    Submit admission_request string u64 u64 string
  | Settled admission_outcome

record admission_model =
  am_outcome :: "admission_outcome option"

definition admission_update ::
  "externs \<Rightarrow> admission_event \<Rightarrow> admission_model
     \<Rightarrow> admission_model \<times> (admission_operation, admission_result, admission_event) prog option" where
  "admission_update X event model =
     (case event of
        Submit request new_task_id now_ms chain_id registry \<Rightarrow>
          (model,
           Some (bind_prog (settle (drive_admission X request new_task_id now_ms chain_id registry))
             (\<lambda>outcome. Done (Settled outcome))))
      | Settled outcome \<Rightarrow> (model\<lparr>am_outcome := Some outcome\<rparr>, None))"

definition admission_view :: "admission_model \<Rightarrow> admission_outcome option" where
  "admission_view model = am_outcome model"

text \<open>One request from the Submit event to the settled outcome.\<close>

definition admission_program ::
  "externs \<Rightarrow> admission_request \<Rightarrow> string \<Rightarrow> u64 \<Rightarrow> u64 \<Rightarrow> string
     \<Rightarrow> (admission_operation, admission_result, admission_outcome) prog" where
  "admission_program X request new_task_id now_ms chain_id registry =
     settle (drive_admission X request new_task_id now_ms chain_id registry)"

section \<open>Executions\<close>

lemma all_admission_result:
  "(\<forall>r. P r) \<longleftrightarrow>
     P (Allowed True) \<and> P (Allowed False) \<and> P (TaskFound None) \<and> (\<forall>t. P (TaskFound (Some t)))
     \<and> P (ChainBool True) \<and> P (ChainBool False) \<and> P ChainReadFailed \<and> (\<forall>d. P (Depth d))
     \<and> P (Admitted New) \<and> (\<forall>i. P (Admitted (Existing i))) \<and> P Enqueued \<and> P QueueUnavailable
     \<and> P Persisted \<and> P StoreUnavailable"
proof -
  have "P r" if "\<forall>b. P (Allowed b)" "\<forall>x. P (TaskFound x)" "\<forall>b. P (ChainBool b)" "P ChainReadFailed"
    "\<forall>d. P (Depth d)" "\<forall>x. P (Admitted x)" "P Enqueued" "P QueueUnavailable" "P Persisted"
    "P StoreUnavailable" for r
    using that by (cases r) auto
  then show ?thesis
    by (metis (full_types) admit_outcome.exhaust not_None_eq)
qed

type_synonym admission_history = "(admission_operation, admission_result) history"

text \<open>What must have happened before an operation that changes the store or the queue.\<close>

definition answered ::
  "(admission_operation \<Rightarrow> admission_result \<Rightarrow> bool) \<Rightarrow> admission_history \<Rightarrow> bool" where
  "answered P past = list_ex (\<lambda>(q, r). P q r) past"

definition gates_passed :: "string \<Rightarrow> admission_history \<Rightarrow> bool" where
  "gates_passed content_hash past =
     (answered (\<lambda>q r. q = AllowIpCreate \<and> r = Allowed True) past
      \<and> answered (\<lambda>q r. q = FindTaskByContent content_hash \<and> r = TaskFound None) past
      \<and> answered (\<lambda>q r. q = QueueDepth \<and> (case r of Depth d \<Rightarrow> d < MAX_ACTIVE_QUEUE_DEPTH | _ \<Rightarrow> False)) past
      \<and> answered (\<lambda>q r. q = AllowGlobalCreate \<and> r = Allowed True) past)"

text \<open>The chain did not say the write is there, and for a refer did not say its group is missing,
  or a register that creates the group is in flight.\<close>

definition not_on_chain :: "register_task \<Rightarrow> string \<Rightarrow> admission_history \<Rightarrow> bool" where
  "not_on_chain task content_hash past =
     (case t_kind task of
        Register \<Rightarrow>
          answered (\<lambda>q r. q = CheckContentRegistered content_hash
                      \<and> (r = ChainBool False \<or> r = ChainReadFailed)) past
      | Refer \<Rightarrow>
          answered (\<lambda>q r. q = CheckReferenced (t_group_public_key task) (m_public_key (hd (t_members task)))
                      \<and> (r = ChainBool False \<or> r = ChainReadFailed)) past
          \<and> answered (\<lambda>q r. q = CheckGroupExists (t_group_public_key task)
                         \<and> (r = ChainBool True \<or> r = ChainReadFailed)
                       \<or> q = FindTaskByKey (t_group_public_key task)
                         \<and> (case r of TaskFound (Some p) \<Rightarrow>
                                t_kind p = Register \<and> t_group_public_key p = t_group_public_key task
                                \<and> \<not> is_terminal (t_status p)
                              | _ \<Rightarrow> False)) past)"

definition is_lookup :: "admission_operation \<Rightarrow> bool" where
  "is_lookup q = (case q of FindTaskByContent _ \<Rightarrow> True | FindTaskByRetryDigest _ \<Rightarrow> True
     | LoadTask _ \<Rightarrow> True | _ \<Rightarrow> False)"

definition allowed_step ::
  "externs \<Rightarrow> register_task \<Rightarrow> string \<Rightarrow> admission_history \<Rightarrow> admission_operation \<times> admission_result \<Rightarrow> bool" where
  "allowed_step X task content_hash past step =
     (case fst step of
        Admit t \<Rightarrow> t = task \<and> gates_passed content_hash past \<and> not_on_chain task content_hash past
      | Enqueue t \<Rightarrow>
          t = task \<and> answered (\<lambda>q r. q = Admit task \<and> r = Admitted New) past
          \<or> \<not> t_admitted t \<and> answered (\<lambda>q r. is_lookup q \<and> r = TaskFound (Some t)) past
      | MarkAdmitted i \<Rightarrow>
          answered (\<lambda>q r. case q of Enqueue t \<Rightarrow> i = t_id t \<and> r = Enqueued | _ \<Rightarrow> False) past
      | RecordRetryDigest d i \<Rightarrow>
          t_kind task = Register \<and> d = register_retry_digest X task \<and> i = t_id task
          \<and> answered (\<lambda>q r. q = Admit task \<and> r = Admitted New) past
      | _ \<Rightarrow> True)"

text \<open>A \<^verbatim>\<open>Queued\<close> answer names a task the store returned: one already admitted or finished, or one
  appended to the queue and then marked admitted.\<close>

definition queued_backed :: "admission_history \<Rightarrow> string \<Rightarrow> task_status \<Rightarrow> bool" where
  "queued_backed tr i s =
     answered (\<lambda>q r. case r of
         TaskFound (Some t) \<Rightarrow>
           i = t_id t \<and> s = t_status t
           \<and> (t_admitted t \<or> is_terminal (t_status t)
              \<or> (case q of
                   MarkAdmitted j \<Rightarrow>
                     answered (\<lambda>q r. case q of Enqueue e \<Rightarrow> j = t_id e \<and> r = Enqueued | _ \<Rightarrow> False) tr
                 | _ \<Rightarrow> False))
       | _ \<Rightarrow> False) tr"

definition admission_ok ::
  "externs \<Rightarrow> register_task \<Rightarrow> string \<Rightarrow> admission_history \<Rightarrow> admission_outcome option \<Rightarrow> bool" where
  "admission_ok X task content_hash tr out =
     (guarded (allowed_step X task content_hash) [] tr
      \<and> (case out of None \<Rightarrow> False | Some (Queued i s) \<Rightarrow> queued_backed tr i s
           | Some (Invalid m) \<Rightarrow> False | Some _ \<Rightarrow> True))"

lemmas admission_program_defs =
  admit_validated_def retry_net_def chain_precheck_def write_gates_def two_phase_admission_def
  report_existing_def refer_group_gate_def enqueue_def

lemma admit_validated_ok:
  assumes "t_members task \<noteq> []"
  shows "wlp (settle (admit_validated X task ch)) (admission_ok X task ch) []"
proof -
  obtain m ms where ms: "t_members task = m # ms" using assms by (cases "t_members task") auto
  show ?thesis
    unfolding wlp_settle
    by (cases "t_kind task")
      (simp_all add: admission_program_defs ms all_admission_result wlp_bind_flow Let_def
        admission_ok_def allowed_step_def queued_backed_def answered_def is_lookup_def
        gates_passed_def not_on_chain_def redis_down_def not_le)
qed

lemma ready_members:
  "register_ready X chain_id a task \<or> refer_ready X chain_id a task \<Longrightarrow> t_members task \<noteq> []"
  by (auto simp: register_ready_def refer_ready_def fields_ready_def)

lemma validate_sound:
  assumes "externs_ok X" "validate X submitted new_task_id now_ms chain_id registry = Some (Inr (task, ch))"
  shows "\<exists>a. parse_address X registry = Some a
    \<and> (register_ready X chain_id a task \<or> refer_ready X chain_id a task)
    \<and> fresh_task task new_task_id now_ms \<and> ch = t_content_hash task"
  using assms externs_laws.validate_register_sound [OF externs_laws.intro [OF assms(1)]]
    externs_laws.validate_refer_sound [OF externs_laws.intro [OF assms(1)]]
  by (auto simp: validate_def split: admission_request.splits) blast+

lemma validate_no_panic:
  assumes "externs_ok X"
  shows "validate X submitted new_task_id now_ms chain_id registry \<noteq> None"
  using externs_laws.validate_register_no_panic [OF externs_laws.intro [OF assms]]
    externs_laws.validate_refer_no_panic [OF externs_laws.intro [OF assms]]
  by (simp add: validate_def split: admission_request.splits)

text \<open>What every execution of the program is.\<close>

lemma admission_exec_cases:
  assumes "externs_ok X" "exec (admission_program X submitted new_task_id now_ms chain_id registry) tr out"
  obtains (invalid) m where "validate X submitted new_task_id now_ms chain_id registry = Some (Inl m)"
      "tr = []" "out = Some (Invalid m)"
    | (valid) task ch a where
      "validate X submitted new_task_id now_ms chain_id registry = Some (Inr (task, ch))"
      "parse_address X registry = Some a"
      "register_ready X chain_id a task \<or> refer_ready X chain_id a task"
      "fresh_task task new_task_id now_ms" "ch = t_content_hash task"
      "admission_ok X task ch tr out"
proof (cases "validate X submitted new_task_id now_ms chain_id registry")
  case None
  then show ?thesis using validate_no_panic [OF assms(1)] by simp
next
  case (Some r)
  show ?thesis
  proof (cases r)
    case (Inl m)
    then show ?thesis using assms(2) Some by (intro invalid) (simp_all add: admission_program_def drive_admission_def)
  next
    case (Inr tc)
    obtain task ch where tc: "tc = (task, ch)" by (cases tc)
    obtain a where a: "parse_address X registry = Some a"
      "register_ready X chain_id a task \<or> refer_ready X chain_id a task"
      "fresh_task task new_task_id now_ms" "ch = t_content_hash task"
      using validate_sound [OF assms(1)] Some Inr tc by blast
    have "exec (settle (admit_validated X task ch)) tr out"
      using assms(2) Some Inr tc by (simp add: admission_program_def drive_admission_def)
    then have "admission_ok X task ch tr out"
      using wlp_sound [OF admit_validated_ok [OF ready_members [OF a(2)]]] by blast
    then show ?thesis using valid Some Inr tc a by blast
  qed
qed

section \<open>Properties\<close>

text \<open>C1: Against every shell, an operation of an admission run is asked only when the run has earned
  it.  The run belongs to a request that validates (so every proof in it verifies); the store's
  Admit gets exactly the validated task, and only after the per-client allowance, a lookup that
  found no task with this content, a chain read that did not report the write (or failed), for a
  refer a group that exists or is being registered, a queue shorter than 10000 and the global
  allowance; Enqueue gets the task just admitted as new or a task the store returned that is not
  admitted yet; MarkAdmitted follows a successful Enqueue of that task.\<close>

theorem admission_gated:
  assumes "externs_ok X"
    and "exec (admission_program X submitted new_task_id now_ms chain_id registry) tr out"
    and "tr = past @ step # rest"
  shows "\<exists>task ch a. validate X submitted new_task_id now_ms chain_id registry = Some (Inr (task, ch))
    \<and> parse_address X registry = Some a
    \<and> (register_ready X chain_id a task \<or> refer_ready X chain_id a task)
    \<and> fresh_task task new_task_id now_ms \<and> allowed_step X task ch past step"
  using assms(1,2)
proof (cases rule: admission_exec_cases)
  case invalid
  then show ?thesis using assms(3) by simp
next
  case (valid task ch a)
  then have "allowed_step X task ch past step"
    using assms(3) guarded_step [of "allowed_step X task ch" past step rest]
    by (simp add: admission_ok_def)
  then show ?thesis using valid by blast
qed

text \<open>A healthy shell on the sample register, from the first question to the last answer.\<close>

definition sample_trace :: admission_history where
  "sample_trace =
     [(AllowIpCreate, Allowed True),
      (FindTaskByContent (t_content_hash sample_register), TaskFound None),
      (FindTaskByRetryDigest (register_retry_digest ref_externs sample_register), TaskFound None),
      (CheckContentRegistered (t_content_hash sample_register), ChainReadFailed),
      (QueueDepth, Depth 3), (AllowGlobalCreate, Allowed True),
      (Admit sample_register, Admitted New),
      (RecordRetryDigest (register_retry_digest ref_externs sample_register) ''t1'', StoreUnavailable),
      (Enqueue sample_register, Enqueued),
      (MarkAdmitted ''t1'', TaskFound (Some (sample_register\<lparr>t_admitted := True\<rparr>)))]"

lemma sample_validates:
  "validate ref_externs (RegisterRequest (register_request_of sample_register)) ''t1'' 7 sample_chain
     sample_registry_text = Some (Inr (sample_register, t_content_hash sample_register))"
  using ref.validate_register_complete [OF sample_register_ready sample_address]
  by (simp add: validate_def)

lemma sample_register_id: "t_id sample_register = ''t1''" "t_status sample_register = Pending"
  by (simp_all add: sample_register_def pending_task_def)

lemma sample_exec:
  "exec (admission_program ref_externs (RegisterRequest (register_request_of sample_register)) ''t1'' 7
     sample_chain sample_registry_text) sample_trace (Some (Queued ''t1'' Pending))"
  by (simp add: admission_program_def drive_admission_def sample_validates sample_trace_def
      admission_program_defs Let_def sample_register_fields sample_register_id
      MAX_ACTIVE_QUEUE_DEPTH_def)

theorem admission_gated_witness:
  "\<exists>past rest. sample_trace = past @ (Admit sample_register, Admitted New) # rest
     \<and> allowed_step ref_externs sample_register (t_content_hash sample_register) past
         (Admit sample_register, Admitted New)"
proof -
  let ?past = "take 6 sample_trace" and ?rest = "drop 7 sample_trace"
  have split: "sample_trace = ?past @ (Admit sample_register, Admitted New) # ?rest"
    by (simp add: sample_trace_def)
  show ?thesis
    using admission_gated [OF ref_externs_ok sample_exec split] split sample_validates by fastforce
qed

text \<open>C2: Against every shell an admission run ends with an outcome, never a panic; it reports Invalid
  exactly when validation rejects the request, and then it asked nothing; and it reports Queued
  only for a task the store returned that is already admitted or finished, or that this run
  appended to the queue and then marked admitted.\<close>

theorem admission_outcome_backed:
  assumes "externs_ok X"
    and "exec (admission_program X submitted new_task_id now_ms chain_id registry) tr out"
  shows "\<exists>outcome. out = Some outcome
    \<and> (\<forall>m. outcome = Invalid m \<longleftrightarrow>
          validate X submitted new_task_id now_ms chain_id registry = Some (Inl m))
    \<and> ((\<exists>m. outcome = Invalid m) \<longrightarrow> tr = [])
    \<and> (\<forall>i s. outcome = Queued i s \<longrightarrow> queued_backed tr i s)"
  using assms
proof (cases rule: admission_exec_cases)
  case invalid
  then show ?thesis by simp
next
  case (valid task ch a)
  then show ?thesis
    by (auto simp: admission_ok_def split: option.splits admission_outcome.splits)
qed

theorem admission_outcome_backed_witness:
  "queued_backed sample_trace ''t1'' Pending"
  using admission_outcome_backed [OF ref_externs_ok sample_exec] by simp

end
