(* ===== verification/Coalescing.thy ===== *)
theory Coalescing
  imports Admission "HOL-Library.Multiset"
begin

text \<open>
  Two policies of admission: chain reads are fail-open, and the retry digest coalesces
  resubmissions of one unit under regenerated group keys.
\<close>

section \<open>Fail-open chain reads\<close>

text \<open>The answer a failed chain read stands for.\<close>

definition fail_open :: "admission_operation \<Rightarrow> admission_result \<Rightarrow> admission_result" where
  "fail_open q r =
     (if r = ChainReadFailed
      then (case q of CheckContentRegistered _ \<Rightarrow> ChainBool False | CheckReferenced _ _ \<Rightarrow> ChainBool False
              | CheckGroupExists _ \<Rightarrow> ChainBool True | _ \<Rightarrow> r)
      else r)"

lemma fail_open_simps [simp]:
  "r \<noteq> ChainReadFailed \<Longrightarrow> fail_open q r = r"
  "fail_open (CheckContentRegistered c) ChainReadFailed = ChainBool False"
  "fail_open (CheckReferenced g k) ChainReadFailed = ChainBool False"
  "fail_open (CheckGroupExists g) ChainReadFailed = ChainBool True"
  "fail_open AllowIpCreate r = r" "fail_open (FindTaskByContent c) r = r"
  "fail_open (FindTaskByRetryDigest d) r = r" "fail_open (RecordRetryDigest d i) r = r"
  "fail_open (FindTaskByKey k) r = r" "fail_open QueueDepth r = r" "fail_open AllowGlobalCreate r = r"
  "fail_open (Admit t) r = r" "fail_open (LoadTask i) r = r" "fail_open (Enqueue t) r = r"
  "fail_open (MarkAdmitted i) r = r"
  by (auto simp: fail_open_def)

lemma enqueue_insensitive: "insensitive fail_open (enqueue task)"
  by (simp add: enqueue_def all_admission_result)

lemma report_existing_insensitive: "insensitive fail_open (report_existing task)"
  by (simp add: report_existing_def enqueue_insensitive)

lemma write_gates_insensitive: "insensitive fail_open (write_gates task digest)"
  by (cases digest)
    (simp_all add: write_gates_def two_phase_admission_def all_admission_result enqueue_insensitive)

lemma refer_group_gate_insensitive: "insensitive fail_open (refer_group_gate task)"
  by (simp add: refer_group_gate_def all_admission_result)

lemma chain_precheck_insensitive: "insensitive fail_open (chain_precheck task ch digest)"
  by (cases "t_kind task"; cases "t_members task")
    (simp_all add: chain_precheck_def all_admission_result write_gates_insensitive
      refer_group_gate_insensitive insensitive_bind_flow)

lemma admit_validated_insensitive: "insensitive fail_open (admit_validated X task ch)"
  by (cases "t_kind task")
    (simp_all add: admit_validated_def retry_net_def all_admission_result Let_def
      chain_precheck_insensitive report_existing_insensitive)

text \<open>C25: The chain reads of admission are fail-open: a run in which chain reads fail ends exactly as
  the run with the same other answers in which each failed read had answered that the write is not
  on-chain, or, for a refer's group, that the group exists.  An RPC outage by itself never turns a
  request away.\<close>

theorem admission_fail_open:
  assumes "exec (admission_program X submitted new_task_id now_ms chain_id registry) tr out"
  shows "exec (admission_program X submitted new_task_id now_ms chain_id registry)
    (map (\<lambda>(q, r). (q, fail_open q r)) tr) out"
proof -
  have "insensitive fail_open (drive_admission X submitted new_task_id now_ms chain_id registry)"
    by (simp add: drive_admission_def admit_validated_insensitive split: option.splits sum.splits)
  then show ?thesis
    unfolding admission_program_def
    using insensitive_exec [OF insensitive_settle] assms [unfolded admission_program_def] by blast
qed

theorem admission_fail_open_witness:
  "exec (admission_program ref_externs (RegisterRequest (register_request_of sample_register)) ''t1'' 7
     sample_chain sample_registry_text)
     (sample_trace[3 := (CheckContentRegistered (t_content_hash sample_register), ChainBool False)])
     (Some (Queued ''t1'' Pending))"
  using admission_fail_open [OF sample_exec] by (simp add: sample_trace_def)

section \<open>Coalescing retries\<close>

lemma length_prefixed_append:
  assumes "length a < 2 ^ 32" "length b < 2 ^ 32"
  shows "(length_prefixed a @ r = length_prefixed b @ q) = (a = b \<and> r = q)"
proof -
  have lengths: "(be_bytes 4 (length a) = be_bytes 4 (length b)) = (length a = length b)"
    using assms by (intro be_bytes_inject) simp_all
  have a: "length_prefixed a = be_bytes 4 (length a) @ as_bytes a"
    and b: "length_prefixed b = be_bytes 4 (length b) @ as_bytes b"
    using assms by (simp_all only: length_prefixed_def mod_less)
  have "(length_prefixed a @ r = length_prefixed b @ q) =
      (be_bytes 4 (length a) = be_bytes 4 (length b) \<and> as_bytes a @ r = as_bytes b @ q)"
    unfolding a b append_assoc by (rule append_eq_append_conv) simp
  also have "\<dots> = (a = b \<and> r = q)"
    unfolding lengths by (metis append_eq_append_conv as_bytes_inject length_as_bytes)
  finally show ?thesis .
qed

lemma length_prefixed_nonempty [simp]: "length_prefixed p \<noteq> []"
proof -
  have "0 < length (length_prefixed p)" by (simp add: length_prefixed_def)
  then show ?thesis by force
qed

lemma length_prefixed_concat:
  "list_all (\<lambda>p. length p < 2 ^ 32) ps \<Longrightarrow> list_all (\<lambda>p. length p < 2 ^ 32) qs \<Longrightarrow>
   concat (map length_prefixed ps) = concat (map length_prefixed qs) \<Longrightarrow> ps = qs"
proof (induction ps arbitrary: qs)
  case Nil
  then show ?case by (cases qs) simp_all
next
  case (Cons p ps)
  have "qs \<noteq> []" using Cons.prems(3) by auto
  then obtain q qs' where qs: "qs = q # qs'" by (cases qs) simp_all
  have sized: "length p < 2 ^ 32" "length q < 2 ^ 32" using Cons.prems qs by simp_all
  have "length_prefixed p @ concat (map length_prefixed ps) = length_prefixed q @ concat (map length_prefixed qs')"
    using Cons.prems(3) qs by simp
  then have "p = q" "concat (map length_prefixed ps) = concat (map length_prefixed qs')"
    unfolding length_prefixed_append [OF sized] by blast+
  moreover have "list_all (\<lambda>p. length p < 2 ^ 32) ps" "list_all (\<lambda>p. length p < 2 ^ 32) qs'"
    using Cons.prems(1,2) qs by simp_all
  ultimately show ?case using Cons.IH qs by blast
qed

lemma sort_eq_mset: "(sort xs = sort ys) = (mset xs = mset ys)"
proof
  assume "sort xs = sort ys"
  then have "mset (sort xs) = mset (sort ys)" by simp
  then show "mset xs = mset ys" by simp
next
  assume "mset xs = mset ys"
  then have "mset (sort ys) = mset xs" by simp
  then show "sort xs = sort ys" by (rule properties_for_sort) simp
qed

definition member_keys :: "externs \<Rightarrow> register_task \<Rightarrow> string list" where
  "member_keys X task = map (\<lambda>m. to_lowercase X (m_public_key m)) (t_members task)"

definition retry_sized :: "externs \<Rightarrow> register_task \<Rightarrow> bool" where
  "retry_sized X task =
     (length (t_rp_id task) < 2 ^ 32 \<and> length (t_metadata task) < 2 ^ 32
      \<and> list_all (\<lambda>k. length k < 2 ^ 32) (member_keys X task))"

text \<open>C26: The retry digest coalesces exactly the registers with the same rpId, the same metadata and the
  same set of member keys, in any order: two tasks have the same digest if and only if these agree,
  whatever their group keys, provided keccak256 does not collide on the two preimages and every
  part is shorter than 4 GiB.\<close>

theorem retry_digest_identifies:
  assumes "externs_ok X" "retry_sized X t" "retry_sized X u"
    and "inj_on (keccak256 X) {retry_preimage X t, retry_preimage X u}"
  shows "register_retry_digest X t = register_retry_digest X u \<longleftrightarrow>
    t_rp_id t = t_rp_id u \<and> t_metadata t = t_metadata u
    \<and> mset (member_keys X t) = mset (member_keys X u)"
proof -
  let ?parts = "\<lambda>task. t_rp_id task # t_metadata task # sort (member_keys X task)"
  have sized: "list_all (\<lambda>p. length p < 2 ^ 32) (?parts t)" "list_all (\<lambda>p. length p < 2 ^ 32) (?parts u)"
    using assms(2,3) unfolding retry_sized_def list_all_iff by simp_all
  have preimage: "retry_preimage X task = concat (map length_prefixed (?parts task))" for task
    by (simp add: retry_preimage_def member_keys_def)
  have "register_retry_digest X t = register_retry_digest X u \<longleftrightarrow> retry_preimage X t = retry_preimage X u"
  proof -
    have "hex_codec (hex_encode X) (hex_decode X)"
      using assms(1) by (simp add: externs_ok_def hex_ok_def)
    then have "register_retry_digest X t = register_retry_digest X u \<longleftrightarrow>
        keccak256 X (retry_preimage X t) = keccak256 X (retry_preimage X u)"
      unfolding register_retry_digest_def by (rule hex_codec.enc_inject)
    then show ?thesis using inj_on_eq_iff [OF assms(4)] by simp
  qed
  also have "\<dots> \<longleftrightarrow> ?parts t = ?parts u"
    unfolding preimage by (rule iffI, rule length_prefixed_concat [OF sized]) simp_all
  also have "\<dots> \<longleftrightarrow> t_rp_id t = t_rp_id u \<and> t_metadata t = t_metadata u
    \<and> mset (member_keys X t) = mset (member_keys X u)"
    unfolding list.inject sort_eq_mset by (rule refl)
  finally show ?thesis .
qed

theorem retry_digest_identifies_witness:
  "register_retry_digest ref_externs sample_register =
     register_retry_digest ref_externs (sample_register\<lparr>t_group_public_key := ref_hex_encode key_1\<rparr>)"
proof -
  let ?u = "sample_register\<lparr>t_group_public_key := ref_hex_encode key_1\<rparr>"
  have hex: "is_ascii (ref_hex_encode key_1)"
    using ref_hex.enc_lower [of key_1]
    by (auto simp: is_ascii_def list_all_iff is_lower_hexdigit_def Let_def)
  have "length (ref_hex_encode key_1) = 130"
    using ref_hex.length_enc [of key_1] key_1_ok(1) by (simp add: uncompressed_def)
  then have sized: "retry_sized ref_externs sample_register" "retry_sized ref_externs ?u"
    using hex by (simp_all add: retry_sized_def member_keys_def sample_register_def pending_task_def
        sample_member_def sample_rp_def to_lowercase_def)
  have "retry_preimage ref_externs ?u = retry_preimage ref_externs sample_register"
    by (simp add: retry_preimage_def)
  then show ?thesis
    using retry_digest_identifies [OF ref_externs_ok sized] by (simp add: member_keys_def)
qed

end
