(* ===== verification/Submission.thy ===== *)
theory Submission
  imports Samples Program
begin

text \<open>
  The program of \<^verbatim>\<open>p256-registrar/src/submission.rs\<close>: one polled batch of queue envelopes is driven
  to a verdict, advance the consumer offset or retry the batch.  \<^verbatim>\<open>Ok\<close> is \<^const>\<open>Inr\<close>, \<^verbatim>\<open>Err\<close> (the
  early return of a \<^verbatim>\<open>?\<close>) is \<^const>\<open>Inl\<close>, \<^verbatim>\<open>unreachable!\<close> is \<^const>\<open>Panic\<close>.
\<close>

section \<open>Operations, results, verdicts\<close>

datatype failure_kind = PoisonFailure

definition as_store_class :: "failure_kind \<Rightarrow> string" where
  "as_store_class k = (case k of PoisonFailure \<Rightarrow> ''POISON'')"

datatype submission_operation =
    LoadTasks "string list"
  | CheckContentRegistered string
  | CheckReferenced string string
  | SubmitRegister register_task
  | MarkDone string "string option" "u64 option"
  | MarkFailed string failure_kind string
  | RecordTransientFailure string string

datatype tx_outcome =
    Confirmed string "u64 option"
  | Reverted string
  | ReceiptUncertain chain_error
  | SendFailed chain_error
  | NoncePoolUnavailable

datatype submission_result =
    TasksLoaded "register_task option list"
  | ContentChecked bool
  | Tx tx_outcome
  | Persisted
  | StoreUnavailable
  | ChainReadFailed

datatype batch_verdict = Advance | Retry string

type_synonym 'a submission_flow =
  "(submission_operation, submission_result, batch_verdict, 'a) flow"

section \<open>The batch program\<close>

definition retry :: "string \<Rightarrow> batch_verdict" where
  "retry reason = Retry reason"

definition persist :: "submission_operation \<Rightarrow> string \<Rightarrow> unit submission_flow" where
  "persist q fail_reason =
     Ask q (\<lambda>res. case res of
         Persisted \<Rightarrow> Done (Inr ())
       | StoreUnavailable \<Rightarrow> Done (Inl (retry fail_reason))
       | _ \<Rightarrow> Done (Inl (retry ''unexpected shell result for a persistence operation'')))"

datatype content_state = Registered | Absent | Unencodable

text \<open>The first half of \<^verbatim>\<open>check_content\<close>: the question that asks whether the task's write is on
  chain, or none when the stored task cannot be encoded.\<close>

definition content_question :: "externs \<Rightarrow> register_task \<Rightarrow> submission_operation option" where
  "content_question X task =
     (case t_kind task of
        Register \<Rightarrow>
          (case content_hash_for X task of
             Inl _ \<Rightarrow> None
           | Inr content_hash \<Rightarrow> Some (CheckContentRegistered (fmt_b256 X content_hash)))
      | Refer \<Rightarrow>
          (case t_members task of
             [] \<Rightarrow> None
           | m # _ \<Rightarrow> Some (CheckReferenced (t_group_public_key task) (m_public_key m))))"

definition check_content :: "externs \<Rightarrow> register_task \<Rightarrow> content_state submission_flow" where
  "check_content X task =
     (case content_question X task of
        None \<Rightarrow> Done (Inr Unencodable)
      | Some question \<Rightarrow>
          Ask question (\<lambda>res. case res of
              ContentChecked registered \<Rightarrow> Done (Inr (if registered then Registered else Absent))
            | ChainReadFailed \<Rightarrow>
                bind_flow (persist (RecordTransientFailure (t_id task)
                             ''chain reconciliation RPC temporarily unavailable'')
                             ''could not persist task retry'')
                  (\<lambda>_. Done (Inl (retry ''chain reconciliation failed'')))
            | _ \<Rightarrow> Done (Inl (retry ''unexpected shell result for a reconciliation check''))))"

definition mark_done :: "register_task \<Rightarrow> string option \<Rightarrow> u64 option \<Rightarrow> unit submission_flow" where
  "mark_done task tx_hash on_chain_id =
     persist (MarkDone (t_id task) tx_hash on_chain_id) ''could not persist done task''"

definition submit :: "register_task \<Rightarrow> tx_outcome submission_flow" where
  "submit task =
     Ask (SubmitRegister task) (\<lambda>res. case res of
         Tx outcome \<Rightarrow>
           (case outcome of
              NoncePoolUnavailable \<Rightarrow> Done (Inl (retry ''could not acquire pending chain nonce''))
            | other \<Rightarrow> Done (Inr other))
       | _ \<Rightarrow> Done (Inl (retry ''unexpected shell result for a chain write'')))"

definition classify_task :: "externs \<Rightarrow> register_task \<Rightarrow> chain_error \<Rightarrow> unit submission_flow" where
  "classify_task X task e =
     (let message = ''register: '' @ chain_error_text e in
      case classify_chain_error e of
        AlreadyExists \<Rightarrow>
          bind_flow (check_content X task) (\<lambda>state. case state of
              Registered \<Rightarrow> mark_done task (t_tx_hash task) None
            | Absent \<Rightarrow> persist (MarkFailed (t_id task) PoisonFailure message) ''could not persist poison task''
            | Unencodable \<Rightarrow> persist (MarkFailed (t_id task) PoisonFailure message) ''could not persist poison task'')
      | Transient \<Rightarrow> persist (RecordTransientFailure (t_id task) message) ''could not persist task retry''
      | Poison \<Rightarrow> persist (MarkFailed (t_id task) PoisonFailure message) ''could not persist poison task'')"

definition register_reverted :: "externs \<Rightarrow> register_task \<Rightarrow> unit submission_flow" where
  "register_reverted X task =
     bind_flow (check_content X task) (\<lambda>state. case state of
         Registered \<Rightarrow> mark_done task (t_tx_hash task) None
       | Absent \<Rightarrow>
           bind_flow (submit task) (\<lambda>outcome. case outcome of
               Confirmed tx_hash on_chain_id \<Rightarrow> mark_done task (Some tx_hash) on_chain_id
             | Reverted _ \<Rightarrow>
                 persist (MarkFailed (t_id task) PoisonFailure ''register transaction reverted'')
                   ''could not persist failed task''
             | ReceiptUncertain e \<Rightarrow>
                 bind_flow (classify_task X task e) (\<lambda>_. Done (Inl (retry ''register receipt wait failed'')))
             | SendFailed e \<Rightarrow>
                 bind_flow (classify_task X task e) (\<lambda>_.
                   if classify_chain_error e = Transient
                   then Done (Inl (retry ''register temporarily failed'')) else Done (Inr ()))
             | NoncePoolUnavailable \<Rightarrow> Panic)
       | Unencodable \<Rightarrow> Panic)"

definition submit_stage :: "externs \<Rightarrow> register_task \<Rightarrow> unit submission_flow" where
  "submit_stage X task =
     bind_flow (submit task) (\<lambda>outcome. case outcome of
         Confirmed tx_hash on_chain_id \<Rightarrow> mark_done task (Some tx_hash) on_chain_id
       | Reverted _ \<Rightarrow> register_reverted X task
       | ReceiptUncertain e \<Rightarrow>
           bind_flow (classify_task X task e) (\<lambda>_. Done (Inl (retry ''register receipt wait failed'')))
       | SendFailed e \<Rightarrow>
           bind_flow (classify_task X task e) (\<lambda>_.
             if classify_chain_error e = Transient
             then Done (Inl (retry ''register temporarily failed'')) else Done (Inr ()))
       | NoncePoolUnavailable \<Rightarrow> Panic)"

text \<open>The loop that drops unknown and terminal tasks and keeps each id once; \<open>seen\<close> is the
  \<^verbatim>\<open>HashSet\<close> of the ids kept so far.\<close>

fun canonical :: "string list \<Rightarrow> register_task option list \<Rightarrow> register_task list" where
  "canonical seen [] = []"
| "canonical seen (None # loaded) = canonical seen loaded"
| "canonical seen (Some task # loaded) =
     (if \<not> is_terminal (t_status task) \<and> t_id task \<notin> set seen
      then task # canonical (t_id task # seen) loaded
      else canonical seen loaded)"

definition task_stage :: "externs \<Rightarrow> register_task \<Rightarrow> unit submission_flow" where
  "task_stage X task =
     bind_flow (check_content X task) (\<lambda>state. case state of
         Registered \<Rightarrow> mark_done task (t_tx_hash task) None
       | Absent \<Rightarrow> submit_stage X task
       | Unencodable \<Rightarrow>
           persist (MarkFailed (t_id task) PoisonFailure ''stored register task cannot be encoded'')
             ''could not persist poison task'')"

fun batch_loop :: "externs \<Rightarrow> register_task list \<Rightarrow> batch_verdict submission_flow" where
  "batch_loop X [] = Done (Inr Advance)"
| "batch_loop X (task # tasks) = bind_flow (task_stage X task) (\<lambda>_. batch_loop X tasks)"

definition drive_batch :: "externs \<Rightarrow> string list \<Rightarrow> batch_verdict submission_flow" where
  "drive_batch X envelope_ids =
     (if envelope_ids = [] then Done (Inr Advance)
      else
        Ask (LoadTasks envelope_ids) (\<lambda>res. case res of
            TasksLoaded tasks \<Rightarrow> batch_loop X (canonical [] tasks)
          | StoreUnavailable \<Rightarrow> Done (Inl (retry ''could not load Redis register task''))
          | _ \<Rightarrow> Done (Inl (retry ''unexpected shell result for LoadTasks''))))"

section \<open>The app\<close>

datatype submission_event = Start "string list" | Settled batch_verdict

record submission_model =
  sm_outcome :: "batch_verdict option"

definition submission_update ::
  "externs \<Rightarrow> submission_event \<Rightarrow> submission_model
     \<Rightarrow> submission_model \<times> (submission_operation, submission_result, submission_event) prog option" where
  "submission_update X event model =
     (case event of
        Start envelope_ids \<Rightarrow>
          (model, Some (bind_prog (settle (drive_batch X envelope_ids)) (\<lambda>verdict. Done (Settled verdict))))
      | Settled verdict \<Rightarrow> (model\<lparr>sm_outcome := Some verdict\<rparr>, None))"

definition submission_view :: "submission_model \<Rightarrow> batch_verdict option" where
  "submission_view model = sm_outcome model"

definition submission_program ::
  "externs \<Rightarrow> string list \<Rightarrow> (submission_operation, submission_result, batch_verdict) prog" where
  "submission_program X envelope_ids = settle (drive_batch X envelope_ids)"

section \<open>The tasks of a batch\<close>

lemma canonical_spec:
  "set (canonical seen loaded) \<subseteq> {t. Some t \<in> set loaded \<and> \<not> is_terminal (t_status t) \<and> t_id t \<notin> set seen}"
  "distinct (map t_id (canonical seen loaded))"
  "Some t \<in> set loaded \<Longrightarrow> \<not> is_terminal (t_status t) \<Longrightarrow> t_id t \<notin> set seen
     \<Longrightarrow> t_id t \<in> t_id ` set (canonical seen loaded)"
proof (induction seen loaded rule: canonical.induct)
  case (3 seen task loaded)
  { case 1 show ?case using "3.IH" by (cases "t_id task \<in> set seen"; cases "is_terminal (t_status task)") auto }
  { case 2 show ?case using "3.IH"(1,2,4,5)
      by (cases "t_id task \<in> set seen"; cases "is_terminal (t_status task)") fastforce+ }
  { case 3 then show ?case using "3.IH"(3,6)
      by (cases "t_id task \<in> set seen"; cases "is_terminal (t_status task)")
        (auto split: if_splits) }
qed auto

section \<open>Executions\<close>

type_synonym submission_history = "(submission_operation, submission_result) history"

lemma all_submission_result:
  "(\<forall>r. P r) \<longleftrightarrow>
     (\<forall>ts. P (TasksLoaded ts)) \<and> P (ContentChecked True) \<and> P (ContentChecked False)
     \<and> (\<forall>h i. P (Tx (Confirmed h i))) \<and> (\<forall>h. P (Tx (Reverted h))) \<and> (\<forall>e. P (Tx (ReceiptUncertain e)))
     \<and> (\<forall>e. P (Tx (SendFailed e))) \<and> P (Tx NoncePoolUnavailable)
     \<and> P Persisted \<and> P StoreUnavailable \<and> P ChainReadFailed"
proof -
  have "P r" if "\<forall>ts. P (TasksLoaded ts)" "\<forall>b. P (ContentChecked b)" "\<forall>x. P (Tx x)" "P Persisted"
    "P StoreUnavailable" "P ChainReadFailed" for r
    using that by (cases r) auto
  moreover have "P (Tx x)" if "\<forall>h i. P (Tx (Confirmed h i))" "\<forall>h. P (Tx (Reverted h))"
    "\<forall>e. P (Tx (ReceiptUncertain e))" "\<forall>e. P (Tx (SendFailed e))" "P (Tx NoncePoolUnavailable)" for x
    using that by (cases x) auto
  ultimately show ?thesis by (metis (full_types))
qed

text \<open>What the step just before must have been for an operation on a task to be asked.\<close>

definition write_failed :: "register_task \<Rightarrow> error_class \<Rightarrow> submission_operation \<times> submission_result \<Rightarrow> bool" where
  "write_failed task c step =
     (fst step = SubmitRegister task
      \<and> (case snd step of Tx (ReceiptUncertain e) \<Rightarrow> classify_chain_error e = c
          | Tx (SendFailed e) \<Rightarrow> classify_chain_error e = c | _ \<Rightarrow> False))"

definition says :: "submission_history \<Rightarrow> submission_operation option \<Rightarrow> submission_result \<Rightarrow> bool" where
  "says past q r = (past \<noteq> [] \<and> Some (fst (last past)) = q \<and> snd (last past) = r)"

fun allowed_write :: "externs \<Rightarrow> register_task \<Rightarrow> submission_history \<Rightarrow> submission_operation \<Rightarrow> bool" where
  "allowed_write X task past (SubmitRegister t) =
     (t = task \<and> says past (content_question X task) (ContentChecked False))"
| "allowed_write X task past (MarkDone i tx oid) =
     (i = t_id task
      \<and> (tx = t_tx_hash task \<and> oid = None \<and> says past (content_question X task) (ContentChecked True)
         \<or> (\<exists>h. tx = Some h \<and> says past (Some (SubmitRegister task)) (Tx (Confirmed h oid)))))"
| "allowed_write X task past (MarkFailed i k m) =
     (i = t_id task
      \<and> (content_question X task = None
         \<or> past \<noteq> [] \<and> write_failed task Poison (last past)
         \<or> says past (content_question X task) (ContentChecked False)
           \<and> butlast past \<noteq> [] \<and> write_failed task AlreadyExists (last (butlast past))
         \<or> (\<exists>h. says past (Some (SubmitRegister task)) (Tx (Reverted h)))
           \<and> says (butlast past) (content_question X task) (ContentChecked False)
           \<and> (\<exists>h. says (butlast (butlast past)) (Some (SubmitRegister task)) (Tx (Reverted h)))))"
| "allowed_write X task past (RecordTransientFailure i m) =
     (i = t_id task
      \<and> (says past (content_question X task) ChainReadFailed
         \<or> past \<noteq> [] \<and> write_failed task Transient (last past)))"
| "allowed_write X task past (LoadTasks ids) = False"
| "allowed_write X task past q = (content_question X task = Some q)"

text \<open>Answers after which a batch goes on.\<close>

fun smooth :: "submission_operation \<times> submission_result \<Rightarrow> bool" where
  "smooth (LoadTasks ids, TasksLoaded ts) = True"
| "smooth (CheckContentRegistered h, ContentChecked b) = True"
| "smooth (CheckReferenced g k, ContentChecked b) = True"
| "smooth (SubmitRegister t, Tx (Confirmed h i)) = True"
| "smooth (SubmitRegister t, Tx (Reverted h)) = True"
| "smooth (SubmitRegister t, Tx (SendFailed e)) = (classify_chain_error e \<noteq> Transient)"
| "smooth (MarkDone i h n, Persisted) = True"
| "smooth (MarkFailed i k m, Persisted) = True"
| "smooth _ = False"

fun settles :: "string \<Rightarrow> submission_operation \<times> submission_result \<Rightarrow> bool" where
  "settles i (MarkDone j h n, Persisted) = (i = j)"
| "settles i (MarkFailed j k m, Persisted) = (i = j)"
| "settles i _ = False"

fun submits :: "string \<Rightarrow> submission_operation \<times> submission_result \<Rightarrow> bool" where
  "submits i (SubmitRegister t, r) = (t_id t = i)"
| "submits i _ = False"

fun concerns :: "string \<Rightarrow> submission_operation \<times> submission_result \<Rightarrow> bool" where
  "concerns i (SubmitRegister t, r) = (t_id t = i)"
| "concerns i (MarkDone j h n, r) = (i = j)"
| "concerns i (MarkFailed j k m, r) = (i = j)"
| "concerns i (RecordTransientFailure j m, r) = (i = j)"
| "concerns i _ = True"

text \<open>The stage of one task.\<close>

definition stage_ok ::
  "externs \<Rightarrow> register_task \<Rightarrow> submission_history \<Rightarrow> submission_history \<Rightarrow> (batch_verdict + unit) option \<Rightarrow> bool" where
  "stage_ok X task before tr out =
     (guarded (\<lambda>past step. allowed_write X task past (fst step)) before tr
      \<and> length (filter (submits (t_id task)) tr) \<le> 2 \<and> length tr \<le> 6 \<and> list_all (concerns (t_id task)) tr
      \<and> (case out of None \<Rightarrow> False
           | Some (Inl v) \<Rightarrow> v \<noteq> Advance \<and> \<not> list_all smooth tr
           | Some (Inr _) \<Rightarrow> list_all smooth tr \<and> length (filter (settles (t_id task)) tr) = 1))"

lemma content_question_kind:
  "content_question X task = Some q \<Longrightarrow>
     (\<exists>h. q = CheckContentRegistered h) \<or> (\<exists>g k. q = CheckReferenced g k)"
  by (auto simp: content_question_def split: task_kind.splits sum.splits list.splits)

lemmas submission_program_defs =
  task_stage_def submit_stage_def register_reverted_def classify_task_def check_content_def
  persist_def mark_done_def submit_def retry_def

lemma task_stage_ok: "wlp (task_stage X task) (stage_ok X task before) []"
proof (cases "content_question X task")
  case None
  then show ?thesis
    by (simp add: submission_program_defs all_submission_result wlp_bind_flow stage_ok_def)
next
  case (Some q)
  consider h where "q = CheckContentRegistered h" | g k where "q = CheckReferenced g k"
    using content_question_kind [OF Some] by blast
  then show ?thesis
    by cases (use Some in \<open>simp_all add: submission_program_defs all_submission_result wlp_bind_flow Let_def butlast_append
      stage_ok_def says_def write_failed_def split: error_class.split\<close>)
qed

lemma concerns_other:
  assumes "concerns i step" "i \<noteq> j"
  shows "\<not> submits j step \<and> \<not> settles j step"
proof (cases step)
  case (Pair q r)
  show ?thesis using assms unfolding Pair by (cases q; cases r; simp)
qed

lemma concerns_none:
  assumes "list_all (\<lambda>step. \<exists>i\<in>I. concerns i step) tr" "j \<notin> I"
  shows "filter (submits j) tr = []" "filter (settles j) tr = []"
proof -
  have "\<not> submits j step \<and> \<not> settles j step" if "step \<in> set tr" for step
  proof -
    have "\<exists>i\<in>I. concerns i step" using assms(1) that by (simp add: list_all_iff)
    then obtain i where i: "i \<in> I" "concerns i step" ..
    then have "i \<noteq> j" using assms(2) by metis
    then show ?thesis by (rule concerns_other [OF i(2)])
  qed
  then show "filter (submits j) tr = []" "filter (settles j) tr = []"
    unfolding filter_empty_conv by simp_all
qed

lemma settles_not_load [simp]: "\<not> settles i (LoadTasks ids, r)" "\<not> submits i (LoadTasks ids, r)"
  by (cases r; simp)+

text \<open>A whole batch: one stage after the other, left at the first answer that is not smooth.\<close>

definition batch_ok ::
  "externs \<Rightarrow> register_task list \<Rightarrow> submission_history \<Rightarrow> submission_history \<Rightarrow> (batch_verdict + batch_verdict) option \<Rightarrow> bool" where
  "batch_ok X tasks before tr out =
     (guarded (\<lambda>past step. \<exists>task\<in>set tasks. allowed_write X task past (fst step)) before tr
      \<and> (\<forall>i. length (filter (submits i) tr) \<le> 2) \<and> length tr \<le> 6 * length tasks
      \<and> list_all (\<lambda>step. \<exists>i\<in>t_id ` set tasks. concerns i step) tr
      \<and> (case out of None \<Rightarrow> False
           | Some (Inl v) \<Rightarrow> v \<noteq> Advance \<and> \<not> list_all smooth tr
           | Some (Inr v) \<Rightarrow> v = Advance \<and> list_all smooth tr
               \<and> (\<forall>task\<in>set tasks. length (filter (settles (t_id task)) tr) = 1)))"

lemma batch_ok_stop:
  assumes "stage_ok X task before tr (Some (Inl v))"
  shows "batch_ok X (task # tasks) before tr (Some (Inl v))"
proof -
  have g: "guarded (\<lambda>past step. \<exists>t\<in>set (task # tasks). allowed_write X t past (fst step)) before tr"
    by (rule guarded_mono [of "\<lambda>past step. allowed_write X task past (fst step)"])
      (use assms in \<open>simp_all add: stage_ok_def\<close>)
  have c: "list_all (concerns (t_id task)) tr" using assms by (simp add: stage_ok_def)
  have n: "length (filter (submits i) tr) \<le> 2" for i
    using assms concerns_none(1) [of "{t_id task}" tr i] c
    by (cases "i = t_id task") (simp_all add: stage_ok_def)
  have l: "list_all (\<lambda>step. \<exists>i\<in>t_id ` set (task # tasks). concerns i step) tr"
    using c by (simp add: list_all_iff)
  show ?thesis using assms g n l by (simp add: batch_ok_def stage_ok_def)
qed

lemma batch_ok_cont:
  assumes one: "stage_ok X task before tr1 (Some (Inr ()))"
    and rest: "batch_ok X tasks (before @ tr1) tr2 out" and ids: "t_id task \<notin> t_id ` set tasks"
  shows "batch_ok X (task # tasks) before (tr1 @ tr2) out"
proof -
  have "guarded (\<lambda>past step. \<exists>t\<in>set (task # tasks). allowed_write X t past (fst step)) before tr1"
    by (rule guarded_mono [of "\<lambda>past step. allowed_write X task past (fst step)"])
      (use one in \<open>simp_all add: stage_ok_def\<close>)
  moreover have "guarded (\<lambda>past step. \<exists>t\<in>set (task # tasks). allowed_write X t past (fst step)) (before @ tr1) tr2"
    by (rule guarded_mono [of "\<lambda>past step. \<exists>t\<in>set tasks. allowed_write X t past (fst step)"])
      (use rest in \<open>simp_all add: batch_ok_def\<close>)
  ultimately have g: "guarded (\<lambda>past step. \<exists>t\<in>set (task # tasks). allowed_write X t past (fst step))
      before (tr1 @ tr2)" by simp
  have c1: "list_all (concerns (t_id task)) tr1" using one by (simp add: stage_ok_def)
  have c2: "list_all (\<lambda>step. \<exists>i\<in>t_id ` set tasks. concerns i step) tr2"
    using rest by (simp add: batch_ok_def)
  have none1: "filter (submits i) tr1 = []" "filter (settles i) tr1 = []" if "i \<noteq> t_id task" for i
    using concerns_none [of "{t_id task}" tr1 i] c1 that by simp_all
  have none2: "filter (submits (t_id task)) tr2 = []" "filter (settles (t_id task)) tr2 = []"
    using concerns_none [OF c2 ids] by simp_all
  have n: "length (filter (submits i) (tr1 @ tr2)) \<le> 2" for i
    using one rest none1 none2 by (cases "i = t_id task") (simp_all add: stage_ok_def batch_ok_def)
  have l: "list_all (\<lambda>step. \<exists>i\<in>t_id ` set (task # tasks). concerns i step) (tr1 @ tr2)"
    using c1 c2 by (auto simp: list_all_iff)
  have len: "length (tr1 @ tr2) \<le> 6 * length (task # tasks)"
    using one rest by (simp add: stage_ok_def batch_ok_def)
  have settled: "length (filter (settles (t_id t)) (tr1 @ tr2)) = 1"
    if "t \<in> set (task # tasks)" "out = Some (Inr v)" for t v
    using one rest none1 none2 ids that
    by (cases "t_id t = t_id task") (auto simp: stage_ok_def batch_ok_def)
  have sm: "list_all smooth tr1" using one by (simp add: stage_ok_def)
  show ?thesis
    unfolding batch_ok_def using g n l len settled sm rest
    by (auto simp: batch_ok_def split: option.splits sum.splits)
qed

lemma batch_loop_ok:
  assumes "distinct (map t_id tasks)" "exec (batch_loop X tasks) tr out"
  shows "batch_ok X tasks before tr out"
  using assms
proof (induction tasks arbitrary: tr before)
  case Nil
  then show ?case by (simp add: batch_ok_def)
next
  case (Cons task tasks)
  note stage = wlp_sound [OF task_stage_ok, of X task]
  consider
      (cont) tr1 tr2 where "tr = tr1 @ tr2" "exec (task_stage X task) tr1 (Some (Inr ()))"
        "exec (batch_loop X tasks) tr2 out"
    | (stop) v where "exec (task_stage X task) tr (Some (Inl v))" "out = Some (Inl v)"
    | (panic) "exec (task_stage X task) tr None"
    using Cons.prems(2) by (auto simp: exec_bind_flow)
  then show ?case
  proof cases
    case cont
    then show ?thesis using batch_ok_cont [OF stage] Cons.IH Cons.prems(1) by simp
  next
    case stop
    then show ?thesis using batch_ok_stop [OF stage] by simp
  next
    case panic
    then show ?thesis using stage [OF panic, of before] by (simp add: stage_ok_def)
  qed
qed

text \<open>What every execution of the program is.\<close>

lemma submission_exec_cases:
  assumes "exec (submission_program X ids) tr out"
  obtains (empty) "ids = []" "tr = []" "out = Some Advance"
    | (unloaded) r v where "ids \<noteq> []" "tr = [(LoadTasks ids, r)]" "\<not> smooth (LoadTasks ids, r)"
        "out = Some v" "v \<noteq> Advance"
    | (loaded) ts tr' x where "ids \<noteq> []" "tr = (LoadTasks ids, TasksLoaded ts) # tr'"
        "batch_ok X (canonical [] ts) [(LoadTasks ids, TasksLoaded ts)] tr' (Some x)"
        "out = Some (case x of Inl v \<Rightarrow> v | Inr v \<Rightarrow> v)"
proof (cases "ids = []")
  case True
  then show ?thesis using assms by (intro empty) (simp_all add: submission_program_def drive_batch_def)
next
  case False
  then obtain r tr' where tr: "tr = (LoadTasks ids, r) # tr'"
    and rest: "exec (settle (case r of TasksLoaded tasks \<Rightarrow> batch_loop X (canonical [] tasks)
          | StoreUnavailable \<Rightarrow> Done (Inl (retry ''could not load Redis register task''))
          | _ \<Rightarrow> Done (Inl (retry ''unexpected shell result for LoadTasks'')))) tr' out"
    using assms unfolding submission_program_def drive_batch_def by (auto simp: exec_Ask)
  show ?thesis
  proof (cases r)
    case (TasksLoaded ts)
    obtain x where x: "exec (batch_loop X (canonical [] ts)) tr' x"
      "out = map_option (\<lambda>x. case x of Inl v \<Rightarrow> v | Inr v \<Rightarrow> v) x"
      using rest TasksLoaded by (auto simp: exec_settle)
    have ok: "batch_ok X (canonical [] ts) [(LoadTasks ids, TasksLoaded ts)] tr' x"
      by (rule batch_loop_ok [OF canonical_spec(2) x(1)])
    then obtain y where "x = Some y" by (cases x) (simp_all add: batch_ok_def)
    then show ?thesis using loaded False tr TasksLoaded ok x(2) by simp
  qed (use False tr rest unloaded in \<open>simp_all add: retry_def\<close>)
qed

section \<open>Properties\<close>

text \<open>C3: Against every shell, every operation of a batch run is earned by the steps before it.  The
  first operation loads the batch's ids; every later one belongs to a loaded task that is not
  terminal.  A register transaction is submitted only directly after the chain answered that
  this task's write is absent; a task is marked done only directly after the chain answered that
  its write is there (keeping the stored transaction hash) or after its own transaction was
  confirmed (with that hash and id); it is marked failed only when it cannot be encoded, after a
  write error classified as poison, after an already-exists error the chain did not confirm, or
  after two reverted transactions with the write still absent; a retry is counted only after a
  failed chain read or a transient write error.\<close>

theorem submission_gated:
  assumes "exec (submission_program X ids) (past @ step # rest) out"
  shows "past = [] \<and> fst step = LoadTasks ids
    \<or> (\<exists>ts task. hd past = (LoadTasks ids, TasksLoaded ts)
         \<and> Some task \<in> set ts \<and> \<not> is_terminal (t_status task)
         \<and> allowed_write X task past (fst step))"
  using assms
proof (cases rule: submission_exec_cases)
  case empty
  then show ?thesis by simp
next
  case (unloaded r v)
  then show ?thesis by (cases past) simp_all
next
  case (loaded ts tr' x)
  show ?thesis
  proof (cases past)
    case Nil
    then show ?thesis using loaded(2) by simp
  next
    case (Cons p past')
    have p: "p = (LoadTasks ids, TasksLoaded ts)" and tr': "tr' = past' @ step # rest"
      using loaded(2) Cons by simp_all
    obtain task where "task \<in> set (canonical [] ts)" "allowed_write X task past (fst step)"
      using loaded(3) unfolding batch_ok_def tr' Cons p by auto
    then show ?thesis using canonical_spec(1) [of "[]" ts] Cons p by auto
  qed
qed

definition sample_batch :: submission_history where
  "sample_batch =
     (let question = CheckReferenced (t_group_public_key sample_refer) (m_public_key (hd (t_members sample_refer)))
      in [(LoadTasks [''t2'', ''t2''], TasksLoaded [Some sample_refer, Some sample_refer]),
          (question, ContentChecked False),
          (SubmitRegister sample_refer, Tx (Reverted ''0x1'')),
          (question, ContentChecked False),
          (SubmitRegister sample_refer, Tx (Confirmed ''0x2'' (Some 5))),
          (MarkDone ''t2'' (Some ''0x2'') (Some 5), Persisted)])"

lemma sample_refer_simps:
  "t_id sample_refer = ''t2''" "t_status sample_refer = Pending" "t_kind sample_refer = Refer"
  "t_members sample_refer = [sample_member (\<lambda>a. reference_binding_for ref_externs key_2 a [])]"
  by (simp_all add: sample_refer_def pending_task_def)

lemma sample_batch_exec:
  "exec (submission_program ref_externs [''t2'', ''t2'']) sample_batch (Some Advance)"
  by (simp add: submission_program_def drive_batch_def sample_batch_def sample_refer_simps
      content_question_def submission_program_defs Let_def)

theorem submission_gated_witness:
  "\<exists>ts task. hd (take 4 sample_batch) = (LoadTasks [''t2'', ''t2''], TasksLoaded ts)
     \<and> Some task \<in> set ts \<and> \<not> is_terminal (t_status task)
     \<and> allowed_write ref_externs task (take 4 sample_batch) (SubmitRegister sample_refer)"
proof -
  have "sample_batch = take 4 sample_batch
      @ (SubmitRegister sample_refer, Tx (Confirmed ''0x2'' (Some 5))) # drop 5 sample_batch"
    and ne: "take 4 sample_batch \<noteq> []"
    by (simp_all add: sample_batch_def Let_def)
  then have "exec (submission_program ref_externs [''t2'', ''t2''])
      (take 4 sample_batch @ (SubmitRegister sample_refer, Tx (Confirmed ''0x2'' (Some 5))) # drop 5 sample_batch)
      (Some Advance)" using sample_batch_exec by metis
  from submission_gated [OF this] show ?thesis using ne by simp
qed

text \<open>C5: Every batch run ends with a verdict (no \<^verbatim>\<open>unreachable!\<close> is reached), and the verdict is
  Advance exactly when every answer of the shell was one after which the batch goes on (tasks
  loaded, chain read answered, write confirmed, reverted or refused for good, outcome
  persisted); a failed read or write of the store, a failed chain read, an uncertain receipt, a
  missing nonce or a transient send error always retries the batch.\<close>

theorem submission_verdict:
  assumes "exec (submission_program X ids) tr out"
  shows "\<exists>v. out = Some v \<and> (v = Advance \<longleftrightarrow> list_all smooth tr)"
  using assms
proof (cases rule: submission_exec_cases)
  case (loaded ts tr' x)
  then show ?thesis by (cases x) (auto simp: batch_ok_def)
qed auto

theorem submission_verdict_witness: "list_all smooth sample_batch"
  using submission_verdict [OF sample_batch_exec] by simp

text \<open>C4: When a batch advances the consumer offset, every task it loaded that was not terminal has been
  settled by exactly one persisted outcome (done or failed) in this run: no task is lost by
  advancing and none is settled twice.\<close>

theorem submission_advance_settles:
  assumes "exec (submission_program X ids) ((LoadTasks ids, TasksLoaded ts) # tr) (Some Advance)"
    and "Some task \<in> set ts" "\<not> is_terminal (t_status task)"
  shows "length (filter (settles (t_id task)) tr) = 1"
  using assms(1)
proof (cases rule: submission_exec_cases)
  case (loaded ts' tr' x)
  obtain t where t: "t \<in> set (canonical [] ts)" "t_id t = t_id task"
    using canonical_spec(3) [OF assms(2,3), of "[]"] by fastforce
  show ?thesis using loaded t by (cases x) (auto simp: batch_ok_def)
qed auto

theorem submission_advance_settles_witness:
  "length (filter (settles ''t2'') (tl sample_batch)) = 1"
proof -
  have "sample_batch = (LoadTasks [''t2'', ''t2''], TasksLoaded [Some sample_refer, Some sample_refer]) # tl sample_batch"
    by (simp add: sample_batch_def Let_def)
  then have "exec (submission_program ref_externs [''t2'', ''t2''])
      ((LoadTasks [''t2'', ''t2''], TasksLoaded [Some sample_refer, Some sample_refer]) # tl sample_batch) (Some Advance)"
    using sample_batch_exec by metis
  from submission_advance_settles [OF this, of sample_refer] show ?thesis by (simp add: sample_refer_simps)
qed

text \<open>C31: A batch run asks one load and at most six operations per distinct unsettled task, and submits at most two
  transactions for a task: the revert recovery resends once, never in a loop.\<close>

theorem submission_bounded:
  assumes "exec (submission_program X ids) tr out" "hd tr = (LoadTasks ids, TasksLoaded ts)"
  shows "length tr \<le> 1 + 6 * length (canonical [] ts) \<and> length (filter (submits i) tr) \<le> 2"
  using assms(1)
proof (cases rule: submission_exec_cases)
  case (loaded ts' tr' x)
  then show ?thesis using assms(2) by (simp add: batch_ok_def)
qed (use assms(2) in auto)

theorem submission_bounded_witness:
  "length sample_batch \<le> 7 \<and> length (filter (submits ''t2'') sample_batch) \<le> 2"
  using submission_bounded [OF sample_batch_exec, of "[Some sample_refer, Some sample_refer]" "''t2''"]
  by (simp add: sample_batch_def Let_def sample_refer_simps)

end
