(* ===== verification/Json.thy ===== *)
theory Json
  imports Main
begin

text \<open>
  \<^verbatim>\<open>serde_json::Value\<close> as the query bodies, the cache and the RPC answers use it.  An object lists its
  fields as the \<^verbatim>\<open>json!\<close> literal does; numbers are the integers the code renders.
\<close>

datatype json =
    JNull
  | JBool bool
  | JNumber int
  | JString string
  | JArray "json list"
  | JObject "(string \<times> json) list"

definition json_option :: "('a \<Rightarrow> json) \<Rightarrow> 'a option \<Rightarrow> json" where
  "json_option f x = (case x of None \<Rightarrow> JNull | Some v \<Rightarrow> f v)"

text \<open>\<^verbatim>\<open>Value::get\<close> with a field name and with an index, \<^verbatim>\<open>as_str\<close> and \<^verbatim>\<open>is_null\<close>.\<close>

fun json_get :: "string \<Rightarrow> json \<Rightarrow> json option" where
  "json_get k (JObject fields) = map_of fields k"
| "json_get k _ = None"

fun json_at :: "nat \<Rightarrow> json \<Rightarrow> json option" where
  "json_at i (JArray vs) = (if i < length vs then Some (vs ! i) else None)"
| "json_at i _ = None"

fun as_str :: "json \<Rightarrow> string option" where
  "as_str (JString s) = Some s"
| "as_str _ = None"

end
