(* ===== verification/Lookup.thy ===== *)
theory Lookup
  imports Json Samples Program
begin

text \<open>
  The program of \<^verbatim>\<open>p256-registrar/src/lookup.rs\<close>: one query is driven to an outcome over a read-through
  cache, with stale grace, negative caching of immutable ids and the placeholder of an in-flight
  task.  The five hand-written flows are modelled one by one; \<open>lookup_plan\<close> and \<open>read_through\<close>
  state the one policy they are proved to follow.
\<close>

section \<open>Bodies\<close>

definition status_json :: "task_status \<Rightarrow> json" where
  "status_json s = JString (case s of Pending \<Rightarrow> ''pending'' | DoneStatus \<Rightarrow> ''done'' | Failed \<Rightarrow> ''failed'')"

definition kind_json :: "task_kind \<Rightarrow> json" where
  "kind_json k = JString (case k of Register \<Rightarrow> ''register'' | Refer \<Rightarrow> ''refer'')"

definition is_active_placeholder :: "register_task \<Rightarrow> bool" where
  "is_active_placeholder task = (t_status task \<noteq> Failed)"

definition member_body :: "member \<Rightarrow> json" where
  "member_body m =
     JObject [(''publicKey'', JString (m_public_key m)),
              (''attestation'', JString (m_attestation m)),
              (''credentialId'', JString (m_credential_id m)),
              (''authenticatorAttachment'', JString (m_authenticator_attachment m)),
              (''transports'', JString (m_transports m))]"

definition task_status_body :: "register_task \<Rightarrow> json" where
  "task_status_body task =
     JObject [(''id'', JString (t_id task)),
              (''status'', status_json (t_status task)),
              (''kind'', kind_json (t_kind task)),
              (''rpId'', JString (t_rp_id task)),
              (''metadata'', JString (t_metadata task)),
              (''contentHash'', JString (t_content_hash task)),
              (''groupPublicKey'', JString (t_group_public_key task)),
              (''members'', JArray (map member_body (t_members task))),
              (''txHash'', json_option JString (t_tx_hash task)),
              (''onChainId'', json_option (\<lambda>n. JNumber (uint n)) (t_on_chain_id task)),
              (''error'', json_option JString (t_error task)),
              (''createdAt'', JNumber (sint (t_created_at task)))]"

definition queue_pending_body :: "register_task \<Rightarrow> string \<Rightarrow> json" where
  "queue_pending_body task public_key =
     JObject [(''total'', JNumber 0),
              (''items'', JArray []),
              (''_queue'', JObject [(''id'', JString (t_id task)), (''status'', status_json (t_status task)),
                                    (''publicKey'', JString public_key)])]"

definition empty_key_profile_body :: json where
  "empty_key_profile_body =
     JObject [(''entry'', JNull),
              (''groups'', JObject [(''total'', JNumber 0), (''unitIds'', JArray [])]),
              (''references'', JObject [(''total'', JNumber 0), (''referenceIds'', JArray [])])]"

section \<open>Endpoints, keys, operations, outcomes\<close>

record lookup_params =
  lp_public_key :: "string option"
  lp_entry_id :: "string option"
  lp_unit_id :: "string option"
  lp_group_public_key :: "string option"
  lp_page :: "u64 option"
  lp_page_size :: "u64 option"
  lp_order :: "string option"

datatype lookup_endpoint =
    Query lookup_params
  | StatsTotal
  | StatsSites lookup_params
  | StatsKeys string lookup_params

datatype lookup_cache_key =
    EntriesByKey string u64 u64 bool
  | Entry u64
  | Unit u64 u64 u64 bool
  | Group string u64 u64 bool
  | StatsTotal
  | Sites u64 u64 bool
  | Keys string u64 u64 bool

datatype ttl_class = Record | Stats

definition ttl_class_of :: "lookup_cache_key \<Rightarrow> ttl_class" where
  "ttl_class_of k =
     (case k of
        EntriesByKey _ _ _ _ \<Rightarrow> Record | Entry _ \<Rightarrow> Record | Unit _ _ _ _ \<Rightarrow> Record | Group _ _ _ _ \<Rightarrow> Record
      | StatsTotal \<Rightarrow> Stats | Sites _ _ _ \<Rightarrow> Stats | Keys _ _ _ _ \<Rightarrow> Stats)"

datatype chain_fetch =
    EntriesByKey string u64 u64 bool
  | Entry u64
  | GroupById u64 u64 u64 bool
  | GroupByKey string u64 u64 bool
  | Totals
  | Sites u64 u64 bool
  | Keys string u64 u64 bool

datatype lookup_operation =
    ReadCache lookup_cache_key
  | WriteCache lookup_cache_key json bool
  | AllowRead
  | FetchChain chain_fetch
  | FindTaskByKey string

datatype lookup_result =
    CacheFresh json
  | CacheNegative
  | CacheStale json u64
  | CacheMiss
  | Persisted
  | StoreUnavailable
  | Allowed bool
  | Chain json
  | ChainNotFound
  | ChainFailed
  | TaskFound "register_task option"

datatype lookup_outcome =
    CachedOk json
  | Ok json
  | StaleOk json u64
  | QueuePending json
  | Invalid string
  | NotFound
  | ReadLimited
  | DependencyUnavailable string

type_synonym 'a lookup_flow = "(lookup_operation, lookup_result, lookup_outcome, 'a) flow"

section \<open>Parameters\<close>

definition redis_down :: lookup_outcome where
  "redis_down = DependencyUnavailable ''redis''"

definition rpc_down :: lookup_outcome where
  "rpc_down = DependencyUnavailable ''rpc''"

definition pagination :: "lookup_params \<Rightarrow> u64 \<times> u64 \<times> bool" where
  "pagination params =
     (let page = max (unwrap_or 1 (lp_page params)) 1;
          page_size = min (max (unwrap_or 20 (lp_page_size params)) 1) 100;
          descending = (lp_order params \<noteq> Some ''asc'')
      in (page, page_size, descending))"

text \<open>\<^verbatim>\<open>(page - 1) * page_size\<close> in \<^verbatim>\<open>u64\<close>; a release build wraps.\<close>

definition offset_of :: "u64 \<Rightarrow> u64 \<Rightarrow> u64" where
  "offset_of page page_size = (page - 1) * page_size"

definition normalize_public_key_param :: "string \<Rightarrow> string result" where
  "normalize_public_key_param value =
     (let raw = unwrap_or value (strip_prefix ''0x'' value) in
      if length raw \<noteq> 130 \<or> \<not> list_all is_ascii_hexdigit raw
      then Inl ''publicKey must be an uncompressed P-256 point (04 + 128 hex chars)''
      else if \<not> starts_with ''04'' raw
      then Inl ''publicKey must start with the uncompressed prefix 04''
      else Inr (to_ascii_lowercase raw))"

text \<open>\<^verbatim>\<open>str::replacen(pattern, with, 1)\<close>.\<close>

fun replace_first :: "string \<Rightarrow> string \<Rightarrow> string \<Rightarrow> string" where
  "replace_first pat rep s =
     (case strip_prefix pat s of
        Some rest \<Rightarrow> rep @ rest
      | None \<Rightarrow> (case s of [] \<Rightarrow> [] | c # cs \<Rightarrow> c # replace_first pat rep cs))"

declare replace_first.simps [simp del]

section \<open>The flows\<close>

definition allow_read :: "unit lookup_flow" where
  "allow_read =
     Ask AllowRead (\<lambda>res. case res of
         Allowed allowed \<Rightarrow> if allowed then Done (Inr ()) else Done (Inl ReadLimited)
       | _ \<Rightarrow> Done (Inr ()))"

definition stale_or_down :: "(json \<times> u64) option \<Rightarrow> lookup_outcome lookup_flow" where
  "stale_or_down stale =
     (case stale of Some (v, age_ms) \<Rightarrow> Done (Inr (StaleOk v age_ms)) | None \<Rightarrow> Done (Inl rpc_down))"

definition backfill :: "lookup_cache_key \<Rightarrow> json \<Rightarrow> bool \<Rightarrow> lookup_outcome \<Rightarrow> lookup_outcome lookup_flow" where
  "backfill cache_key v negative outcome = Ask (WriteCache cache_key v negative) (\<lambda>_. Done (Inr outcome))"

definition entries_by_key_flow :: "string \<Rightarrow> u64 \<Rightarrow> u64 \<Rightarrow> bool \<Rightarrow> lookup_outcome lookup_flow" where
  "entries_by_key_flow public_key page page_size descending =
     (let cache_key = lookup_cache_key.EntriesByKey public_key page page_size descending;
          continue = (\<lambda>stale.
            bind_flow allow_read (\<lambda>_.
            Ask (FetchChain (chain_fetch.EntriesByKey public_key (offset_of page page_size) page_size descending))
              (\<lambda>res. case res of
                 Chain v \<Rightarrow> backfill cache_key v False (Ok v)
               | ChainNotFound \<Rightarrow>
                   Ask (FindTaskByKey public_key) (\<lambda>res. case res of
                       TaskFound (Some task) \<Rightarrow>
                         if is_active_placeholder task
                         then Done (Inr (QueuePending (queue_pending_body task public_key)))
                         else Done (Inr (Ok empty_key_profile_body))
                     | TaskFound None \<Rightarrow> Done (Inr (Ok empty_key_profile_body))
                     | _ \<Rightarrow> Done (Inl redis_down))
               | ChainFailed \<Rightarrow> stale_or_down stale
               | _ \<Rightarrow> Done (Inl rpc_down))))
      in Ask (ReadCache cache_key) (\<lambda>res. case res of
             CacheFresh v \<Rightarrow> Done (Inr (CachedOk v))
           | CacheStale v age_ms \<Rightarrow> continue (Some (v, age_ms))
           | CacheNegative \<Rightarrow> continue None
           | CacheMiss \<Rightarrow> continue None
           | _ \<Rightarrow> Done (Inl redis_down)))"

definition entry_flow :: "u64 \<Rightarrow> lookup_outcome lookup_flow" where
  "entry_flow entry_id =
     (let cache_key = lookup_cache_key.Entry entry_id;
          continue = (\<lambda>stale.
            bind_flow allow_read (\<lambda>_.
            Ask (FetchChain (chain_fetch.Entry entry_id)) (\<lambda>res. case res of
                 Chain v \<Rightarrow> backfill cache_key v False (Ok v)
               | ChainNotFound \<Rightarrow> backfill cache_key JNull True NotFound
               | ChainFailed \<Rightarrow> stale_or_down stale
               | _ \<Rightarrow> Done (Inl rpc_down))))
      in Ask (ReadCache cache_key) (\<lambda>res. case res of
             CacheFresh v \<Rightarrow> Done (Inr (CachedOk v))
           | CacheNegative \<Rightarrow> Done (Inr NotFound)
           | CacheStale v age_ms \<Rightarrow> continue (Some (v, age_ms))
           | CacheMiss \<Rightarrow> continue None
           | _ \<Rightarrow> Done (Inl redis_down)))"

definition group_by_id_flow :: "u64 \<Rightarrow> u64 \<Rightarrow> u64 \<Rightarrow> bool \<Rightarrow> lookup_outcome lookup_flow" where
  "group_by_id_flow unit_id page page_size descending =
     (let cache_key = Unit unit_id page page_size descending;
          continue = (\<lambda>stale.
            bind_flow allow_read (\<lambda>_.
            Ask (FetchChain (GroupById unit_id (offset_of page page_size) page_size descending))
              (\<lambda>res. case res of
                 Chain v \<Rightarrow> backfill cache_key v False (Ok v)
               | ChainNotFound \<Rightarrow> backfill cache_key JNull True NotFound
               | ChainFailed \<Rightarrow> stale_or_down stale
               | _ \<Rightarrow> Done (Inl rpc_down))))
      in Ask (ReadCache cache_key) (\<lambda>res. case res of
             CacheFresh v \<Rightarrow> Done (Inr (CachedOk v))
           | CacheNegative \<Rightarrow> Done (Inr NotFound)
           | CacheStale v age_ms \<Rightarrow> continue (Some (v, age_ms))
           | CacheMiss \<Rightarrow> continue None
           | _ \<Rightarrow> Done (Inl redis_down)))"

definition group_by_key_flow :: "string \<Rightarrow> u64 \<Rightarrow> u64 \<Rightarrow> bool \<Rightarrow> lookup_outcome lookup_flow" where
  "group_by_key_flow group_key page page_size descending =
     (let cache_key = Group group_key page page_size descending;
          continue = (\<lambda>stale.
            bind_flow allow_read (\<lambda>_.
            Ask (FetchChain (GroupByKey group_key (offset_of page page_size) page_size descending))
              (\<lambda>res. case res of
                 Chain v \<Rightarrow> backfill cache_key v False (Ok v)
               | ChainNotFound \<Rightarrow>
                   Ask (FindTaskByKey group_key) (\<lambda>res. case res of
                       TaskFound (Some task) \<Rightarrow>
                         if is_active_placeholder task
                         then Done (Inr (QueuePending (queue_pending_body task group_key)))
                         else Done (Inr NotFound)
                     | TaskFound None \<Rightarrow> Done (Inr NotFound)
                     | _ \<Rightarrow> Done (Inl redis_down))
               | ChainFailed \<Rightarrow> stale_or_down stale
               | _ \<Rightarrow> Done (Inl rpc_down))))
      in Ask (ReadCache cache_key) (\<lambda>res. case res of
             CacheFresh v \<Rightarrow> Done (Inr (CachedOk v))
           | CacheStale v age_ms \<Rightarrow> continue (Some (v, age_ms))
           | CacheNegative \<Rightarrow> continue None
           | CacheMiss \<Rightarrow> continue None
           | _ \<Rightarrow> Done (Inl redis_down)))"

definition stats_flow :: "lookup_cache_key \<Rightarrow> chain_fetch \<Rightarrow> lookup_outcome lookup_flow" where
  "stats_flow key fetch =
     (let continue = (\<lambda>stale.
            bind_flow allow_read (\<lambda>_.
            Ask (FetchChain fetch) (\<lambda>res. case res of
                 Chain v \<Rightarrow> backfill key v False (Ok v)
               | ChainFailed \<Rightarrow> stale_or_down stale
               | _ \<Rightarrow> Done (Inl rpc_down))))
      in Ask (ReadCache key) (\<lambda>res. case res of
             CacheFresh v \<Rightarrow> Done (Inr (CachedOk v))
           | CacheStale v age_ms \<Rightarrow> continue (Some (v, age_ms))
           | CacheNegative \<Rightarrow> continue None
           | CacheMiss \<Rightarrow> continue None
           | _ \<Rightarrow> Done (Inl redis_down)))"

definition query_flow :: "lookup_params \<Rightarrow> lookup_outcome lookup_flow" where
  "query_flow params =
     (case lp_entry_id params of
        Some entry_id \<Rightarrow>
          (case parse_unsigned 64 entry_id of
             None \<Rightarrow> Done (Inr (Invalid ''entryId must be an unsigned integer''))
           | Some entry_id \<Rightarrow> entry_flow (of_nat entry_id))
      | None \<Rightarrow>
     (case lp_unit_id params of
        Some unit_id \<Rightarrow>
          (case parse_unsigned 64 unit_id of
             None \<Rightarrow> Done (Inr (Invalid ''unitId must be an unsigned integer''))
           | Some unit_id \<Rightarrow>
               (let (page, page_size, descending) = pagination params
                in group_by_id_flow (of_nat unit_id) page page_size descending))
      | None \<Rightarrow>
     (case lp_group_public_key params of
        Some group_key \<Rightarrow>
          (case normalize_public_key_param group_key of
             Inl message \<Rightarrow> Done (Inr (Invalid (replace_first ''publicKey'' ''groupPublicKey'' message)))
           | Inr group_key \<Rightarrow>
               (let (page, page_size, descending) = pagination params
                in group_by_key_flow group_key page page_size descending))
      | None \<Rightarrow>
     (case lp_public_key params of
        None \<Rightarrow> Done (Inr (Invalid ''publicKey, entryId, unitId or groupPublicKey is required''))
      | Some public_key \<Rightarrow>
          (case normalize_public_key_param public_key of
             Inl message \<Rightarrow> Done (Inr (Invalid message))
           | Inr public_key \<Rightarrow>
               (let (page, page_size, descending) = pagination params
                in entries_by_key_flow public_key page page_size descending))))))"

definition drive_lookup :: "lookup_endpoint \<Rightarrow> lookup_outcome lookup_flow" where
  "drive_lookup endpoint =
     (case endpoint of
        Query params \<Rightarrow> query_flow params
      | lookup_endpoint.StatsTotal \<Rightarrow> stats_flow lookup_cache_key.StatsTotal Totals
      | StatsSites params \<Rightarrow>
          (let (page, page_size, descending) = pagination params
           in stats_flow (lookup_cache_key.Sites page page_size descending)
                (chain_fetch.Sites (offset_of page page_size) page_size descending))
      | StatsKeys rp_id params \<Rightarrow>
          if rp_id = [] then Done (Inr (Invalid ''rpId is required''))
          else if 253 < length rp_id then Done (Inr (Invalid ''rpId exceeds max length (253)''))
          else
            (let (page, page_size, descending) = pagination params
             in stats_flow (lookup_cache_key.Keys rp_id page page_size descending)
                  (chain_fetch.Keys rp_id (offset_of page page_size) page_size descending)))"

section \<open>The app\<close>

datatype lookup_event = Start lookup_endpoint | Settled lookup_outcome

record lookup_model =
  lm_outcome :: "lookup_outcome option"

definition lookup_update ::
  "lookup_event \<Rightarrow> lookup_model \<Rightarrow> lookup_model \<times> (lookup_operation, lookup_result, lookup_event) prog option" where
  "lookup_update event model =
     (case event of
        Start endpoint \<Rightarrow>
          (model, Some (bind_prog (settle (drive_lookup endpoint)) (\<lambda>outcome. Done (Settled outcome))))
      | Settled outcome \<Rightarrow> (model\<lparr>lm_outcome := Some outcome\<rparr>, None))"

definition lookup_view :: "lookup_model \<Rightarrow> lookup_outcome option" where
  "lookup_view model = lm_outcome model"

definition lookup_program :: "lookup_endpoint \<Rightarrow> (lookup_operation, lookup_result, lookup_outcome) prog" where
  "lookup_program endpoint = settle (drive_lookup endpoint)"

section \<open>The policy\<close>

text \<open>What an endpoint asks for: its cache key, its chain fetch, and what absence on chain means for it:
  cache the 404 of an immutable id (\<open>Negative\<close>), ask for an in-flight task of the key and else
  answer with a body or a 404 (\<open>Placeholder\<close>), or nothing, since an aggregate is never absent.\<close>

datatype absence =
    Negative
  | Placeholder string "json option"
  | Impossible

definition answer_or_404 :: "json option \<Rightarrow> lookup_outcome" where
  "answer_or_404 body = (case body of Some v \<Rightarrow> Ok v | None \<Rightarrow> NotFound)"

fun absent_flow :: "lookup_cache_key \<Rightarrow> absence \<Rightarrow> lookup_outcome lookup_flow" where
  "absent_flow key Negative = Ask (WriteCache key JNull True) (\<lambda>_. Done (Inr NotFound))"
| "absent_flow key (Placeholder k otherwise) =
     Ask (FindTaskByKey k) (\<lambda>res. case res of
         TaskFound found \<Rightarrow>
           (case found of
              Some task \<Rightarrow>
                if t_status task \<noteq> Failed then Done (Inr (QueuePending (queue_pending_body task k)))
                else Done (Inr (answer_or_404 otherwise))
            | None \<Rightarrow> Done (Inr (answer_or_404 otherwise)))
       | _ \<Rightarrow> Done (Inl redis_down))"
| "absent_flow key Impossible = Done (Inl rpc_down)"

definition on_miss ::
  "lookup_cache_key \<Rightarrow> chain_fetch \<Rightarrow> absence \<Rightarrow> (json \<times> u64) option \<Rightarrow> lookup_outcome lookup_flow" where
  "on_miss key fetch absent stale =
     Ask AllowRead (\<lambda>res. if res = Allowed False then Done (Inl ReadLimited) else
     Ask (FetchChain fetch) (\<lambda>res. case res of
         Chain v \<Rightarrow> Ask (WriteCache key v False) (\<lambda>_. Done (Inr (Ok v)))
       | ChainNotFound \<Rightarrow> absent_flow key absent
       | ChainFailed \<Rightarrow> Done (case stale of Some (v, age) \<Rightarrow> Inr (StaleOk v age) | None \<Rightarrow> Inl rpc_down)
       | _ \<Rightarrow> Done (Inl rpc_down)))"

definition read_through :: "lookup_cache_key \<Rightarrow> chain_fetch \<Rightarrow> absence \<Rightarrow> lookup_outcome lookup_flow" where
  "read_through key fetch absent =
     Ask (ReadCache key) (\<lambda>res. case res of
         CacheFresh v \<Rightarrow> Done (Inr (CachedOk v))
       | CacheStale v age \<Rightarrow> on_miss key fetch absent (Some (v, age))
       | CacheNegative \<Rightarrow> if absent = Negative then Done (Inr NotFound) else on_miss key fetch absent None
       | CacheMiss \<Rightarrow> on_miss key fetch absent None
       | _ \<Rightarrow> Done (Inl redis_down))"

definition lookup_plan :: "lookup_endpoint \<Rightarrow> string + lookup_cache_key \<times> chain_fetch \<times> absence" where
  "lookup_plan endpoint =
     (case endpoint of
        lookup_endpoint.StatsTotal \<Rightarrow> Inr (lookup_cache_key.StatsTotal, Totals, Impossible)
      | StatsSites p \<Rightarrow>
          (let (n, s, d) = pagination p
           in Inr (lookup_cache_key.Sites n s d, chain_fetch.Sites (offset_of n s) s d, Impossible))
      | StatsKeys r p \<Rightarrow>
          bind_res (validate_rp_id (Some r)) (\<lambda>r.
            let (n, s, d) = pagination p
            in Inr (lookup_cache_key.Keys r n s d, chain_fetch.Keys r (offset_of n s) s d, Impossible))
      | Query p \<Rightarrow>
          (let (n, s, d) = pagination p in
           case (lp_entry_id p, lp_unit_id p, lp_group_public_key p, lp_public_key p) of
             (Some e, _) \<Rightarrow>
               bind_res (ok_or ''entryId must be an unsigned integer'' (parse_unsigned 64 e)) (\<lambda>e.
                 Inr (lookup_cache_key.Entry (of_nat e), chain_fetch.Entry (of_nat e), Negative))
           | (None, Some u, _) \<Rightarrow>
               bind_res (ok_or ''unitId must be an unsigned integer'' (parse_unsigned 64 u)) (\<lambda>u.
                 Inr (Unit (of_nat u) n s d, GroupById (of_nat u) (offset_of n s) s d, Negative))
           | (None, None, Some g, _) \<Rightarrow>
               bind_res (map_err (replace_first ''publicKey'' ''groupPublicKey'') (normalize_public_key_param g)) (\<lambda>g.
                 Inr (Group g n s d, GroupByKey g (offset_of n s) s d, Placeholder g None))
           | (None, None, None, Some k) \<Rightarrow>
               bind_res (normalize_public_key_param k) (\<lambda>k.
                 Inr (lookup_cache_key.EntriesByKey k n s d, chain_fetch.EntriesByKey k (offset_of n s) s d,
                      Placeholder k (Some empty_key_profile_body)))
           | (None, None, None, None) \<Rightarrow> Inl ''publicKey, entryId, unitId or groupPublicKey is required''))"

lemma all_lookup_result:
  "(\<forall>r. P r) \<longleftrightarrow>
     (\<forall>v. P (CacheFresh v)) \<and> P CacheNegative \<and> (\<forall>v a. P (CacheStale v a)) \<and> P CacheMiss \<and> P Persisted
     \<and> P StoreUnavailable \<and> P (Allowed True) \<and> P (Allowed False) \<and> (\<forall>v. P (Chain v)) \<and> P ChainNotFound
     \<and> P ChainFailed \<and> P (TaskFound None) \<and> (\<forall>t. P (TaskFound (Some t)))"
proof -
  have "P r" if "\<forall>v. P (CacheFresh v)" "P CacheNegative" "\<forall>v a. P (CacheStale v a)" "P CacheMiss" "P Persisted"
    "P StoreUnavailable" "\<forall>b. P (Allowed b)" "\<forall>v. P (Chain v)" "P ChainNotFound" "P ChainFailed"
    "\<forall>t. P (TaskFound t)" for r
    using that by (cases r) auto
  then show ?thesis by (metis (full_types) not_None_eq)
qed

lemma ask_ext: "(\<And>r. k r = k' r) \<Longrightarrow> Ask q k = Ask q k'"
  by (simp add: fun_eq_iff)

lemma allow_read_bind:
  "bind_flow allow_read (\<lambda>_. p) = Ask AllowRead (\<lambda>res. if res = Allowed False then Done (Inl ReadLimited) else p)"
  unfolding allow_read_def by (simp add: fun_eq_iff split: lookup_result.split)

lemmas lookup_flow_defs =
  backfill_def stale_or_down_def redis_down_def rpc_down_def Let_def allow_read_bind
  is_active_placeholder_def answer_or_404_def

lemma flows_read_through:
  "entry_flow e = read_through (lookup_cache_key.Entry e) (chain_fetch.Entry e) Negative"
  "group_by_id_flow u n s d = read_through (Unit u n s d) (GroupById u (offset_of n s) s d) Negative"
  "group_by_key_flow g n s d =
     read_through (Group g n s d) (GroupByKey g (offset_of n s) s d) (Placeholder g None)"
  "entries_by_key_flow g n s d =
     read_through (lookup_cache_key.EntriesByKey g n s d) (chain_fetch.EntriesByKey g (offset_of n s) s d)
       (Placeholder g (Some empty_key_profile_body))"
  "stats_flow key fetch = read_through key fetch Impossible"
  unfolding entry_flow_def group_by_id_flow_def group_by_key_flow_def entries_by_key_flow_def
    stats_flow_def read_through_def on_miss_def
  by (auto simp: lookup_flow_defs fun_eq_iff split: lookup_result.split option.split)

section \<open>Executions\<close>

type_synonym lookup_history = "(lookup_operation, lookup_result) history"

text \<open>What must have happened before an operation is asked.\<close>

definition read_allowed :: "lookup_cache_key \<Rightarrow> absence \<Rightarrow> lookup_history \<Rightarrow> bool" where
  "read_allowed key absent past =
     (case past of
        [(ReadCache k, r), (AllowRead, a)] \<Rightarrow>
          k = key \<and> a \<noteq> Allowed False
          \<and> (r = CacheMiss \<or> r = CacheNegative \<and> absent \<noteq> Negative
             \<or> (case r of CacheStale _ _ \<Rightarrow> True | _ \<Rightarrow> False))
      | _ \<Rightarrow> False)"

fun allowed_lookup ::
  "lookup_cache_key \<Rightarrow> chain_fetch \<Rightarrow> absence \<Rightarrow> lookup_history \<Rightarrow> lookup_operation \<Rightarrow> bool" where
  "allowed_lookup key fetch absent past (ReadCache k) = (past = [] \<and> k = key)"
| "allowed_lookup key fetch absent past AllowRead = (length past = 1)"
| "allowed_lookup key fetch absent past (FetchChain f) = (f = fetch \<and> read_allowed key absent past)"
| "allowed_lookup key fetch absent past (WriteCache k v negative) =
     (k = key \<and> past \<noteq> [] \<and> fst (last past) = FetchChain fetch
      \<and> (if negative then v = JNull \<and> snd (last past) = ChainNotFound \<and> absent = Negative
         else snd (last past) = Chain v))"
| "allowed_lookup key fetch absent past (FindTaskByKey k) =
     (past \<noteq> [] \<and> last past = (FetchChain fetch, ChainNotFound)
      \<and> (case absent of Placeholder k' _ \<Rightarrow> k = k' | _ \<Rightarrow> False))"

text \<open>What an outcome says about the run.\<close>

fun outcome_backed ::
  "lookup_cache_key \<Rightarrow> chain_fetch \<Rightarrow> absence \<Rightarrow> lookup_history \<Rightarrow> lookup_outcome \<Rightarrow> bool" where
  "outcome_backed key fetch absent tr (CachedOk v) = (tr = [(ReadCache key, CacheFresh v)])"
| "outcome_backed key fetch absent tr (Ok v) =
     ((FetchChain fetch, Chain v) \<in> set tr
      \<or> (\<exists>k t. absent = Placeholder k (Some v) \<and> (FetchChain fetch, ChainNotFound) \<in> set tr
           \<and> (FindTaskByKey k, TaskFound t) \<in> set tr \<and> (case t of None \<Rightarrow> True | Some t \<Rightarrow> t_status t = Failed)))"
| "outcome_backed key fetch absent tr (StaleOk v age) =
     (hd tr = (ReadCache key, CacheStale v age) \<and> last tr = (FetchChain fetch, ChainFailed))"
| "outcome_backed key fetch absent tr (QueuePending body) =
     (\<exists>k t. (\<exists>x. absent = Placeholder k x) \<and> (FetchChain fetch, ChainNotFound) \<in> set tr
        \<and> last tr = (FindTaskByKey k, TaskFound (Some t)) \<and> t_status t \<noteq> Failed
        \<and> body = queue_pending_body t k)"
| "outcome_backed key fetch absent tr (Invalid m) = False"
| "outcome_backed key fetch absent tr NotFound =
     (absent = Negative \<and> tr = [(ReadCache key, CacheNegative)]
      \<or> absent \<noteq> Impossible \<and> (FetchChain fetch, ChainNotFound) \<in> set tr)"
| "outcome_backed key fetch absent tr ReadLimited = (last tr = (AllowRead, Allowed False))"
| "outcome_backed key fetch absent tr (DependencyUnavailable d) =
     (tr \<noteq> [] \<and> (if d = ''rpc'' then \<exists>r. last tr = (FetchChain fetch, r)
                  else d = ''redis'' \<and> (\<exists>q r. last tr = (q, r) \<and> (q = ReadCache key \<or> (\<exists>k. q = FindTaskByKey k)))))"

definition lookup_ok ::
  "lookup_cache_key \<Rightarrow> chain_fetch \<Rightarrow> absence \<Rightarrow> lookup_history \<Rightarrow> (lookup_outcome + lookup_outcome) option \<Rightarrow> bool" where
  "lookup_ok key fetch absent tr out =
     (guarded (\<lambda>past step. allowed_lookup key fetch absent past (fst step)) [] tr \<and> length tr \<le> 4
      \<and> (case out of None \<Rightarrow> False | Some x \<Rightarrow> outcome_backed key fetch absent tr (case x of Inl v \<Rightarrow> v | Inr v \<Rightarrow> v)))"

lemma read_through_ok: "wlp (read_through key fetch absent) (lookup_ok key fetch absent) []"
proof -
  consider "absent = Negative" | "absent = Impossible" | k where "absent = Placeholder k None"
    | k v where "absent = Placeholder k (Some v)"
    by (cases absent) (metis option.exhaust)+
  then show ?thesis
    by cases (simp_all add: read_through_def on_miss_def all_lookup_result lookup_ok_def read_allowed_def
      redis_down_def rpc_down_def answer_or_404_def)
qed

lemma validate_rp_id_StatsKeys:
  "validate_rp_id (Some r) =
     (if r = [] then Inl ''rpId is required'' else if 253 < length r then Inl ''rpId exceeds max length (253)'' else Inr r)"
  by (simp add: validate_rp_id_def)

lemma drive_lookup_plan:
  "drive_lookup endpoint =
     (case lookup_plan endpoint of
        Inl m \<Rightarrow> Done (Inr (Invalid m))
      | Inr (key, fetch, absent) \<Rightarrow> read_through key fetch absent)"
proof (cases endpoint)
  case (Query p)
  obtain n s d where p: "pagination p = (n, s, d)" by (metis prod_cases3)
  show ?thesis
    unfolding Query drive_lookup_def lookup_plan_def query_flow_def
    by (cases "lp_entry_id p"; cases "lp_unit_id p"; cases "lp_group_public_key p"; cases "lp_public_key p")
      (simp_all add: p flows_read_through ok_or_def bind_res_def map_err_def
        split: option.split sum.split)
next
  case (StatsSites p)
  obtain n s d where p: "pagination p = (n, s, d)" by (metis prod_cases3)
  show ?thesis
    unfolding StatsSites drive_lookup_def lookup_plan_def by (simp add: p flows_read_through)
next
  case (StatsKeys r p)
  obtain n s d where p: "pagination p = (n, s, d)" by (metis prod_cases3)
  show ?thesis
    unfolding StatsKeys drive_lookup_def lookup_plan_def validate_rp_id_StatsKeys
    by (simp add: p flows_read_through bind_res_def)
qed (simp add: drive_lookup_def lookup_plan_def flows_read_through)

lemma lookup_exec_cases:
  assumes "exec (lookup_program endpoint) tr out"
  obtains (invalid) m where "lookup_plan endpoint = Inl m" "tr = []" "out = Some (Invalid m)"
    | (planned) key fetch absent x where "lookup_plan endpoint = Inr (key, fetch, absent)"
        "lookup_ok key fetch absent tr x" "out = map_option (\<lambda>x. case x of Inl v \<Rightarrow> v | Inr v \<Rightarrow> v) x"
proof (cases "lookup_plan endpoint")
  case (Inl m)
  then show ?thesis using assms by (intro invalid) (simp_all add: lookup_program_def drive_lookup_plan)
next
  case (Inr kfa)
  obtain key fetch absent where kfa: "kfa = (key, fetch, absent)" by (metis prod_cases3)
  obtain x where x: "exec (read_through key fetch absent) tr x"
    "out = map_option (\<lambda>x. case x of Inl v \<Rightarrow> v | Inr v \<Rightarrow> v) x"
    using assms Inr kfa by (auto simp: lookup_program_def drive_lookup_plan exec_settle)
  show ?thesis using planned Inr kfa x(2) wlp_sound [OF read_through_ok x(1)] by simp
qed

section \<open>Properties\<close>

text \<open>C18: Every query endpoint is the same read-through policy: parameters decide either a 400 with its
  message or a cache key, a chain fetch and what absence means, and the five hand-written flows
  ask, answer and end exactly as the one reference policy does.\<close>

theorem lookup_follows_policy:
  "drive_lookup endpoint =
     (case lookup_plan endpoint of
        Inl m \<Rightarrow> Done (Inr (Invalid m))
      | Inr (key, fetch, absent) \<Rightarrow> read_through key fetch absent)"
  by (rule drive_lookup_plan)

text \<open>C17: Against every shell, a lookup reads its own cache key first, takes a request to the chain only
  after the cache did not answer fresh (or, for immutable ids, negative) and the read budget did
  not refuse it, fetches exactly the page its parameters say, writes back only what the chain just
  answered under the key it read, caches a 404 only for entry and unit ids, and asks for a
  placeholder only after the chain said the key is not there.\<close>

theorem lookup_gated:
  assumes "exec (lookup_program endpoint) (past @ step # rest) out"
  shows "\<exists>key fetch absent. lookup_plan endpoint = Inr (key, fetch, absent)
    \<and> allowed_lookup key fetch absent past (fst step)"
  using assms
proof (cases rule: lookup_exec_cases)
  case (planned key fetch absent x)
  then show ?thesis by (auto simp: lookup_ok_def)
qed simp

definition sample_query :: lookup_endpoint where
  "sample_query =
     Query \<lparr>lp_public_key = None, lp_entry_id = Some ''7'', lp_unit_id = None, lp_group_public_key = None,
            lp_page = None, lp_page_size = None, lp_order = None\<rparr>"

definition sample_lookup :: lookup_history where
  "sample_lookup =
     [(ReadCache (lookup_cache_key.Entry 7), CacheStale JNull 5), (AllowRead, StoreUnavailable),
      (FetchChain (chain_fetch.Entry 7), ChainFailed)]"

lemma sample_plan:
  "lookup_plan sample_query = Inr (lookup_cache_key.Entry 7, chain_fetch.Entry 7, Negative)"
proof -
  have "parse_unsigned 64 ''7'' = Some 7"
    by (simp add: parse_unsigned_def is_ascii_digit_def digits_value_def digit_value_def)
  then show ?thesis by (simp add: lookup_plan_def sample_query_def pagination_def)
qed

lemma sample_lookup_exec: "exec (lookup_program sample_query) sample_lookup (Some (StaleOk JNull 5))"
  by (simp add: lookup_program_def drive_lookup_plan sample_plan sample_lookup_def read_through_def on_miss_def)

theorem lookup_gated_witness:
  "allowed_lookup (lookup_cache_key.Entry 7) (chain_fetch.Entry 7) Negative
     [(ReadCache (lookup_cache_key.Entry 7), CacheStale JNull 5), (AllowRead, StoreUnavailable)]
     (FetchChain (chain_fetch.Entry 7))"
  using lookup_gated [of sample_query "take 2 sample_lookup" "last sample_lookup" "[]" "Some (StaleOk JNull 5)"]
    sample_lookup_exec sample_plan
  by (simp add: sample_lookup_def)

text \<open>C16: Against every shell, a lookup ends within four operations with an outcome that its run backs:
  400 exactly when the parameters are refused, before anything is asked; a cached body only on a
  fresh hit and then without any chain read; a stale body only when the chain read failed and the
  cache had returned that body as stale; a fetched body only as the chain answered it; a queue
  marker only for a task of that key that has not failed, when the chain has no record; 404 only
  for a cached or confirmed absence; 429 only when the budget refused; 503 naming the
  dependency that failed last.\<close>

theorem lookup_outcome_backed:
  assumes "exec (lookup_program endpoint) tr out"
  shows "\<exists>outcome. out = Some outcome \<and> length tr \<le> 4
    \<and> (case lookup_plan endpoint of
         Inl m \<Rightarrow> tr = [] \<and> outcome = Invalid m
       | Inr (key, fetch, absent) \<Rightarrow> outcome_backed key fetch absent tr outcome)"
  using assms
proof (cases rule: lookup_exec_cases)
  case (planned key fetch absent x)
  then show ?thesis by (cases x) (auto simp: lookup_ok_def)
qed simp

theorem lookup_outcome_backed_witness:
  "outcome_backed (lookup_cache_key.Entry 7) (chain_fetch.Entry 7) Negative sample_lookup (StaleOk JNull 5)"
  using lookup_outcome_backed [OF sample_lookup_exec] sample_plan by simp

end
