(* ===== verification/Ops.thy ===== *)
theory Ops
  imports Main
begin

text \<open>
  Fallible operations on a state: a result or an error, and the state they leave.  An error keeps
  the effects of what ran before it, as an early return with \<^verbatim>\<open>?\<close> does.
\<close>

type_synonym ('s, 'e, 'a) act = "'s \<Rightarrow> ('e + 'a) \<times> 's"

definition return_op :: "'a \<Rightarrow> ('s, 'e, 'a) act" where
  "return_op a s = (Inr a, s)"

definition fail_op :: "'e \<Rightarrow> ('s, 'e, 'a) act" where
  "fail_op e s = (Inl e, s)"

definition bind_op :: "('s, 'e, 'a) act \<Rightarrow> ('a \<Rightarrow> ('s, 'e, 'b) act) \<Rightarrow> ('s, 'e, 'b) act" where
  "bind_op m f s = (case m s of (Inl e, s') \<Rightarrow> (Inl e, s') | (Inr a, s') \<Rightarrow> f a s')"

text \<open>A value that is already there, with its own error.\<close>

definition lift_op :: "'e + 'a \<Rightarrow> ('s, 'e, 'a) act" where
  "lift_op r s = (r, s)"

lemma bind_op_Inr:
  "bind_op m f s = (Inr b, s'') \<longleftrightarrow> (\<exists>a s'. m s = (Inr a, s') \<and> f a s' = (Inr b, s''))"
  by (auto simp: bind_op_def split: prod.splits sum.splits)

lemma bind_op_Inl:
  "bind_op m f s = (Inl e, s'') \<longleftrightarrow> m s = (Inl e, s'') \<or> (\<exists>a s'. m s = (Inr a, s') \<and> f a s' = (Inl e, s''))"
  by (auto simp: bind_op_def split: prod.splits sum.splits)

lemma return_op_Inr: "return_op a s = (Inr b, s') \<longleftrightarrow> b = a \<and> s' = s"
  by (auto simp: return_op_def)

lemma op_simps:
  "\<not> return_op a s = (Inl e, s')" "fail_op e s = (Inl e', s') \<longleftrightarrow> e' = e \<and> s' = s" "\<not> fail_op e s = (Inr b, s')"
  "lift_op r s = (r', s') \<longleftrightarrow> r' = r \<and> s' = s"
  by (auto simp: return_op_def fail_op_def lift_op_def)

end
