(* ===== verification/Host.thy ===== *)
theory Host
  imports Json Prelude Ops
begin

text \<open>
  What the server's shell relies on outside this repository: HTTP posts, clocks and sleeping, the
  JSON text of a value, \<^verbatim>\<open>U256::from_str_radix\<close>, and signing.  All are parameters, the record
  \<open>host\<close> over an arbitrary world; \<open>host_ok\<close> is their documented behaviour, stated over two
  observations of the world, the posts made so far with their replies and the monotonic clock.
\<close>

datatype http_reply = NotSent | BadStatus | NotJson | Body json

text \<open>An EIP-1559 transaction before signing, \<^verbatim>\<open>TxEip1559\<close>.\<close>

record eip1559 =
  tx_chain_id :: u64
  tx_nonce :: u64
  tx_gas_limit :: u64
  tx_max_fee_per_gas :: u128
  tx_max_priority_fee_per_gas :: u128
  tx_to :: bytes
  tx_value :: u256
  tx_input :: bytes

record 'w host =
  h_posted :: "'w \<Rightarrow> (string \<times> json \<times> http_reply) list"
  h_clock :: "'w \<Rightarrow> nat"                              \<comment> \<open>nanoseconds\<close>
  h_post :: "'w \<Rightarrow> string \<Rightarrow> json \<Rightarrow> http_reply \<times> 'w"
  h_instant :: "'w \<Rightarrow> nat \<times> 'w"                        \<comment> \<open>\<^verbatim>\<open>Instant::now()\<close>\<close>
  h_start :: nat                                      \<comment> \<open>the instant of the first \<^verbatim>\<open>monotonic_ms()\<close>\<close>
  h_now_ms :: "'w \<Rightarrow> u64 \<times> 'w"                         \<comment> \<open>the wall clock\<close>
  h_sleep :: "'w \<Rightarrow> nat \<Rightarrow> 'w"                          \<comment> \<open>nanoseconds\<close>
  json_text :: "json \<Rightarrow> string"                        \<comment> \<open>\<^verbatim>\<open>Value::to_string\<close>\<close>
  u256_from_hex :: "string \<Rightarrow> u256 option"             \<comment> \<open>\<^verbatim>\<open>U256::from_str_radix(_, 16)\<close>\<close>
  address_text :: "bytes \<Rightarrow> string"                    \<comment> \<open>\<^verbatim>\<open>Address\<close>, EIP-55\<close>
  secret_key_ok :: "bytes \<Rightarrow> bool"                     \<comment> \<open>\<^verbatim>\<open>SecretKey::from_slice\<close> succeeds\<close>
  key_address :: "bytes \<Rightarrow> bytes"                      \<comment> \<open>\<^verbatim>\<open>PrivateKeySigner::address\<close>\<close>
  sign_transaction :: "bytes \<Rightarrow> eip1559 \<Rightarrow> bytes option"
    \<comment> \<open>\<^verbatim>\<open>sign_transaction_sync\<close> and \<^verbatim>\<open>encoded_2718\<close>\<close>

definition host_ok :: "'w host \<Rightarrow> bool" where
  "host_ok H =
     (\<forall>w url body d.
        h_posted H (snd (h_post H w url body)) = h_posted H w @ [(url, body, fst (h_post H w url body))]
        \<and> h_posted H (snd (h_instant H w)) = h_posted H w
        \<and> h_posted H (snd (h_now_ms H w)) = h_posted H w
        \<and> h_posted H (h_sleep H w d) = h_posted H w
        \<and> h_clock H w \<le> h_clock H (snd (h_post H w url body))
        \<and> h_clock H w \<le> h_clock H (snd (h_instant H w))
        \<and> fst (h_instant H w) = h_clock H (snd (h_instant H w))
        \<and> h_clock H w \<le> h_clock H (snd (h_now_ms H w))
        \<and> h_clock H w + d \<le> h_clock H (h_sleep H w d))"

section \<open>A concrete instance\<close>

text \<open>A host that answers posts from a script and counts time.\<close>

record ref_world =
  rw_posts :: "(string \<times> json \<times> http_reply) list"
  rw_replies :: "http_reply list"
  rw_time :: nat

definition ref_host :: "ref_world host" where
  "ref_host =
     \<lparr>h_posted = rw_posts,
      h_clock = rw_time,
      h_post = (\<lambda>w url body. let reply = (case rw_replies w of [] \<Rightarrow> NotSent | r # _ \<Rightarrow> r) in
        (reply,
         w\<lparr>rw_posts := rw_posts w @ [(url, body, reply)], rw_replies := tl (rw_replies w), rw_time := rw_time w + 1000000\<rparr>)),
      h_instant = (\<lambda>w. (rw_time w, w)),
      h_start = 0,
      h_now_ms = (\<lambda>w. (of_nat (rw_time w div 1000000), w)),
      h_sleep = (\<lambda>w d. w\<lparr>rw_time := rw_time w + d\<rparr>),
      json_text = (\<lambda>v. case v of JString s \<Rightarrow> s | _ \<Rightarrow> ''?''),
      u256_from_hex = (\<lambda>s. map_option of_nat (parse_unsigned 256 s)),
      address_text = from_bytes,
      secret_key_ok = (\<lambda>k. length k = 32),
      key_address = take 20,
      sign_transaction = (\<lambda>k t. Some (k @ tx_to t @ tx_input t @ [of_nat (unat (tx_nonce t))]))\<rparr>"

lemma ref_host_ok: "host_ok ref_host"
  by (simp add: host_ok_def ref_host_def Let_def)

end
