(* ===== verification/Chain.thy ===== *)
theory Chain
  imports Host Roster Gas Wire
begin

text \<open>
  The server's chain access, \<^verbatim>\<open>p256-index-server/src/chain.rs\<close>: the RPC pool over the roster, the
  contract reads, and the one path that prices, funds, signs and broadcasts a transaction.  The
  state is the roster and the world; an operation returns a result or a \<^verbatim>\<open>ChainError\<close>.
\<close>

record 'w net =
  n_roster :: roster
  n_world :: 'w

type_synonym ('w, 'a) chain_op = "('w net, chain_error, 'a) act"

record chain =
  ch_registry_address :: bytes
  ch_domain_registry_address :: bytes
  ch_signer_key :: "bytes option"
  ch_max_gas_price_wei :: u256

definition CHAIN_ID :: u64 where "CHAIN_ID = 100"

definition GROUP_CREATED_TOPIC :: string where
  "GROUP_CREATED_TOPIC = ''0xec8fb064abac351ab712c446266da8b3539b1c844ef0651babfc85a96f4f8186''"

definition REFERENCE_CREATED_TOPIC :: string where
  "REFERENCE_CREATED_TOPIC = ''0xac974b7eb67da8eca98f625293e583be13beee67950dcea8c78710b4964b118a''"

datatype wallet_role = RegisterWallet

definition ledger_name :: "wallet_role \<Rightarrow> string" where
  "ledger_name role = (case role of RegisterWallet \<Rightarrow> ''register'')"

section \<open>Small parsers\<close>

text \<open>\<^verbatim>\<open>u64::from_str_radix(_, 16)\<close>.\<close>

definition hex_digit_value :: "char \<Rightarrow> nat" where
  "hex_digit_value c =
     (let n = of_char c in if n < 58 then n - 48 else if n < 71 then n - 55 else n - 87)"

definition parse_hex_u64 :: "string \<Rightarrow> u64 option" where
  "parse_hex_u64 s =
     (let t = (case strip_prefix ''+'' s of Some t \<Rightarrow> t | None \<Rightarrow> s);
          v = foldl (\<lambda>v c. 16 * v + hex_digit_value c) 0 t
      in if t \<noteq> [] \<and> list_all is_ascii_hexdigit t \<and> v < 2 ^ 64 then Some (of_nat v) else None)"

text \<open>\<^verbatim>\<open>parse_on_chain_id\<close>; every \<^verbatim>\<open>?\<close> leaves the function with \<^verbatim>\<open>None\<close>.\<close>

fun as_array :: "json \<Rightarrow> json list option" where
  "as_array (JArray vs) = Some vs"
| "as_array _ = None"

definition topic_at :: "json list \<Rightarrow> nat \<Rightarrow> string option" where
  "topic_at topics i = (if i < length topics then as_str (topics ! i) else None)"

definition log_topics :: "json \<Rightarrow> json list option" where
  "log_topics log = (case json_get ''topics'' log of None \<Rightarrow> None | Some v \<Rightarrow> as_array v)"

definition topic_id :: "string \<Rightarrow> u64" where
  "topic_id tid = unwrap_or 0 (parse_hex_u64 (dropWhile (\<lambda>c. c = CHR ''0'') (strip_0x tid)))"

fun on_chain_id_in :: "json list \<Rightarrow> u64 option" where
  "on_chain_id_in [] = None"
| "on_chain_id_in (log # logs) =
     (case log_topics log of
        None \<Rightarrow> None
      | Some topics \<Rightarrow>
          (case topic_at topics 0 of
             None \<Rightarrow> None
           | Some event \<Rightarrow>
               if event \<noteq> GROUP_CREATED_TOPIC \<and> event \<noteq> REFERENCE_CREATED_TOPIC then on_chain_id_in logs
               else map_option topic_id (topic_at topics 1)))"

definition parse_on_chain_id :: "json \<Rightarrow> u64 option" where
  "parse_on_chain_id receipt =
     (case json_get ''logs'' receipt of
        None \<Rightarrow> None
      | Some v \<Rightarrow> (case as_array v of None \<Rightarrow> None | Some logs \<Rightarrow> on_chain_id_in logs))"

definition parse_u256_value :: "'w host \<Rightarrow> json \<Rightarrow> chain_error + u256" where
  "parse_u256_value H v =
     bind_res (ok_or InvalidResponse (as_str v)) (\<lambda>text.
       ok_or InvalidResponse (u256_from_hex H (strip_0x text)))"

definition parse_quantity_value :: "'w host \<Rightarrow> json \<Rightarrow> chain_error + u64" where
  "parse_quantity_value H v =
     bind_res (parse_u256_value H v) (\<lambda>n. ok_or InvalidResponse (try_narrow n))"

definition decode_rpc_bytes :: "externs \<Rightarrow> string \<Rightarrow> chain_error + bytes" where
  "decode_rpc_bytes X v = ok_or InvalidResponse (hex_decode X (strip_0x v))"

section \<open>The RPC pool\<close>

definition monotonic_ms :: "'w host \<Rightarrow> 'w net \<Rightarrow> u64 \<times> 'w net" where
  "monotonic_ms H s =
     (let (now, w) = h_instant H (n_world s)
      in (of_nat ((now - h_start H) div 1000000), s\<lparr>n_world := w\<rparr>))"

definition read_available :: "'w host \<Rightarrow> 'w net \<Rightarrow> bool \<times> 'w net" where
  "read_available H s =
     (let (now, s) = monotonic_ms H s;
          (st, R) = circuit_state now (n_roster s)
      in (st = ''closed'', s\<lparr>n_roster := R\<rparr>))"

definition select_on :: "'w host \<Rightarrow> lane \<Rightarrow> 'w net \<Rightarrow> string option \<times> 'w net" where
  "select_on H lane s =
     (let (now, s) = monotonic_ms H s;
          (url, R) = select lane now (n_roster s)
      in (url, s\<lparr>n_roster := R\<rparr>))"

definition select_write :: "'w host \<Rightarrow> 'w net \<Rightarrow> string option \<times> 'w net" where
  "select_write H s = select_on H Write s"

definition fail_node :: "'w host \<Rightarrow> string \<Rightarrow> 'w net \<Rightarrow> 'w net" where
  "fail_node H url s =
     (let (now, s) = monotonic_ms H s in s\<lparr>n_roster := mark_failed url now (n_roster s)\<rparr>)"

definition rpc_request :: "string \<Rightarrow> json \<Rightarrow> json" where
  "rpc_request meth params =
     JObject [(''jsonrpc'', JString ''2.0''), (''id'', JNumber 1), (''method'', JString meth), (''params'', params)]"

definition rpc_error :: "'w host \<Rightarrow> json \<Rightarrow> chain_error" where
  "rpc_error H err =
     (let message = (case json_get ''message'' err of
                       None \<Rightarrow> ''RPC rejected request''
                     | Some m \<Rightarrow> unwrap_or ''RPC rejected request'' (as_str m));
          detail = (case json_get ''data'' err of None \<Rightarrow> [] | Some d \<Rightarrow> json_text H d);
          text = message @ '' '' @ detail
      in if is_revert text then Reverted text else Rejected text)"

definition call_on :: "'w host \<Rightarrow> string \<Rightarrow> string \<Rightarrow> json \<Rightarrow> ('w, json) chain_op" where
  "call_on H url meth params s =
     (let (reply, w) = h_post H (n_world s) url (rpc_request meth params);
          s = s\<lparr>n_world := w\<rparr>
      in case reply of
           NotSent \<Rightarrow> (Inl Unavailable, s)
         | BadStatus \<Rightarrow> (Inl Unavailable, s)
         | NotJson \<Rightarrow> (Inl InvalidResponse, s)
         | Body body \<Rightarrow>
             (case json_get ''error'' body of
                Some err \<Rightarrow> (Inl (rpc_error H err), s)
              | None \<Rightarrow>
                  (case json_get ''result'' body of
                     None \<Rightarrow> (Inl InvalidResponse, s)
                   | Some result \<Rightarrow> (Inr result, s\<lparr>n_roster := mark_healthy url (n_roster s)\<rparr>))))"

fun call_loop :: "'w host \<Rightarrow> nat \<Rightarrow> string \<Rightarrow> json \<Rightarrow> ('w, json) chain_op" where
  "call_loop H 0 meth params s = (Inl Unavailable, s)"
| "call_loop H (Suc n) meth params s =
     (case select_on H Read s of
        (None, s) \<Rightarrow> (Inl Unavailable, s)
      | (Some url, s) \<Rightarrow>
          (case call_on H url meth params s of
             (Inr v, s) \<Rightarrow> (Inr v, s)
           | (Inl (Reverted err), s) \<Rightarrow> (Inl (Reverted err), s)
           | (Inl _, s) \<Rightarrow> call_loop H n meth params (fail_node H url s)))"

definition call :: "'w host \<Rightarrow> string \<Rightarrow> json \<Rightarrow> ('w, json) chain_op" where
  "call H meth params s = call_loop H (read_attempts (n_roster s)) meth params s"

definition hex_0x :: "externs \<Rightarrow> bytes \<Rightarrow> json" where
  "hex_0x X data = JString (''0x'' @ hex_encode X data)"

definition call_contract :: "externs \<Rightarrow> 'w host \<Rightarrow> bytes \<Rightarrow> bytes \<Rightarrow> ('w, bytes) chain_op" where
  "call_contract X H to data =
     bind_op (call H ''eth_call''
       (JArray [JObject [(''to'', JString (address_text H to)), (''data'', hex_0x X data)], JString ''latest'']))
     (\<lambda>result. case as_str result of
         None \<Rightarrow> fail_op InvalidResponse
       | Some v \<Rightarrow> lift_op (decode_rpc_bytes X v))"

section \<open>Set-up\<close>

definition FALLBACK_RPCS :: "string list" where
  "FALLBACK_RPCS = [''https://rpc.gnosischain.com'', ''https://gnosis-rpc.publicnode.com'']"

definition WRITE_RPCS :: "string list" where
  "WRITE_RPCS = [''https://rpc.gnosischain.com'', ''https://gnosis-rpc.publicnode.com'']"

definition parse_secret_key :: "externs \<Rightarrow> 'w host \<Rightarrow> string \<Rightarrow> bytes result" where
  "parse_secret_key X H v =
     bind_res (ok_or (hex_error X (strip_0x v)) (hex_decode X (strip_0x v))) (\<lambda>b.
       if secret_key_ok H b then Inr b else Inl ''PRIVATE_KEY is not a valid secp256k1 key'')"

text \<open>\<^verbatim>\<open>Chain::new\<close>: the roster it starts with and its configuration.\<close>

definition chain_new ::
  "externs \<Rightarrow> 'w host \<Rightarrow> string option \<Rightarrow> string option \<Rightarrow> string \<Rightarrow> string \<Rightarrow> u128 \<Rightarrow> (roster \<times> chain) result" where
  "chain_new X H private_key alchemy_api_key contract_address domain_registry max_gas_price_wei =
     bind_res (case private_key of None \<Rightarrow> Inr None | Some k \<Rightarrow> bind_res (parse_secret_key X H k) (\<lambda>key. Inr (Some key)))
       (\<lambda>signer_key.
          let writes = (case alchemy_api_key of
                          None \<Rightarrow> WRITE_RPCS
                        | Some key \<Rightarrow> (''https://gnosis-mainnet.g.alchemy.com/v2/'' @ key) # WRITE_RPCS)
          in bind_res (ok_or ''P256_INDEX_CONTRACT_ADDRESS is not a valid address'' (parse_address X contract_address))
               (\<lambda>registry.
             bind_res (ok_or ''P256_INDEX_DOMAIN_REGISTRY is not a valid address'' (parse_address X domain_registry))
               (\<lambda>domain_address.
             Inr (roster_new FALLBACK_RPCS writes,
                  \<lparr>ch_registry_address = registry, ch_domain_registry_address = domain_address,
                   ch_signer_key = signer_key, ch_max_gas_price_wei = ucast max_gas_price_wei\<rparr>))))"

definition rpc_circuit_state :: "'w host \<Rightarrow> 'w net \<Rightarrow> string \<times> 'w net" where
  "rpc_circuit_state H s =
     (let (ok, s) = read_available H s in (if ok then ''closed'' else ''open'', s))"

definition has_signer :: "chain \<Rightarrow> bool" where
  "has_signer C = (ch_signer_key C \<noteq> None)"

definition registry_address :: "'w host \<Rightarrow> chain \<Rightarrow> string" where
  "registry_address H C = address_text H (ch_registry_address C)"

definition domain_registry_address :: "'w host \<Rightarrow> chain \<Rightarrow> string" where
  "domain_registry_address H C = address_text H (ch_domain_registry_address C)"

definition wallet_key :: "chain \<Rightarrow> wallet_role \<Rightarrow> chain_error + bytes" where
  "wallet_key C role = ok_or MissingSigner (ch_signer_key C)"

definition wallet_address :: "'w host \<Rightarrow> chain \<Rightarrow> wallet_role \<Rightarrow> chain_error + bytes" where
  "wallet_address H C role = bind_res (wallet_key C role) (\<lambda>key. Inr (key_address H key))"

section \<open>Reads\<close>

record key_profile =
  kp_entry :: entry_record
  kp_group_total :: u64
  kp_group_ids :: "u64 list"
  kp_reference_total :: u64
  kp_reference_ids :: "u64 list"

record group_detail =
  gd_unit :: unit_record
  gd_member_total :: u64
  gd_members :: "entry_record list"
  gd_reference_total :: u64
  gd_reference_ids :: "u64 list"

record totals =
  tot_entries :: u64
  tot_units :: u64
  tot_references :: u64
  tot_rp_ids :: u64

record site_item =
  si_rp_id :: string
  si_entry_count :: u64
  si_created_at :: u64

record 'a page =
  pg_total :: u64
  pg_page :: u64
  pg_page_size :: u64
  pg_items :: "'a list"

text \<open>\<^verbatim>\<open>map_err(|_| ChainError::InvalidResponse)\<close> on a decoder.\<close>

definition decoded :: "'a result \<Rightarrow> ('w, 'a) chain_op" where
  "decoded r = lift_op (map_err (\<lambda>_. InvalidResponse) r)"

text \<open>A read whose revert means that the record does not exist.\<close>

definition absent_on_revert :: "('w, 'a) chain_op \<Rightarrow> ('w, 'a option) chain_op" where
  "absent_on_revert m s =
     (case m s of
        (Inr a, s) \<Rightarrow> (Inr (Some a), s)
      | (Inl (Reverted _), s) \<Rightarrow> (Inr None, s)
      | (Inl e, s) \<Rightarrow> (Inl e, s))"

definition read_call :: "externs \<Rightarrow> 'w host \<Rightarrow> chain \<Rightarrow> bytes \<Rightarrow> ('w, bytes) chain_op" where
  "read_call X H C data = call_contract X H (ch_registry_address C) data"

definition entry :: "externs \<Rightarrow> 'w host \<Rightarrow> chain \<Rightarrow> u64 \<Rightarrow> ('w, entry_record option) chain_op" where
  "entry X H C entry_id =
     bind_op (absent_on_revert (read_call X H C (get_entry_calldata X entry_id))) (\<lambda>bytes.
       case bytes of
         None \<Rightarrow> return_op None
       | Some b \<Rightarrow> bind_op (decoded (decode_entry X entry_id b)) (\<lambda>e. return_op (Some e)))"

definition unit_of_id :: "externs \<Rightarrow> 'w host \<Rightarrow> chain \<Rightarrow> u64 \<Rightarrow> ('w, unit_record option) chain_op" where
  "unit_of_id X H C unit_id =
     bind_op (absent_on_revert (read_call X H C (get_unit_calldata X unit_id))) (\<lambda>bytes.
       case bytes of
         None \<Rightarrow> return_op None
       | Some b \<Rightarrow> bind_op (decoded (decode_unit X unit_id b)) (\<lambda>e. return_op (Some e)))"

definition chain_offset :: "u64 \<Rightarrow> u64 \<Rightarrow> u64" where
  "chain_offset page page_size = saturating_mul (saturating_sub page 1) page_size"

definition key_profile_of ::
  "externs \<Rightarrow> 'w host \<Rightarrow> chain \<Rightarrow> string \<Rightarrow> u64 \<Rightarrow> u64 \<Rightarrow> bool \<Rightarrow> ('w, key_profile option) chain_op" where
  "key_profile_of X H C public_key page page_size descending =
     bind_op (lift_op (ok_or InvalidResponse (hex_decode X (strip_0x public_key)))) (\<lambda>key.
     bind_op (read_call X H C (get_entry_by_key_calldata X key)) (\<lambda>b.
     bind_op (decoded (decode_entry_by_key X b)) (\<lambda>found.
       case found of
         None \<Rightarrow> return_op None
       | Some e \<Rightarrow>
           (let offset = chain_offset page page_size in
            bind_op (read_call X H C (groups_of_key_calldata X key offset page_size descending)) (\<lambda>b.
            bind_op (decoded (decode_id_page X b)) (\<lambda>(group_total, group_ids).
            bind_op (read_call X H C (references_of_key_calldata X key offset page_size descending)) (\<lambda>b.
            bind_op (decoded (decode_id_page X b)) (\<lambda>(reference_total, reference_ids).
              return_op (Some \<lparr>kp_entry = e, kp_group_total = group_total, kp_group_ids = group_ids,
                               kp_reference_total = reference_total, kp_reference_ids = reference_ids\<rparr>)))))))))"

fun units_of :: "externs \<Rightarrow> 'w host \<Rightarrow> chain \<Rightarrow> u64 list \<Rightarrow> ('w, unit_record list) chain_op" where
  "units_of X H C [] = return_op []"
| "units_of X H C (unit_id # ids) =
     bind_op (read_call X H C (get_unit_calldata X unit_id)) (\<lambda>b.
     bind_op (decoded (decode_unit X unit_id b)) (\<lambda>u.
     bind_op (units_of X H C ids) (\<lambda>us. return_op (u # us))))"

definition groups_by_rp_id ::
  "externs \<Rightarrow> 'w host \<Rightarrow> chain \<Rightarrow> string \<Rightarrow> u64 \<Rightarrow> u64 \<Rightarrow> bool \<Rightarrow> ('w, unit_record page) chain_op" where
  "groups_by_rp_id X H C rp_id page page_size descending =
     (let offset = chain_offset page page_size in
      bind_op (read_call X H C (groups_by_rp_id_calldata X rp_id offset page_size descending)) (\<lambda>b.
      bind_op (decoded (decode_id_page X b)) (\<lambda>(total, ids).
      bind_op (units_of X H C ids) (\<lambda>items.
        return_op \<lparr>pg_total = total, pg_page = page, pg_page_size = page_size, pg_items = items\<rparr>))))"

definition rp_ids_page ::
  "externs \<Rightarrow> 'w host \<Rightarrow> chain \<Rightarrow> u64 \<Rightarrow> u64 \<Rightarrow> bool \<Rightarrow> ('w, site_item page) chain_op" where
  "rp_ids_page X H C page page_size descending =
     (let offset = chain_offset page page_size in
      bind_op (read_call X H C (rp_ids_calldata X offset page_size descending)) (\<lambda>b.
      bind_op (decoded (decode_rp_ids X b)) (\<lambda>(total, items).
        return_op \<lparr>pg_total = total, pg_page = page, pg_page_size = page_size,
          pg_items = map (\<lambda>(rp_id, entry_count, created_at).
            \<lparr>si_rp_id = rp_id, si_entry_count = entry_count, si_created_at = created_at\<rparr>) items\<rparr>)))"

definition unit_by_group_key :: "externs \<Rightarrow> 'w host \<Rightarrow> chain \<Rightarrow> bytes \<Rightarrow> ('w, unit_record option) chain_op" where
  "unit_by_group_key X H C public_key =
     bind_op (read_call X H C (get_unit_by_group_key_calldata X public_key)) (\<lambda>b.
       decoded (decode_unit_by_group_key X b))"

definition group_detail_for ::
  "externs \<Rightarrow> 'w host \<Rightarrow> chain \<Rightarrow> unit_record \<Rightarrow> bytes \<Rightarrow> u64 \<Rightarrow> u64 \<Rightarrow> bool \<Rightarrow> ('w, group_detail) chain_op" where
  "group_detail_for X H C unit group_key page page_size descending =
     (let offset = chain_offset page page_size in
      bind_op (read_call X H C (get_group_members_calldata X (u_unit_id unit) offset page_size descending)) (\<lambda>b.
      bind_op (decoded (decode_group_members X b)) (\<lambda>(member_total, members).
      bind_op (read_call X H C (references_to_group_calldata X group_key offset page_size descending)) (\<lambda>b.
      bind_op (decoded (decode_id_page X b)) (\<lambda>(reference_total, reference_ids).
        return_op \<lparr>gd_unit = unit, gd_member_total = member_total, gd_members = members,
                   gd_reference_total = reference_total, gd_reference_ids = reference_ids\<rparr>)))))"

definition group_detail_by_key ::
  "externs \<Rightarrow> 'w host \<Rightarrow> chain \<Rightarrow> bytes \<Rightarrow> u64 \<Rightarrow> u64 \<Rightarrow> bool \<Rightarrow> ('w, group_detail option) chain_op" where
  "group_detail_by_key X H C public_key page page_size descending =
     bind_op (unit_by_group_key X H C public_key) (\<lambda>found.
       case found of
         None \<Rightarrow> return_op None
       | Some unit \<Rightarrow>
           bind_op (group_detail_for X H C unit public_key page page_size descending) (\<lambda>d. return_op (Some d)))"

definition group_detail_by_id ::
  "externs \<Rightarrow> 'w host \<Rightarrow> chain \<Rightarrow> u64 \<Rightarrow> u64 \<Rightarrow> u64 \<Rightarrow> bool \<Rightarrow> ('w, group_detail option) chain_op" where
  "group_detail_by_id X H C unit_id page page_size descending =
     bind_op (unit_of_id X H C unit_id) (\<lambda>found.
       case found of
         None \<Rightarrow> return_op None
       | Some unit \<Rightarrow>
           bind_op (lift_op (ok_or InvalidResponse (hex_decode X (u_group_public_key unit)))) (\<lambda>group_key.
           bind_op (group_detail_for X H C unit group_key page page_size descending) (\<lambda>d. return_op (Some d))))"

definition is_referenced :: "externs \<Rightarrow> 'w host \<Rightarrow> chain \<Rightarrow> bytes \<Rightarrow> bytes \<Rightarrow> ('w, bool) chain_op" where
  "is_referenced X H C group_public_key member_public_key =
     bind_op (read_call X H C (is_referenced_calldata X group_public_key member_public_key)) (\<lambda>b.
       decoded (decode_bool X b))"

definition is_content_registered :: "externs \<Rightarrow> 'w host \<Rightarrow> chain \<Rightarrow> bytes \<Rightarrow> ('w, bool) chain_op" where
  "is_content_registered X H C content_hash =
     bind_op (read_call X H C (is_content_registered_calldata X content_hash)) (\<lambda>b.
       decoded (decode_bool X b))"

definition read_total :: "externs \<Rightarrow> 'w host \<Rightarrow> chain \<Rightarrow> bytes \<Rightarrow> ('w, u64) chain_op" where
  "read_total X H C data = bind_op (read_call X H C data) (\<lambda>b. decoded (decode_total X b))"

definition totals_of :: "externs \<Rightarrow> 'w host \<Rightarrow> chain \<Rightarrow> ('w, totals) chain_op" where
  "totals_of X H C =
     bind_op (read_total X H C (total_entries_calldata X)) (\<lambda>entries.
     bind_op (read_total X H C (total_units_calldata X)) (\<lambda>units.
     bind_op (read_total X H C (total_references_calldata X)) (\<lambda>references.
     bind_op (read_total X H C (total_rp_ids_calldata X)) (\<lambda>rp_ids.
       return_op \<lparr>tot_entries = entries, tot_units = units, tot_references = references, tot_rp_ids = rp_ids\<rparr>))))"

definition gas_price :: "'w host \<Rightarrow> ('w, u256) chain_op" where
  "gas_price H = bind_op (call H ''eth_gasPrice'' (JArray [])) (\<lambda>v. lift_op (parse_u256_value H v))"

definition current_block :: "'w host \<Rightarrow> ('w, u64) chain_op" where
  "current_block H = bind_op (call H ''eth_blockNumber'' (JArray [])) (\<lambda>v. lift_op (parse_quantity_value H v))"

definition nonce_at :: "'w host \<Rightarrow> chain \<Rightarrow> string \<Rightarrow> wallet_role \<Rightarrow> ('w, u64) chain_op" where
  "nonce_at H C block role =
     bind_op (lift_op (wallet_address H C role)) (\<lambda>address.
     bind_op (call H ''eth_getTransactionCount'' (JArray [JString (address_text H address), JString block])) (\<lambda>v.
       lift_op (parse_quantity_value H v)))"

definition pending_nonce :: "'w host \<Rightarrow> chain \<Rightarrow> wallet_role \<Rightarrow> ('w, u64) chain_op" where
  "pending_nonce H C role = nonce_at H C ''pending'' role"

definition confirmed_nonce :: "'w host \<Rightarrow> chain \<Rightarrow> wallet_role \<Rightarrow> ('w, u64) chain_op" where
  "confirmed_nonce H C role = nonce_at H C ''latest'' role"

definition balance_of :: "'w host \<Rightarrow> bytes \<Rightarrow> ('w, u256) chain_op" where
  "balance_of H address =
     bind_op (call H ''eth_getBalance'' (JArray [JString (address_text H address), JString ''latest''])) (\<lambda>v.
       lift_op (parse_u256_value H v))"

definition balance :: "'w host \<Rightarrow> chain \<Rightarrow> wallet_role \<Rightarrow> ('w, u256) chain_op" where
  "balance H C role = bind_op (lift_op (wallet_address H C role)) (balance_of H)"

section \<open>Writes\<close>

record transaction =
  tr_to :: bytes
  tr_data :: bytes
  tr_value :: u256
  tr_nonce :: u64
  tr_gas_limit :: u64
  tr_fees :: fee_plan

record broadcast =
  bc_hash :: string
  bc_fees_wei :: "(u128 \<times> u128) option"

definition sign_eip1559 ::
  "'w host \<Rightarrow> bytes \<Rightarrow> u64 \<Rightarrow> u64 \<Rightarrow> fee_plan \<Rightarrow> bytes \<Rightarrow> u256 \<Rightarrow> bytes \<Rightarrow> chain_error + bytes" where
  "sign_eip1559 H key nonce gas_limit fees to v input =
     bind_res (ok_or (Rejected ''gas price exceeds u128'') (try_narrow (max_fee_per_gas fees))) (\<lambda>max_fee.
     bind_res (ok_or (Rejected ''priority fee exceeds u128'') (try_narrow (max_priority_fee_per_gas fees))) (\<lambda>priority.
       ok_or (Rejected ''could not sign transaction'')
         (sign_transaction H key
            \<lparr>tx_chain_id = CHAIN_ID, tx_nonce = nonce, tx_gas_limit = gas_limit, tx_max_fee_per_gas = max_fee,
             tx_max_priority_fee_per_gas = priority, tx_to = to, tx_value = v, tx_input = input\<rparr>)))"

definition send_transaction_on ::
  "externs \<Rightarrow> 'w host \<Rightarrow> string \<Rightarrow> bytes \<Rightarrow> transaction \<Rightarrow> ('w, string) chain_op" where
  "send_transaction_on X H url key tr =
     bind_op (lift_op (sign_eip1559 H key (tr_nonce tr) (tr_gas_limit tr) (tr_fees tr) (tr_to tr) (tr_value tr)
                (tr_data tr))) (\<lambda>signed.
     bind_op (call_on H url ''eth_sendRawTransaction'' (JArray [hex_0x X signed])) (\<lambda>result.
       lift_op (ok_or InvalidResponse (as_str result))))"

text \<open>\<^verbatim>\<open>self.rpc.select_write().ok_or(ChainError::Unavailable)?\<close>\<close>

definition write_node :: "'w host \<Rightarrow> ('w, string) chain_op" where
  "write_node H s = (let (url, s) = select_write H s in (ok_or Unavailable url, s))"

definition send_transaction ::
  "externs \<Rightarrow> 'w host \<Rightarrow> chain \<Rightarrow> wallet_role \<Rightarrow> transaction \<Rightarrow> ('w, string) chain_op" where
  "send_transaction X H C role tr =
     bind_op (lift_op (wallet_key C role)) (\<lambda>key.
     bind_op (write_node H) (\<lambda>url. send_transaction_on X H url key tr))"

definition estimate_gas_on ::
  "externs \<Rightarrow> 'w host \<Rightarrow> string \<Rightarrow> bytes \<Rightarrow> bytes \<Rightarrow> bytes \<Rightarrow> ('w, u64) chain_op" where
  "estimate_gas_on X H url from to data =
     bind_op (call_on H url ''eth_estimateGas''
       (JArray [JObject [(''from'', JString (address_text H from)), (''to'', JString (address_text H to)),
                         (''data'', hex_0x X data)]])) (\<lambda>v. lift_op (parse_quantity_value H v))"

definition gas_price_on :: "'w host \<Rightarrow> string \<Rightarrow> ('w, u256) chain_op" where
  "gas_price_on H url =
     bind_op (call_on H url ''eth_gasPrice'' (JArray [])) (\<lambda>v. lift_op (parse_u256_value H v))"

definition base_fee_on :: "'w host \<Rightarrow> string \<Rightarrow> ('w, u256) chain_op" where
  "base_fee_on H url =
     bind_op (call_on H url ''eth_getBlockByNumber'' (JArray [JString ''latest'', JBool False])) (\<lambda>v.
       case json_get ''baseFeePerGas'' v of
         Some base_fee \<Rightarrow> lift_op (parse_u256_value H base_fee)
       | None \<Rightarrow> gas_price_on H url)"

definition base_fee :: "'w host \<Rightarrow> ('w, u256) chain_op" where
  "base_fee H = bind_op (write_node H) (\<lambda>url. base_fee_on H url)"

definition balance_on :: "'w host \<Rightarrow> string \<Rightarrow> bytes \<Rightarrow> ('w, u256) chain_op" where
  "balance_on H url address = balance_of H address"

definition fee_plan_from :: "chain \<Rightarrow> u256 \<Rightarrow> fee_verdict" where
  "fee_plan_from C base = plan_fees base (ucast DEFAULT_TIP_WEI) (ch_max_gas_price_wei C)"

definition fee_plan_of :: "'w host \<Rightarrow> chain \<Rightarrow> ('w, fee_verdict) chain_op" where
  "fee_plan_of H C = bind_op (base_fee H) (\<lambda>base. return_op (fee_plan_from C base))"

definition gas_limit_for :: "u64 \<Rightarrow> u64" where
  "gas_limit_for estimate = saturating_mul estimate 120 div 100"

definition over_gas_limit :: "u64 \<Rightarrow> chain_error" where
  "over_gas_limit gas_limit =
     Rejected (''gas limit '' @ decimal (unat gas_limit) @ '' exceeds the '' @ decimal (unat MAX_GAS_LIMIT) @ '' cap'')"

definition underfunded :: "'w host \<Rightarrow> bytes \<Rightarrow> u256 \<Rightarrow> u256 \<Rightarrow> chain_error" where
  "underfunded H from bal required =
     Rejected (''wallet '' @ address_text H from @ '' holds '' @ decimal (unat bal) @ '' wei, below the ''
       @ decimal (unat required) @ '' wei this write may cost'')"

definition fees_wei :: "fee_plan \<Rightarrow> (u128 \<times> u128) option" where
  "fees_wei fees =
     (case (try_narrow (max_fee_per_gas fees), try_narrow (max_priority_fee_per_gas fees)) of
        (Some max_fee, Some priority) \<Rightarrow> Some (max_fee, priority) | _ \<Rightarrow> None)"

definition send_contract_transaction ::
  "externs \<Rightarrow> 'w host \<Rightarrow> chain \<Rightarrow> wallet_role \<Rightarrow> bytes \<Rightarrow> bytes \<Rightarrow> u64 \<Rightarrow> ('w, broadcast) chain_op" where
  "send_contract_transaction X H C role to data nonce =
     bind_op (lift_op (wallet_key C role)) (\<lambda>key.
     let from = key_address H key in
     bind_op (write_node H) (\<lambda>url.
     bind_op (estimate_gas_on X H url from to data) (\<lambda>estimate.
     let gas_limit = gas_limit_for estimate in
     if \<not> gas_limit_within_bounds gas_limit then fail_op (over_gas_limit gas_limit)
     else
       bind_op (base_fee_on H url) (\<lambda>base.
       case fee_plan_from C base of
         TooExpensive required cap \<Rightarrow> fail_op (Rejected (too_expensive_reason required cap))
       | Send fees \<Rightarrow>
           (let required = required_balance gas_limit (max_fee_per_gas fees) in
            bind_op (balance_on H url from) (\<lambda>bal.
            if bal < required then fail_op (underfunded H from bal required)
            else
              bind_op (send_transaction_on X H url key
                 \<lparr>tr_to = to, tr_data = data, tr_value = 0, tr_nonce = nonce, tr_gas_limit = gas_limit, tr_fees = fees\<rparr>)
               (\<lambda>hash. return_op \<lparr>bc_hash = hash, bc_fees_wei = fees_wei fees\<rparr>)))))))"

definition chain_register :: "externs \<Rightarrow> 'w host \<Rightarrow> chain \<Rightarrow> register_task \<Rightarrow> u64 \<Rightarrow> ('w, broadcast) chain_op" where
  "chain_register X H C task nonce =
     bind_op (lift_op (map_err (\<lambda>_. Rejected ''could not encode a register call'') (write_calldata X task))) (\<lambda>data.
       send_contract_transaction X H C RegisterWallet (ch_registry_address C) data nonce)"

definition cancel_stuck_nonce ::
  "externs \<Rightarrow> 'w host \<Rightarrow> chain \<Rightarrow> wallet_role \<Rightarrow> u64 \<Rightarrow> fee_plan \<Rightarrow> ('w, string) chain_op" where
  "cancel_stuck_nonce X H C role nonce fees =
     bind_op (lift_op (wallet_address H C role)) (\<lambda>address.
       send_transaction X H C role
         \<lparr>tr_to = address, tr_data = [], tr_value = 0, tr_nonce = nonce, tr_gas_limit = 21000, tr_fees = fees\<rparr>)"

datatype receipt_outcome = Success "u64 option" | RevertedReceipt

definition receipt_of :: "json \<Rightarrow> chain_error + receipt_outcome" where
  "receipt_of v =
     (case json_get ''status'' v of
        None \<Rightarrow> Inl InvalidResponse
      | Some st \<Rightarrow>
          (case as_str st of
             None \<Rightarrow> Inl InvalidResponse
           | Some status \<Rightarrow>
               if status = ''0x1'' \<or> status = ''0x01'' then Inr (Success (parse_on_chain_id v))
               else Inr RevertedReceipt))"

definition RECEIPT_POLL :: nat where "RECEIPT_POLL = 2000000000"

text \<open>The polling loop, with fuel for the number of polls.\<close>

fun receipt_loop :: "'w host \<Rightarrow> nat \<Rightarrow> nat \<Rightarrow> nat \<Rightarrow> string \<Rightarrow> ('w, receipt_outcome) chain_op" where
  "receipt_loop H 0 started timeout hash s = (Inl Unavailable, s)"
| "receipt_loop H (Suc n) started timeout hash s =
     (let (now, w) = h_instant H (n_world s); s = s\<lparr>n_world := w\<rparr>
      in if now - started < timeout
         then (case call H ''eth_getTransactionReceipt'' (JArray [JString hash]) s of
                 (Inl e, s) \<Rightarrow> (Inl e, s)
               | (Inr v, s) \<Rightarrow>
                   if v = JNull
                   then receipt_loop H n started timeout hash (s\<lparr>n_world := h_sleep H (n_world s) RECEIPT_POLL\<rparr>)
                   else (receipt_of v, s))
         else (Inl Unavailable, s))"

text \<open>Every poll but the last sleeps two seconds, so a timeout of \<open>t\<close> allows at most \<open>t / 2s + 1\<close> polls
  before the clock ends the loop.\<close>

definition wait_for_receipt :: "'w host \<Rightarrow> string \<Rightarrow> nat \<Rightarrow> ('w, receipt_outcome) chain_op" where
  "wait_for_receipt H hash timeout s =
     (let (started, w) = h_instant H (n_world s)
      in receipt_loop H (timeout div RECEIPT_POLL + 2) started timeout hash (s\<lparr>n_world := w\<rparr>))"

end
