(* ===== verification/Chain_Properties.thy ===== *)
theory Chain_Properties
  imports Chain Samples
begin

text \<open>
  What the chain access guarantees: fail-over of the RPC pool, the conditions under which a
  transaction is broadcast, and the receipt loop.
\<close>

section \<open>Posts\<close>

text \<open>What a run posted, with the replies.\<close>

definition posted :: "'w host \<Rightarrow> 'w net \<Rightarrow> (string \<times> json \<times> http_reply) list" where
  "posted H s = h_posted H (n_world s)"

text \<open>A request that some node answered with this result.\<close>

definition answered :: "(string \<times> json \<times> http_reply) list \<Rightarrow> string \<Rightarrow> json \<Rightarrow> json \<Rightarrow> bool" where
  "answered ps meth params v =
     (\<exists>url body. (url, rpc_request meth params, Body body) \<in> set ps
        \<and> json_get ''error'' body = None \<and> json_get ''result'' body = Some v)"

text \<open>A request that this node answered with this result.\<close>

definition answered_by :: "string \<Rightarrow> (string \<times> json \<times> http_reply) list \<Rightarrow> string \<Rightarrow> json \<Rightarrow> json \<Rightarrow> bool" where
  "answered_by url ps meth params v =
     (\<exists>body. (url, rpc_request meth params, Body body) \<in> set ps
        \<and> json_get ''error'' body = None \<and> json_get ''result'' body = Some v)"

definition request_of :: "string \<times> json \<times> http_reply \<Rightarrow> json" where
  "request_of p = fst (snd p)"

lemma answered_append: "answered ps m q v \<or> answered qs m q v \<Longrightarrow> answered (ps @ qs) m q v"
  by (auto simp: answered_def)

lemma answered_by_append: "answered_by url ps m q v \<or> answered_by url qs m q v \<Longrightarrow> answered_by url (ps @ qs) m q v"
  by (auto simp: answered_by_def)

lemma answered_by_answered: "answered_by url ps m q v \<Longrightarrow> answered ps m q v"
  by (auto simp: answered_by_def answered_def)

text \<open>What a node's reply to a request says: a result, a revert of the call, or neither.\<close>

definition reply_of :: "string \<times> json \<times> http_reply \<Rightarrow> http_reply" where
  "reply_of p = snd (snd p)"

definition answers :: "http_reply \<Rightarrow> json \<Rightarrow> bool" where
  "answers reply v = (\<exists>body. reply = Body body \<and> json_get ''error'' body = None \<and> json_get ''result'' body = Some v)"

definition reverts :: "'w host \<Rightarrow> http_reply \<Rightarrow> string \<Rightarrow> bool" where
  "reverts H reply t =
     (\<exists>body err. reply = Body body \<and> json_get ''error'' body = Some err \<and> rpc_error H err = Reverted t \<and> is_revert t)"

definition node_failed :: "'w host \<Rightarrow> http_reply \<Rightarrow> bool" where
  "node_failed H reply = (\<not> (\<exists>v. answers reply v) \<and> \<not> (\<exists>t. reverts H reply t))"

lemma answered_by_post [simp]: "answered_by url [(url, rpc_request m q, reply)] m q v = answers reply v"
  by (auto simp: answered_by_def answers_def)

lemma rpc_error_Reverted: "rpc_error H err = Reverted t \<Longrightarrow> is_revert t"
  by (auto simp: rpc_error_def Let_def split: if_splits)

lemma rpc_error_cases: "(\<exists>t. rpc_error H err = Reverted t) \<or> (\<exists>t. rpc_error H err = Rejected t)"
  by (simp add: rpc_error_def Let_def)

text \<open>The roster keeps its node lists.\<close>

definition same_nodes :: "'w net \<Rightarrow> 'w net \<Rightarrow> bool" where
  "same_nodes s s' = (ro_reads (n_roster s) = ro_reads (n_roster s') \<and> ro_writes (n_roster s) = ro_writes (n_roster s'))"

lemma same_nodes_refl [simp]: "same_nodes s s"
  by (simp add: same_nodes_def)

lemma same_nodes_trans [trans]: "same_nodes a b \<Longrightarrow> same_nodes b c \<Longrightarrow> same_nodes a c"
  by (simp add: same_nodes_def)

lemma same_nodes_marks [simp]:
  "same_nodes s (s\<lparr>n_world := w\<rparr>)" "same_nodes s (s\<lparr>n_roster := mark_healthy u (n_roster s)\<rparr>)"
  "same_nodes s (s\<lparr>n_roster := mark_failed u t (n_roster s)\<rparr>)"
  by (simp_all add: same_nodes_def mark_healthy_def mark_failed_def)

lemma available_nodes: "ro_reads (snd (available u now R)) = ro_reads R \<and> ro_writes (snd (available u now R)) = ro_writes R"
  by (simp add: available_def split: option.split)

lemma advance_nodes: "ro_reads (snd (advance lane R)) = ro_reads R \<and> ro_writes (snd (advance lane R)) = ro_writes R"
  by (simp add: advance_def split: lane.split)

lemma select_loop_nodes:
  assumes "select_loop n lane now R = (url, S)" "lane_urls lane R \<noteq> []"
  shows "ro_reads S = ro_reads R \<and> ro_writes S = ro_writes R \<and> url \<in> set (lane_urls lane R)"
  using assms
proof (induction n arbitrary: R)
  case 0
  then show ?case using advance_nodes [of lane R] by (auto simp: split_beta Let_def)
next
  case (Suc n)
  define c R1 where "c = fst (advance lane R)" and "R1 = snd (advance lane R)"
  define u where "u = lane_urls lane R ! (unat c mod length (lane_urls lane R))"
  define R2 where "R2 = snd (available u now R1)"
  have nodes: "ro_reads R2 = ro_reads R" "ro_writes R2 = ro_writes R"
    using advance_nodes [of lane R] available_nodes [of u now R1] by (simp_all add: R1_def R2_def)
  then have urls: "lane_urls lane R2 = lane_urls lane R" by (simp add: lane_urls_def split: lane.split)
  have u: "u \<in> set (lane_urls lane R)" using Suc.prems(2) by (simp add: u_def)
  have "select_loop (Suc n) lane now R = (if fst (available u now R1) then (u, R2) else select_loop n lane now R2)"
    by (simp add: c_def R1_def u_def R2_def Let_def split_beta del: fst_available)
  then show ?case using Suc.prems Suc.IH [of R2] nodes urls u by (auto split: if_splits)
qed

lemma select_nodes:
  assumes "select lane now R = (u, S)"
  shows "ro_reads S = ro_reads R" "ro_writes S = ro_writes R"
    "u = None \<longleftrightarrow> lane_urls lane R = []" "u = Some url \<Longrightarrow> url \<in> set (lane_urls lane R)"
  using assms select_loop_nodes [of "length (lane_urls lane R)" lane now R]
  by (auto simp: select_def Let_def split: if_splits prod.splits)

section \<open>Turns of the read lane\<close>

lemma cooling_mark: "u \<noteq> v \<Longrightarrow> cooling (mark_failed v t R) now u = cooling R now u"
  "u \<noteq> v \<Longrightarrow> cooling (mark_healthy v R) now u = cooling R now u"
  "cooling (mark_failed v t R) now v = (saturating_sub now t < RPC_COOLDOWN_MS)"
  by (simp_all add: cooling_def mark_failed_def mark_healthy_def)

lemma cooling_over:
  assumes "\<not> cooling R now u" "now \<le> t"
  shows "\<not> cooling R t u"
  using assms available_unexpired by (auto simp: cooling_def split: option.splits)

lemma unat_plus_le: "unat (c + of_nat k :: u64) \<le> unat c + k"
  by (simp add: unat_word_ariths unat_of_nat mod_simps)

text \<open>One selection keeps every node's state, leaves room on the cursor for the others, and returns a node
  that is not cooling when there is one.\<close>

lemma select_turn:
  assumes sel: "select Read now R = (Some u, S)" and room: "unat (ro_read_cursor R) + Suc n * (length (ro_reads R) + 1) < 2 ^ 64"
  shows "same_view now R S" "unat (ro_read_cursor S) + n * (length (ro_reads R) + 1) < 2 ^ 64"
    "v \<in> set (ro_reads R) \<Longrightarrow> \<not> cooling R now v \<Longrightarrow> \<not> cooling R now u"
proof -
  have "ro_reads R \<noteq> []" using select_nodes(3) [OF sel] by (simp add: lane_urls_def)
  then obtain i where i: "i \<le> length (ro_reads R)" "ro_read_cursor S = ro_read_cursor R + of_nat i + 1" "same_view now R S"
    "(\<exists>v \<in> set (ro_reads R). \<not> cooling R now v) \<longrightarrow> \<not> cooling R now u"
    using select_spec [of Read R now] sel room by (auto simp: lane_urls_def lane_cursor_def)
  show "same_view now R S" by (rule i(3))
  show "v \<in> set (ro_reads R) \<Longrightarrow> \<not> cooling R now v \<Longrightarrow> \<not> cooling R now u" using i(4) by blast
  have "unat (ro_read_cursor S) \<le> unat (ro_read_cursor R) + i + 1"
    using unat_plus_le [of "ro_read_cursor R" "i + 1"] unfolding i(2) by (simp add: add_ac)
  then show "unat (ro_read_cursor S) + n * (length (ro_reads R) + 1) < 2 ^ 64" using i(1) room by simp
qed

lemma turn_keeps:
  assumes "select Read (of_nat now) R = (Some u, S)" "unat (ro_read_cursor R) + Suc n * (length (ro_reads R) + 1) < 2 ^ 64" "now \<le> unat t"
  shows "cooling S t v = cooling R t v"
proof -
  have "unat (of_nat now :: u64) \<le> now" by (simp add: unat_of_nat)
  then have "of_nat now \<le> t" using assms(3) by (simp add: word_le_nat_alt)
  then show ?thesis using select_turn(1) [OF assms(1,2)] by (simp add: same_view_def)
qed

text \<open>Which nodes cool up to \<open>last_ms\<close>, and which never do, from a time on.\<close>

definition cools :: "roster \<Rightarrow> nat \<Rightarrow> nat \<Rightarrow> string set \<Rightarrow> bool" where
  "cools R from_ms last_ms T = (\<forall>u \<in> T. \<forall>t. from_ms \<le> unat t \<and> unat t \<le> last_ms \<longrightarrow> cooling R t u)"

definition eligible :: "roster \<Rightarrow> nat \<Rightarrow> string set \<Rightarrow> bool" where
  "eligible R from_ms U = (\<forall>u \<in> U. \<forall>t. from_ms \<le> unat t \<longrightarrow> \<not> cooling R t u)"

text \<open>A failed turn adds its node to those that cool.\<close>

lemma turn_marks:
  assumes sel: "select Read (of_nat now) R = (Some url, S)" "unat (ro_read_cursor R) + Suc n * (length (ro_reads R) + 1) < 2 ^ 64"
    and t: "from_ms \<le> now" "now \<le> m" "m \<le> last_ms" "last_ms < 2 ^ 64" "last_ms < m + 60000"
  shows "cools R from_ms last_ms T \<Longrightarrow> cools (mark_failed url (of_nat m) S) m last_ms (insert url T)"
    "eligible R from_ms U \<Longrightarrow> eligible (mark_failed url (of_nat m) S) m (U - {url})"
proof -
  have m: "unat (of_nat m :: u64) = m" using t by (simp add: unat_of_nat)
  have keep: "cooling (mark_failed url (of_nat m) S) t u = cooling R t u" if "u \<noteq> url" "m \<le> unat t" for u t
    using turn_keeps [OF sel, of t u] that t(2) by (simp add: cooling_mark(1))
  have own: "cooling (mark_failed url (of_nat m) S) t url" if "m \<le> unat t" "unat t \<le> last_ms" for t
    using that t(5) by (simp add: cooling_mark(3) word_less_nat_alt sat_simps m RPC_COOLDOWN_MS_def)
  show "cools (mark_failed url (of_nat m) S) m last_ms (insert url T)" if "cools R from_ms last_ms T"
    using that keep own t(1,2) unfolding cools_def by (metis insert_iff order_trans)
  show "eligible (mark_failed url (of_nat m) S) m (U - {url})" if "eligible R from_ms U"
    using that keep t(1,2) unfolding eligible_def by (metis Diff_iff insert_iff order_trans)
qed

section \<open>The pool\<close>

text \<open>A step that posts \<open>ps\<close>, keeps the node lists and does not turn back the clock.\<close>

definition did :: "'w host \<Rightarrow> 'w net \<Rightarrow> (string \<times> json \<times> http_reply) list \<Rightarrow> 'w net \<Rightarrow> bool" where
  "did H s ps s' = (posted H s' = posted H s @ ps \<and> same_nodes s s' \<and> h_clock H (n_world s) \<le> h_clock H (n_world s'))"

locale host_laws =
  fixes H :: "'w host"
  assumes ok: "host_ok H"
begin

lemma post: "h_posted H (snd (h_post H w url body)) = h_posted H w @ [(url, body, fst (h_post H w url body))]"
  "h_posted H (snd (h_instant H w)) = h_posted H w" "h_posted H (h_sleep H w d) = h_posted H w"
  using ok by (simp_all add: host_ok_def)

lemma clock:
  "h_clock H w \<le> h_clock H (snd (h_post H w url body))" "h_clock H w \<le> h_clock H (snd (h_instant H w))"
  "fst (h_instant H w) = h_clock H (snd (h_instant H w))" "h_clock H w + d \<le> h_clock H (h_sleep H w d)"
  using ok by (simp_all add: host_ok_def)

lemma did_refl: "did H s [] s"
  by (simp add: did_def)

lemma did_trans: "did H a ps b \<Longrightarrow> did H b qs c \<Longrightarrow> did H a (ps @ qs) c"
  using same_nodes_trans by (auto simp: did_def)

lemma did_roster: "did H s ps s' \<Longrightarrow> ro_reads R = ro_reads (n_roster s') \<Longrightarrow> ro_writes R = ro_writes (n_roster s')
  \<Longrightarrow> did H s ps (s'\<lparr>n_roster := R\<rparr>)"
  by (simp add: did_def posted_def same_nodes_def)

lemma did_instant: "did H s [] (s\<lparr>n_world := snd (h_instant H (n_world s))\<rparr>)"
  by (simp add: did_def posted_def post clock)

lemma did_sleep: "did H s [] (s\<lparr>n_world := h_sleep H (n_world s) d\<rparr>)"
  using clock(4) [of "n_world s" d] by (simp add: did_def posted_def post)

lemma did_select:
  assumes "select_on H lane s = (u, s')"
  shows "did H s [] s'" "u = None \<longleftrightarrow> lane_urls lane (n_roster s) = []"
    "u = Some url \<Longrightarrow> url \<in> set (lane_urls lane (n_roster s))"
proof -
  let ?s = "s\<lparr>n_world := snd (h_instant H (n_world s))\<rparr>"
  obtain now R where sel: "select lane now (n_roster s) = (u, R)" "s' = ?s\<lparr>n_roster := R\<rparr>"
    using assms by (auto simp: select_on_def monotonic_ms_def Let_def split: prod.splits)
  note n = select_nodes [OF sel(1)]
  show "did H s [] s'" unfolding sel(2) by (rule did_roster [OF did_instant]) (simp_all add: n)
  show "u = None \<longleftrightarrow> lane_urls lane (n_roster s) = []"
    "u = Some url \<Longrightarrow> url \<in> set (lane_urls lane (n_roster s))"
    using n by auto
qed

lemma did_fail_node: "did H s [] (fail_node H url s)"
proof -
  obtain now where "fail_node H url s = (s\<lparr>n_world := snd (h_instant H (n_world s))\<rparr>)\<lparr>n_roster := mark_failed url now (n_roster s)\<rparr>"
    by (cases "h_instant H (n_world s)") (auto simp: fail_node_def monotonic_ms_def)
  then show ?thesis using did_roster [OF did_instant] by (simp add: mark_failed_def)
qed

lemma did_call_on:
  assumes "call_on H url meth params s = (r, s')"
  shows "\<exists>reply. did H s [(url, rpc_request meth params, reply)] s'
    \<and> (case r of Inr v \<Rightarrow> answers reply v | Inl (Reverted t) \<Rightarrow> reverts H reply t | Inl e \<Rightarrow> node_failed H reply)
    \<and> n_roster s' = (case r of Inr v \<Rightarrow> mark_healthy url (n_roster s) | Inl e \<Rightarrow> n_roster s)"
proof -
  let ?req = "rpc_request meth params"
  define reply w where "reply = fst (h_post H (n_world s) url ?req)" and "w = snd (h_post H (n_world s) url ?req)"
  have d: "did H s [(url, ?req, reply)] (s\<lparr>n_world := w\<rparr>)"
    by (simp add: did_def posted_def post clock reply_def w_def)
  have run: "call_on H url meth params s =
      (case reply of NotSent \<Rightarrow> (Inl Unavailable, s\<lparr>n_world := w\<rparr>) | BadStatus \<Rightarrow> (Inl Unavailable, s\<lparr>n_world := w\<rparr>)
        | NotJson \<Rightarrow> (Inl InvalidResponse, s\<lparr>n_world := w\<rparr>)
        | Body body \<Rightarrow> (case json_get ''error'' body of Some err \<Rightarrow> (Inl (rpc_error H err), s\<lparr>n_world := w\<rparr>)
           | None \<Rightarrow> (case json_get ''result'' body of None \<Rightarrow> (Inl InvalidResponse, s\<lparr>n_world := w\<rparr>)
             | Some result \<Rightarrow> (Inr result, s\<lparr>n_world := w, n_roster := mark_healthy url (n_roster s)\<rparr>))))"
    by (simp add: call_on_def reply_def w_def Let_def split_beta split: http_reply.split option.split)
  have h: "did H s [(url, ?req, reply)] (s\<lparr>n_world := w, n_roster := mark_healthy url (n_roster s)\<rparr>)"
    using did_roster [OF d] by (simp add: mark_healthy_def)
  have "did H s [(url, ?req, reply)] s'" using assms d h unfolding run by (auto split: http_reply.splits option.splits)
  moreover have "case r of Inr v \<Rightarrow> answers reply v | Inl (Reverted t) \<Rightarrow> reverts H reply t | Inl e \<Rightarrow> node_failed H reply"
  proof (cases "\<exists>body err. reply = Body body \<and> json_get ''error'' body = Some err")
    case True
    then obtain body err where e: "reply = Body body" "json_get ''error'' body = Some err" by blast
    then have "r = Inl (rpc_error H err)" using assms unfolding run by simp
    then show ?thesis using rpc_error_cases [of H err] rpc_error_Reverted [of H err] e
      by (auto simp: reverts_def node_failed_def answers_def)
  next
    case False
    then have "\<not> reverts H reply t" for t by (auto simp: reverts_def)
    then show ?thesis using assms False unfolding run
      by (auto simp: answers_def node_failed_def split: http_reply.splits option.splits)
  qed
  moreover have "n_roster s' = (case r of Inr v \<Rightarrow> mark_healthy url (n_roster s) | Inl e \<Rightarrow> n_roster s)"
    using assms unfolding run by (auto split: http_reply.splits option.splits)
  ultimately show ?thesis by blast
qed

lemma did_call_answered:
  assumes "call_on H url meth params s = (r, s')"
  shows "\<exists>reply. did H s [(url, rpc_request meth params, reply)] s'
    \<and> (\<forall>v. r = Inr v \<longrightarrow> answered_by url [(url, rpc_request meth params, reply)] meth params v)"
  using did_call_on [OF assms] by auto

end

text \<open>The milliseconds the roster reads off the clock.\<close>

definition elapsed_ms :: "'w host \<Rightarrow> 'w net \<Rightarrow> nat" where
  "elapsed_ms H s = (h_clock H (n_world s) - h_start H) div 1000000"

text \<open>The posts of a pool read and how the last reply decides its result.\<close>

definition pool_posts ::
  "'w host \<Rightarrow> string list \<Rightarrow> nat \<Rightarrow> string \<Rightarrow> json \<Rightarrow> (string \<times> json \<times> http_reply) list \<Rightarrow> chain_error + json \<Rightarrow> bool" where
  "pool_posts H reads n meth params ps r =
     (length ps \<le> n
      \<and> (\<forall>p \<in> set ps. request_of p = rpc_request meth params \<and> fst p \<in> set reads)
      \<and> (\<forall>p \<in> set (butlast ps). node_failed H (reply_of p))
      \<and> (case r of
           Inr v \<Rightarrow> ps \<noteq> [] \<and> answers (reply_of (last ps)) v
         | Inl (Reverted t) \<Rightarrow> ps \<noteq> [] \<and> reverts H (reply_of (last ps)) t
         | Inl e \<Rightarrow> e = Unavailable \<and> (\<forall>p \<in> set ps. node_failed H (reply_of p)) \<and> (reads \<noteq> [] \<longrightarrow> length ps = n)))"

context host_laws
begin

lemma monotonic: "monotonic_ms H s = (of_nat (elapsed_ms H (s\<lparr>n_world := snd (h_instant H (n_world s))\<rparr>)),
    s\<lparr>n_world := snd (h_instant H (n_world s))\<rparr>)"
  using clock(3) [of "n_world s"] by (simp add: monotonic_ms_def elapsed_ms_def split_beta)

lemma elapsed_mono: "did H s ps s' \<Longrightarrow> elapsed_ms H s \<le> elapsed_ms H s'"
  by (simp add: did_def elapsed_ms_def div_le_mono diff_le_mono)

text \<open>One turn of the loop of \<^verbatim>\<open>call\<close>: no node, a reply that ends the call, or a failed node that is
  marked before the next turn.\<close>

lemma call_loop_step:
  assumes "call_loop H (Suc n) meth params s = (r, s')"
  obtains (none) "ro_reads (n_roster s) = []" "r = Inl Unavailable" "did H s [] s'" "n_roster s' = n_roster s"
  | (ended) url reply now S where "select Read (of_nat now) (n_roster s) = (Some url, S)"
      "elapsed_ms H s \<le> now" "now \<le> elapsed_ms H s'"
      "did H s [(url, rpc_request meth params, reply)] s'" "\<not> node_failed H reply"
      "case r of Inr v \<Rightarrow> answers reply v | Inl (Reverted t) \<Rightarrow> reverts H reply t | Inl e \<Rightarrow> False"
      "n_roster s' = (case r of Inr v \<Rightarrow> mark_healthy url S | Inl e \<Rightarrow> S)"
  | (failed) url reply now S s1 where "select Read (of_nat now) (n_roster s) = (Some url, S)"
      "elapsed_ms H s \<le> now" "now \<le> elapsed_ms H s1"
      "did H s [(url, rpc_request meth params, reply)] s1" "node_failed H reply"
      "n_roster s1 = mark_failed url (of_nat (elapsed_ms H s1)) S" "call_loop H n meth params s1 = (r, s')"
proof -
  obtain u s1 where sel: "select_on H Read s = (u, s1)" by fastforce
  define s0 where "s0 = s\<lparr>n_world := snd (h_instant H (n_world s))\<rparr>"
  have s1: "select Read (of_nat (elapsed_ms H s0)) (n_roster s) = (u, n_roster s1)" "s1 = s0\<lparr>n_roster := n_roster s1\<rparr>"
    using sel by (auto simp: select_on_def monotonic s0_def split: prod.splits)
  have now: "elapsed_ms H s0 = elapsed_ms H s1" using s1(2) by (metis elapsed_ms_def net.select_convs(2) net.surjective net.update_convs(1))
  note d1 = did_select [OF sel]
  have reads: "lane_urls Read (n_roster s) = ro_reads (n_roster s)" by (simp add: lane_urls_def)
  show thesis
  proof (cases u)
    case None
    then have "n_roster s1 = n_roster s" using s1(1) by (auto simp: select_def Let_def split: if_splits prod.splits)
    then show thesis using none assms sel d1 reads None by auto
  next
    case (Some url)
    obtain r2 s2 where c: "call_on H url meth params s1 = (r2, s2)" by fastforce
    obtain reply where d2: "did H s1 [(url, rpc_request meth params, reply)] s2"
      and a: "case r2 of Inr v \<Rightarrow> answers reply v | Inl (Reverted t) \<Rightarrow> reverts H reply t | Inl e \<Rightarrow> node_failed H reply"
      and ro: "n_roster s2 = (case r2 of Inr v \<Rightarrow> mark_healthy url (n_roster s1) | Inl e \<Rightarrow> n_roster s1)"
      using did_call_on [OF c] by blast
    have d: "did H s [(url, rpc_request meth params, reply)] s2" using did_trans [OF d1(1) d2] by simp
    have t: "elapsed_ms H s \<le> elapsed_ms H s1" "elapsed_ms H s1 \<le> elapsed_ms H s2"
      using elapsed_mono [OF d1(1)] elapsed_mono [OF d2] by simp_all
    have pick: "select Read (of_nat (elapsed_ms H s1)) (n_roster s) = (Some url, n_roster s1)" using s1(1) now Some by simp
    note step = assms [unfolded call_loop.simps sel prod.case Some option.case c]
    show thesis
    proof (cases "(\<exists>v. r2 = Inr v) \<or> (\<exists>t. r2 = Inl (Reverted t))")
      case True
      then have eq: "r2 = r" "s2 = s'" using step by auto
      have "\<not> node_failed H reply" using True a by (auto simp: node_failed_def)
      moreover have "case r of Inr v \<Rightarrow> answers reply v | Inl (Reverted t) \<Rightarrow> reverts H reply t | Inl e \<Rightarrow> False"
        using True a unfolding eq by auto
      ultimately show thesis using ended [OF pick t(1)] d t(2) ro unfolding eq by blast
    next
      case False
      then obtain e where e: "r2 = Inl e" "\<And>t. e \<noteq> Reverted t" by (cases r2) auto
      then have loop: "call_loop H n meth params (fail_node H url s2) = (r, s')" using step by (cases e) auto
      define s3 where "s3 = fail_node H url s2"
      have d3: "did H s2 [] s3" unfolding s3_def by (rule did_fail_node)
      have ro3: "n_roster s3 = mark_failed url (of_nat (elapsed_ms H s3)) (n_roster s2)"
        by (simp add: s3_def fail_node_def monotonic elapsed_ms_def)
      have nf: "node_failed H reply" using a e by (cases e) auto
      show thesis
      proof (rule failed [OF pick t(1) _ _ nf])
        show "did H s [(url, rpc_request meth params, reply)] s3" using did_trans [OF d d3] by simp
        show "elapsed_ms H s1 \<le> elapsed_ms H s3" using t(2) elapsed_mono [OF d3] by simp
        show "n_roster s3 = mark_failed url (of_nat (elapsed_ms H s3)) (n_roster s1)" using ro3 ro e(1) by simp
        show "call_loop H n meth params s3 = (r, s')" using loop by (simp add: s3_def)
      qed
    qed
  qed
qed

lemma did_call_loop:
  assumes "call_loop H n meth params s = (r, s')"
  shows "\<exists>ps. did H s ps s' \<and> pool_posts H (ro_reads (n_roster s)) n meth params ps r
    \<and> (\<forall>v. r = Inr v \<longrightarrow> ro_failed (n_roster s') (fst (last ps)) = None)"
  using assms
proof (induction n arbitrary: s)
  case 0
  then show ?case by (intro exI [of _ "[]"]) (auto simp: did_refl pool_posts_def)
next
  case (Suc n)
  from Suc.prems show ?case
  proof (cases rule: call_loop_step)
    case none
    then show ?thesis by (intro exI [of _ "[]"]) (auto simp: pool_posts_def)
  next
    case (ended url reply now S)
    have "url \<in> set (ro_reads (n_roster s))" using select_nodes(4) [OF ended(1)] by (simp add: lane_urls_def)
    then show ?thesis using ended(4,6,7)
      by (intro exI [of _ "[(url, rpc_request meth params, reply)]"])
        (auto simp: pool_posts_def request_of_def reply_of_def mark_healthy_def split: sum.splits chain_error.splits)
  next
    case (failed url reply now S s1)
    let ?p = "(url, rpc_request meth params, reply)"
    have url: "url \<in> set (ro_reads (n_roster s))" using select_nodes(4) [OF failed(1)] by (simp add: lane_urls_def)
    have nodes: "ro_reads (n_roster s1) = ro_reads (n_roster s)" using failed(4) by (simp add: did_def same_nodes_def)
    obtain ps where ps: "did H s1 ps s'" "pool_posts H (ro_reads (n_roster s)) n meth params ps r"
      "\<forall>v. r = Inr v \<longrightarrow> ro_failed (n_roster s') (fst (last ps)) = None"
      using Suc.IH [OF failed(7)] unfolding nodes by blast
    have "did H s (?p # ps) s'" using did_trans [OF failed(4) ps(1)] by simp
    moreover have "pool_posts H (ro_reads (n_roster s)) (Suc n) meth params (?p # ps) r"
      using ps(2) url failed(5) unfolding pool_posts_def
      by (auto simp: request_of_def reply_of_def split: sum.splits chain_error.splits)
    moreover have "r = Inr v \<Longrightarrow> ps \<noteq> []" for v using ps(2) by (auto simp: pool_posts_def)
    ultimately show ?thesis using ps(3) by (intro exI [of _ "?p # ps"]) auto
  qed
qed

text \<open>Fail-over, within one cooldown: while an untried node is eligible the next post goes to an untried
  node (\<open>T\<close> are the nodes that already cool, \<open>U\<close> the eligible ones), and every node that was asked
  cools at the end but one whose reply ended the call.\<close>

lemma call_loop_failover:
  assumes "call_loop H n meth params s = (r, s')"
    and "elapsed_ms H s' < 2 ^ 64" "elapsed_ms H s' < elapsed_ms H s + 60000"
    and "unat (ro_read_cursor (n_roster s)) + n * (length (ro_reads (n_roster s)) + 1) < 2 ^ 64"
    and "cools (n_roster s) (elapsed_ms H s) (elapsed_ms H s') T" "eligible (n_roster s) (elapsed_ms H s) U"
  shows "\<exists>ps. did H s ps s'
    \<and> (\<forall>j < length ps. (\<exists>u \<in> set (ro_reads (n_roster s)). u \<in> U \<and> u \<notin> fst ` set (take j ps))
         \<longrightarrow> fst (ps ! j) \<notin> T \<union> fst ` set (take j ps))
    \<and> (\<forall>u \<in> T \<union> fst ` set ps. (ps \<noteq> [] \<and> u = fst (last ps) \<and> \<not> node_failed H (reply_of (last ps)))
         \<or> cooling (n_roster s') (of_nat (elapsed_ms H s')) u)"
  using assms
proof (induction n arbitrary: s T U)
  case 0
  then show ?case by (intro exI [of _ "[]"]) (auto simp: did_refl unat_of_nat cools_def)
next
  case (Suc n)
  let ?us = "ro_reads (n_roster s)" and ?t = "of_nat (elapsed_ms H s') :: u64"
  have t: "unat ?t = elapsed_ms H s'" using Suc.prems(2) by (simp add: unat_of_nat)
  have fresh: "u \<notin> T"
    if sel: "select Read (of_nat now) (n_roster s) = (Some u, S)" and now: "elapsed_ms H s \<le> now" "now \<le> elapsed_ms H s'"
      and v: "v \<in> set ?us" "v \<in> U" for u v now S
  proof -
    have un: "unat (of_nat now :: u64) = now" using now(2) Suc.prems(2) by (simp add: unat_of_nat)
    have "\<not> cooling (n_roster s) (of_nat now) v" using Suc.prems(6) v(2) un now(1) by (simp add: eligible_def)
    then have "\<not> cooling (n_roster s) (of_nat now) u" by (rule select_turn(3) [OF sel Suc.prems(4) v(1)])
    then show ?thesis using Suc.prems(5) un now unfolding cools_def by metis
  qed
  from Suc.prems(1) show ?case
  proof (cases rule: call_loop_step)
    case none
    then show ?thesis using Suc.prems(5) t elapsed_mono [OF none(3)] by (intro exI [of _ "[]"]) (auto simp: cools_def)
  next
    case (ended url reply now S)
    let ?p = "(url, rpc_request meth params, reply)"
    have "cooling (n_roster s') ?t u" if "u \<in> T" "u \<noteq> url" for u
    proof -
      have "cooling (n_roster s) ?t u" using Suc.prems(5) that(1) t ended(2,3) by (auto simp: cools_def)
      then show ?thesis using turn_keeps [OF ended(1) Suc.prems(4), of ?t u] cooling_mark(2) [OF that(2)] ended(3,7) t
        by (auto split: sum.splits)
    qed
    moreover have "url \<notin> T" if "v \<in> set ?us" "v \<in> U" for v using fresh [OF ended(1-3) that] .
    ultimately show ?thesis using ended(4,5) by (intro exI [of _ "[?p]"]) (auto simp: reply_of_def)
  next
    case (failed url reply now S s1)
    let ?p = "(url, rpc_request meth params, reply)"
    have reads: "ro_reads (n_roster s1) = ?us" using failed(4) by (simp add: did_def same_nodes_def)
    have later: "elapsed_ms H s \<le> elapsed_ms H s1" "elapsed_ms H s1 \<le> elapsed_ms H s'"
      using elapsed_mono [OF failed(4)] did_call_loop [OF failed(7)] elapsed_mono by blast+
    have near: "elapsed_ms H s' < elapsed_ms H s1 + 60000" using Suc.prems(3) later(1) by linarith
    note marks = turn_marks [OF failed(1) Suc.prems(4) failed(2,3) later(2) Suc.prems(2) near, folded failed(6)]
    have room: "unat (ro_read_cursor (n_roster s1)) + n * (length (ro_reads (n_roster s1)) + 1) < 2 ^ 64"
      using select_turn(2) [OF failed(1) Suc.prems(4)] unfolding reads unfolding failed(6) by (simp add: mark_failed_def)
    obtain qs where qs: "did H s1 qs s'"
      "\<forall>j < length qs. (\<exists>u \<in> set ?us. u \<in> U - {url} \<and> u \<notin> fst ` set (take j qs))
         \<longrightarrow> fst (qs ! j) \<notin> insert url T \<union> fst ` set (take j qs)"
      "\<forall>u \<in> insert url T \<union> fst ` set qs. (qs \<noteq> [] \<and> u = fst (last qs) \<and> \<not> node_failed H (reply_of (last qs)))
         \<or> cooling (n_roster s') ?t u"
      using Suc.IH [OF failed(7) Suc.prems(2) near room marks(1) [OF Suc.prems(5)] marks(2) [OF Suc.prems(6)], unfolded reads]
      by (elim exE conjE) (rule that)
    have "url \<notin> T" if "v \<in> set ?us" "v \<in> U" for v
      using fresh [OF failed(1,2) order_trans [OF failed(3) later(2)] that] .
    then have "\<forall>j < length (?p # qs). (\<exists>u \<in> set ?us. u \<in> U \<and> u \<notin> fst ` set (take j (?p # qs)))
         \<longrightarrow> fst ((?p # qs) ! j) \<notin> T \<union> fst ` set (take j (?p # qs))"
      using qs(2) by (auto simp: All_less_Suc2)
    moreover have "did H s (?p # qs) s'" using did_trans [OF failed(4) qs(1)] by simp
    ultimately show ?thesis using qs(3) by (intro exI [of _ "?p # qs"]) auto
  qed
qed

lemma call_failover:
  assumes "call H meth params s = (r, s')" and ps: "did H s ps s'"
    and t: "elapsed_ms H s' < 2 ^ 64" "elapsed_ms H s' < elapsed_ms H s + 60000"
    and room: "unat (ro_read_cursor (n_roster s)) + 3 * (length (ro_reads (n_roster s)) + 1) < 2 ^ 64"
  shows "\<forall>j < length ps. (\<exists>u \<in> set (ro_reads (n_roster s)). \<not> cooling (n_roster s) (of_nat (elapsed_ms H s)) u \<and> u \<notin> fst ` set (take j ps))
          \<longrightarrow> fst (ps ! j) \<notin> fst ` set (take j ps)"
    and "\<forall>p \<in> set ps. fst p = fst (last ps) \<and> \<not> node_failed H (reply_of (last ps))
            \<or> cooling (n_roster s') (of_nat (elapsed_ms H s')) (fst p)"
proof -
  let ?n = "read_attempts (n_roster s)" and ?U = "{u. \<not> cooling (n_roster s) (of_nat (elapsed_ms H s)) u}"
  have run: "call_loop H ?n meth params s = (r, s')" using assms(1) by (simp add: call_def)
  have "?n \<le> 3" by (simp add: read_attempts_def MAX_READ_ATTEMPTS_def)
  then have cur: "unat (ro_read_cursor (n_roster s)) + ?n * (length (ro_reads (n_roster s)) + 1) < 2 ^ 64"
    using room mult_le_mono1 [of ?n 3 "length (ro_reads (n_roster s)) + 1"] by linarith
  have "unat (of_nat (elapsed_ms H s) :: u64) = elapsed_ms H s" using t(1) elapsed_mono [OF ps] by (simp add: unat_of_nat)
  then have U: "eligible (n_roster s) (elapsed_ms H s) ?U" using cooling_over by (auto simp: eligible_def word_le_nat_alt)
  have T: "cools (n_roster s) (elapsed_ms H s) (elapsed_ms H s') {}" by (simp add: cools_def)
  obtain qs where qs: "did H s qs s'"
    "\<forall>j < length qs. (\<exists>u \<in> set (ro_reads (n_roster s)). u \<in> ?U \<and> u \<notin> fst ` set (take j qs)) \<longrightarrow> fst (qs ! j) \<notin> {} \<union> fst ` set (take j qs)"
    "\<forall>u \<in> {} \<union> fst ` set qs. (qs \<noteq> [] \<and> u = fst (last qs) \<and> \<not> node_failed H (reply_of (last qs)))
       \<or> cooling (n_roster s') (of_nat (elapsed_ms H s')) u"
    using call_loop_failover [OF run t cur T U] by (elim exE conjE) (rule that)
  have eq: "qs = ps" using qs(1) ps by (simp add: did_def)
  show "\<forall>j < length ps. (\<exists>u \<in> set (ro_reads (n_roster s)). \<not> cooling (n_roster s) (of_nat (elapsed_ms H s)) u \<and> u \<notin> fst ` set (take j ps))
          \<longrightarrow> fst (ps ! j) \<notin> fst ` set (take j ps)"
    using qs(2) unfolding eq by simp
  show "\<forall>p \<in> set ps. fst p = fst (last ps) \<and> \<not> node_failed H (reply_of (last ps))
            \<or> cooling (n_roster s') (of_nat (elapsed_ms H s')) (fst p)"
    using qs(3) unfolding eq by auto
qed

end

section \<open>Broadcasts\<close>

definition is_send :: "string \<times> json \<times> http_reply \<Rightarrow> bool" where
  "is_send p = (json_get ''method'' (request_of p) = Some (JString ''eth_sendRawTransaction''))"

definition sends :: "(string \<times> json \<times> http_reply) list \<Rightarrow> (string \<times> json \<times> http_reply) list" where
  "sends ps = filter is_send ps"

lemma sends_append [simp]: "sends (ps @ qs) = sends ps @ sends qs" "sends [] = []"
  by (simp_all add: sends_def)

lemma is_send_request: "request_of p = rpc_request m q \<Longrightarrow> is_send p \<longleftrightarrow> m = ''eth_sendRawTransaction''"
  by (simp add: is_send_def rpc_request_def)

lemma no_sends: "(\<And>p. p \<in> set ps \<Longrightarrow> request_of p = rpc_request m q) \<Longrightarrow> m \<noteq> ''eth_sendRawTransaction'' \<Longrightarrow> sends ps = []"
  using is_send_request by (simp add: sends_def filter_empty_conv)

text \<open>An operation that broadcasts nothing, and what its posts show of its result.\<close>

definition reading :: "'w host \<Rightarrow> ('w, 'a) chain_op \<Rightarrow> ((string \<times> json \<times> http_reply) list \<Rightarrow> 'a \<Rightarrow> bool) \<Rightarrow> bool" where
  "reading H m E = (\<forall>s r s'. m s = (r, s') \<longrightarrow> (\<exists>ps. did H s ps s' \<and> sends ps = [] \<and> (\<forall>a. r = Inr a \<longrightarrow> E ps a)))"

context host_laws
begin

lemma reading_lift: "reading H (lift_op r) (\<lambda>ps a. r = Inr a)"
  by (auto simp: reading_def lift_op_def intro: exI [of _ "[]"] did_refl)

lemma reading_mono: "reading H m E \<Longrightarrow> (\<And>ps a. E ps a \<Longrightarrow> F ps a) \<Longrightarrow> reading H m F"
  unfolding reading_def by meson

lemma reading_bind:
  assumes "reading H m E" "\<And>a. reading H (f a) (F a)"
  shows "reading H (bind_op m f) (\<lambda>ps b. \<exists>qs rs a. ps = qs @ rs \<and> E qs a \<and> F a rs b)"
  unfolding reading_def
proof (intro allI impI)
  fix s r s' assume run: "bind_op m f s = (r, s')"
  obtain r1 s1 where m: "m s = (r1, s1)" by fastforce
  obtain ps where ps: "did H s ps s1" "sends ps = []" "\<forall>a. r1 = Inr a \<longrightarrow> E ps a"
    using assms(1) [unfolded reading_def, rule_format, OF m] by blast
  show "\<exists>ps. did H s ps s' \<and> sends ps = [] \<and> (\<forall>b. r = Inr b \<longrightarrow> (\<exists>qs rs a. ps = qs @ rs \<and> E qs a \<and> F a rs b))"
  proof (cases r1)
    case (Inl e)
    then show ?thesis using run m ps by (auto simp: bind_op_def)
  next
    case (Inr a)
    then have fa: "f a s1 = (r, s')" using run m by (simp add: bind_op_def)
    obtain qs where qs: "did H s1 qs s'" "sends qs = []" "\<forall>b. r = Inr b \<longrightarrow> F a qs b"
      using assms(2) [of a, unfolded reading_def, rule_format, OF fa] by blast
    then show ?thesis using ps Inr did_trans [OF ps(1) qs(1)]
      by (intro exI [of _ "ps @ qs"]) auto
  qed
qed

lemma reading_call_on:
  assumes "meth \<noteq> ''eth_sendRawTransaction''"
  shows "reading H (call_on H url meth params) (\<lambda>ps v. answered_by url ps meth params v)"
  unfolding reading_def
proof (intro allI impI)
  fix s r s' assume run: "call_on H url meth params s = (r, s')"
  obtain reply where d: "did H s [(url, rpc_request meth params, reply)] s'"
    "\<forall>v. r = Inr v \<longrightarrow> answered_by url [(url, rpc_request meth params, reply)] meth params v"
    using did_call_answered [OF run] by blast
  moreover have "sends [(url, rpc_request meth params, reply)] = []"
    by (rule no_sends [of _ meth params]) (simp_all add: request_of_def assms)
  ultimately show "\<exists>ps. did H s ps s' \<and> sends ps = [] \<and> (\<forall>a. r = Inr a \<longrightarrow> answered_by url ps meth params a)" by blast
qed

lemma pool_answered:
  assumes "pool_posts H reads n meth params ps (Inr v)"
  shows "answered ps meth params v"
proof -
  obtain url req reply where l: "last ps = (url, req, reply)" by (cases "last ps")
  have ps: "ps \<noteq> []" "\<forall>p \<in> set ps. request_of p = rpc_request meth params" and a: "answers (reply_of (last ps)) v"
    using assms by (simp_all add: pool_posts_def)
  have "(url, req, reply) \<in> set ps" using last_in_set [OF ps(1)] l by simp
  moreover from this have "req = rpc_request meth params" using ps(2) by (auto simp: request_of_def)
  ultimately show ?thesis using a l by (auto simp: answered_def answers_def reply_of_def)
qed

lemma pool_sends: "pool_posts H reads n meth params ps r \<Longrightarrow> meth \<noteq> ''eth_sendRawTransaction'' \<Longrightarrow> sends ps = []"
  by (rule no_sends [of _ meth params]) (simp_all add: pool_posts_def)

lemma reading_call:
  assumes "meth \<noteq> ''eth_sendRawTransaction''"
  shows "reading H (call H meth params) (\<lambda>ps v. answered ps meth params v)"
  unfolding reading_def call_def
proof (intro allI impI)
  fix s r s' assume run: "call_loop H (read_attempts (n_roster s)) meth params s = (r, s')"
  obtain ps where d: "did H s ps s'" "pool_posts H (ro_reads (n_roster s)) (read_attempts (n_roster s)) meth params ps r"
    using did_call_loop [OF run] by blast
  have "answered ps meth params a" if "r = Inr a" for a using pool_answered d(2) unfolding that by blast
  then show "\<exists>ps. did H s ps s' \<and> sends ps = [] \<and> (\<forall>a. r = Inr a \<longrightarrow> answered ps meth params a)"
    using d(1) pool_sends [OF d(2) assms] by (intro exI [of _ ps]) simp
qed

end

text \<open>The base fee one node answered: the field of its latest block, or, only if that block has none, its
  gas price.\<close>

definition base_answered :: "'w host \<Rightarrow> string \<Rightarrow> (string \<times> json \<times> http_reply) list \<Rightarrow> u256 \<Rightarrow> bool" where
  "base_answered H url ps base =
     (\<exists>v. answered_by url ps ''eth_getBlockByNumber'' (JArray [JString ''latest'', JBool False]) v
        \<and> (case json_get ''baseFeePerGas'' v of
             Some b \<Rightarrow> parse_u256_value H b = Inr base
           | None \<Rightarrow> \<exists>g. answered_by url ps ''eth_gasPrice'' (JArray []) g \<and> parse_u256_value H g = Inr base))"

lemma base_answered_append: "base_answered H url ps base \<or> base_answered H url qs base \<Longrightarrow> base_answered H url (ps @ qs) base"
proof -
  assume "base_answered H url ps base \<or> base_answered H url qs base"
  then obtain us where us: "us = ps \<or> us = qs" "base_answered H url us base" by blast
  have mono: "answered_by url us m q v \<Longrightarrow> answered_by url (ps @ qs) m q v" for m q v
    using us(1) answered_by_append by blast
  obtain v where v: "answered_by url us ''eth_getBlockByNumber'' (JArray [JString ''latest'', JBool False]) v"
    "case json_get ''baseFeePerGas'' v of Some b \<Rightarrow> parse_u256_value H b = Inr base
      | None \<Rightarrow> \<exists>g. answered_by url us ''eth_gasPrice'' (JArray []) g \<and> parse_u256_value H g = Inr base"
    using us(2) unfolding base_answered_def by blast
  then show ?thesis unfolding base_answered_def using mono
    by (intro exI [of _ v]) (auto split: option.splits)
qed

definition estimate_params :: "externs \<Rightarrow> 'w host \<Rightarrow> bytes \<Rightarrow> bytes \<Rightarrow> bytes \<Rightarrow> json" where
  "estimate_params X H from to data =
     JArray [JObject [(''from'', JString (address_text H from)), (''to'', JString (address_text H to)),
                      (''data'', hex_0x X data)]]"

definition balance_params :: "'w host \<Rightarrow> bytes \<Rightarrow> json" where
  "balance_params H address = JArray [JString (address_text H address), JString ''latest'']"

context host_laws
begin

lemma reading_estimate:
  "reading H (estimate_gas_on X H url from to data)
     (\<lambda>ps n. \<exists>v. answered_by url ps ''eth_estimateGas'' (estimate_params X H from to data) v \<and> parse_quantity_value H v = Inr n)"
  unfolding estimate_gas_on_def estimate_params_def
  by (rule reading_mono, rule reading_bind, rule reading_call_on, simp, rule reading_lift)
    (auto intro: answered_by_append)

lemma reading_base: "reading H (base_fee_on H url) (base_answered H url)"
proof -
  let ?q = "JArray [JString ''latest'', JBool False]"
  have gas: "reading H (gas_price_on H url) (\<lambda>ps n. \<exists>v. answered_by url ps ''eth_gasPrice'' (JArray []) v \<and> parse_u256_value H v = Inr n)"
    unfolding gas_price_on_def
    by (rule reading_mono, rule reading_bind, rule reading_call_on, simp, rule reading_lift) (auto intro: answered_by_append)
  have rest: "reading H (case json_get ''baseFeePerGas'' v of Some b \<Rightarrow> lift_op (parse_u256_value H b) | None \<Rightarrow> gas_price_on H url)
      (\<lambda>ps n. case json_get ''baseFeePerGas'' v of Some b \<Rightarrow> parse_u256_value H b = Inr n
         | None \<Rightarrow> \<exists>g. answered_by url ps ''eth_gasPrice'' (JArray []) g \<and> parse_u256_value H g = Inr n)" for v
    using gas by (cases "json_get ''baseFeePerGas'' v") (auto intro: reading_mono [OF reading_lift])
  show ?thesis
    unfolding base_fee_on_def
  proof (rule reading_mono, rule reading_bind, rule reading_call_on, simp, rule rest, elim exE conjE, goal_cases)
    case (1 ps base qs rs v)
    have "answered_by url ps ''eth_getBlockByNumber'' ?q v" using 1(1,2) answered_by_append by simp
    moreover have "answered_by url ps ''eth_gasPrice'' (JArray []) g" if "answered_by url rs ''eth_gasPrice'' (JArray []) g" for g
      using 1(1) that answered_by_append by simp
    ultimately show ?case unfolding base_answered_def using 1(3)
      by (intro exI [of _ v]) (auto split: option.splits)
  qed
qed

lemma reading_balance:
  "reading H (balance_on H url address)
     (\<lambda>ps n. \<exists>v. answered ps ''eth_getBalance'' (balance_params H address) v \<and> parse_u256_value H v = Inr n)"
  unfolding balance_on_def balance_of_def balance_params_def
  by (rule reading_mono, rule reading_bind, rule reading_call, simp, rule reading_lift)
    (auto intro: answered_append)

lemma did_write_node:
  assumes "write_node H s = (r, s')"
  shows "did H s [] s'" "r = Inr url \<Longrightarrow> url \<in> set (ro_writes (n_roster s))"
proof -
  obtain u where sel: "select_on H Write s = (u, s')" "r = ok_or Unavailable u"
    using assms by (auto simp: write_node_def select_write_def split: prod.splits)
  show "did H s [] s'" by (rule did_select(1) [OF sel(1)])
  show "r = Inr url \<Longrightarrow> url \<in> set (ro_writes (n_roster s))"
    using did_select(3) [OF sel(1), of url] sel(2) by (cases u) (simp_all add: lane_urls_def ok_or_def)
qed

lemma did_send_on:
  assumes "send_transaction_on X H url key tr s = (r, s')"
  shows "(\<exists>e. r = Inl e) \<and> s' = s \<or>
    (\<exists>signed reply max_fee priority ps.
       try_narrow (max_fee_per_gas (tr_fees tr)) = Some max_fee \<and> try_narrow (max_priority_fee_per_gas (tr_fees tr)) = Some priority
       \<and> sign_transaction H key
           \<lparr>tx_chain_id = CHAIN_ID, tx_nonce = tr_nonce tr, tx_gas_limit = tr_gas_limit tr, tx_max_fee_per_gas = max_fee,
            tx_max_priority_fee_per_gas = priority, tx_to = tr_to tr, tx_value = tr_value tr, tx_input = tr_data tr\<rparr> = Some signed
       \<and> ps = [(url, rpc_request ''eth_sendRawTransaction'' (JArray [hex_0x X signed]), reply)]
       \<and> did H s ps s' \<and> (\<forall>hash. r = Inr hash \<longrightarrow> answered ps ''eth_sendRawTransaction'' (JArray [hex_0x X signed]) (JString hash)))"
proof -
  let ?sign = "sign_eip1559 H key (tr_nonce tr) (tr_gas_limit tr) (tr_fees tr) (tr_to tr) (tr_value tr) (tr_data tr)"
  show ?thesis
  proof (cases ?sign)
    case (Inl e)
    then show ?thesis using assms by (auto simp: send_transaction_on_def bind_op_def lift_op_def)
  next
    case (Inr signed)
    let ?q = "JArray [hex_0x X signed]"
    obtain r1 s1 where c: "call_on H url ''eth_sendRawTransaction'' ?q s = (r1, s1)" by fastforce
    obtain reply where d: "did H s [(url, rpc_request ''eth_sendRawTransaction'' ?q, reply)] s1"
      and a: "\<forall>v. r1 = Inr v \<longrightarrow> answered_by url [(url, rpc_request ''eth_sendRawTransaction'' ?q, reply)] ''eth_sendRawTransaction'' ?q v"
      using did_call_answered [OF c] by blast
    have ans: "answered [(url, rpc_request ''eth_sendRawTransaction'' ?q, reply)] ''eth_sendRawTransaction'' ?q v" if "r1 = Inr v" for v
      using a that by (intro answered_by_answered [of url]) simp
    have r: "s' = s1" "\<And>h. r = Inr h \<Longrightarrow> r1 = Inr (JString h)"
      using assms c Inr
      by (auto simp: send_transaction_on_def bind_op_def lift_op_def ok_or_def split: sum.splits option.splits elim: as_str.elims)
    obtain max_fee priority where n: "try_narrow (max_fee_per_gas (tr_fees tr)) = Some max_fee"
      "try_narrow (max_priority_fee_per_gas (tr_fees tr)) = Some priority"
      "sign_transaction H key
           \<lparr>tx_chain_id = CHAIN_ID, tx_nonce = tr_nonce tr, tx_gas_limit = tr_gas_limit tr, tx_max_fee_per_gas = max_fee,
            tx_max_priority_fee_per_gas = priority, tx_to = tr_to tr, tx_value = tr_value tr, tx_input = tr_data tr\<rparr> = Some signed"
      using Inr by (auto simp: sign_eip1559_def ok_or_def bind_res_Inr split: option.splits)
    show ?thesis using n d r ans by blast
  qed
qed

end

text \<open>What a broadcast on a node needs: an estimate of that node within the gas limit, a price under the
  cap planned from the base fee of that node, and a wallet balance that covers the worst case (the
  balance is read from the pool, not from that node).\<close>

definition cleared ::
  "externs \<Rightarrow> 'w host \<Rightarrow> chain \<Rightarrow> string \<Rightarrow> bytes \<Rightarrow> bytes \<Rightarrow> bytes \<Rightarrow> (string \<times> json \<times> http_reply) list \<Rightarrow> u64 \<Rightarrow> fee_plan \<Rightarrow> bool" where
  "cleared X H C url key to data ps gas_limit fees =
     ((\<exists>v n. answered_by url ps ''eth_estimateGas'' (estimate_params X H (key_address H key) to data) v
         \<and> parse_quantity_value H v = Inr n \<and> gas_limit = gas_limit_for n)
      \<and> gas_limit \<le> MAX_GAS_LIMIT
      \<and> (\<exists>base. base_answered H url ps base \<and> plan_fees base (ucast DEFAULT_TIP_WEI) (ch_max_gas_price_wei C) = Send fees)
      \<and> max_fee_per_gas fees \<le> ch_max_gas_price_wei C
      \<and> (\<exists>v bal. answered ps ''eth_getBalance'' (balance_params H (key_address H key)) v \<and> parse_u256_value H v = Inr bal
           \<and> required_balance gas_limit (max_fee_per_gas fees) \<le> bal))"

text \<open>A run that broadcast exactly one transaction, its last post, signed over these fields.\<close>

definition broadcast_once ::
  "externs \<Rightarrow> 'w host \<Rightarrow> bytes \<Rightarrow> transaction \<Rightarrow> (string \<times> json \<times> http_reply) list \<Rightarrow> (u128 \<times> u128) option \<Rightarrow> string option \<Rightarrow> bool" where
  "broadcast_once X H key tr ps fees hash =
     (\<exists>signed url reply max_fee priority qs.
        try_narrow (max_fee_per_gas (tr_fees tr)) = Some max_fee \<and> try_narrow (max_priority_fee_per_gas (tr_fees tr)) = Some priority
        \<and> sign_transaction H key
            \<lparr>tx_chain_id = CHAIN_ID, tx_nonce = tr_nonce tr, tx_gas_limit = tr_gas_limit tr, tx_max_fee_per_gas = max_fee,
             tx_max_priority_fee_per_gas = priority, tx_to = tr_to tr, tx_value = tr_value tr, tx_input = tr_data tr\<rparr> = Some signed
        \<and> ps = qs @ [(url, rpc_request ''eth_sendRawTransaction'' (JArray [hex_0x X signed]), reply)] \<and> sends qs = []
        \<and> fees = Some (max_fee, priority)
        \<and> (\<forall>h. hash = Some h \<longrightarrow> answered [last ps] ''eth_sendRawTransaction'' (JArray [hex_0x X signed]) (JString h)))"

lemma broadcast_once_sends: "broadcast_once X H key tr ps fees hash \<Longrightarrow> length (sends ps) = 1"
  by (auto simp: broadcast_once_def sends_def is_send_def request_of_def rpc_request_def)

lemma plan_fees_cap: "plan_fees base tip cap = Send fees \<Longrightarrow> max_fee_per_gas fees \<le> cap"
  by (auto simp: plan_fees_def Let_def split: if_splits)

text \<open>The posts of an operation together with its result.\<close>

definition sending ::
  "'w host \<Rightarrow> ('w, 'a) chain_op \<Rightarrow> ((string \<times> json \<times> http_reply) list \<Rightarrow> chain_error + 'a \<Rightarrow> bool) \<Rightarrow> bool" where
  "sending H m P = (\<forall>s r s'. m s = (r, s') \<longrightarrow> (\<exists>ps. did H s ps s' \<and> P ps r))"

context host_laws
begin

lemma sending_bind:
  assumes m: "reading H m E" and fail: "\<And>qs e. sends qs = [] \<Longrightarrow> P (p @ qs) (Inl e)"
    and f: "\<And>qs a. E qs a \<Longrightarrow> sends qs = [] \<Longrightarrow> sending H (f a) (\<lambda>ps. P (p @ qs @ ps))"
  shows "sending H (bind_op m f) (\<lambda>ps. P (p @ ps))"
  unfolding sending_def
proof (intro allI impI)
  fix s r s' assume run: "bind_op m f s = (r, s')"
  obtain r1 s1 where r1: "m s = (r1, s1)" by fastforce
  obtain qs where qs: "did H s qs s1" "sends qs = []" "\<forall>a. r1 = Inr a \<longrightarrow> E qs a"
    using m [unfolded reading_def, rule_format, OF r1] by blast
  show "\<exists>ps. did H s ps s' \<and> P (p @ ps) r"
  proof (cases r1)
    case (Inl e)
    then have "r = Inl e" "s' = s1" using run r1 by (simp_all add: bind_op_def)
    then show ?thesis using qs fail by blast
  next
    case (Inr a)
    then have fa: "f a s1 = (r, s')" using run r1 by (simp add: bind_op_def)
    have E: "E qs a" using qs(3) Inr by blast
    obtain ps where ps: "did H s1 ps s'" "P (p @ qs @ ps) r"
      using f [OF E qs(2), unfolded sending_def, rule_format, OF fa] by blast
    show ?thesis using did_trans [OF qs(1) ps(1)] ps(2) by blast
  qed
qed

lemma sending_fail: "P p (Inl e) \<Longrightarrow> sending H (fail_op e) (\<lambda>ps. P (p @ ps))"
  unfolding sending_def fail_op_def by (metis append_Nil2 did_refl prod.inject)

lemma reading_write_node: "reading H (write_node H) (\<lambda>ps url. ps = [])"
  unfolding reading_def using did_write_node(1) by (auto intro!: exI [of _ "[]"])

lemma sending_last:
  assumes "\<And>qs e. sends qs = [] \<Longrightarrow> P (p @ qs) (Inl e)"
    and "\<And>qs r sent. broadcast_once X H key tr (p @ qs) sent (case r of Inr h \<Rightarrow> Some h | Inl _ \<Rightarrow> None)
      \<Longrightarrow> fst (last (p @ qs)) = url \<Longrightarrow> P (p @ qs) (case r of Inr h \<Rightarrow> Inr (f h sent) | Inl e \<Rightarrow> Inl e)"
    and "sends p = []"
  shows "sending H (bind_op (send_transaction_on X H url key tr) (\<lambda>h. return_op (f h (fees_wei (tr_fees tr))))) (\<lambda>ps. P (p @ ps))"
  unfolding sending_def
proof (intro allI impI)
  fix s r s' assume run: "bind_op (send_transaction_on X H url key tr) (\<lambda>h. return_op (f h (fees_wei (tr_fees tr)))) s = (r, s')"
  obtain r1 where r1: "send_transaction_on X H url key tr s = (r1, s')"
    "r = (case r1 of Inr h \<Rightarrow> Inr (f h (fees_wei (tr_fees tr))) | Inl e \<Rightarrow> Inl e)"
    using run by (auto simp: bind_op_def return_op_def split: prod.splits sum.splits)
  consider (none) e where "r1 = Inl e" "s' = s"
    | (sent) signed reply max_fee priority where
       "try_narrow (max_fee_per_gas (tr_fees tr)) = Some max_fee" "try_narrow (max_priority_fee_per_gas (tr_fees tr)) = Some priority"
       "sign_transaction H key
           \<lparr>tx_chain_id = CHAIN_ID, tx_nonce = tr_nonce tr, tx_gas_limit = tr_gas_limit tr, tx_max_fee_per_gas = max_fee,
            tx_max_priority_fee_per_gas = priority, tx_to = tr_to tr, tx_value = tr_value tr, tx_input = tr_data tr\<rparr> = Some signed"
       "did H s [(url, rpc_request ''eth_sendRawTransaction'' (JArray [hex_0x X signed]), reply)] s'"
       "\<forall>hash. r1 = Inr hash \<longrightarrow> answered [(url, rpc_request ''eth_sendRawTransaction'' (JArray [hex_0x X signed]), reply)]
          ''eth_sendRawTransaction'' (JArray [hex_0x X signed]) (JString hash)"
    using did_send_on [OF r1(1)] by blast
  then show "\<exists>ps. did H s ps s' \<and> P (p @ ps) r"
  proof cases
    case none
    then show ?thesis using assms(1) [of "[]" e] r1(2) did_refl [of s] by (auto simp: sends_def)
  next
    case sent
    let ?q = "(url, rpc_request ''eth_sendRawTransaction'' (JArray [hex_0x X signed]), reply)"
    have "broadcast_once X H key tr (p @ [?q]) (Some (max_fee, priority)) (case r1 of Inr h \<Rightarrow> Some h | Inl _ \<Rightarrow> None)"
      unfolding broadcast_once_def using sent assms(3) by (auto split: sum.splits)
    moreover have "fees_wei (tr_fees tr) = Some (max_fee, priority)" using sent by (simp add: fees_wei_def)
    ultimately have "P (p @ [?q]) r"
      using assms(2) [of "[?q]" "Some (max_fee, priority)" r1] r1(2) by (cases r1) simp_all
    then show ?thesis using sent(4) by blast
  qed
qed

end

text \<open>A contract write: nothing was broadcast and it failed, or one transaction was, cleared on the node
  it was posted to.\<close>

definition contract_sent ::
  "externs \<Rightarrow> 'w host \<Rightarrow> chain \<Rightarrow> string \<Rightarrow> bytes \<Rightarrow> bytes \<Rightarrow> u64 \<Rightarrow> (string \<times> json \<times> http_reply) list \<Rightarrow> chain_error + broadcast \<Rightarrow> bool" where
  "contract_sent X H C url to data nonce ps r =
     (sends ps = [] \<and> (\<exists>e. r = Inl e)
      \<or> (\<exists>key gas_limit fees sent.
           ch_signer_key C = Some key \<and> cleared X H C url key to data ps gas_limit fees
           \<and> fst (last ps) = url
           \<and> broadcast_once X H key
               \<lparr>tr_to = to, tr_data = data, tr_value = 0, tr_nonce = nonce, tr_gas_limit = gas_limit, tr_fees = fees\<rparr>
               ps sent (case r of Inr b \<Rightarrow> Some (bc_hash b) | Inl _ \<Rightarrow> None)
           \<and> (\<forall>b. r = Inr b \<longrightarrow> bc_fees_wei b = sent)))"

context host_laws
begin

lemma cleared_append: "cleared X H C url key to data ps g f \<Longrightarrow> cleared X H C url key to data (ps @ qs) g f"
  unfolding cleared_def using answered_append answered_by_append base_answered_append by (elim conjE exE) blast

lemma contract_fail: "sends ps = [] \<Longrightarrow> contract_sent X H C url to data nonce ps (Inl e)"
  by (simp add: contract_sent_def)

lemma stage_send:
  assumes "sends p = []" "cleared X H C url key to data p gas fees" "ch_signer_key C = Some key"
  shows "sending H (bind_op (send_transaction_on X H url key
        \<lparr>tr_to = to, tr_data = data, tr_value = 0, tr_nonce = nonce, tr_gas_limit = gas, tr_fees = fees\<rparr>)
      (\<lambda>hash. return_op \<lparr>bc_hash = hash, bc_fees_wei = fees_wei fees\<rparr>))
    (\<lambda>ps. contract_sent X H C url to data nonce (p @ ps))"
proof -
  let ?tr = "\<lparr>tr_to = to, tr_data = data, tr_value = 0, tr_nonce = nonce, tr_gas_limit = gas, tr_fees = fees\<rparr>"
  have "sending H (bind_op (send_transaction_on X H url key ?tr)
      (\<lambda>h. return_op ((\<lambda>h sent. \<lparr>bc_hash = h, bc_fees_wei = sent\<rparr>) h (fees_wei (tr_fees ?tr)))))
    (\<lambda>ps. contract_sent X H C url to data nonce (p @ ps))"
  proof (rule sending_last)
    fix qs and r :: "chain_error + string" and sent
    assume b: "broadcast_once X H key ?tr (p @ qs) sent (case r of Inr h \<Rightarrow> Some h | Inl _ \<Rightarrow> None)"
      "fst (last (p @ qs)) = url"
    have "cleared X H C url key to data (p @ qs) gas fees" by (rule cleared_append [OF assms(2)])
    then show "contract_sent X H C url to data nonce (p @ qs)
        (case r of Inr h \<Rightarrow> Inr \<lparr>bc_hash = h, bc_fees_wei = sent\<rparr> | Inl e \<Rightarrow> Inl e)"
      unfolding contract_sent_def using b assms(3) by (cases r) auto
  qed (use assms(1) in \<open>simp_all add: contract_fail\<close>)
  then show ?thesis by simp
qed

lemma stage_balance:
  assumes "sends p = []" "ch_signer_key C = Some key"
    "\<exists>v n. answered_by url p ''eth_estimateGas'' (estimate_params X H (key_address H key) to data) v
         \<and> parse_quantity_value H v = Inr n \<and> gas = gas_limit_for n" "gas \<le> MAX_GAS_LIMIT"
    "\<exists>base. base_answered H url p base \<and> plan_fees base (ucast DEFAULT_TIP_WEI) (ch_max_gas_price_wei C) = Send fees"
  shows "sending H (bind_op (balance_on H url (key_address H key)) (\<lambda>bal.
      if bal < required_balance gas (max_fee_per_gas fees)
      then fail_op (underfunded H (key_address H key) bal (required_balance gas (max_fee_per_gas fees)))
      else bind_op (send_transaction_on X H url key
         \<lparr>tr_to = to, tr_data = data, tr_value = 0, tr_nonce = nonce, tr_gas_limit = gas, tr_fees = fees\<rparr>)
       (\<lambda>hash. return_op \<lparr>bc_hash = hash, bc_fees_wei = fees_wei fees\<rparr>)))
    (\<lambda>ps. contract_sent X H C url to data nonce (p @ ps))"
proof (rule sending_bind [OF reading_balance])
  fix qs bal
  assume bal: "\<exists>v. answered qs ''eth_getBalance'' (balance_params H (key_address H key)) v \<and> parse_u256_value H v = Inr bal"
    and qs: "sends qs = []"
  show "sending H (if bal < required_balance gas (max_fee_per_gas fees)
      then fail_op (underfunded H (key_address H key) bal (required_balance gas (max_fee_per_gas fees)))
      else bind_op (send_transaction_on X H url key
         \<lparr>tr_to = to, tr_data = data, tr_value = 0, tr_nonce = nonce, tr_gas_limit = gas, tr_fees = fees\<rparr>)
       (\<lambda>hash. return_op \<lparr>bc_hash = hash, bc_fees_wei = fees_wei fees\<rparr>))
    (\<lambda>ps. contract_sent X H C url to data nonce (p @ qs @ ps))"
  proof (cases "bal < required_balance gas (max_fee_per_gas fees)")
    case True
    then show ?thesis
      using sending_fail [of "contract_sent X H C url to data nonce" "p @ qs"] contract_fail [of "p @ qs"] assms(1) qs by simp
  next
    case False
    obtain base where base: "base_answered H url p base"
      "plan_fees base (ucast DEFAULT_TIP_WEI) (ch_max_gas_price_wei C) = Send fees" using assms(5) by blast
    have "base_answered H url (p @ qs) base" using base(1) base_answered_append by blast
    moreover have "\<exists>v n. answered_by url (p @ qs) ''eth_estimateGas'' (estimate_params X H (key_address H key) to data) v
         \<and> parse_quantity_value H v = Inr n \<and> gas = gas_limit_for n" using assms(3) answered_by_append by blast
    moreover have "\<exists>v bal. answered (p @ qs) ''eth_getBalance'' (balance_params H (key_address H key)) v
        \<and> parse_u256_value H v = Inr bal \<and> required_balance gas (max_fee_per_gas fees) \<le> bal"
      using bal False answered_append not_less by blast
    ultimately have "cleared X H C url key to data (p @ qs) gas fees"
      unfolding cleared_def using assms(4) base(2) plan_fees_cap [OF base(2)] by blast
    then show ?thesis using stage_send [of "p @ qs", OF _ _ assms(2)] assms(1) qs False by simp
  qed
qed (use assms(1) in \<open>simp add: contract_fail\<close>)

lemma stage_base:
  assumes "sends p = []" "ch_signer_key C = Some key"
    "\<exists>v n. answered_by url p ''eth_estimateGas'' (estimate_params X H (key_address H key) to data) v
         \<and> parse_quantity_value H v = Inr n \<and> gas = gas_limit_for n" "gas \<le> MAX_GAS_LIMIT"
  shows "sending H (bind_op (base_fee_on H url) (\<lambda>base.
          case fee_plan_from C base of
            TooExpensive required cap \<Rightarrow> fail_op (Rejected (too_expensive_reason required cap))
          | Send fees \<Rightarrow>
              bind_op (balance_on H url (key_address H key)) (\<lambda>bal.
              if bal < required_balance gas (max_fee_per_gas fees)
              then fail_op (underfunded H (key_address H key) bal (required_balance gas (max_fee_per_gas fees)))
              else bind_op (send_transaction_on X H url key
                 \<lparr>tr_to = to, tr_data = data, tr_value = 0, tr_nonce = nonce, tr_gas_limit = gas, tr_fees = fees\<rparr>)
               (\<lambda>hash. return_op \<lparr>bc_hash = hash, bc_fees_wei = fees_wei fees\<rparr>))))
    (\<lambda>ps. contract_sent X H C url to data nonce (p @ ps))"
proof (rule sending_bind [OF reading_base])
  fix qs base assume base: "base_answered H url qs base" and qs: "sends qs = []"
  have no: "sends (p @ qs) = []" using assms(1) qs by simp
  have est: "\<exists>v n. answered_by url (p @ qs) ''eth_estimateGas'' (estimate_params X H (key_address H key) to data) v
         \<and> parse_quantity_value H v = Inr n \<and> gas = gas_limit_for n" using assms(3) answered_by_append by blast
  have "base_answered H url (p @ qs) base" using base base_answered_append by blast
  then have plan: "fee_plan_from C base = Send fees \<Longrightarrow> \<exists>base. base_answered H url (p @ qs) base
      \<and> plan_fees base (ucast DEFAULT_TIP_WEI) (ch_max_gas_price_wei C) = Send fees" for fees
    by (auto simp: fee_plan_from_def)
  show "sending H (case fee_plan_from C base of
            TooExpensive required cap \<Rightarrow> fail_op (Rejected (too_expensive_reason required cap))
          | Send fees \<Rightarrow>
              bind_op (balance_on H url (key_address H key)) (\<lambda>bal.
              if bal < required_balance gas (max_fee_per_gas fees)
              then fail_op (underfunded H (key_address H key) bal (required_balance gas (max_fee_per_gas fees)))
              else bind_op (send_transaction_on X H url key
                 \<lparr>tr_to = to, tr_data = data, tr_value = 0, tr_nonce = nonce, tr_gas_limit = gas, tr_fees = fees\<rparr>)
               (\<lambda>hash. return_op \<lparr>bc_hash = hash, bc_fees_wei = fees_wei fees\<rparr>)))
    (\<lambda>ps. contract_sent X H C url to data nonce (p @ qs @ ps))"
    using stage_balance [OF no assms(2) est assms(4) plan]
      sending_fail [of "contract_sent X H C url to data nonce" "p @ qs", OF contract_fail [OF no]]
    by (cases "fee_plan_from C base") simp_all
qed (use assms(1) in \<open>simp add: contract_fail\<close>)

lemma stage_estimate:
  assumes "sends p = []" "ch_signer_key C = Some key"
  shows "sending H (bind_op (estimate_gas_on X H url (key_address H key) to data) (\<lambda>estimate.
        if \<not> gas_limit_within_bounds (gas_limit_for estimate) then fail_op (over_gas_limit (gas_limit_for estimate))
        else bind_op (base_fee_on H url) (\<lambda>base.
          case fee_plan_from C base of
            TooExpensive required cap \<Rightarrow> fail_op (Rejected (too_expensive_reason required cap))
          | Send fees \<Rightarrow>
              bind_op (balance_on H url (key_address H key)) (\<lambda>bal.
              if bal < required_balance (gas_limit_for estimate) (max_fee_per_gas fees)
              then fail_op (underfunded H (key_address H key) bal (required_balance (gas_limit_for estimate) (max_fee_per_gas fees)))
              else bind_op (send_transaction_on X H url key
                 \<lparr>tr_to = to, tr_data = data, tr_value = 0, tr_nonce = nonce, tr_gas_limit = gas_limit_for estimate, tr_fees = fees\<rparr>)
               (\<lambda>hash. return_op \<lparr>bc_hash = hash, bc_fees_wei = fees_wei fees\<rparr>)))))
    (\<lambda>ps. contract_sent X H C url to data nonce (p @ ps))"
proof (rule sending_bind [OF reading_estimate])
  fix qs estimate
  assume est: "\<exists>v. answered_by url qs ''eth_estimateGas'' (estimate_params X H (key_address H key) to data) v
      \<and> parse_quantity_value H v = Inr estimate" and qs: "sends qs = []"
  have no: "sends (p @ qs) = []" using assms(1) qs by simp
  have est': "\<exists>v n. answered_by url (p @ qs) ''eth_estimateGas'' (estimate_params X H (key_address H key) to data) v
         \<and> parse_quantity_value H v = Inr n \<and> gas_limit_for estimate = gas_limit_for n" using est answered_by_append by blast
  show "sending H (if \<not> gas_limit_within_bounds (gas_limit_for estimate) then fail_op (over_gas_limit (gas_limit_for estimate))
        else bind_op (base_fee_on H url) (\<lambda>base.
          case fee_plan_from C base of
            TooExpensive required cap \<Rightarrow> fail_op (Rejected (too_expensive_reason required cap))
          | Send fees \<Rightarrow>
              bind_op (balance_on H url (key_address H key)) (\<lambda>bal.
              if bal < required_balance (gas_limit_for estimate) (max_fee_per_gas fees)
              then fail_op (underfunded H (key_address H key) bal (required_balance (gas_limit_for estimate) (max_fee_per_gas fees)))
              else bind_op (send_transaction_on X H url key
                 \<lparr>tr_to = to, tr_data = data, tr_value = 0, tr_nonce = nonce, tr_gas_limit = gas_limit_for estimate, tr_fees = fees\<rparr>)
               (\<lambda>hash. return_op \<lparr>bc_hash = hash, bc_fees_wei = fees_wei fees\<rparr>))))
    (\<lambda>ps. contract_sent X H C url to data nonce (p @ qs @ ps))"
    using stage_base [OF no assms(2) est']
      sending_fail [of "contract_sent X H C url to data nonce" "p @ qs", OF contract_fail [OF no]]
    by (cases "gas_limit_within_bounds (gas_limit_for estimate)") (simp_all add: gas_limit_within_bounds_def)
qed (use assms(1) in \<open>simp add: contract_fail\<close>)

lemma bind_step:
  "bind_op (lift_op (Inl e)) f s = (Inl e, s)" "bind_op (lift_op (Inr a)) f s = f a s"
  "m s = (Inl e, s1) \<Longrightarrow> bind_op m g s = (Inl e, s1)" "m s = (Inr b, s1) \<Longrightarrow> bind_op m g s = g b s1"
  by (simp_all add: bind_op_def lift_op_def)

lemma contract_sending:
  assumes "send_contract_transaction X H C role to data nonce s = (r, s')"
  shows "\<exists>ps url. did H s ps s' \<and> contract_sent X H C url to data nonce ps r \<and> (sends ps \<noteq> [] \<longrightarrow> url \<in> set (ro_writes (n_roster s)))"
proof (cases "wallet_key C role")
  case (Inl e)
  then have "r = Inl e" "s' = s" using assms [unfolded send_contract_transaction_def Inl bind_step(1)] by simp_all
  then show ?thesis using did_refl [of s] contract_fail [of "[]"] by (intro exI [of _ "[]"]) simp
next
  case (Inr key)
  then have sk: "ch_signer_key C = Some key" by (auto simp: wallet_key_def ok_or_def split: option.splits)
  note run = assms [unfolded send_contract_transaction_def Inr bind_step(2) Let_def]
  obtain w s1 where w: "write_node H s = (w, s1)" by fastforce
  note d = did_write_node [OF w]
  show ?thesis
  proof (cases w)
    case (Inl e)
    have "r = Inl e" "s' = s1" using run [unfolded bind_step(3) [where m = "write_node H", OF w [unfolded Inl]]] by simp_all
    then show ?thesis using d(1) contract_fail [of "[]"] by (intro exI [of _ "[]"]) simp
  next
    case (Inr url)
    obtain ps where ps: "did H s1 ps s'" "contract_sent X H C url to data nonce ([] @ ps) r"
      using stage_estimate [of "[]", OF sends_append(2) sk, unfolded sending_def, rule_format, OF run [unfolded bind_step(4) [where m = "write_node H", OF w [unfolded Inr]]]]
      by blast
    have "did H s ps s'" using did_trans [OF d(1) ps(1)] by simp
    then show ?thesis using ps(2) d(2) [of url] Inr by (intro exI [of _ ps] exI [of _ url]) simp
  qed
qed

end

interpretation ref_net: host_laws ref_host
  by (rule host_laws.intro [OF ref_host_ok])

section \<open>Sample runs\<close>

definition sample_net :: "http_reply list \<Rightarrow> ref_world net" where
  "sample_net replies = \<lparr>n_roster = roster_new [''r''] [''w''], n_world = \<lparr>rw_posts = [], rw_replies = replies, rw_time = 0\<rparr>\<rparr>"

definition result_body :: "json \<Rightarrow> http_reply" where
  "result_body v = Body (JObject [(''result'', v)])"

definition sample_signer :: chain where
  "sample_signer = \<lparr>ch_registry_address = [7], ch_domain_registry_address = [7], ch_signer_key = Some [1, 2, 3],
     ch_max_gas_price_wei = 100000\<rparr>"

lemma ref_call_on:
  "rw_replies (n_world s) = result_body v # rest \<Longrightarrow> call_on ref_host url m q s =
     (Inr v, s\<lparr>n_world := (n_world s)\<lparr>rw_posts := rw_posts (n_world s) @ [(url, rpc_request m q, result_body v)],
        rw_replies := rest, rw_time := rw_time (n_world s) + 1000000\<rparr>, n_roster := mark_healthy url (n_roster s)\<rparr>)"
  by (simp add: call_on_def ref_host_def result_body_def Let_def)

lemma ref_monotonic: "monotonic_ms ref_host s = (of_nat (rw_time (n_world s) div 1000000), s)"
  by (simp add: monotonic_ms_def ref_host_def)

lemma ref_parse:
  "parse_u256_value ref_host (JString ''100'') = Inr 100"
  "parse_u256_value ref_host (JString ''900000000'') = Inr 900000000"
  "parse_quantity_value ref_host (JString ''100'') = Inr 100"
proof -
  show u: "parse_u256_value ref_host (JString ''100'') = Inr 100" "parse_u256_value ref_host (JString ''900000000'') = Inr 900000000"
    by (simp_all add: parse_u256_value_def ref_host_def parse_unsigned_def digits_value_def digit_value_def is_ascii_digit_def
        strip_0x_def)
  show "parse_quantity_value ref_host (JString ''100'') = Inr 100"
    by (simp add: parse_quantity_value_def u try_narrow_def)
qed

definition sample_replies :: "http_reply list" where
  "sample_replies = map result_body
     [JString ''100'', JObject [(''baseFeePerGas'', JString ''100'')], JString ''900000000'', JString ''0xabc'']"

text \<open>One read node, one write node, no failures, and these replies to come.\<close>

definition ready :: "ref_world net \<Rightarrow> http_reply list \<Rightarrow> bool" where
  "ready s replies = (ro_writes (n_roster s) = [''w''] \<and> ro_reads (n_roster s) = [''r''] \<and> ro_failed (n_roster s) = Map.empty
     \<and> rw_replies (n_world s) = replies)"

lemma ready_select:
  assumes "ready s rs"
  shows "\<exists>s1. write_node ref_host s = (Inr ''w'', s1) \<and> ready s1 rs"
    "\<exists>s1. select_on ref_host Read s = (Some ''r'', s1) \<and> ready s1 rs"
  using assms
  by (simp_all add: write_node_def select_write_def select_on_def ref_monotonic select_def lane_urls_def advance_def
      available_def ready_def Let_def ok_or_def)

lemma ready_call_on:
  "ready s (result_body v # rs) \<Longrightarrow> \<exists>s1. call_on ref_host url m q s = (Inr v, s1) \<and> ready s1 rs"
  using ref_call_on [of s v rs url m q] by (simp add: ready_def mark_healthy_def)

lemma ready_call:
  assumes "ready s (result_body v # rs)"
  shows "\<exists>s1. call ref_host m q s = (Inr v, s1) \<and> ready s1 rs"
proof -
  obtain s1 where s1: "select_on ref_host Read s = (Some ''r'', s1)" "ready s1 (result_body v # rs)"
    using ready_select(2) [OF assms] by blast
  obtain s2 where s2: "call_on ref_host ''r'' m q s1 = (Inr v, s2)" "ready s2 rs"
    using ready_call_on [OF s1(2)] by blast
  have "read_attempts (n_roster s) = Suc 0" using assms by (simp add: ready_def read_attempts_def MAX_READ_ATTEMPTS_def)
  then show ?thesis using s1 s2 by (simp add: call_def)
qed

lemma ready_send:
  assumes "ready s sample_replies"
  shows "\<exists>b s1. send_contract_transaction X ref_host sample_signer role to data nonce s = (Inr b, s1) \<and> bc_hash b = ''0xabc'' \<and> ready s1 []"
proof -
  obtain s1 where s1: "write_node ref_host s = (Inr ''w'', s1)" "ready s1 sample_replies" using ready_select(1) [OF assms] by blast
  obtain s2 where s2: "call_on ref_host ''w'' ''eth_estimateGas'' (JArray [JObject [(''from'', JString (address_text ref_host (key_address ref_host [1, 2, 3]))),
      (''to'', JString (address_text ref_host to)), (''data'', hex_0x X data)]]) s1 = (Inr (JString ''100''), s2)"
    "ready s2 (tl sample_replies)"
    using ready_call_on [of s1 "JString ''100''"] s1(2) by (simp add: sample_replies_def) blast
  obtain s3 where s3: "call_on ref_host ''w'' ''eth_getBlockByNumber'' (JArray [JString ''latest'', JBool False]) s2
      = (Inr (JObject [(''baseFeePerGas'', JString ''100'')]), s3)" "ready s3 (tl (tl sample_replies))"
    using ready_call_on [of s2 "JObject [(''baseFeePerGas'', JString ''100'')]"] s2(2) by (simp add: sample_replies_def) blast
  obtain s4 where s4: "call ref_host ''eth_getBalance'' (JArray [JString (address_text ref_host (key_address ref_host [1, 2, 3])), JString ''latest'']) s3
      = (Inr (JString ''900000000''), s4)" "ready s4 (tl (tl (tl sample_replies)))"
    using ready_call [of s3 "JString ''900000000''"] s3(2) by (simp add: sample_replies_def) blast
  have plan: "fee_plan_from sample_signer 100 = Send \<lparr>max_fee_per_gas = 1200, max_priority_fee_per_gas = 1000\<rparr>"
    by (simp add: fee_plan_from_def plan_fees_def sample_signer_def DEFAULT_TIP_WEI_def headroom_price_def gas_consts
        saturating_add_def saturating_mul_def Let_def)
  obtain signed where sg: "sign_eip1559 ref_host [1, 2, 3] nonce 120 \<lparr>max_fee_per_gas = 1200, max_priority_fee_per_gas = 1000\<rparr> to 0 data = Inr signed"
    by (simp add: sign_eip1559_def try_narrow_def ref_host_def)
  obtain s5 where s5: "call_on ref_host ''w'' ''eth_sendRawTransaction'' (JArray [hex_0x X signed]) s4 = (Inr (JString ''0xabc''), s5)" "ready s5 []"
    using ready_call_on [of s4 "JString ''0xabc''"] s4(2) by (simp add: sample_replies_def) blast
  have g: "gas_limit_for 100 = 120" by (simp add: gas_limit_for_def saturating_mul_def)
  show ?thesis
    using s1(1) s2(1) s3(1) s4(1) s5 sg plan g
    by (simp add: send_contract_transaction_def wallet_key_def sample_signer_def estimate_gas_on_def base_fee_on_def
        balance_on_def balance_of_def send_transaction_on_def bind_op_def lift_op_def return_op_def ref_parse
        gas_limit_within_bounds_def MAX_GAS_LIMIT_def required_balance_def saturating_mul_def Let_def)
qed


lemma sample_refer_calldata: "\<exists>data. write_calldata ref_externs sample_refer = Inr data"
proof -
  have "hex_decode ref_externs (ref_hex_encode [1, 2]) = Some [1, 2]"
    using ref_hex.dec_enc [of "[1, 2]"] by (simp add: ref_externs_def)
  moreover have "length (ref_hex_encode [1, 2]) mod 2 = 0" by (simp add: ref_hex_encode_def)
  ultimately have "parse_hex_bytes ref_externs (''0x'' @ ref_hex_encode [1, 2]) = Inr [1, 2]"
    by (simp add: parse_hex_bytes_def Let_def)
  then show ?thesis
    by (simp add: write_calldata_def refer_calldata_def sample_refer_def pending_task_def sample_member_def
        member_sol_of_def proof_sol_of_def ref_proof_def parse_b256_def)
qed


section \<open>Fail-over and receipts\<close>

text \<open>C38: The RPC pool fails over.  A read posts the same request to at most three of the configured read
  nodes, one after the other, and every post but the last failed: the node did not answer, answered
  something else than a result, or rejected the request.  The result is the one in the last reply;
  or the revert that the last reply reports, with its text; or the chain is unavailable, after all
  the attempts there are, each of them failed.  Within one cooldown of a minute and while the
  64-bit cursor does not wrap, as long as there is a node that was eligible when the call began and was
  not yet asked, the next attempt goes to a node not yet asked; and every node that was asked is
  cooling when the call returns, except one whose result or revert ended it.  A node whose result
  was returned carries no failure mark.\<close>

theorem call_fails_over:
  fixes s :: "'w net"
  defines "reads \<equiv> ro_reads (n_roster s)"
  assumes "host_ok H" "call H meth params s = (r, s')"
  shows "\<exists>ps. posted H s' = posted H s @ ps \<and> length ps \<le> min (length reads) 3
    \<and> (\<forall>p \<in> set ps. request_of p = rpc_request meth params \<and> fst p \<in> set reads)
    \<and> (\<forall>p \<in> set (butlast ps). node_failed H (reply_of p))
    \<and> (case r of
         Inr v \<Rightarrow> ps \<noteq> [] \<and> answers (reply_of (last ps)) v \<and> ro_failed (n_roster s') (fst (last ps)) = None
       | Inl (Reverted t) \<Rightarrow> ps \<noteq> [] \<and> reverts H (reply_of (last ps)) t
       | Inl e \<Rightarrow> e = Unavailable \<and> length ps = min (length reads) 3 \<and> (\<forall>p \<in> set ps. node_failed H (reply_of p)))
    \<and> (elapsed_ms H s' < 2 ^ 64 \<and> elapsed_ms H s' < elapsed_ms H s + 60000
         \<and> unat (ro_read_cursor (n_roster s)) + 3 * (length reads + 1) < 2 ^ 64 \<longrightarrow>
       (\<forall>j < length ps. (\<exists>u \<in> set reads. \<not> cooling (n_roster s) (of_nat (elapsed_ms H s)) u \<and> u \<notin> fst ` set (take j ps))
          \<longrightarrow> fst (ps ! j) \<notin> fst ` set (take j ps))
       \<and> (\<forall>p \<in> set ps. fst p = fst (last ps) \<and> \<not> node_failed H (reply_of (last ps))
            \<or> cooling (n_roster s') (of_nat (elapsed_ms H s')) (fst p)))"
proof -
  note laws = host_laws.intro [OF assms(2)]
  let ?n = "read_attempts (n_roster s)"
  have run: "call_loop H ?n meth params s = (r, s')" using assms(3) by (simp add: call_def)
  have n: "?n = min (length reads) 3" by (simp add: read_attempts_def MAX_READ_ATTEMPTS_def reads_def)
  obtain ps where ps: "did H s ps s'" "pool_posts H reads ?n meth params ps r"
    "\<forall>v. r = Inr v \<longrightarrow> ro_failed (n_roster s') (fst (last ps)) = None"
    using host_laws.did_call_loop [OF laws run] unfolding reads_def by blast
  have posts: "length ps \<le> min (length reads) 3" "\<forall>p \<in> set ps. request_of p = rpc_request meth params \<and> fst p \<in> set reads"
    "\<forall>p \<in> set (butlast ps). node_failed H (reply_of p)"
    using ps(2) n by (simp_all add: pool_posts_def)
  have "length ps = min (length reads) 3" if "reads \<noteq> [] \<longrightarrow> length ps = ?n" using that posts(1) n by (cases reads) auto
  then have result: "case r of
         Inr v \<Rightarrow> ps \<noteq> [] \<and> answers (reply_of (last ps)) v \<and> ro_failed (n_roster s') (fst (last ps)) = None
       | Inl (Reverted t) \<Rightarrow> ps \<noteq> [] \<and> reverts H (reply_of (last ps)) t
       | Inl e \<Rightarrow> e = Unavailable \<and> length ps = min (length reads) 3 \<and> (\<forall>p \<in> set ps. node_failed H (reply_of p))"
    using ps(2,3) unfolding pool_posts_def by (auto split: sum.splits chain_error.splits)
  have post: "posted H s' = posted H s @ ps" using ps(1) by (simp add: did_def)
  show ?thesis
    using post posts result host_laws.call_failover [OF laws assms(3) ps(1), folded reads_def] by (intro exI [of _ ps]) blast
qed

theorem call_fails_over_witness:
  "\<exists>s' ps. call ref_host ''eth_blockNumber'' (JArray [])
       \<lparr>n_roster = roster_new [''a'', ''b''] [], n_world = \<lparr>rw_posts = [], rw_replies = [NotSent, result_body (JString ''100'')], rw_time = 0\<rparr>\<rparr>
       = (Inr (JString ''100''), s')
     \<and> posted ref_host s' = ps \<and> map fst ps = [''a'', ''b''] \<and> answers (reply_of (last ps)) (JString ''100'')
     \<and> cooling (n_roster s') (of_nat (elapsed_ms ref_host s')) ''a'' \<and> ro_failed (n_roster s') ''b'' = None"
proof -
  let ?s = "\<lparr>n_roster = roster_new [''a'', ''b''] [],
    n_world = \<lparr>rw_posts = [], rw_replies = [NotSent, result_body (JString ''100'')], rw_time = 0\<rparr>\<rparr>"
  obtain s' where run: "call ref_host ''eth_blockNumber'' (JArray []) ?s = (Inr (JString ''100''), s')"
    and time: "rw_time (n_world s') = 2000000" and nodes: "map fst (rw_posts (n_world s')) = [''a'', ''b'']"
    by (simp add: call_def roster_new_def read_attempts_def MAX_READ_ATTEMPTS_def numeral_2_eq_2 select_on_def ref_monotonic select_def
        lane_urls_def advance_def available_def fail_node_def call_on_def mark_failed_def ref_host_def monotonic_ms_def result_body_def
        Let_def)
  have s: "posted ref_host ?s = []" "ro_reads (n_roster ?s) = [''a'', ''b'']" "ro_read_cursor (n_roster ?s) = 0" "elapsed_ms ref_host ?s = 0"
    by (simp_all add: posted_def ref_host_def roster_new_def elapsed_ms_def)
  have e: "elapsed_ms ref_host s' = 2" by (simp add: elapsed_ms_def ref_host_def time)
  obtain ps where ps: "posted ref_host s' = ps" "answers (reply_of (last ps)) (JString ''100'')"
      "ro_failed (n_roster s') (fst (last ps)) = None"
      "\<forall>p \<in> set ps. fst p = fst (last ps) \<and> \<not> node_failed ref_host (reply_of (last ps))
            \<or> cooling (n_roster s') (of_nat (elapsed_ms ref_host s')) (fst p)"
    using call_fails_over [OF ref_host_ok run] unfolding s e by auto
  have "map fst ps = [''a'', ''b'']" using nodes ps(1) by (simp add: posted_def ref_host_def)
  moreover from this have "fst (last ps) = ''b''" "\<exists>p \<in> set ps. fst p = ''a''"
    by (auto simp: map_eq_Cons_conv)
  ultimately show ?thesis using run ps by fastforce
qed

context host_laws
begin

lemma receipt_loop_posts:
  assumes "receipt_loop H n started timeout hash s = (r, s')"
  shows "\<exists>ps. did H s ps s' \<and> sends ps = [] \<and> length ps \<le> 3 * n
    \<and> (\<forall>out. r = Inr out \<longrightarrow> (\<exists>v. answered ps ''eth_getTransactionReceipt'' (JArray [JString hash]) v \<and> v \<noteq> JNull \<and> receipt_of v = Inr out))"
  using assms
proof (induction n arbitrary: s)
  case 0
  then show ?case by (intro exI [of _ "[]"]) (auto simp: did_refl)
next
  case (Suc n)
  let ?q = "JArray [JString hash]" and ?m = "''eth_getTransactionReceipt''"
  define s1 where "s1 = s\<lparr>n_world := snd (h_instant H (n_world s))\<rparr>"
  have d1: "did H s [] s1" unfolding s1_def by (rule did_instant)
  obtain r2 s2 where c: "call H ?m ?q s1 = (r2, s2)" by fastforce
  obtain ps where ps: "did H s1 ps s2" "pool_posts H (ro_reads (n_roster s1)) (read_attempts (n_roster s1)) ?m ?q ps r2"
    using did_call_loop [OF c [unfolded call_def]] by blast
  have len: "length ps \<le> 3" using ps(2) by (simp add: pool_posts_def read_attempts_def MAX_READ_ATTEMPTS_def)
  have no: "sends ps = []" using pool_sends [OF ps(2)] by simp
  have d: "did H s ps s2" using did_trans [OF d1 ps(1)] by simp
  consider (over) "r = Inl Unavailable" "s' = s1" | (failed) e where "r2 = Inl e" "r = Inl e" "s' = s2"
    | (pending) "r2 = Inr JNull" "receipt_loop H n started timeout hash (s2\<lparr>n_world := h_sleep H (n_world s2) RECEIPT_POLL\<rparr>) = (r, s')"
    | (found) v where "r2 = Inr v" "v \<noteq> JNull" "r = receipt_of v" "s' = s2"
    using Suc.prems c by (auto simp: s1_def Let_def split: prod.splits if_splits sum.splits)
  then show ?case
  proof cases
    case over
    then show ?thesis using d1 by (intro exI [of _ "[]"]) auto
  next
    case failed
    then show ?thesis using d no len by (intro exI [of _ ps]) auto
  next
    case pending
    obtain qs where qs: "did H (s2\<lparr>n_world := h_sleep H (n_world s2) RECEIPT_POLL\<rparr>) qs s'" "sends qs = []" "length qs \<le> 3 * n"
      "\<forall>out. r = Inr out \<longrightarrow> (\<exists>v. answered qs ?m ?q v \<and> v \<noteq> JNull \<and> receipt_of v = Inr out)"
      using Suc.IH [OF pending(2)] by blast
    have "did H s (ps @ qs) s'" using did_trans [OF did_trans [OF d did_sleep] qs(1)] by simp
    moreover have "\<forall>out. r = Inr out \<longrightarrow> (\<exists>v. answered (ps @ qs) ?m ?q v \<and> v \<noteq> JNull \<and> receipt_of v = Inr out)"
      using qs(4) answered_append by blast
    ultimately show ?thesis using no qs(2,3) len by (intro exI [of _ "ps @ qs"]) auto
  next
    case found
    have "answered ps ?m ?q v" using pool_answered ps(2) unfolding found(1) by blast
    then show ?thesis using d no len found by (intro exI [of _ ps]) auto
  qed
qed

lemma receipt_fuel:
  assumes "started \<le> h_clock H (n_world s)" "timeout \<le> h_clock H (n_world s) - started + n * RECEIPT_POLL"
  shows "receipt_loop H (Suc n + k) started timeout hash s = receipt_loop H (Suc n) started timeout hash s"
  using assms
proof (induction n arbitrary: s)
  case 0
  let ?w = "snd (h_instant H (n_world s))"
  have "timeout \<le> fst (h_instant H (n_world s)) - started" using 0 clock(2,3) [of "n_world s"] by simp
  then show ?case by (simp add: Let_def split_beta)
next
  case (Suc n)
  define s1 where "s1 = s\<lparr>n_world := snd (h_instant H (n_world s))\<rparr>"
  have c1: "h_clock H (n_world s) \<le> h_clock H (n_world s1)" using clock(2) by (simp add: s1_def)
  have "receipt_loop H (Suc n + k) started timeout hash (s2\<lparr>n_world := h_sleep H (n_world s2) RECEIPT_POLL\<rparr>)
      = receipt_loop H (Suc n) started timeout hash (s2\<lparr>n_world := h_sleep H (n_world s2) RECEIPT_POLL\<rparr>)"
    if c: "call H ''eth_getTransactionReceipt'' (JArray [JString hash]) s1 = (v, s2)" for v s2
  proof (rule Suc.IH)
    obtain ps where "did H s1 ps s2" using did_call_loop [OF c [unfolded call_def]] by blast
    then have "h_clock H (n_world s1) \<le> h_clock H (n_world s2)" by (simp add: did_def)
    then show "started \<le> h_clock H (n_world (s2\<lparr>n_world := h_sleep H (n_world s2) RECEIPT_POLL\<rparr>))"
      "timeout \<le> h_clock H (n_world (s2\<lparr>n_world := h_sleep H (n_world s2) RECEIPT_POLL\<rparr>)) - started + n * RECEIPT_POLL"
      using Suc.prems c1 clock(4) [of "n_world s2" RECEIPT_POLL] by simp_all
  qed
  note rec = this
  have step: "receipt_loop H (Suc m) started timeout hash s =
      (if fst (h_instant H (n_world s)) - started < timeout
       then (case call H ''eth_getTransactionReceipt'' (JArray [JString hash]) s1 of
           (Inl e, s) \<Rightarrow> (Inl e, s)
         | (Inr v, s) \<Rightarrow>
             if v = JNull then receipt_loop H m started timeout hash (s\<lparr>n_world := h_sleep H (n_world s) RECEIPT_POLL\<rparr>)
             else (receipt_of v, s))
       else (Inl Unavailable, s1))" for m
    by (simp add: s1_def Let_def split_beta)
  obtain v s2 where c: "call H ''eth_getTransactionReceipt'' (JArray [JString hash]) s1 = (v, s2)" by fastforce
  show ?case
    using step [of "Suc n + k"] step [of "Suc n"] rec [OF c] unfolding c prod.case by (cases v) (simp_all del: receipt_loop.simps)
qed

end

text \<open>C37: Waiting for a receipt ends: the clock stops the loop within \<open>timeout / 2s + 2\<close> polls, so more
  fuel changes nothing; it broadcasts nothing, and a success or revert verdict comes from a
  receipt that a node answered for this hash.\<close>

theorem receipt_wait_ends:
  assumes "host_ok H" "wait_for_receipt H hash timeout s = (r, s')"
  shows "(\<forall>k. receipt_loop H (timeout div RECEIPT_POLL + 2 + k) (fst (h_instant H (n_world s))) timeout hash
        (s\<lparr>n_world := snd (h_instant H (n_world s))\<rparr>) = (r, s'))
    \<and> (\<exists>ps. posted H s' = posted H s @ ps \<and> sends ps = [] \<and> length ps \<le> 3 * (timeout div RECEIPT_POLL + 2)
         \<and> (\<forall>out. r = Inr out \<longrightarrow> (\<exists>v. answered ps ''eth_getTransactionReceipt'' (JArray [JString hash]) v
              \<and> v \<noteq> JNull \<and> receipt_of v = Inr out)))"
proof -
  note laws = host_laws.intro [OF assms(1)]
  let ?n = "timeout div RECEIPT_POLL" and ?t = "fst (h_instant H (n_world s))"
  define s1 where "s1 = s\<lparr>n_world := snd (h_instant H (n_world s))\<rparr>"
  have run: "receipt_loop H (Suc (Suc ?n)) ?t timeout hash s1 = (r, s')"
    using assms(2) by (simp add: wait_for_receipt_def s1_def split_beta del: receipt_loop.simps)
  have clk: "?t = h_clock H (n_world s1)" using host_laws.clock(3) [OF laws] by (simp add: s1_def)
  have "timeout mod RECEIPT_POLL < RECEIPT_POLL" by (simp add: RECEIPT_POLL_def)
  then have "timeout \<le> Suc ?n * RECEIPT_POLL" using div_mult_mod_eq [of timeout RECEIPT_POLL] unfolding mult_Suc by linarith
  then have enough: "timeout \<le> h_clock H (n_world s1) - ?t + Suc ?n * RECEIPT_POLL" by simp
  have fuel: "receipt_loop H (Suc (Suc ?n) + k) ?t timeout hash s1 = (r, s')" for k
    using host_laws.receipt_fuel [OF laws _ enough, of k hash] clk run by simp
  obtain ps where ps: "did H s1 ps s'" "sends ps = []" "length ps \<le> 3 * Suc (Suc ?n)"
    "\<forall>out. r = Inr out \<longrightarrow> (\<exists>v. answered ps ''eth_getTransactionReceipt'' (JArray [JString hash]) v \<and> v \<noteq> JNull \<and> receipt_of v = Inr out)"
    using host_laws.receipt_loop_posts [OF laws run] by blast
  have "posted H s' = posted H s @ ps"
    using ps(1) host_laws.did_instant [OF laws, of s] by (simp add: did_def s1_def)
  then show ?thesis using fuel ps unfolding s1_def by auto
qed

theorem receipt_wait_ends_witness:
  "\<exists>s'. wait_for_receipt ref_host ''0xabc'' 60000000000
       (sample_net [result_body (JObject [(''status'', JString ''0x1'')])]) = (Inr (Success None), s')
     \<and> length (posted ref_host s') \<le> 96"
proof -
  let ?s = "sample_net [result_body (JObject [(''status'', JString ''0x1'')])]"
  have inst: "h_instant ref_host w = (rw_time w, w)" for w by (simp add: ref_host_def)
  have "ready ?s [result_body (JObject [(''status'', JString ''0x1'')])]"
    by (simp add: ready_def sample_net_def roster_new_def)
  then obtain s' where c: "call ref_host ''eth_getTransactionReceipt'' (JArray [JString ''0xabc'']) ?s
      = (Inr (JObject [(''status'', JString ''0x1'')]), s')"
    using ready_call by blast
  have run: "wait_for_receipt ref_host ''0xabc'' 60000000000 ?s = (Inr (Success None), s')"
  proof -
    have fuel: "60000000000 div RECEIPT_POLL + 2 = Suc 31" by (simp add: RECEIPT_POLL_def)
    show ?thesis unfolding wait_for_receipt_def fuel receipt_loop.simps
      using c by (simp add: inst receipt_of_def parse_on_chain_id_def Let_def)
  qed
  have "posted ref_host ?s = []" by (simp add: posted_def sample_net_def ref_host_def)
  then have "length (posted ref_host s') \<le> 96"
    using receipt_wait_ends [OF ref_host_ok run] by (auto simp: RECEIPT_POLL_def)
  then show ?thesis using run by blast
qed

end
