(* ===== verification/Fetch.thy ===== *)
theory Fetch
  imports Lookup Chain_Properties
begin

text \<open>
  The reads a lookup asks of its shell: \<^verbatim>\<open>execute_fetch\<close> of \<^verbatim>\<open>p256-index-server/src/http.rs\<close> turns a
  \<^verbatim>\<open>ChainFetch\<close> of the core into the chain calls of \<^verbatim>\<open>chain.rs\<close> and the answer into the JSON value that is
  served and cached.  The property follows one page through all of it: from the request's parameters
  over the cache key and the offset of the core to the window asked of the contract.
\<close>

section \<open>Bodies\<close>

definition number_json :: "'l::len word \<Rightarrow> json" where
  "number_json n = JNumber (uint n)"

definition ids_json :: "u64 list \<Rightarrow> json" where
  "ids_json ids = JArray (map number_json ids)"

definition entry_json :: "entry_record \<Rightarrow> json" where
  "entry_json e =
     JObject [(''entryId'', number_json (e_entry_id e)),
              (''publicKey'', JString (e_public_key e)),
              (''attestation'', JString (e_attestation e)),
              (''credentialId'', JString (e_credential_id e)),
              (''authenticatorAttachment'', JString (e_authenticator_attachment e)),
              (''transports'', JString (e_transports e)),
              (''createdAt'', number_json (e_created_at e))]"

definition unit_json :: "unit_record \<Rightarrow> json" where
  "unit_json u =
     JObject [(''unitId'', number_json (u_unit_id u)),
              (''rpId'', JString (u_rp_id u)),
              (''metadata'', JString (u_metadata u)),
              (''groupPublicKey'', JString (u_group_public_key u)),
              (''contentHash'', JString (u_content_hash u)),
              (''memberCount'', number_json (u_member_count u)),
              (''createdAt'', number_json (u_created_at u))]"

definition site_json :: "site_item \<Rightarrow> json" where
  "site_json s =
     JObject [(''rpId'', JString (si_rp_id s)),
              (''entryCount'', number_json (si_entry_count s)),
              (''createdAt'', number_json (si_created_at s))]"

definition page_json :: "('a \<Rightarrow> json) \<Rightarrow> 'a page \<Rightarrow> json" where
  "page_json f p =
     JObject [(''total'', number_json (pg_total p)),
              (''page'', number_json (pg_page p)),
              (''pageSize'', number_json (pg_page_size p)),
              (''items'', JArray (map f (pg_items p)))]"

definition key_profile_json :: "key_profile \<Rightarrow> u64 \<Rightarrow> u64 \<Rightarrow> json" where
  "key_profile_json profile page limit =
     JObject [(''entry'', entry_json (kp_entry profile)),
              (''groups'', JObject [(''total'', number_json (kp_group_total profile)),
                                    (''unitIds'', ids_json (kp_group_ids profile))]),
              (''references'', JObject [(''total'', number_json (kp_reference_total profile)),
                                        (''referenceIds'', ids_json (kp_reference_ids profile))]),
              (''page'', number_json page),
              (''pageSize'', number_json limit)]"

definition group_detail_json :: "group_detail \<Rightarrow> u64 \<Rightarrow> u64 \<Rightarrow> json" where
  "group_detail_json detail page page_size =
     JObject [(''unit'', unit_json (gd_unit detail)),
              (''members'', JObject [(''total'', number_json (gd_member_total detail)),
                                     (''items'', JArray (map entry_json (gd_members detail)))]),
              (''references'', JObject [(''total'', number_json (gd_reference_total detail)),
                                        (''referenceIds'', ids_json (gd_reference_ids detail))]),
              (''page'', number_json page),
              (''pageSize'', number_json page_size)]"

definition totals_json :: "totals \<Rightarrow> json" where
  "totals_json t =
     JObject [(''totalEntries'', number_json (tot_entries t)),
              (''totalUnits'', number_json (tot_units t)),
              (''totalReferences'', number_json (tot_references t)),
              (''totalRpIds'', number_json (tot_rp_ids t))]"

section \<open>Fetches\<close>

text \<open>\<^verbatim>\<open>offset / limit + 1\<close>; the core never sends a limit of zero.\<close>

definition fetch_page :: "u64 \<Rightarrow> u64 \<Rightarrow> u64" where
  "fetch_page offset limit = offset div limit + 1"

definition served_record :: "('a \<Rightarrow> json) \<Rightarrow> chain_error + 'a option \<Rightarrow> lookup_result" where
  "served_record f r =
     (case r of Inr (Some a) \<Rightarrow> lookup_result.Chain (f a) | Inr None \<Rightarrow> ChainNotFound | Inl _ \<Rightarrow> ChainFailed)"

definition served_value :: "('a \<Rightarrow> json) \<Rightarrow> chain_error + 'a \<Rightarrow> lookup_result" where
  "served_value f r = (case r of Inr a \<Rightarrow> lookup_result.Chain (f a) | Inl _ \<Rightarrow> ChainFailed)"

fun execute_fetch :: "externs \<Rightarrow> 'w host \<Rightarrow> chain \<Rightarrow> chain_fetch \<Rightarrow> 'w net \<Rightarrow> lookup_result \<times> 'w net" where
  "execute_fetch X H C (chain_fetch.EntriesByKey public_key offset limit descending) s =
     (let page = fetch_page offset limit
      in apfst (served_record (\<lambda>profile. key_profile_json profile page limit))
           (key_profile_of X H C public_key page limit descending s))"
| "execute_fetch X H C (chain_fetch.Entry entry_id) s = apfst (served_record entry_json) (entry X H C entry_id s)"
| "execute_fetch X H C (GroupById unit_id offset limit descending) s =
     (let page = fetch_page offset limit
      in apfst (served_record (\<lambda>detail. group_detail_json detail page limit))
           (group_detail_by_id X H C unit_id page limit descending s))"
| "execute_fetch X H C (GroupByKey group_public_key offset limit descending) s =
     (case hex_decode X group_public_key of
        None \<Rightarrow> (ChainFailed, s)
      | Some key \<Rightarrow>
          (let page = fetch_page offset limit
           in apfst (served_record (\<lambda>detail. group_detail_json detail page limit))
                (group_detail_by_key X H C key page limit descending s)))"
| "execute_fetch X H C Totals s = apfst (served_value totals_json) (totals_of X H C s)"
| "execute_fetch X H C (chain_fetch.Sites offset limit descending) s =
     (let page = fetch_page offset limit
      in apfst (served_value (page_json site_json)) (rp_ids_page X H C page limit descending s))"
| "execute_fetch X H C (chain_fetch.Keys rp_id offset limit descending) s =
     (let page = fetch_page offset limit
      in apfst (served_value (page_json unit_json)) (groups_by_rp_id X H C rp_id page limit descending s))"

section \<open>Windows\<close>

text \<open>A contract view that was asked with this calldata and answered.\<close>

definition asked :: "externs \<Rightarrow> 'w host \<Rightarrow> chain \<Rightarrow> (string \<times> json \<times> http_reply) list \<Rightarrow> bytes \<Rightarrow> bool" where
  "asked X H C ps data =
     (\<exists>v. answered ps ''eth_call''
        (JArray [JObject [(''to'', JString (address_text H (ch_registry_address C))), (''data'', hex_0x X data)], JString ''latest'']) v)"

text \<open>The calldata of a paged view that reads this window.\<close>

definition window_call :: "externs \<Rightarrow> u64 \<Rightarrow> u64 \<Rightarrow> bool \<Rightarrow> bytes \<Rightarrow> bool" where
  "window_call X offset limit descending data =
     (data = rp_ids_calldata X offset limit descending
      \<or> (\<exists>rp_id. data = groups_by_rp_id_calldata X rp_id offset limit descending)
      \<or> (\<exists>unit_id. data = get_group_members_calldata X unit_id offset limit descending)
      \<or> (\<exists>key. data = groups_of_key_calldata X key offset limit descending))"

definition window_asked ::
  "externs \<Rightarrow> 'w host \<Rightarrow> chain \<Rightarrow> u64 \<Rightarrow> u64 \<Rightarrow> bool \<Rightarrow> (string \<times> json \<times> http_reply) list \<Rightarrow> bool" where
  "window_asked X H C offset limit descending ps = (\<exists>data. asked X H C ps data \<and> window_call X offset limit descending data)"

lemma asked_append: "asked X H C ps data \<or> asked X H C qs data \<Longrightarrow> asked X H C (ps @ qs) data"
  using answered_append unfolding asked_def by blast

lemma window_append: "window_asked X H C offset limit d ps \<or> window_asked X H C offset limit d qs
    \<Longrightarrow> window_asked X H C offset limit d (ps @ qs)"
  using asked_append unfolding window_asked_def by blast

context host_laws
begin

text \<open>Sequences of reads of which one shows the window.\<close>

lemma reading_fail: "reading H (fail_op e) E"
  by (auto simp: reading_def fail_op_def intro: exI [of _ "[]"] did_refl)

lemma reading_return: "P a \<Longrightarrow> reading H (return_op a) (\<lambda>ps. P)"
  by (auto simp: reading_def return_op_def intro: exI [of _ "[]"] did_refl)

lemma reading_any:
  assumes "reading H m E"
  shows "reading H m (\<lambda>_ _. True)"
  by (rule reading_mono [OF assms]) simp

lemma reading_here:
  assumes "reading H m (\<lambda>ps _. W ps)" "\<And>a. reading H (f a) (\<lambda>_ b. P b)" "\<And>ps qs. W ps \<Longrightarrow> W (ps @ qs)"
  shows "reading H (bind_op m f) (\<lambda>ps b. W ps \<and> P b)"
  by (rule reading_mono [OF reading_bind [OF assms(1,2)]]) (elim exE conjE, simp add: assms(3))

lemma reading_later:
  assumes "reading H m (\<lambda>_ _. True)" "\<And>a. reading H (f a) E" "\<And>ps qs b. E qs b \<Longrightarrow> E (ps @ qs) b"
  shows "reading H (bind_op m f) E"
  by (rule reading_mono [OF reading_bind [OF assms(1,2)]]) (elim exE conjE, simp add: assms(3))

lemma reading_then:
  assumes "reading H m (\<lambda>_ _. True)" "\<And>a. reading H (f a) (\<lambda>_ b. P b)"
  shows "reading H (bind_op m f) (\<lambda>_ b. P b)"
  using assms by (rule reading_later)

lemma reading_decoded: "reading H (decoded r) (\<lambda>_ _. True)"
  unfolding decoded_def by (rule reading_any [OF reading_lift])

lemma reading_read_call: "reading H (read_call X H C data) (\<lambda>ps _. asked X H C ps data)"
proof -
  have rest: "reading H (case as_str v of None \<Rightarrow> fail_op InvalidResponse | Some t \<Rightarrow> lift_op (decode_rpc_bytes X t)) (\<lambda>_ _. True)" for v
    by (cases "as_str v") (simp_all add: reading_fail reading_any [OF reading_lift])
  have "reading H (call_contract X H (ch_registry_address C) data) (\<lambda>ps b. asked X H C ps data \<and> True)"
    unfolding call_contract_def
  proof (rule reading_here [OF _ rest])
    show "reading H (call H ''eth_call'' (JArray [JObject [(''to'', JString (address_text H (ch_registry_address C))), (''data'', hex_0x X data)],
        JString ''latest''])) (\<lambda>ps _. asked X H C ps data)"
      by (rule reading_mono [OF reading_call]) (auto simp: asked_def)
  qed (simp add: asked_append)
  then show ?thesis unfolding read_call_def by (rule reading_mono) simp
qed

lemma reading_read: "reading H (read_call X H C data) (\<lambda>_ _. True)"
  by (rule reading_any [OF reading_read_call])

lemma reading_window: "window_call X offset limit d data \<Longrightarrow> reading H (read_call X H C data) (\<lambda>ps _. window_asked X H C offset limit d ps)"
  by (rule reading_mono [OF reading_read_call]) (auto simp: window_asked_def)

lemma reading_absent:
  assumes "reading H m E"
  shows "reading H (absent_on_revert m) (\<lambda>_ _. True)"
  unfolding reading_def
proof (intro allI impI)
  fix s r s' assume run: "absent_on_revert m s = (r, s')"
  obtain r1 s1 where m: "m s = (r1, s1)" by fastforce
  have "s' = s1" using run m by (auto simp: absent_on_revert_def split: sum.splits chain_error.splits)
  then show "\<exists>ps. did H s ps s' \<and> sends ps = [] \<and> (\<forall>a. r = Inr a \<longrightarrow> True)"
    using assms [unfolded reading_def, rule_format, OF m] by blast
qed

lemma reading_sites:
  "reading H (rp_ids_page X H C page limit d)
     (\<lambda>ps p. window_asked X H C (chain_offset page limit) limit d ps \<and> pg_page p = page \<and> pg_page_size p = limit)"
  unfolding rp_ids_page_def Let_def split_beta
  by (rule reading_here [OF reading_window])
    (simp add: window_call_def, rule reading_then [OF reading_decoded], rule reading_return, simp, simp add: window_append)

lemma reading_units: "reading H (units_of X H C ids) (\<lambda>_ _. True)"
proof (induction ids)
  case Nil
  then show ?case by (simp add: reading_return)
next
  case (Cons i ids)
  then show ?case
    by (simp, intro reading_then [OF reading_read] reading_then [OF reading_decoded] reading_then [OF Cons] reading_return) simp
qed

lemma reading_keys:
  "reading H (groups_by_rp_id X H C rp_id page limit d)
     (\<lambda>ps p. window_asked X H C (chain_offset page limit) limit d ps \<and> pg_page p = page \<and> pg_page_size p = limit)"
  unfolding groups_by_rp_id_def Let_def split_beta
  by (rule reading_here [OF reading_window])
    (auto simp: window_call_def window_append intro!: reading_then [OF reading_decoded] reading_then [OF reading_units] reading_return)

lemma reading_detail:
  "reading H (group_detail_for X H C unit key page limit d) (\<lambda>ps _. window_asked X H C (chain_offset page limit) limit d ps)"
proof -
  have "reading H (group_detail_for X H C unit key page limit d) (\<lambda>ps _. window_asked X H C (chain_offset page limit) limit d ps \<and> True)"
    unfolding group_detail_for_def Let_def split_beta
    by (rule reading_here [OF reading_window])
      (auto simp: window_call_def window_append intro: reading_then [OF reading_decoded] reading_then [OF reading_read] reading_return)
  then show ?thesis by simp
qed

text \<open>Records that may be absent: a record that is there was read with its window.\<close>

lemma reading_found:
  assumes "reading H m (\<lambda>ps _. W ps)" "\<And>ps qs. W ps \<Longrightarrow> W (ps @ qs)"
  shows "reading H (bind_op m (\<lambda>d. return_op (Some d))) (\<lambda>ps d. d \<noteq> None \<longrightarrow> W ps)"
  by (rule reading_mono [OF reading_here [where P = "\<lambda>_. True", OF assms(1) reading_return assms(2)]]) simp_all

lemma reading_none: "reading H (return_op None) (\<lambda>ps d. d \<noteq> None \<longrightarrow> W ps)"
  by (auto simp: reading_def return_op_def intro: exI [of _ "[]"] did_refl)

lemma reading_group_key:
  "reading H (group_detail_by_key X H C key page limit d)
     (\<lambda>ps r. r \<noteq> None \<longrightarrow> window_asked X H C (chain_offset page limit) limit d ps)"
  unfolding group_detail_by_key_def
proof (rule reading_later)
  show "reading H (unit_by_group_key X H C key) (\<lambda>_ _. True)"
    unfolding unit_by_group_key_def by (rule reading_then [OF reading_read reading_decoded])
  show "reading H (case found of None \<Rightarrow> return_op None
      | Some unit \<Rightarrow> bind_op (group_detail_for X H C unit key page limit d) (\<lambda>d. return_op (Some d)))
     (\<lambda>ps r. r \<noteq> None \<longrightarrow> window_asked X H C (chain_offset page limit) limit d ps)" for found
    by (cases found) (simp_all only: option.case reading_none reading_found [OF reading_detail window_append [OF disjI1]])
qed (auto intro: window_append)

lemma reading_group_id:
  "reading H (group_detail_by_id X H C unit_id page limit d)
     (\<lambda>ps r. r \<noteq> None \<longrightarrow> window_asked X H C (chain_offset page limit) limit d ps)"
  unfolding group_detail_by_id_def
proof (rule reading_later)
  have rest: "reading H (case b of None \<Rightarrow> return_op None
      | Some b \<Rightarrow> bind_op (decoded (decode_unit X unit_id b)) (\<lambda>e. return_op (Some e))) (\<lambda>_ _. True)" for b
    by (cases b) (simp_all add: reading_return reading_then [OF reading_decoded reading_return])
  show "reading H (unit_of_id X H C unit_id) (\<lambda>_ _. True)"
    unfolding unit_of_id_def by (rule reading_then [OF reading_absent [OF reading_read] rest])
  show "reading H (case found of None \<Rightarrow> return_op None
      | Some unit \<Rightarrow> bind_op (lift_op (ok_or InvalidResponse (hex_decode X (u_group_public_key unit)))) (\<lambda>group_key.
           bind_op (group_detail_for X H C unit group_key page limit d) (\<lambda>d. return_op (Some d))))
     (\<lambda>ps r. r \<noteq> None \<longrightarrow> window_asked X H C (chain_offset page limit) limit d ps)" for found
  proof (cases found)
    case None
    then show ?thesis by (simp only: option.case reading_none)
  next
    case (Some unit)
    show ?thesis unfolding Some option.case
      by (rule reading_later [OF reading_any [OF reading_lift] reading_found [OF reading_detail window_append [OF disjI1]]])
        (auto intro: window_append)
  qed
qed (auto intro: window_append)

lemma reading_profile:
  "reading H (key_profile_of X H C key page limit d)
     (\<lambda>ps r. r \<noteq> None \<longrightarrow> window_asked X H C (chain_offset page limit) limit d ps)"
proof -
  have some: "reading H (bind_op (read_call X H C (groups_of_key_calldata X k (chain_offset page limit) limit d)) f)
     (\<lambda>ps r. r \<noteq> None \<longrightarrow> window_asked X H C (chain_offset page limit) limit d ps)"
    if "\<And>a. reading H (f a) (\<lambda>_ _. True)" for k and f :: "bytes \<Rightarrow> ('w, 'b option) chain_op"
    by (rule reading_mono [OF reading_here [where P = "\<lambda>_. True", OF reading_window that]])
      (auto simp: window_call_def window_append)
  show ?thesis
    unfolding key_profile_of_def Let_def split_beta
  proof (intro reading_later [OF reading_any [OF reading_lift]] reading_later [OF reading_read] reading_later [OF reading_decoded], goal_cases)
    case (1 k b found)
    show ?case
    proof (cases found)
      case None
      then show ?thesis by (simp only: option.case reading_none)
    next
      case (Some e)
      show ?thesis unfolding Some option.case
        by (rule some) (intro reading_then [OF reading_decoded] reading_then [OF reading_read] reading_return, simp)
    qed
  qed (auto intro: window_append)
qed

end

section \<open>Pages\<close>

text \<open>The page a cache key names, the window a fetch of the core names, and the parameters of a request.\<close>

fun key_page :: "lookup_cache_key \<Rightarrow> (u64 \<times> u64 \<times> bool) option" where
  "key_page (lookup_cache_key.EntriesByKey _ page page_size descending) = Some (page, page_size, descending)"
| "key_page (lookup_cache_key.Unit _ page page_size descending) = Some (page, page_size, descending)"
| "key_page (lookup_cache_key.Group _ page page_size descending) = Some (page, page_size, descending)"
| "key_page (lookup_cache_key.Sites page page_size descending) = Some (page, page_size, descending)"
| "key_page (lookup_cache_key.Keys _ page page_size descending) = Some (page, page_size, descending)"
| "key_page _ = None"

fun fetch_window :: "chain_fetch \<Rightarrow> (u64 \<times> u64 \<times> bool) option" where
  "fetch_window (chain_fetch.EntriesByKey _ offset limit descending) = Some (offset, limit, descending)"
| "fetch_window (GroupById _ offset limit descending) = Some (offset, limit, descending)"
| "fetch_window (GroupByKey _ offset limit descending) = Some (offset, limit, descending)"
| "fetch_window (chain_fetch.Sites offset limit descending) = Some (offset, limit, descending)"
| "fetch_window (chain_fetch.Keys _ offset limit descending) = Some (offset, limit, descending)"
| "fetch_window _ = None"

fun endpoint_params :: "lookup_endpoint \<Rightarrow> lookup_params option" where
  "endpoint_params (Query params) = Some params"
| "endpoint_params (StatsSites params) = Some params"
| "endpoint_params (StatsKeys _ params) = Some params"
| "endpoint_params lookup_endpoint.StatsTotal = None"

lemma plan_page:
  assumes "lookup_plan endpoint = Inr (key, fetch, absent)" "key_page key = Some (n, l, d)"
  shows "\<exists>params. endpoint_params endpoint = Some params \<and> pagination params = (n, l, d)
    \<and> fetch_window fetch = Some (offset_of n l, l, d)"
proof (cases endpoint)
  case (Query params)
  then show ?thesis using assms
    by (cases "pagination params") (auto simp: lookup_plan_def bind_res_Inr split: option.splits)
next
  case (StatsSites params)
  then show ?thesis using assms by (cases "pagination params") (auto simp: lookup_plan_def)
next
  case (StatsKeys r params)
  then show ?thesis using assms by (cases "pagination params") (auto simp: lookup_plan_def bind_res_Inr)
qed (use assms in \<open>auto simp: lookup_plan_def\<close>)

context host_laws
begin

lemma served_record_window:
  assumes "reading H m (\<lambda>ps r. r \<noteq> None \<longrightarrow> W ps)" "apfst (served_record f) (m s) = (lookup_result.Chain v, s')"
  shows "\<exists>ps a. did H s ps s' \<and> sends ps = [] \<and> W ps \<and> v = f a"
proof -
  obtain r where m: "m s = (r, s')" "served_record f r = lookup_result.Chain v" using assms(2) by (cases "m s") auto
  then obtain a where "r = Inr (Some a)" "v = f a" by (auto simp: served_record_def split: sum.splits option.splits)
  then show ?thesis using assms(1) [unfolded reading_def, rule_format, OF m(1)] by blast
qed

lemma served_value_window:
  assumes "reading H m (\<lambda>ps r. W ps \<and> P r)" "apfst (served_value f) (m s) = (lookup_result.Chain v, s')"
  shows "\<exists>ps a. did H s ps s' \<and> sends ps = [] \<and> W ps \<and> P a \<and> v = f a"
proof -
  obtain r where m: "m s = (r, s')" "served_value f r = lookup_result.Chain v" using assms(2) by (cases "m s") auto
  then obtain a where "r = Inr a" "v = f a" by (auto simp: served_value_def split: sum.splits)
  then show ?thesis using assms(1) [unfolded reading_def, rule_format, OF m(1)] by blast
qed

lemma execute_window:
  assumes "execute_fetch X H C fetch s = (lookup_result.Chain v, s')" "fetch_window fetch = Some (offset, limit, d)"
  defines "page \<equiv> fetch_page offset limit"
  shows "\<exists>ps. did H s ps s' \<and> sends ps = [] \<and> window_asked X H C (chain_offset page limit) limit d ps
    \<and> json_get ''page'' v = Some (number_json page) \<and> json_get ''pageSize'' v = Some (number_json limit)"
proof (cases fetch)
  case (EntriesByKey k o' l d')
  then have eq: "o' = offset" "l = limit" "d' = d" using assms(2) by simp_all
  note run = assms(1) [unfolded EntriesByKey eq execute_fetch.simps Let_def, folded page_def]
  obtain ps a where "did H s ps s'" "sends ps = []" "window_asked X H C (chain_offset page limit) limit d ps" "v = key_profile_json a page limit"
    using served_record_window [OF reading_profile run] by (elim exE conjE) (rule that)
  then show ?thesis by (intro exI [of _ ps]) (simp add: key_profile_json_def)
next
  case (GroupById u o' l d')
  then have eq: "o' = offset" "l = limit" "d' = d" using assms(2) by simp_all
  note run = assms(1) [unfolded GroupById eq execute_fetch.simps Let_def, folded page_def]
  obtain ps a where "did H s ps s'" "sends ps = []" "window_asked X H C (chain_offset page limit) limit d ps" "v = group_detail_json a page limit"
    using served_record_window [OF reading_group_id run] by (elim exE conjE) (rule that)
  then show ?thesis by (intro exI [of _ ps]) (simp add: group_detail_json_def)
next
  case (GroupByKey g o' l d')
  then have eq: "o' = offset" "l = limit" "d' = d" using assms(2) by simp_all
  obtain key where "hex_decode X g = Some key" using assms(1) unfolding GroupByKey by (auto split: option.splits)
  note run = assms(1) [unfolded GroupByKey eq execute_fetch.simps \<open>hex_decode X g = Some key\<close> option.case Let_def, folded page_def]
  obtain ps a where "did H s ps s'" "sends ps = []" "window_asked X H C (chain_offset page limit) limit d ps" "v = group_detail_json a page limit"
    using served_record_window [OF reading_group_key run] by (elim exE conjE) (rule that)
  then show ?thesis by (intro exI [of _ ps]) (simp add: group_detail_json_def)
next
  case (Sites o' l d')
  then have eq: "o' = offset" "l = limit" "d' = d" using assms(2) by simp_all
  note run = assms(1) [unfolded Sites eq execute_fetch.simps Let_def, folded page_def]
  obtain ps a where "did H s ps s'" "sends ps = []" "window_asked X H C (chain_offset page limit) limit d ps" "pg_page a = page" "pg_page_size a = limit" "v = page_json site_json a"
    using served_value_window [OF reading_sites run] by (elim exE conjE) (rule that)
  then show ?thesis by (intro exI [of _ ps]) (simp add: page_json_def)
next
  case (Keys r o' l d')
  then have eq: "o' = offset" "l = limit" "d' = d" using assms(2) by simp_all
  note run = assms(1) [unfolded Keys eq execute_fetch.simps Let_def, folded page_def]
  obtain ps a where "did H s ps s'" "sends ps = []" "window_asked X H C (chain_offset page limit) limit d ps" "pg_page a = page" "pg_page_size a = limit" "v = page_json unit_json a"
    using served_value_window [OF reading_keys run] by (elim exE conjE) (rule that)
  then show ?thesis by (intro exI [of _ ps]) (simp add: page_json_def)
qed (use assms(2) in simp_all)

end

lemma number_json_eq: "number_json m = number_json n \<longleftrightarrow> m = n"
  by (simp add: number_json_def word_uint_eq_iff)

text \<open>The shell recovers the page from the offset exactly when the core's product did not wrap.\<close>

lemma offset_unat: "1 \<le> page \<Longrightarrow> unat (offset_of page l) = ((unat page - 1) * unat l) mod 2 ^ 64"
  by (simp add: offset_of_def unat_word_ariths unat_sub)

lemma fetch_page_exact:
  assumes "1 \<le> page" "1 \<le> l"
  shows "fetch_page (offset_of page l) l = page \<longleftrightarrow> (unat page - 1) * unat l < 2 ^ 64"
proof -
  let ?x = "(unat page - 1) * unat l" and ?l = "unat l"
  have pos: "0 < ?l" "0 < unat page" using assms by (simp_all add: word_le_nat_alt)
  have quot: "unat (offset_of page l div l) = (?x mod 2 ^ 64) div ?l" by (simp add: unat_div offset_unat [OF assms(1)])
  have below: "(?x mod 2 ^ 64) div ?l \<le> unat page - 1"
    using div_le_mono [of "?x mod 2 ^ 64" ?x ?l] pos(1) by simp
  have "unat page < 2 ^ 64" using unsigned_less [of page] by simp
  then have succ: "unat (fetch_page (offset_of page l) l) = (?x mod 2 ^ 64) div ?l + 1"
    using below pos(2) unat_cursor_Suc [of "offset_of page l div l" 0] unfolding quot fetch_page_def by simp
  show ?thesis
  proof (cases "?x < 2 ^ 64")
    case True
    then have "(?x mod 2 ^ 64) div ?l + 1 = unat page" using pos by simp
    then show ?thesis using True succ by (simp add: word_unat_eq_iff)
  next
    case False
    have "?l < 2 ^ 64" using unsigned_less [of l] by simp
    have "?x mod 2 ^ 64 \<le> ?x - 2 ^ 64" using False le_mod_geq [of "2 ^ 64" ?x] by simp
    then have "?x mod 2 ^ 64 \<le> ?x - ?l" using \<open>?l < 2 ^ 64\<close> by linarith
    also have "?x - ?l = (unat page - 1 - 1) * ?l" by (simp add: diff_mult_distrib)
    finally have "(?x mod 2 ^ 64) div ?l \<le> (unat page - 1 - 1) * ?l div ?l" by (rule div_le_mono)
    then have "(?x mod 2 ^ 64) div ?l \<le> unat page - 1 - 1" using pos(1) by simp
    moreover have "1 < unat page" using False pos(2) by (cases "unat page = 1") simp_all
    ultimately have "unat (fetch_page (offset_of page l) l) \<noteq> unat page" using succ by linarith
    then show ?thesis using False by auto
  qed
qed

lemma chain_offset_exact:
  assumes "1 \<le> page" "(unat page - 1) * unat l < 2 ^ 64"
  shows "unat (chain_offset page l) = (unat page - 1) * unat l"
proof -
  have "unat (saturating_sub page 1) = unat page - 1" using assms(1) by (simp add: sat_simps)
  then show ?thesis using assms(2) by (simp add: chain_offset_def sat_simps)
qed

lemma window_page:
  assumes "0 < (l::nat)" "0 < p"
  shows "(p - 1) * l \<le> i \<and> i < (p - 1) * l + l \<longleftrightarrow> i div l + 1 = p"
proof
  assume "(p - 1) * l \<le> i \<and> i < (p - 1) * l + l"
  then have "i div l = p - 1" using assms(1) by (intro div_nat_eqI) (simp_all add: mult.commute)
  then show "i div l + 1 = p" using assms(2) by simp
next
  assume "i div l + 1 = p"
  then have "i div l = p - 1" by simp
  then show "(p - 1) * l \<le> i \<and> i < (p - 1) * l + l"
    using div_times_less_eq_dividend [of i l] dividend_less_div_times [OF assms(1), of i] by simp
qed

lemma pagination_request:
  assumes "pagination params = (page, page_size, descending)"
  shows "page = (case lp_page params of None \<Rightarrow> 1 | Some n \<Rightarrow> if n = 0 then 1 else n)"
    "page_size = (case lp_page_size params of None \<Rightarrow> 20 | Some n \<Rightarrow> if n = 0 then 1 else if 100 < n then 100 else n)"
    "descending = (lp_order params \<noteq> Some ''asc'')" "1 \<le> page" "1 \<le> page_size"
proof -
  have "1 \<le> n" if "n \<noteq> 0" for n :: u64 using that by (cases "unat n") (auto simp: word_le_nat_alt unat_eq_zero)
  then have one: "max n 1 = (if n = 0 then 1 else n)" for n :: u64 by (simp add: max_absorb1)
  show "page = (case lp_page params of None \<Rightarrow> 1 | Some n \<Rightarrow> if n = 0 then 1 else n)"
    "page_size = (case lp_page_size params of None \<Rightarrow> 20 | Some n \<Rightarrow> if n = 0 then 1 else if 100 < n then 100 else n)"
    "descending = (lp_order params \<noteq> Some ''asc'')"
    using assms by (auto simp: pagination_def Let_def one min_def unwrap_or_def split: option.splits if_splits)
  show "1 \<le> page" "1 \<le> page_size" using assms by (auto simp: pagination_def Let_def)
qed


text \<open>The third page of fifty sites, ascending, from a contract with 120 sites.\<close>

definition sample_page_params :: lookup_params where
  "sample_page_params = \<lparr>lp_public_key = None, lp_entry_id = None, lp_unit_id = None, lp_group_public_key = None,
     lp_page = Some 3, lp_page_size = Some 50, lp_order = Some ''asc''\<rparr>"

definition sites_externs :: externs where
  "sites_externs = ref_externs\<lparr>dec_rp_ids := (\<lambda>b. Some (120, [], [], []))\<rparr>"

lemma sample_sites_fetch:
  "\<exists>v s'. execute_fetch sites_externs ref_host sample_signer (chain_fetch.Sites 100 50 False) (sample_net [result_body (JString ''0x'')])
     = (lookup_result.Chain v, s')"
proof -
  let ?s = "sample_net [result_body (JString ''0x'')]"
  have "ready ?s [result_body (JString ''0x'')]" by (simp add: ready_def sample_net_def roster_new_def)
  then obtain s' where c: "call ref_host ''eth_call'' (JArray [JObject [(''to'', JString (address_text ref_host (ch_registry_address sample_signer))),
      (''data'', hex_0x sites_externs (rp_ids_calldata sites_externs (chain_offset 3 50) 50 False))], JString ''latest'']) ?s = (Inr (JString ''0x''), s')"
    using ready_call by blast
  have page: "fetch_page 100 50 = 3" by (simp add: fetch_page_def word_unat_eq_iff unat_div)
  have "hex_decode ref_externs (ref_hex_encode []) = Some []" using ref_hex.dec_enc [of "[]"] by (simp add: ref_externs_def)
  then obtain b where b: "decode_rpc_bytes sites_externs ''0x'' = Inr b"
    by (simp add: decode_rpc_bytes_def sites_externs_def strip_0x_def ref_hex_encode_def ok_or_def)
  have dec: "decode_rp_ids sites_externs b = Inr (120, [])"
    by (simp add: decode_rp_ids_def sites_externs_def u64_try_from_def try_narrow_def)
  show ?thesis
    using c b dec
    by (simp add: page rp_ids_page_def read_call_def call_contract_def bind_op_def lift_op_def return_op_def decoded_def served_value_def map_err_def Let_def)
qed


end
