(* ===== verification/Redis.thy ===== *)
theory Redis
  imports Json Task "HOL-Library.Countable"
begin

text \<open>
  What the server's \<^verbatim>\<open>store.rs\<close> relies on outside this repository: the Redis server and serde's JSON
  codecs.  Both are parameters, the record \<open>services\<close>; their documented behaviour is \<open>services_ok\<close>,
  stated over two observations of a Redis state, its keyspace and the set of keys with a time to
  live.  A command may be lost before or after the server executed it, and between two commands
  any key with a time to live may expire.  \<open>ref_services\<close> is a concrete instance.
\<close>

datatype redis_value =
    RString string
  | RSet "string set"
  | RZSet "string \<Rightarrow> int option"
  | RHash "string \<Rightarrow> string option"

type_synonym keyspace = "string \<Rightarrow> redis_value option"

text \<open>How the next command ends for the client: the reply arrives, or an error, with the command
  executed or not, as a timeout or as a refused command.\<close>

datatype delivery = Delivered | Failing bool bool

record cache_entry =
  ce_value :: "json option"
  ce_stored_at_ms :: u64
  ce_fresh_until_ms :: u64

record pending_tx_entry =
  pe_hash :: string
  pe_sent_at_ms :: u64
  pe_attempts :: u32
  pe_max_fee_wei :: "string option"
  pe_max_priority_fee_wei :: "string option"

record 's services =
  r_db :: "'s \<Rightarrow> keyspace"
  r_volatile :: "'s \<Rightarrow> string set"
  r_next :: "'s \<Rightarrow> delivery \<times> 's"
  r_get :: "'s \<Rightarrow> string \<Rightarrow> string option"
  r_exists :: "'s \<Rightarrow> string \<Rightarrow> bool"
  r_set :: "'s \<Rightarrow> string \<Rightarrow> string \<Rightarrow> u64 option \<Rightarrow> 's"
  r_set_keepttl :: "'s \<Rightarrow> string \<Rightarrow> string \<Rightarrow> 's"
  r_del :: "'s \<Rightarrow> string \<Rightarrow> 's"
  r_pexpire :: "'s \<Rightarrow> string \<Rightarrow> u64 \<Rightarrow> 's"
  r_incr :: "'s \<Rightarrow> string \<Rightarrow> u64 \<times> 's"
  r_sadd :: "'s \<Rightarrow> string \<Rightarrow> string \<Rightarrow> 's"
  r_srem :: "'s \<Rightarrow> string \<Rightarrow> string \<Rightarrow> 's"
  r_scard :: "'s \<Rightarrow> string \<Rightarrow> u64"
  r_zadd :: "'s \<Rightarrow> string \<Rightarrow> int \<Rightarrow> string \<Rightarrow> 's"
  r_zrem :: "'s \<Rightarrow> string \<Rightarrow> string \<Rightarrow> 's"
  r_zrange0 :: "'s \<Rightarrow> string \<Rightarrow> string list"
  r_hset :: "'s \<Rightarrow> string \<Rightarrow> string \<Rightarrow> string \<Rightarrow> 's"
  r_hdel :: "'s \<Rightarrow> string \<Rightarrow> string \<Rightarrow> 's"
  r_hgetall :: "'s \<Rightarrow> string \<Rightarrow> (string \<times> string) list"
  task_json :: "register_task \<Rightarrow> string option"
  parse_task :: "string \<Rightarrow> register_task option"
  cache_json :: "cache_entry \<Rightarrow> string option"
  parse_cache :: "string \<Rightarrow> cache_entry option"
  tx_json :: "pending_tx_entry \<Rightarrow> string option"
  parse_tx :: "string \<Rightarrow> pending_tx_entry option"

section \<open>Documented behaviour\<close>

definition string_at :: "keyspace \<Rightarrow> string \<Rightarrow> string option" where
  "string_at ks k = (case ks k of Some (RString v) \<Rightarrow> Some v | _ \<Rightarrow> None)"

definition set_at :: "keyspace \<Rightarrow> string \<Rightarrow> string set" where
  "set_at ks k = (case ks k of Some (RSet v) \<Rightarrow> v | _ \<Rightarrow> {})"

definition zset_at :: "keyspace \<Rightarrow> string \<Rightarrow> string \<Rightarrow> int option" where
  "zset_at ks k = (case ks k of Some (RZSet v) \<Rightarrow> v | _ \<Rightarrow> Map.empty)"

definition hash_at :: "keyspace \<Rightarrow> string \<Rightarrow> string \<Rightarrow> string option" where
  "hash_at ks k = (case ks k of Some (RHash v) \<Rightarrow> v | _ \<Rightarrow> Map.empty)"

text \<open>Between commands nothing changes but that keys with a time to live may expire.\<close>

definition next_ok :: "'s services \<Rightarrow> bool" where
  "next_ok R =
     (\<forall>s. let s' = snd (r_next R s) in
        (\<forall>k. r_db R s' k = r_db R s k \<or> r_db R s' k = None \<and> k \<in> r_volatile R s)
        \<and> r_volatile R s' = r_volatile R s \<inter> dom (r_db R s'))"

definition strings_ok :: "'s services \<Rightarrow> bool" where
  "strings_ok R =
     (\<forall>s k v px.
        r_get R s k = string_at (r_db R s) k
        \<and> r_exists R s k = (r_db R s k \<noteq> None)
        \<and> r_db R (r_set R s k v px) = (r_db R s)(k \<mapsto> RString v)
        \<and> r_volatile R (r_set R s k v px) =
            (if px = None then r_volatile R s - {k} else insert k (r_volatile R s))
        \<and> r_db R (r_set_keepttl R s k v) = (r_db R s)(k \<mapsto> RString v)
        \<and> r_volatile R (r_set_keepttl R s k v) = r_volatile R s
        \<and> r_db R (r_del R s k) = (r_db R s)(k := None)
        \<and> r_volatile R (r_del R s k) = r_volatile R s - {k})"

definition expiry_ok :: "'s services \<Rightarrow> bool" where
  "expiry_ok R =
     (\<forall>s k px. 0 < px \<longrightarrow>
        r_db R (r_pexpire R s k px) = r_db R s
        \<and> r_volatile R (r_pexpire R s k px) =
            (if r_db R s k = None then r_volatile R s else insert k (r_volatile R s)))"

text \<open>\<^verbatim>\<open>INCR\<close> on a missing key or on a decimal number below the 64-bit limit.\<close>

definition counter_at :: "keyspace \<Rightarrow> string \<Rightarrow> nat option" where
  "counter_at ks k =
     (case ks k of None \<Rightarrow> Some 0 | Some (RString v) \<Rightarrow> parse_unsigned 63 v | Some _ \<Rightarrow> None)"

definition incr_ok :: "'s services \<Rightarrow> bool" where
  "incr_ok R =
     ((\<forall>s k n. counter_at (r_db R s) k = Some n \<and> n + 1 < 2 ^ 63 \<longrightarrow>
         fst (r_incr R s k) = of_nat (n + 1)
         \<and> r_db R (snd (r_incr R s k)) k = Some (RString (decimal (n + 1)))
         \<and> (k \<in> r_volatile R (snd (r_incr R s k)) \<longleftrightarrow> k \<in> r_volatile R s))
      \<and> (\<forall>s k k'. k' \<noteq> k \<longrightarrow>
           r_db R (snd (r_incr R s k)) k' = r_db R s k'
           \<and> (k' \<in> r_volatile R (snd (r_incr R s k)) \<longleftrightarrow> k' \<in> r_volatile R s)))"

definition collections_ok :: "'s services \<Rightarrow> bool" where
  "collections_ok R =
     (\<forall>s k m v sc.
        r_db R (r_sadd R s k m) = (r_db R s)(k \<mapsto> RSet (insert m (set_at (r_db R s) k)))
        \<and> r_volatile R (r_sadd R s k m) = r_volatile R s
        \<and> set_at (r_db R (r_srem R s k m)) k = set_at (r_db R s) k - {m}
        \<and> (\<forall>k'. k' \<noteq> k \<longrightarrow> r_db R (r_srem R s k m) k' = r_db R s k')
        \<and> r_volatile R (r_srem R s k m) \<subseteq> r_volatile R s
        \<and> r_volatile R s \<subseteq> insert k (r_volatile R (r_srem R s k m))
        \<and> r_db R (r_zadd R s k sc m) = (r_db R s)(k \<mapsto> RZSet ((zset_at (r_db R s) k)(m \<mapsto> sc)))
        \<and> r_volatile R (r_zadd R s k sc m) = r_volatile R s
        \<and> zset_at (r_db R (r_zrem R s k m)) k = (zset_at (r_db R s) k)(m := None)
        \<and> (\<forall>k'. k' \<noteq> k \<longrightarrow> r_db R (r_zrem R s k m) k' = r_db R s k')
        \<and> r_volatile R (r_zrem R s k m) \<subseteq> r_volatile R s
        \<and> r_volatile R s \<subseteq> insert k (r_volatile R (r_zrem R s k m))
        \<and> r_db R (r_hset R s k m v) = (r_db R s)(k \<mapsto> RHash ((hash_at (r_db R s) k)(m \<mapsto> v)))
        \<and> r_volatile R (r_hset R s k m v) = r_volatile R s
        \<and> hash_at (r_db R (r_hdel R s k m)) k = (hash_at (r_db R s) k)(m := None)
        \<and> (\<forall>k'. k' \<noteq> k \<longrightarrow> r_db R (r_hdel R s k m) k' = r_db R s k')
        \<and> r_volatile R (r_hdel R s k m) \<subseteq> r_volatile R s
        \<and> r_volatile R s \<subseteq> insert k (r_volatile R (r_hdel R s k m)))"

definition reads_ok :: "'s services \<Rightarrow> bool" where
  "reads_ok R =
     (\<forall>s k.
        (finite (set_at (r_db R s) k) \<longrightarrow> r_scard R s k = of_nat (card (set_at (r_db R s) k)))
        \<and> (finite (dom (zset_at (r_db R s) k)) \<longrightarrow>
             (case r_zrange0 R s k of
                [] \<Rightarrow> zset_at (r_db R s) k = Map.empty
              | [m, text] \<Rightarrow>
                  (\<exists>n. zset_at (r_db R s) k m = Some n \<and> (0 \<le> n \<longrightarrow> text = decimal (nat n))
                     \<and> (\<forall>m' n'. zset_at (r_db R s) k m' = Some n' \<longrightarrow> n \<le> n'))
              | _ \<Rightarrow> False))
        \<and> (finite (dom (hash_at (r_db R s) k)) \<longrightarrow>
             distinct (map fst (r_hgetall R s k)) \<and> map_of (r_hgetall R s k) = hash_at (r_db R s) k))"

text \<open>serde writes what it reads; an \<^verbatim>\<open>Option<Value>\<close> that is \<^verbatim>\<open>Some(Null)\<close> reads back as \<^verbatim>\<open>None\<close>.\<close>

definition serde_ok :: "'s services \<Rightarrow> bool" where
  "serde_ok R =
     ((\<forall>t. \<exists>p. task_json R t = Some p \<and> parse_task R p = Some t)
      \<and> (\<forall>e. \<exists>p. cache_json R e = Some p
           \<and> parse_cache R p = Some (if ce_value e = Some JNull then e\<lparr>ce_value := None\<rparr> else e))
      \<and> (\<forall>e. \<exists>p. tx_json R e = Some p \<and> parse_tx R p = Some e))"

definition services_ok :: "'s services \<Rightarrow> bool" where
  "services_ok R =
     (next_ok R \<and> strings_ok R \<and> expiry_ok R \<and> incr_ok R \<and> collections_ok R \<and> reads_ok R \<and> serde_ok R)"

section \<open>A concrete instance\<close>

text \<open>Redis as a map with the faults of the commands to come; serde as an injective numbering.\<close>

instance json :: countable
  by countable_datatype

instance task_kind :: countable
  by countable_datatype

instance task_status :: countable
  by countable_datatype

record ref_state =
  rs_db :: keyspace
  rs_volatile :: "string set"
  rs_faults :: "delivery list"

definition proof_tuple :: "webauthn_proof \<Rightarrow> string \<times> string \<times> u64 \<times> u64 \<times> string \<times> string" where
  "proof_tuple p = (pf_authenticator_data p, pf_client_data_json p, pf_challenge_index p, pf_type_index p, pf_r p, pf_s p)"

definition proof_untuple :: "string \<times> string \<times> u64 \<times> u64 \<times> string \<times> string \<Rightarrow> webauthn_proof" where
  "proof_untuple = (\<lambda>(a, c, ci, ti, r, s).
     \<lparr>pf_authenticator_data = a, pf_client_data_json = c, pf_challenge_index = ci, pf_type_index = ti, pf_r = r, pf_s = s\<rparr>)"

definition member_tuple where
  "member_tuple m = (m_public_key m, m_attestation m, m_credential_id m, m_authenticator_attachment m, m_transports m,
     proof_tuple (m_proof m))"

definition member_untuple where
  "member_untuple = (\<lambda>(k, a, c, h, t, p).
     \<lparr>m_public_key = k, m_attestation = a, m_credential_id = c, m_authenticator_attachment = h, m_transports = t,
      m_proof = proof_untuple p\<rparr>)"

definition task_tuple where
  "task_tuple t = (t_id t, t_status t, t_kind t, t_rp_id t, t_metadata t, t_content_hash t, t_group_public_key t,
     map_option proof_tuple (t_group_proof t), map member_tuple (t_members t), t_tx_hash t, t_on_chain_id t, t_error t,
     t_retries t, t_created_at t, t_admitted t)"

definition task_untuple where
  "task_untuple = (\<lambda>(i, st, k, rp, md, ch, g, gp, ms, tx, oid, e, r, c, a).
     \<lparr>t_id = i, t_status = st, t_kind = k, t_rp_id = rp, t_metadata = md, t_content_hash = ch, t_group_public_key = g,
      t_group_proof = map_option proof_untuple gp, t_members = map member_untuple ms, t_tx_hash = tx, t_on_chain_id = oid,
      t_error = e, t_retries = r, t_created_at = c, t_admitted = a\<rparr>)"

definition cache_tuple where
  "cache_tuple e = (ce_value e, ce_stored_at_ms e, ce_fresh_until_ms e)"

definition cache_untuple where
  "cache_untuple = (\<lambda>(v, s, f).
     \<lparr>ce_value = (if v = Some JNull then None else v), ce_stored_at_ms = s, ce_fresh_until_ms = f\<rparr>)"

definition tx_tuple where
  "tx_tuple e = (pe_hash e, pe_sent_at_ms e, pe_attempts e, pe_max_fee_wei e, pe_max_priority_fee_wei e)"

definition tx_untuple where
  "tx_untuple = (\<lambda>(h, s, a, f, p).
     \<lparr>pe_hash = h, pe_sent_at_ms = s, pe_attempts = a, pe_max_fee_wei = f, pe_max_priority_fee_wei = p\<rparr>)"

definition number :: "'a::countable \<Rightarrow> string" where
  "number x = decimal (to_nat x)"

definition unnumber :: "string \<Rightarrow> 'a::countable option" where
  "unnumber s = (if s \<noteq> [] \<and> list_all is_ascii_digit s then Some (from_nat (digits_value s)) else None)"

lemma unnumber_number [simp]: "unnumber (number x) = Some x"
  using decimal_correct [of "to_nat x"] by (simp add: number_def unnumber_def)

lemma untuple_tuple [simp]:
  "proof_untuple (proof_tuple p) = p" "member_untuple (member_tuple m) = m" "task_untuple (task_tuple t) = t"
  "tx_untuple (tx_tuple e) = e"
  "cache_untuple (cache_tuple c) = (if ce_value c = Some JNull then c\<lparr>ce_value := None\<rparr> else c)"
proof -
  show p: "proof_untuple (proof_tuple p) = p" for p by (simp add: proof_untuple_def proof_tuple_def)
  show m: "member_untuple (member_tuple m) = m" for m by (simp add: member_untuple_def member_tuple_def p)
  show "task_untuple (task_tuple t) = t"
    by (simp add: task_untuple_def task_tuple_def option.map_comp o_def p m option.map_ident)
  show "tx_untuple (tx_tuple e) = e" by (simp add: tx_untuple_def tx_tuple_def)
  show "cache_untuple (cache_tuple c) = (if ce_value c = Some JNull then c\<lparr>ce_value := None\<rparr> else c)"
    by (simp add: cache_untuple_def cache_tuple_def)
qed

definition ref_services :: "ref_state services" where
  "ref_services =
     \<lparr>r_db = rs_db,
      r_volatile = rs_volatile,
      r_next = (\<lambda>s. (case rs_faults s of [] \<Rightarrow> Delivered | d # _ \<Rightarrow> d,
                     s\<lparr>rs_faults := tl (rs_faults s), rs_volatile := rs_volatile s \<inter> dom (rs_db s)\<rparr>)),
      r_get = (\<lambda>s. string_at (rs_db s)),
      r_exists = (\<lambda>s k. rs_db s k \<noteq> None),
      r_set = (\<lambda>s k v px. s\<lparr>rs_db := (rs_db s)(k \<mapsto> RString v),
                 rs_volatile := (if px = None then rs_volatile s - {k} else insert k (rs_volatile s))\<rparr>),
      r_set_keepttl = (\<lambda>s k v. s\<lparr>rs_db := (rs_db s)(k \<mapsto> RString v)\<rparr>),
      r_del = (\<lambda>s k. s\<lparr>rs_db := (rs_db s)(k := None), rs_volatile := rs_volatile s - {k}\<rparr>),
      r_pexpire = (\<lambda>s k px. if rs_db s k = None then s else s\<lparr>rs_volatile := insert k (rs_volatile s)\<rparr>),
      r_incr = (\<lambda>s k. case counter_at (rs_db s) k of
                  None \<Rightarrow> (0, s)
                | Some n \<Rightarrow> (of_nat (n + 1), s\<lparr>rs_db := (rs_db s)(k \<mapsto> RString (decimal (n + 1)))\<rparr>)),
      r_sadd = (\<lambda>s k m. s\<lparr>rs_db := (rs_db s)(k \<mapsto> RSet (insert m (set_at (rs_db s) k)))\<rparr>),
      r_srem = (\<lambda>s k m. s\<lparr>rs_db := (rs_db s)(k \<mapsto> RSet (set_at (rs_db s) k - {m}))\<rparr>),
      r_scard = (\<lambda>s k. of_nat (card (set_at (rs_db s) k))),
      r_zadd = (\<lambda>s k sc m. s\<lparr>rs_db := (rs_db s)(k \<mapsto> RZSet ((zset_at (rs_db s) k)(m \<mapsto> sc)))\<rparr>),
      r_zrem = (\<lambda>s k m. s\<lparr>rs_db := (rs_db s)(k \<mapsto> RZSet ((zset_at (rs_db s) k)(m := None)))\<rparr>),
      r_zrange0 = (\<lambda>s k. let z = zset_at (rs_db s) k in
                     case sort_key (\<lambda>m. the (z m)) (sorted_list_of_set (dom z)) of
                       [] \<Rightarrow> []
                     | m # _ \<Rightarrow> [m, decimal (nat (the (z m)))]),
      r_hset = (\<lambda>s k m v. s\<lparr>rs_db := (rs_db s)(k \<mapsto> RHash ((hash_at (rs_db s) k)(m \<mapsto> v)))\<rparr>),
      r_hdel = (\<lambda>s k m. s\<lparr>rs_db := (rs_db s)(k \<mapsto> RHash ((hash_at (rs_db s) k)(m := None)))\<rparr>),
      r_hgetall = (\<lambda>s k. map (\<lambda>m. (m, the (hash_at (rs_db s) k m))) (sorted_list_of_set (dom (hash_at (rs_db s) k)))),
      task_json = (\<lambda>t. Some (number (task_tuple t))),
      parse_task = (\<lambda>p. map_option task_untuple (unnumber p)),
      cache_json = (\<lambda>e. Some (number (cache_tuple e))),
      parse_cache = (\<lambda>p. map_option cache_untuple (unnumber p)),
      tx_json = (\<lambda>e. Some (number (tx_tuple e))),
      parse_tx = (\<lambda>p. map_option tx_untuple (unnumber p))\<rparr>"

lemma at_simps [simp]:
  "set_at (m(k \<mapsto> RSet v)) k = v" "zset_at (m(k \<mapsto> RZSet z)) k = z" "hash_at (m(k \<mapsto> RHash h)) k = h"
  "string_at (m(k \<mapsto> RString u)) k = Some u" "string_at (m(k := None)) k = None"
  by (simp_all add: set_at_def zset_at_def hash_at_def string_at_def)

lemma ref_observe: "r_db ref_services = rs_db" "r_volatile ref_services = rs_volatile"
  by (simp_all add: ref_services_def)

lemma ref_reads:
  "r_scard ref_services = (\<lambda>s k. of_nat (card (set_at (rs_db s) k)))"
  "r_zrange0 ref_services = (\<lambda>s k. let z = zset_at (rs_db s) k in
     case sort_key (\<lambda>m. the (z m)) (sorted_list_of_set (dom z)) of
       [] \<Rightarrow> [] | m # _ \<Rightarrow> [m, decimal (nat (the (z m)))])"
  "r_hgetall ref_services = (\<lambda>s k. map (\<lambda>m. (m, the (hash_at (rs_db s) k m)))
     (sorted_list_of_set (dom (hash_at (rs_db s) k))))"
  by (simp_all add: ref_services_def)

lemma ref_serde:
  "task_json ref_services t = Some (number (task_tuple t))"
  "parse_task ref_services p = map_option task_untuple (unnumber p)"
  "cache_json ref_services e = Some (number (cache_tuple e))"
  "parse_cache ref_services p = map_option cache_untuple (unnumber p)"
  "tx_json ref_services x = Some (number (tx_tuple x))"
  "parse_tx ref_services p = map_option tx_untuple (unnumber p)"
  by (simp_all add: ref_services_def)

lemma ref_next_ok: "next_ok ref_services"
  by (auto simp: next_ok_def ref_services_def Let_def)

lemma ref_strings_ok: "strings_ok ref_services" "expiry_ok ref_services"
  by (simp_all add: strings_ok_def expiry_ok_def ref_services_def)

lemma ref_incr_ok: "incr_ok ref_services"
  by (simp add: incr_ok_def ref_services_def split: option.split)

lemma ref_collections_ok: "collections_ok ref_services"
  by (auto simp: collections_ok_def ref_services_def)

lemma ref_zrange0:
  assumes "finite (dom z)" "sort_key (\<lambda>m. the (z m)) (sorted_list_of_set (dom z)) = m # ms"
  shows "\<exists>n. z m = Some n \<and> (\<forall>m' n'. z m' = Some n' \<longrightarrow> n \<le> n')"
proof -
  let ?l = "sort_key (\<lambda>m. the (z m)) (sorted_list_of_set (dom z))"
  have set: "set ?l = dom z" using assms(1) by simp
  then have "m \<in> dom z" using assms(2) by auto
  then obtain n where n: "z m = Some n" by auto
  have "sorted (map (\<lambda>m. the (z m)) ?l)" by simp
  then have "the (z m) \<le> the (z m')" if "m' \<in> set ?l" for m'
    using that unfolding assms(2) by auto
  then have "n \<le> n'" if "z m' = Some n'" for m' n'
    using n that unfolding set by (metis domI option.sel)
  then show ?thesis using n by blast
qed

lemma ref_reads_ok: "reads_ok ref_services"
proof -
  have z: "case (case sort_key (\<lambda>m. the (z m)) (sorted_list_of_set (dom z)) of
                  [] \<Rightarrow> [] | m # _ \<Rightarrow> [m, decimal (nat (the (z m)))]) of
             [] \<Rightarrow> z = Map.empty
           | [m, text] \<Rightarrow> (\<exists>n. z m = Some n \<and> (0 \<le> n \<longrightarrow> text = decimal (nat n))
                 \<and> (\<forall>m' n'. z m' = Some n' \<longrightarrow> n \<le> n'))
           | _ \<Rightarrow> False" if fin: "finite (dom z)" for z :: "string \<Rightarrow> int option"
  proof (cases "sort_key (\<lambda>m. the (z m)) (sorted_list_of_set (dom z))")
    case Nil
    then have "set (sort_key (\<lambda>m. the (z m)) (sorted_list_of_set (dom z))) = {}" by simp
    then have "dom z = {}" using fin by simp
    then show ?thesis using Nil by simp
  next
    case (Cons m ms)
    from ref_zrange0 [OF fin Cons] show ?thesis using Cons by auto
  qed
  have h: "distinct (map fst (map (\<lambda>m. (m, the (h m))) (sorted_list_of_set (dom h))))
      \<and> map_of (map (\<lambda>m. (m, the (h m))) (sorted_list_of_set (dom h))) = h"
    if "finite (dom h)" for h :: "string \<Rightarrow> string option"
  proof -
    have "map_of (map (\<lambda>m. (m, the (h m))) (sorted_list_of_set (dom h))) x = h x" for x
      using that by (cases "h x") (simp_all add: map_of_map_keys domIff)
    then show ?thesis by (simp add: comp_def fun_eq_iff)
  qed
  show ?thesis unfolding reads_ok_def ref_observe ref_reads Let_def using z h by blast
qed

lemma ref_serde_ok: "serde_ok ref_services"
proof -
  have "parse_task ref_services (number (task_tuple t)) = Some t"
    "parse_cache ref_services (number (cache_tuple e)) = Some (if ce_value e = Some JNull then e\<lparr>ce_value := None\<rparr> else e)"
    "parse_tx ref_services (number (tx_tuple x)) = Some x" for t e x
    unfolding ref_serde unnumber_number option.map untuple_tuple by (rule refl)+
  then show ?thesis unfolding serde_ok_def ref_serde by blast
qed

lemma ref_services_ok: "services_ok ref_services"
  unfolding services_ok_def
  using ref_next_ok ref_strings_ok ref_incr_ok ref_collections_ok ref_reads_ok ref_serde_ok by blast

end
