(* ===== verification/Store.thy ===== *)
theory Store
  imports Redis Ops
begin

text \<open>
  The Redis store of the server, \<^verbatim>\<open>p256-index-server/src/store.rs\<close>: tasks with their content index,
  their public-key placeholders and the active and dead-letter sets, the broadcast ledger, the
  rate counters and the response cache.  An operation takes a Redis state and returns a result or
  a \<^verbatim>\<open>StoreError\<close> with the state it leaves; a Lua script is one atomic command.
\<close>

section \<open>Commands\<close>

type_synonym ('s, 'a) op = "('s, string, 'a) act"

definition query :: "'s services \<Rightarrow> ('s \<Rightarrow> 'a \<times> 's) \<Rightarrow> ('s, 'a) op" where
  "query R command s =
     (let (d, s') = r_next R s in
      case d of
        Delivered \<Rightarrow> (let (a, s'') = command s' in (Inr a, s''))
      | Failing executed timed_out \<Rightarrow>
          (Inl (if timed_out then ''Redis command timed out'' else ''Redis command failed''),
           if executed then snd (command s') else s'))"

definition run_script :: "'s services \<Rightarrow> ('s \<Rightarrow> 'a \<times> 's) \<Rightarrow> ('s, 'a) op" where
  "run_script R script = query R script"

section \<open>Keys\<close>

definition task_key :: "string \<Rightarrow> string" where
  "task_key tid = ''p256-index:task:'' @ tid"

definition content_active_key :: "string \<Rightarrow> string" where
  "content_active_key content_hash = ''p256-index:task-content:'' @ to_ascii_lowercase content_hash"

definition key_active_key :: "string \<Rightarrow> string" where
  "key_active_key public_key = ''p256-index:task-key:'' @ to_ascii_lowercase public_key"

definition retry_digest_key :: "string \<Rightarrow> string" where
  "retry_digest_key digest = ''p256-index:task-retry:'' @ to_ascii_lowercase digest"

definition member_key_placeholders :: "register_task \<Rightarrow> string list" where
  "member_key_placeholders task =
     map (\<lambda>m. key_active_key (m_public_key m)) (t_members task) @ [key_active_key (t_group_public_key task)]"

definition active_set_key :: string where "active_set_key = ''p256-index:active-tasks''"
definition active_age_key :: string where "active_age_key = ''p256-index:active-created-at''"
definition dlq_set_key :: string where "dlq_set_key = ''p256-index:dlq-tasks''"
definition broadcast_ledger_key :: string where "broadcast_ledger_key = ''p256-index:broadcast-ledger''"

definition ledger_field :: "string \<Rightarrow> u64 \<Rightarrow> string" where
  "ledger_field role nonce = role @ '':'' @ decimal (unat nonce)"

definition escaped_hash :: "externs \<Rightarrow> string \<Rightarrow> string" where
  "escaped_hash X s = hex_encode X (sha256 X (as_bytes s))"

definition cache_key :: "externs \<Rightarrow> string \<Rightarrow> string" where
  "cache_key X key = ''p256-index:cache:'' @ escaped_hash X key"

definition hash_ip :: "externs \<Rightarrow> string \<Rightarrow> string \<Rightarrow> string" where
  "hash_ip X salt ip = take 16 (hex_encode X (sha256 X (as_bytes (salt @ [CHR 0x00] @ ip))))"

definition derive_ip_salt :: "externs \<Rightarrow> string option \<Rightarrow> string" where
  "derive_ip_salt X secret =
     hex_encode X (sha256 X (as_bytes (''ip-salt'' @ [CHR 0x00] @ unwrap_or ''webauthnp256-index'' secret)))"

text \<open>\<^verbatim>\<open>chars().take(n)\<close> on the UTF-8 bytes of a string: a continuation byte belongs to the character
  before it.\<close>

definition is_continuation :: "char \<Rightarrow> bool" where
  "is_continuation c = (128 \<le> (of_char c :: nat) \<and> (of_char c :: nat) < 192)"

fun take_chars :: "nat \<Rightarrow> string \<Rightarrow> string" where
  "take_chars n [] = []"
| "take_chars n (c # cs) =
     (if is_continuation c then c # take_chars n cs
      else (case n of 0 \<Rightarrow> [] | Suc n' \<Rightarrow> c # take_chars n' cs))"

definition redact_error :: "string \<Rightarrow> string" where
  "redact_error v = take_chars 200 v"

definition TASK_DONE_TTL :: u64 where "TASK_DONE_TTL = 7 * 24 * 60 * 60 * 1000"
definition TASK_FAILED_TTL :: u64 where "TASK_FAILED_TTL = 30 * 24 * 60 * 60 * 1000"
definition CACHE_FRESH_TTL :: u64 where "CACHE_FRESH_TTL = 5 * 60 * 1000"
definition CACHE_NEGATIVE_TTL :: u64 where "CACHE_NEGATIVE_TTL = 60 * 1000"
definition CACHE_RECORD_STALE_TTL :: u64 where "CACHE_RECORD_STALE_TTL = 24 * 60 * 60 * 1000"
definition CACHE_STATS_STALE_TTL :: u64 where "CACHE_STATS_STALE_TTL = 60 * 60 * 1000"

section \<open>Tasks\<close>

datatype admission = New string | Existing string

text \<open>\<^verbatim>\<open>str::split_once\<close> with a character.\<close>

fun split_once :: "char \<Rightarrow> string \<Rightarrow> (string \<times> string) option" where
  "split_once d [] = None"
| "split_once d (c # cs) =
     (if c = d then Some ([], cs) else map_option (\<lambda>(a, b). (c # a, b)) (split_once d cs))"

text \<open>The loop \<^verbatim>\<open>for i = 5, #KEYS\<close> of the admission script.\<close>

fun claim_placeholders :: "'s services \<Rightarrow> string \<Rightarrow> string list \<Rightarrow> 's \<Rightarrow> 's" where
  "claim_placeholders R tid [] s = s"
| "claim_placeholders R tid (k # ks) s =
     claim_placeholders R tid ks (if r_exists R s k then s else r_set R s k tid None)"

definition admit_script ::
  "'s services \<Rightarrow> string \<Rightarrow> string \<Rightarrow> string list \<Rightarrow> string \<Rightarrow> string \<Rightarrow> int \<Rightarrow> 's \<Rightarrow> string \<times> 's" where
  "admit_script R task_k content_k placeholders tid payload created_at s =
     (case r_get R s content_k of
        Some existing \<Rightarrow> (''existing|'' @ existing, s)
      | None \<Rightarrow>
          (let s = r_set R s task_k payload None;
               s = r_sadd R s active_set_key tid;
               s = r_zadd R s active_age_key created_at tid;
               s = r_set R s content_k tid None;
               s = claim_placeholders R tid placeholders s
           in (''new|'' @ tid, s)))"

definition admission_response :: "string \<Rightarrow> string + admission" where
  "admission_response response =
     (case split_once CHR ''|'' response of
        None \<Rightarrow> Inl ''invalid Redis admission response''
      | Some (kind, tid) \<Rightarrow>
          if kind = ''new'' then Inr (New tid)
          else if kind = ''existing'' then Inr (Existing tid)
          else Inl ''invalid Redis admission response'')"

definition admit :: "'s services \<Rightarrow> register_task \<Rightarrow> ('s, admission) op" where
  "admit R task =
     (case task_json R task of
        None \<Rightarrow> fail_op ''could not serialize register task''
      | Some payload \<Rightarrow>
          bind_op (run_script R (admit_script R (task_key (t_id task)) (content_active_key (t_content_hash task))
                     (member_key_placeholders task) (t_id task) payload (sint (t_created_at task))))
            (\<lambda>response s. (admission_response response, s)))"

definition get_task :: "'s services \<Rightarrow> string \<Rightarrow> ('s, register_task option) op" where
  "get_task R tid =
     bind_op (query R (\<lambda>s. (r_get R s (task_key tid), s))) (\<lambda>payload.
       return_op (case payload of None \<Rightarrow> None | Some p \<Rightarrow> parse_task R p))"

definition find_by_index :: "'s services \<Rightarrow> string \<Rightarrow> ('s, register_task option) op" where
  "find_by_index R key =
     bind_op (query R (\<lambda>s. (r_get R s key, s))) (\<lambda>tid.
       case tid of Some tid \<Rightarrow> get_task R tid | None \<Rightarrow> return_op None)"

definition find_by_content :: "'s services \<Rightarrow> string \<Rightarrow> ('s, register_task option) op" where
  "find_by_content R content_hash = find_by_index R (content_active_key content_hash)"

definition find_by_public_key :: "'s services \<Rightarrow> string \<Rightarrow> ('s, register_task option) op" where
  "find_by_public_key R public_key = find_by_index R (key_active_key public_key)"

definition find_by_retry_digest :: "'s services \<Rightarrow> string \<Rightarrow> ('s, register_task option) op" where
  "find_by_retry_digest R digest =
     bind_op (query R (\<lambda>s. (r_get R s (retry_digest_key digest), s))) (\<lambda>tid.
       case tid of Some tid \<Rightarrow> get_task R tid | None \<Rightarrow> return_op None)"

definition record_retry_digest :: "'s services \<Rightarrow> string \<Rightarrow> string \<Rightarrow> u64 \<Rightarrow> ('s, unit) op" where
  "record_retry_digest R digest task_id ttl_secs =
     query R (\<lambda>s. ((), r_set R s (retry_digest_key digest) task_id (Some (ttl_secs * 1000))))"

text \<open>The compare-and-swap script of \<^verbatim>\<open>mark_admitted\<close>.\<close>

definition swap_script :: "'s services \<Rightarrow> string \<Rightarrow> string \<Rightarrow> string \<Rightarrow> 's \<Rightarrow> bool \<times> 's" where
  "swap_script R key previous updated s =
     (if r_get R s key = Some previous then (True, r_set_keepttl R s key updated) else (False, s))"

definition swap_admitted :: "'s services \<Rightarrow> string \<Rightarrow> register_task \<Rightarrow> ('s, register_task option) op" where
  "swap_admitted R tid before =
     (case task_json R before of
        None \<Rightarrow> fail_op ''could not serialize register task''
      | Some previous \<Rightarrow>
          (let task = before\<lparr>t_admitted := True\<rparr> in
           case task_json R task of
             None \<Rightarrow> fail_op ''could not serialize register task''
           | Some updated \<Rightarrow>
               bind_op (run_script R (swap_script R (task_key tid) previous updated)) (\<lambda>swapped.
                 if swapped then return_op (Some task) else get_task R tid)))"

definition mark_admitted :: "'s services \<Rightarrow> string \<Rightarrow> ('s, register_task option) op" where
  "mark_admitted R tid =
     bind_op (get_task R tid) (\<lambda>found.
       case found of
         None \<Rightarrow> return_op None
       | Some before \<Rightarrow>
           if is_terminal (t_status before) then return_op (Some before)
           else swap_admitted R tid before)"

fun expire_own :: "'s services \<Rightarrow> string \<Rightarrow> u64 \<Rightarrow> string list \<Rightarrow> 's \<Rightarrow> 's" where
  "expire_own R tid ttl [] s = s"
| "expire_own R tid ttl (k # ks) s =
     expire_own R tid ttl ks (if r_get R s k = Some tid then r_pexpire R s k ttl else s)"

fun delete_own :: "'s services \<Rightarrow> string \<Rightarrow> string list \<Rightarrow> 's \<Rightarrow> 's" where
  "delete_own R tid [] s = s"
| "delete_own R tid (k # ks) s =
     delete_own R tid ks (if r_get R s k = Some tid then r_del R s k else s)"

definition done_script :: "'s services \<Rightarrow> string \<Rightarrow> string list \<Rightarrow> string \<Rightarrow> u64 \<Rightarrow> string \<Rightarrow> 's \<Rightarrow> unit \<times> 's" where
  "done_script R task_k indexes payload ttl tid s =
     (let s = r_set R s task_k payload (Some ttl);
          s = r_srem R s active_set_key tid;
          s = r_zrem R s active_age_key tid
      in ((), expire_own R tid ttl indexes s))"

definition transition_done :: "'s services \<Rightarrow> register_task \<Rightarrow> ('s, unit) op" where
  "transition_done R task =
     (case task_json R task of
        None \<Rightarrow> fail_op ''could not serialize create task''
      | Some payload \<Rightarrow>
          run_script R (done_script R (task_key (t_id task))
            (content_active_key (t_content_hash task) # member_key_placeholders task)
            payload TASK_DONE_TTL (t_id task)))"

definition failed_script :: "'s services \<Rightarrow> string \<Rightarrow> string list \<Rightarrow> string \<Rightarrow> u64 \<Rightarrow> string \<Rightarrow> 's \<Rightarrow> unit \<times> 's" where
  "failed_script R task_k indexes payload ttl tid s =
     (let s = r_set R s task_k payload (Some ttl);
          s = r_srem R s active_set_key tid;
          s = r_zrem R s active_age_key tid;
          s = r_sadd R s dlq_set_key tid
      in ((), delete_own R tid indexes s))"

definition transition_failed :: "'s services \<Rightarrow> register_task \<Rightarrow> ('s, unit) op" where
  "transition_failed R task =
     (case task_json R task of
        None \<Rightarrow> fail_op ''could not serialize create task''
      | Some payload \<Rightarrow>
          run_script R (failed_script R (task_key (t_id task))
            (content_active_key (t_content_hash task) # member_key_placeholders task)
            payload TASK_FAILED_TTL (t_id task)))"

definition set_task :: "'s services \<Rightarrow> register_task \<Rightarrow> u64 option \<Rightarrow> ('s, unit) op" where
  "set_task R task ttl =
     (case task_json R task of
        None \<Rightarrow> fail_op ''could not serialize create task''
      | Some payload \<Rightarrow> query R (\<lambda>s. ((), r_set R s (task_key (t_id task)) payload ttl)))"

definition write_active_task :: "'s services \<Rightarrow> register_task \<Rightarrow> ('s, unit) op" where
  "write_active_task R task = set_task R task None"

definition or_else :: "'a option \<Rightarrow> 'a option \<Rightarrow> 'a option" where
  "or_else a b = (case a of Some x \<Rightarrow> Some x | None \<Rightarrow> b)"

definition done_task :: "string option \<Rightarrow> u64 option \<Rightarrow> register_task \<Rightarrow> register_task" where
  "done_task tx_hash on_chain_id task =
     task\<lparr>t_status := DoneStatus,
          t_tx_hash := or_else tx_hash (t_tx_hash task),
          t_on_chain_id := or_else on_chain_id (t_on_chain_id task),
          t_error := None,
          t_admitted := True\<rparr>"

definition mark_done :: "'s services \<Rightarrow> string \<Rightarrow> string option \<Rightarrow> u64 option \<Rightarrow> ('s, register_task option) op" where
  "mark_done R tid tx_hash on_chain_id =
     bind_op (get_task R tid) (\<lambda>found.
       case found of
         None \<Rightarrow> return_op None
       | Some task \<Rightarrow>
           (let task = done_task tx_hash on_chain_id task
            in bind_op (transition_done R task) (\<lambda>_. return_op (Some task))))"

definition retried_task :: "string \<Rightarrow> register_task \<Rightarrow> register_task" where
  "retried_task message task =
     task\<lparr>t_retries := saturating_add (t_retries task) 1, t_error := Some (redact_error message)\<rparr>"

definition exhausted_task :: "register_task \<Rightarrow> register_task" where
  "exhausted_task task =
     task\<lparr>t_status := Failed,
          t_error := Some (''EXHAUSTED: '' @ unwrap_or ''transient chain failure'' (t_error task))\<rparr>"

definition record_transient_failure :: "'s services \<Rightarrow> string \<Rightarrow> string \<Rightarrow> ('s, register_task option) op" where
  "record_transient_failure R tid message =
     bind_op (get_task R tid) (\<lambda>found.
       case found of
         None \<Rightarrow> return_op None
       | Some task \<Rightarrow>
           if is_terminal (t_status task) then return_op (Some task)
           else
             (let task = retried_task message task
              in if 10 \<le> t_retries task
                 then
                   (let task = exhausted_task task
                    in bind_op (transition_failed R task) (\<lambda>_. return_op (Some task)))
                 else bind_op (write_active_task R task) (\<lambda>_. return_op (Some task))))"

definition failed_task :: "string \<Rightarrow> string \<Rightarrow> register_task \<Rightarrow> register_task" where
  "failed_task class message task =
     task\<lparr>t_status := Failed,
          t_retries := saturating_add (t_retries task) 1,
          t_error := Some (class @ '': '' @ redact_error message)\<rparr>"

definition mark_failed :: "'s services \<Rightarrow> string \<Rightarrow> string \<Rightarrow> string \<Rightarrow> ('s, register_task option) op" where
  "mark_failed R tid class message =
     bind_op (get_task R tid) (\<lambda>found.
       case found of
         None \<Rightarrow> return_op None
       | Some task \<Rightarrow>
           (let task = failed_task class message task
            in bind_op (transition_failed R task) (\<lambda>_. return_op (Some task))))"

section \<open>Queue statistics\<close>

record queue_stats =
  qs_depth :: u64
  qs_dlq_count :: u64
  qs_oldest_active_age_ms :: u64

definition queue_stats_op :: "'s services \<Rightarrow> u64 \<Rightarrow> ('s, queue_stats) op" where
  "queue_stats_op R now =
     bind_op (query R (\<lambda>s. (r_scard R s active_set_key, s))) (\<lambda>depth.
     bind_op (query R (\<lambda>s. (r_scard R s dlq_set_key, s))) (\<lambda>dlq_count.
     bind_op (query R (\<lambda>s. (r_zrange0 R s active_age_key, s))) (\<lambda>oldest.
       let age = (case oldest of
                    _ # created # _ \<Rightarrow>
                      (case parse_unsigned 64 created of
                         Some created_at \<Rightarrow> saturating_sub now (of_nat created_at)
                       | None \<Rightarrow> 0)
                  | _ \<Rightarrow> 0)
       in return_op \<lparr>qs_depth = depth, qs_dlq_count = dlq_count, qs_oldest_active_age_ms = age\<rparr>)))"

section \<open>The broadcast ledger\<close>

record pending_tx =
  px_role :: string
  px_nonce :: u64
  px_hash :: string
  px_sent_at_ms :: u64
  px_attempts :: u32
  px_max_fee_wei :: "u128 option"
  px_max_priority_fee_wei :: "u128 option"

definition record_pending_tx ::
  "'s services \<Rightarrow> string \<Rightarrow> u64 \<Rightarrow> string \<Rightarrow> u64 \<Rightarrow> u32 \<Rightarrow> (u128 \<times> u128) option \<Rightarrow> ('s, unit) op" where
  "record_pending_tx R role nonce hash sent_at_ms attempts fees =
     (case tx_json R \<lparr>pe_hash = hash, pe_sent_at_ms = sent_at_ms, pe_attempts = attempts,
                      pe_max_fee_wei = map_option (\<lambda>(max_fee, _). decimal (unat max_fee)) fees,
                      pe_max_priority_fee_wei = map_option (\<lambda>(_, priority). decimal (unat priority)) fees\<rparr> of
        None \<Rightarrow> fail_op ''could not serialize broadcast ledger entry''
      | Some payload \<Rightarrow> query R (\<lambda>s. ((), r_hset R s broadcast_ledger_key (ledger_field role nonce) payload)))"

definition delete_pending_tx :: "'s services \<Rightarrow> string \<Rightarrow> u64 \<Rightarrow> ('s, unit) op" where
  "delete_pending_tx R role nonce =
     query R (\<lambda>s. ((), r_hdel R s broadcast_ledger_key (ledger_field role nonce)))"

definition parse_u128 :: "string option \<Rightarrow> u128 option" where
  "parse_u128 v = (case v of None \<Rightarrow> None | Some v \<Rightarrow> map_option of_nat (parse_unsigned 128 v))"

definition ledger_row_of :: "'s services \<Rightarrow> u64 \<Rightarrow> string \<times> string \<Rightarrow> pending_tx option" where
  "ledger_row_of R sent_before_ms row =
     (case split_once CHR '':'' (fst row) of
        None \<Rightarrow> None
      | Some (role, nonce) \<Rightarrow>
          (case parse_unsigned 64 nonce of
             None \<Rightarrow> None
           | Some nonce \<Rightarrow>
               (case parse_tx R (snd row) of
                  None \<Rightarrow> None
                | Some entry \<Rightarrow>
                    if pe_sent_at_ms entry < sent_before_ms
                    then Some \<lparr>px_role = role, px_nonce = of_nat nonce, px_hash = pe_hash entry,
                               px_sent_at_ms = pe_sent_at_ms entry, px_attempts = pe_attempts entry,
                               px_max_fee_wei = parse_u128 (pe_max_fee_wei entry),
                               px_max_priority_fee_wei = parse_u128 (pe_max_priority_fee_wei entry)\<rparr>
                    else None)))"

definition list_pending_txs :: "'s services \<Rightarrow> u64 \<Rightarrow> ('s, pending_tx list) op" where
  "list_pending_txs R sent_before_ms =
     bind_op (query R (\<lambda>s. (r_hgetall R s broadcast_ledger_key, s))) (\<lambda>entries.
       return_op (List.map_filter (ledger_row_of R sent_before_ms) entries))"

section \<open>Rate limits\<close>

definition increment_minute :: "'s services \<Rightarrow> string \<Rightarrow> ('s, u64) op" where
  "increment_minute R key =
     bind_op (query R (\<lambda>s. r_incr R s key)) (\<lambda>count.
       if count = 1
       then bind_op (query R (\<lambda>s. ((), r_pexpire R s key 60000))) (\<lambda>_. return_op count)
       else return_op count)"

definition allow_ip_create :: "'s services \<Rightarrow> string \<Rightarrow> ('s, bool) op" where
  "allow_ip_create R ip_hash =
     bind_op (increment_minute R (''p256-index:rate:create:'' @ ip_hash)) (\<lambda>count. return_op (count \<le> 5))"

definition allow_global_create :: "'s services \<Rightarrow> u64 \<Rightarrow> ('s, bool) op" where
  "allow_global_create R global_limit =
     bind_op (increment_minute R ''p256-index:rate:create:global'') (\<lambda>count. return_op (count \<le> global_limit))"

definition allow_read :: "'s services \<Rightarrow> string \<Rightarrow> ('s, bool) op" where
  "allow_read R ip_hash =
     bind_op (increment_minute R (''p256-index:rate:read:'' @ ip_hash)) (\<lambda>count. return_op (count \<le> 120))"

section \<open>The response cache\<close>

datatype cache_read = Fresh json | NegativeRead | Stale json u64 | Miss

definition cache_verdict :: "cache_entry \<Rightarrow> u64 \<Rightarrow> u64 \<Rightarrow> cache_read" where
  "cache_verdict entry now stale_limit =
     (case ce_value entry of
        None \<Rightarrow> if now \<le> ce_fresh_until_ms entry then NegativeRead else Miss
      | Some v \<Rightarrow>
          if now \<le> ce_fresh_until_ms entry then Fresh v
          else if saturating_sub now (ce_stored_at_ms entry) \<le> stale_limit
          then Stale v (saturating_sub now (ce_stored_at_ms entry))
          else Miss)"

definition cache_get :: "externs \<Rightarrow> 's services \<Rightarrow> u64 \<Rightarrow> string \<Rightarrow> u64 \<Rightarrow> ('s, cache_read) op" where
  "cache_get X R now key stale_limit =
     bind_op (query R (\<lambda>s. (r_get R s (cache_key X key), s))) (\<lambda>payload.
       case payload of
         None \<Rightarrow> return_op Miss
       | Some payload \<Rightarrow>
           (case parse_cache R payload of
              None \<Rightarrow> fail_op ''stored cache entry is invalid''
            | Some entry \<Rightarrow> return_op (cache_verdict entry now stale_limit)))"

definition write_cache ::
  "externs \<Rightarrow> 's services \<Rightarrow> u64 \<Rightarrow> string \<Rightarrow> json option \<Rightarrow> u64 \<Rightarrow> u64 \<Rightarrow> ('s, unit) op" where
  "write_cache X R now key v fresh_ttl retention =
     (case cache_json R \<lparr>ce_value = v, ce_stored_at_ms = now, ce_fresh_until_ms = saturating_add now fresh_ttl\<rparr> of
        None \<Rightarrow> fail_op ''could not serialize cache entry''
      | Some payload \<Rightarrow> query R (\<lambda>s. ((), r_set R s (cache_key X key) payload (Some retention))))"

definition cache_set :: "externs \<Rightarrow> 's services \<Rightarrow> u64 \<Rightarrow> string \<Rightarrow> json \<Rightarrow> bool \<Rightarrow> ('s, unit) op" where
  "cache_set X R now key v stats =
     write_cache X R now key (Some v) CACHE_FRESH_TTL
       (if stats then CACHE_STATS_STALE_TTL else CACHE_RECORD_STALE_TTL)"

definition cache_set_negative :: "externs \<Rightarrow> 's services \<Rightarrow> u64 \<Rightarrow> string \<Rightarrow> ('s, unit) op" where
  "cache_set_negative X R now key = write_cache X R now key None CACHE_NEGATIVE_TTL CACHE_NEGATIVE_TTL"

end
