(* ===== verification/Store_Laws.thy ===== *)
theory Store_Laws
  imports Store
begin

text \<open>
  What the Redis store of \<^verbatim>\<open>store.rs\<close> keeps, on every Redis state: each stored task is a task of
  its id, terminal exactly when it has a time to live; an index entry without a time to live
  points at a pending task that owns it; a pending task owns its content index; and the active
  set is the set of pending ids.  The invariant holds across lost commands and expiring keys.
\<close>

section \<open>Observations\<close>

definition task_at :: "'s services \<Rightarrow> 's \<Rightarrow> string \<Rightarrow> register_task option" where
  "task_at R s i = (case string_at (r_db R s) (task_key i) of None \<Rightarrow> None | Some p \<Rightarrow> parse_task R p)"

definition pending_at :: "'s services \<Rightarrow> 's \<Rightarrow> string \<Rightarrow> register_task \<Rightarrow> bool" where
  "pending_at R s i t = (task_at R s i = Some t \<and> \<not> is_terminal (t_status t))"

text \<open>Nothing is left to do for a task that is gone or terminal.\<close>

definition settled :: "register_task option \<Rightarrow> bool" where
  "settled x = (case x of None \<Rightarrow> True | Some t \<Rightarrow> is_terminal (t_status t))"

definition index_keys :: "register_task \<Rightarrow> string list" where
  "index_keys t = content_active_key (t_content_hash t) # member_key_placeholders t"

definition is_index :: "string \<Rightarrow> bool" where
  "is_index k = (k \<in> range content_active_key \<or> k \<in> range key_active_key)"

definition tasks_typed :: "'s services \<Rightarrow> 's \<Rightarrow> bool" where
  "tasks_typed R s =
     (\<forall>i p. string_at (r_db R s) (task_key i) = Some p \<longrightarrow>
        (\<exists>t. task_json R t = Some p \<and> t_id t = i
           \<and> (is_terminal (t_status t) \<longleftrightarrow> task_key i \<in> r_volatile R s)))"

definition indexes_live :: "'s services \<Rightarrow> 's \<Rightarrow> bool" where
  "indexes_live R s =
     (\<forall>k i. is_index k \<and> string_at (r_db R s) k = Some i \<and> k \<notin> r_volatile R s \<longrightarrow>
        (\<exists>t. pending_at R s i t \<and> k \<in> set (index_keys t)))"

definition content_claimed :: "'s services \<Rightarrow> 's \<Rightarrow> bool" where
  "content_claimed R s =
     (\<forall>i t. pending_at R s i t \<longrightarrow>
        string_at (r_db R s) (content_active_key (t_content_hash t)) = Some i
        \<and> content_active_key (t_content_hash t) \<notin> r_volatile R s)"

definition active_exact :: "'s services \<Rightarrow> 's \<Rightarrow> bool" where
  "active_exact R s =
     ((\<forall>i. i \<in> set_at (r_db R s) active_set_key \<longleftrightarrow> (\<exists>t. pending_at R s i t))
      \<and> active_set_key \<notin> r_volatile R s)"

definition store_inv :: "'s services \<Rightarrow> 's \<Rightarrow> bool" where
  "store_inv R s = (tasks_typed R s \<and> indexes_live R s \<and> content_claimed R s \<and> active_exact R s)"

section \<open>Keys\<close>

lemma key_inject [simp]:
  "(task_key i = task_key j) = (i = j)"
  "task_key i \<noteq> content_active_key h" "task_key i \<noteq> key_active_key h" "task_key i \<noteq> retry_digest_key h"
  "task_key i \<noteq> active_set_key" "task_key i \<noteq> active_age_key" "task_key i \<noteq> dlq_set_key"
  "task_key i \<noteq> broadcast_ledger_key" "task_key i \<noteq> cache_key X h"
  by (simp_all add: task_key_def content_active_key_def key_active_key_def retry_digest_key_def
      active_set_key_def active_age_key_def dlq_set_key_def broadcast_ledger_key_def cache_key_def)

lemma content_key_distinct [simp]:
  "content_active_key h \<noteq> key_active_key k" "content_active_key h \<noteq> active_set_key"
  "content_active_key h \<noteq> active_age_key" "content_active_key h \<noteq> dlq_set_key"
  "content_active_key h \<noteq> task_key i" "content_active_key h \<noteq> retry_digest_key k"
  "content_active_key h \<noteq> broadcast_ledger_key" "content_active_key h \<noteq> cache_key X k"
  by (simp_all add: task_key_def content_active_key_def key_active_key_def retry_digest_key_def
      active_set_key_def active_age_key_def dlq_set_key_def broadcast_ledger_key_def cache_key_def)

lemma public_key_distinct [simp]:
  "key_active_key h \<noteq> content_active_key k" "key_active_key h \<noteq> active_set_key"
  "key_active_key h \<noteq> active_age_key" "key_active_key h \<noteq> dlq_set_key"
  "key_active_key h \<noteq> task_key i" "key_active_key h \<noteq> retry_digest_key k"
  "key_active_key h \<noteq> broadcast_ledger_key" "key_active_key h \<noteq> cache_key X k"
  by (simp_all add: task_key_def content_active_key_def key_active_key_def retry_digest_key_def
      active_set_key_def active_age_key_def dlq_set_key_def broadcast_ledger_key_def cache_key_def)

lemma set_key_distinct [simp]:
  "active_set_key \<noteq> active_age_key" "active_set_key \<noteq> dlq_set_key" "active_age_key \<noteq> active_set_key"
  "dlq_set_key \<noteq> active_set_key" "active_set_key \<noteq> task_key i" "active_set_key \<noteq> retry_digest_key h"
  "active_set_key \<noteq> broadcast_ledger_key" "active_set_key \<noteq> cache_key X h"
  "active_set_key \<noteq> content_active_key h" "active_set_key \<noteq> key_active_key h"
  by (simp_all add: task_key_def content_active_key_def key_active_key_def retry_digest_key_def
      active_set_key_def active_age_key_def dlq_set_key_def broadcast_ledger_key_def cache_key_def)

lemma is_index_keys [simp]:
  "is_index (content_active_key h)" "is_index (key_active_key h)" "\<not> is_index (task_key i)"
  "\<not> is_index active_set_key" "\<not> is_index active_age_key" "\<not> is_index dlq_set_key"
  "\<not> is_index (retry_digest_key h)" "\<not> is_index broadcast_ledger_key" "\<not> is_index (cache_key X h)"
  by (auto simp: is_index_def simp flip: content_key_distinct public_key_distinct
      dest: content_key_distinct [THEN notE, OF sym] public_key_distinct [THEN notE, OF sym])

text \<open>What an update leaves of a task.\<close>

lemma updated_task [simp]:
  "t_id (done_task h n t) = t_id t" "t_status (done_task h n t) = DoneStatus" "t_admitted (done_task h n t)"
  "t_id (retried_task m t) = t_id t" "t_status (retried_task m t) = t_status t"
  "t_retries (retried_task m t) = saturating_add (t_retries t) 1"
  "t_id (exhausted_task t) = t_id t" "t_status (exhausted_task t) = Failed" "t_retries (exhausted_task t) = t_retries t"
  "t_id (failed_task c m t) = t_id t" "t_status (failed_task c m t) = Failed"
  by (simp_all add: done_task_def retried_task_def exhausted_task_def failed_task_def)

lemma updated_keys [simp]:
  "index_keys (done_task h n t) = index_keys t" "index_keys (retried_task m t) = index_keys t"
  "index_keys (exhausted_task t) = index_keys t" "index_keys (failed_task c m t) = index_keys t"
  "index_keys (t\<lparr>t_admitted := a\<rparr>) = index_keys t"
  by (simp_all add: index_keys_def member_key_placeholders_def done_task_def retried_task_def exhausted_task_def failed_task_def)

text \<open>One counted retry: the counter goes up by one, and the tenth fails the task.\<close>

definition after_retry :: "string \<Rightarrow> register_task \<Rightarrow> register_task" where
  "after_retry m t =
     (if is_terminal (t_status t) then t
      else if 10 \<le> t_retries (retried_task m t) then exhausted_task (retried_task m t) else retried_task m t)"

lemma index_keys_index: "k \<in> set (index_keys t) \<Longrightarrow> is_index k"
  by (auto simp: index_keys_def member_key_placeholders_def)

lemma placeholder_not_content:
  "k \<in> set (member_key_placeholders t) \<Longrightarrow> k \<noteq> content_active_key h"
  by (auto simp: member_key_placeholders_def)

lemma content_in_index_keys:
  "content_active_key h \<in> set (index_keys t) \<longleftrightarrow> content_active_key h = content_active_key (t_content_hash t)"
  by (auto simp: index_keys_def dest: placeholder_not_content)

section \<open>Redis commands on the observations\<close>

lemma string_at_upd [simp]:
  "string_at (m(k \<mapsto> RString v)) = (string_at m)(k \<mapsto> v)"
  "string_at (m(k := None)) = (string_at m)(k := None)"
  "string_at (m(k \<mapsto> RSet a)) = (string_at m)(k := None)"
  "string_at (m(k \<mapsto> RZSet z)) = (string_at m)(k := None)"
  "string_at (m(k \<mapsto> RHash h)) = (string_at m)(k := None)"
  by (auto simp: string_at_def fun_eq_iff)

lemma string_at_if [simp]: "string_at (\<lambda>b. if b = a then None else m b) k = (if k = a then None else string_at m k)"
  by (simp add: string_at_def)

lemma at_cong: "m k = m' k \<Longrightarrow> string_at m k = string_at m' k" "m k = m' k \<Longrightarrow> set_at m k = set_at m' k"
  by (simp_all add: string_at_def set_at_def)

lemma at_None: "m k = None \<Longrightarrow> string_at m k = None" "string_at m k = Some v \<Longrightarrow> m k = Some (RString v)"
  by (auto simp: string_at_def split: option.splits redis_value.splits)

lemma set_at_upd: "set_at (m(k := v)) k' = (if k' = k then (case v of Some (RSet x) \<Rightarrow> x | _ \<Rightarrow> {}) else set_at m k')"
  by (simp add: set_at_def)

locale redis_laws =
  fixes R :: "'s services"
  assumes ok: "services_ok R"
begin

lemma commands [simp]:
  "r_get R s k = string_at (r_db R s) k"
  "r_exists R s k = (r_db R s k \<noteq> None)"
  "r_db R (r_set R s k v px) = (r_db R s)(k \<mapsto> RString v)"
  "r_volatile R (r_set R s k v px) = (if px = None then r_volatile R s - {k} else insert k (r_volatile R s))"
  "r_db R (r_set_keepttl R s k v) = (r_db R s)(k \<mapsto> RString v)"
  "r_volatile R (r_set_keepttl R s k v) = r_volatile R s"
  "r_db R (r_del R s k) = (r_db R s)(k := None)"
  "r_volatile R (r_del R s k) = r_volatile R s - {k}"
  using ok unfolding services_ok_def strings_ok_def by blast+

lemma expire [simp]:
  assumes "0 < px"
  shows "r_db R (r_pexpire R s k px) = r_db R s"
    "r_volatile R (r_pexpire R s k px) = (if r_db R s k = None then r_volatile R s else insert k (r_volatile R s))"
  using ok assms by (simp_all add: services_ok_def expiry_ok_def)

lemma collections [simp]:
  "r_db R (r_sadd R s k m) = (r_db R s)(k \<mapsto> RSet (insert m (set_at (r_db R s) k)))"
  "r_volatile R (r_sadd R s k m) = r_volatile R s"
  "set_at (r_db R (r_srem R s k m)) k = set_at (r_db R s) k - {m}"
  "r_db R (r_zadd R s k sc m) = (r_db R s)(k \<mapsto> RZSet ((zset_at (r_db R s) k)(m \<mapsto> sc)))"
  "r_volatile R (r_zadd R s k sc m) = r_volatile R s"
  "r_db R (r_hset R s k m v) = (r_db R s)(k \<mapsto> RHash ((hash_at (r_db R s) k)(m \<mapsto> v)))"
  "r_volatile R (r_hset R s k m v) = r_volatile R s"
  "hash_at (r_db R (r_hdel R s k m)) k = (hash_at (r_db R s) k)(m := None)"
  using ok by (simp_all add: services_ok_def collections_ok_def)

lemma removals [simp]:
  "k' \<noteq> k \<Longrightarrow> r_db R (r_srem R s k m) k' = r_db R s k'"
  "k' \<noteq> k \<Longrightarrow> r_db R (r_zrem R s k m) k' = r_db R s k'"
  "k' \<noteq> k \<Longrightarrow> r_db R (r_hdel R s k m) k' = r_db R s k'"
  using ok by (simp_all add: services_ok_def collections_ok_def)

lemma removals_volatile_bounds:
  "r_volatile R (r_srem R s k m) \<subseteq> r_volatile R s"
  "r_volatile R s \<subseteq> insert k (r_volatile R (r_srem R s k m))"
  "r_volatile R (r_zrem R s k m) \<subseteq> r_volatile R s"
  "r_volatile R s \<subseteq> insert k (r_volatile R (r_zrem R s k m))"
  "r_volatile R (r_hdel R s k m) \<subseteq> r_volatile R s"
  "r_volatile R s \<subseteq> insert k (r_volatile R (r_hdel R s k m))"
  using ok by (simp_all add: services_ok_def collections_ok_def)

lemma removals_volatile [simp]:
  "k' \<noteq> k \<Longrightarrow> k' \<in> r_volatile R (r_srem R s k m) \<longleftrightarrow> k' \<in> r_volatile R s"
  "k' \<noteq> k \<Longrightarrow> k' \<in> r_volatile R (r_zrem R s k m) \<longleftrightarrow> k' \<in> r_volatile R s"
  "k' \<noteq> k \<Longrightarrow> k' \<in> r_volatile R (r_hdel R s k m) \<longleftrightarrow> k' \<in> r_volatile R s"
  using removals_volatile_bounds [of s k m] by blast+

lemma srem_volatile: "k' \<in> r_volatile R (r_srem R s k m) \<Longrightarrow> k' \<in> r_volatile R s"
  using removals_volatile_bounds(1) by blast

lemma serde: "\<exists>p. task_json R t = Some p \<and> parse_task R p = Some t"
  using ok unfolding services_ok_def serde_ok_def by blast

lemma serde_parse: "task_json R t = Some p \<Longrightarrow> parse_task R p = Some t"
  using serde [of t] by auto

lemma next_db: "r_db R (snd (r_next R s)) k = r_db R s k
    \<or> r_db R (snd (r_next R s)) k = None \<and> k \<in> r_volatile R s"
  using ok unfolding services_ok_def next_ok_def Let_def by blast

lemma next_volatile: "r_volatile R (snd (r_next R s)) = r_volatile R s \<inter> dom (r_db R (snd (r_next R s)))"
  using ok unfolding services_ok_def next_ok_def Let_def by blast

text \<open>A command that leaves the task and index keys and the active set alone keeps the invariant.\<close>

lemma store_inv_view:
  assumes "\<And>k. is_index k \<or> k \<in> range task_key \<Longrightarrow> string_at (r_db R s') k = string_at (r_db R s) k"
    and "\<And>k. is_index k \<or> k \<in> range task_key \<or> k = active_set_key \<Longrightarrow> k \<in> r_volatile R s' \<longleftrightarrow> k \<in> r_volatile R s"
    and "set_at (r_db R s') active_set_key = set_at (r_db R s) active_set_key"
  shows "store_inv R s' = store_inv R s" "task_at R s' = task_at R s"
proof -
  show t: "task_at R s' = task_at R s"
    using assms(1) by (simp add: task_at_def fun_eq_iff)
  have p: "pending_at R s' = pending_at R s" by (simp add: pending_at_def t fun_eq_iff)
  have "string_at (r_db R s') (task_key i) = string_at (r_db R s) (task_key i)"
    "task_key i \<in> r_volatile R s' \<longleftrightarrow> task_key i \<in> r_volatile R s" for i
    using assms(1,2) [of "task_key i"] by simp_all
  then have "tasks_typed R s' = tasks_typed R s" by (simp add: tasks_typed_def)
  moreover have "(is_index k \<and> string_at (r_db R s') k = Some i \<and> k \<notin> r_volatile R s')
      = (is_index k \<and> string_at (r_db R s) k = Some i \<and> k \<notin> r_volatile R s)" for k i
    using assms(1,2) [of k] by (cases "is_index k") simp_all
  then have "indexes_live R s' = indexes_live R s" by (simp add: indexes_live_def p)
  moreover have "string_at (r_db R s') (content_active_key h) = string_at (r_db R s) (content_active_key h)"
    "content_active_key h \<in> r_volatile R s' \<longleftrightarrow> content_active_key h \<in> r_volatile R s" for h
    using assms(1,2) [of "content_active_key h"] by simp_all
  then have "content_claimed R s' = content_claimed R s" by (simp add: content_claimed_def p)
  moreover have "active_exact R s' = active_exact R s"
    using assms(2) [of active_set_key] assms(3) by (simp add: active_exact_def p)
  ultimately show "store_inv R s' = store_inv R s" by (simp add: store_inv_def)
qed

section \<open>Expiry between commands\<close>

lemma next_string:
  assumes "string_at (r_db R (snd (r_next R s))) k = Some v"
  shows "string_at (r_db R s) k = Some v"
proof -
  have "r_db R (snd (r_next R s)) k = Some (RString v)" by (rule at_None(2) [OF assms])
  then have "r_db R s k = Some (RString v)" using next_db [of s k] by simp
  then show ?thesis by (simp add: string_at_def)
qed

lemma next_keeps:
  assumes "k \<notin> r_volatile R s"
  shows "r_db R (snd (r_next R s)) k = r_db R s k"
    "string_at (r_db R (snd (r_next R s))) k = string_at (r_db R s) k"
    "set_at (r_db R (snd (r_next R s))) k = set_at (r_db R s) k"
    "k \<notin> r_volatile R (snd (r_next R s))"
proof -
  show db: "r_db R (snd (r_next R s)) k = r_db R s k" using next_db [of s k] assms by simp
  then show "string_at (r_db R (snd (r_next R s))) k = string_at (r_db R s) k"
    "set_at (r_db R (snd (r_next R s))) k = set_at (r_db R s) k"
    by (rule at_cong)+
  show "k \<notin> r_volatile R (snd (r_next R s))" using assms by (simp add: next_volatile)
qed

lemma next_volatile_iff:
  assumes "string_at (r_db R (snd (r_next R s))) k = Some v"
  shows "k \<in> r_volatile R (snd (r_next R s)) \<longleftrightarrow> k \<in> r_volatile R s"
  using at_None(2) [OF assms] by (simp add: next_volatile domIff)

lemma task_at_Some: "task_at R s i = Some t \<longleftrightarrow> (\<exists>p. string_at (r_db R s) (task_key i) = Some p \<and> parse_task R p = Some t)"
  by (simp add: task_at_def split: option.split)

lemma next_task: "task_at R (snd (r_next R s)) i = Some t \<Longrightarrow> task_at R s i = Some t"
  using next_string unfolding task_at_Some by blast

lemma stored_task:
  assumes "tasks_typed R s" "task_at R s i = Some t"
  shows "t_id t = i" "is_terminal (t_status t) \<longleftrightarrow> task_key i \<in> r_volatile R s"
proof -
  obtain p where p: "string_at (r_db R s) (task_key i) = Some p" "parse_task R p = Some t"
    using assms(2) unfolding task_at_Some by blast
  obtain u where u: "task_json R u = Some p" "t_id u = i"
    "is_terminal (t_status u) \<longleftrightarrow> task_key i \<in> r_volatile R s"
    using assms(1) p(1) unfolding tasks_typed_def by blast
  have "u = t" using serde_parse [OF u(1)] p(2) by simp
  then show "t_id t = i" "is_terminal (t_status t) \<longleftrightarrow> task_key i \<in> r_volatile R s" using u by simp_all
qed

lemma pending_nonvolatile:
  assumes "tasks_typed R s" "pending_at R s i t"
  shows "task_key i \<notin> r_volatile R s" "t_id t = i"
  using stored_task [OF assms(1), of i t] assms(2) by (simp_all add: pending_at_def)

lemma next_pending:
  assumes "tasks_typed R s"
  shows "pending_at R (snd (r_next R s)) i t = pending_at R s i t"
proof
  assume p: "pending_at R s i t"
  have "string_at (r_db R (snd (r_next R s))) (task_key i) = string_at (r_db R s) (task_key i)"
    by (rule next_keeps(2) [OF pending_nonvolatile(1) [OF assms p]])
  then show "pending_at R (snd (r_next R s)) i t" using p by (simp add: pending_at_def task_at_def)
next
  assume "pending_at R (snd (r_next R s)) i t"
  then show "pending_at R s i t" unfolding pending_at_def using next_task by blast
qed

lemma store_inv_next:
  assumes "store_inv R s"
  shows "store_inv R (snd (r_next R s))"
proof -
  let ?s = "snd (r_next R s)"
  have inv: "tasks_typed R s" "indexes_live R s" "content_claimed R s" "active_exact R s"
    using assms by (simp_all add: store_inv_def)
  have "tasks_typed R ?s"
    unfolding tasks_typed_def
  proof (intro allI impI)
    fix i p assume p: "string_at (r_db R ?s) (task_key i) = Some p"
    show "\<exists>t. task_json R t = Some p \<and> t_id t = i \<and> is_terminal (t_status t) = (task_key i \<in> r_volatile R ?s)"
      using inv(1) next_string [OF p] unfolding tasks_typed_def next_volatile_iff [OF p] by blast
  qed
  moreover have "indexes_live R ?s"
    unfolding indexes_live_def next_pending [OF inv(1)]
  proof (intro allI impI, elim conjE)
    fix k i assume k: "is_index k" "string_at (r_db R ?s) k = Some i" "k \<notin> r_volatile R ?s"
    then show "\<exists>t. pending_at R s i t \<and> k \<in> set (index_keys t)"
      using inv(2) next_string [OF k(2)] next_volatile_iff [OF k(2)] unfolding indexes_live_def by blast
  qed
  moreover have "content_claimed R ?s"
    unfolding content_claimed_def next_pending [OF inv(1)]
  proof (intro allI impI)
    fix i t assume "pending_at R s i t"
    then have c: "string_at (r_db R s) (content_active_key (t_content_hash t)) = Some i"
      "content_active_key (t_content_hash t) \<notin> r_volatile R s"
      using inv(3) unfolding content_claimed_def by blast+
    show "string_at (r_db R ?s) (content_active_key (t_content_hash t)) = Some i
        \<and> content_active_key (t_content_hash t) \<notin> r_volatile R ?s"
      using next_keeps(2,4) [OF c(2)] c(1) by simp
  qed
  moreover have "active_exact R ?s"
  proof -
    have a: "active_set_key \<notin> r_volatile R s"
      "\<And>i. i \<in> set_at (r_db R s) active_set_key \<longleftrightarrow> (\<exists>t. pending_at R s i t)"
      using inv(4) unfolding active_exact_def by blast+
    show ?thesis
      unfolding active_exact_def next_pending [OF inv(1)] next_keeps(3) [OF a(1)]
      using a next_keeps(4) [OF a(1)] by simp
  qed
  ultimately show ?thesis by (simp add: store_inv_def)
qed

section \<open>Scripts\<close>

lemma claim_placeholders_effect:
  "r_db R (claim_placeholders R i ks s) k =
     (if k \<in> set ks \<and> r_db R s k = None then Some (RString i) else r_db R s k)"
  "r_volatile R (claim_placeholders R i ks s) = r_volatile R s - {k \<in> set ks. r_db R s k = None}"
proof (induction ks arbitrary: s)
  case (Cons a ks)
  { case 1 show ?case by (simp add: Cons.IH(1)) }
  { case 2 show ?case by (auto simp add: Cons.IH(2)) }
qed simp_all

lemma expire_own_effect:
  assumes "0 < ttl"
  shows "r_db R (expire_own R i ttl ks s) = r_db R s"
    "r_volatile R (expire_own R i ttl ks s) = r_volatile R s \<union> {k \<in> set ks. string_at (r_db R s) k = Some i}"
proof (induction ks arbitrary: s)
  case (Cons a ks)
  { case 1 show ?case using assms by (simp add: Cons.IH(1)) }
  { case 2
    show ?case
    proof (cases "string_at (r_db R s) a = Some i")
      case True
      then show ?thesis using assms at_None(2) [OF True] by (auto simp add: Cons.IH(2))
    qed (auto simp add: Cons.IH(2)) }
qed simp_all

lemma delete_own_effect:
  "r_db R (delete_own R i ks s) k =
     (if k \<in> set ks \<and> string_at (r_db R s) k = Some i then None else r_db R s k)"
  "r_volatile R (delete_own R i ks s) = r_volatile R s - {k \<in> set ks. string_at (r_db R s) k = Some i}"
proof (induction ks arbitrary: s k)
  case (Cons a ks)
  { case 1 show ?case by (cases "string_at (r_db R s) a = Some i"; cases "k = a") (auto simp add: Cons.IH(1)) }
  { case 2 show ?case by (cases "string_at (r_db R s) a = Some i") (auto simp add: Cons.IH(2)) }
qed simp_all

text \<open>A pending task rewritten in place.\<close>

lemma store_inv_rewrite:
  assumes inv: "store_inv R s" and t: "pending_at R s i t"
    and u: "task_json R u = Some p" "t_id u = i" "\<not> is_terminal (t_status u)" "index_keys u = index_keys t"
    and s': "r_db R s' = (r_db R s)(task_key i \<mapsto> RString p)"
      "\<And>k. k \<in> r_volatile R s' \<longleftrightarrow> k \<in> r_volatile R s"
  shows "store_inv R s'"
proof -
  have typed: "tasks_typed R s" using inv by (simp add: store_inv_def)
  have nv: "task_key i \<notin> r_volatile R s" by (rule pending_nonvolatile(1) [OF typed t])
  have parse: "parse_task R p = Some u" by (rule serde_parse [OF u(1)])
  have str: "string_at (r_db R s') k = (if k = task_key i then Some p else string_at (r_db R s) k)" for k
    by (simp add: s'(1))
  have pend: "pending_at R s' j v \<longleftrightarrow> (if j = i then v = u else pending_at R s j v)" for j v
    using u(3) by (auto simp: pending_at_def task_at_def str parse)
  have "tasks_typed R s'"
    unfolding tasks_typed_def str s'(2)
  proof (intro allI impI)
    fix j q assume q: "(if task_key j = task_key i then Some p else string_at (r_db R s) (task_key j)) = Some q"
    show "\<exists>t. task_json R t = Some q \<and> t_id t = j \<and> is_terminal (t_status t) = (task_key j \<in> r_volatile R s)"
    proof (cases "j = i")
      case True
      then show ?thesis using q u nv by (intro exI [of _ u]) simp
    next
      case False
      then show ?thesis using q typed unfolding tasks_typed_def by simp
    qed
  qed
  moreover have "indexes_live R s'"
    unfolding indexes_live_def s'(2)
  proof (intro allI impI, elim conjE)
    fix k j assume k: "is_index k" "string_at (r_db R s') k = Some j" "k \<notin> r_volatile R s"
    then have "string_at (r_db R s) k = Some j" by (auto simp: str split: if_splits)
    then obtain v where v: "pending_at R s j v" "k \<in> set (index_keys v)"
      using inv k unfolding store_inv_def indexes_live_def by blast
    show "\<exists>v. pending_at R s' j v \<and> k \<in> set (index_keys v)"
    proof (cases "j = i")
      case True
      then have "v = t" using v(1) t by (simp add: pending_at_def)
      then show ?thesis using True v(2) u(4) pend by auto
    next
      case False
      then show ?thesis using v pend by auto
    qed
  qed
  moreover have "content_claimed R s'"
    unfolding content_claimed_def s'(2)
  proof (intro allI impI)
    fix j v assume v: "pending_at R s' j v"
    have "content_active_key (t_content_hash u) = content_active_key (t_content_hash t)"
      using u(4) by (simp add: index_keys_def)
    then obtain w where w: "pending_at R s j w" "content_active_key (t_content_hash w) = content_active_key (t_content_hash v)"
      using v t pend [of j v] by (cases "j = i") auto
    have "string_at (r_db R s) (content_active_key (t_content_hash w)) = Some j
        \<and> content_active_key (t_content_hash w) \<notin> r_volatile R s"
      using inv w(1) unfolding store_inv_def content_claimed_def by blast
    then show "string_at (r_db R s') (content_active_key (t_content_hash v)) = Some j
        \<and> content_active_key (t_content_hash v) \<notin> r_volatile R s"
      unfolding w(2) by (simp add: str)
  qed
  moreover have "active_exact R s'"
  proof -
    have "(\<exists>v. pending_at R s' j v) = (\<exists>v. pending_at R s j v)" for j
      using t pend [of j] by (cases "j = i") auto
    moreover have "set_at (r_db R s') active_set_key = set_at (r_db R s) active_set_key"
      by (simp add: s'(1) set_at_upd)
    ultimately show ?thesis
      using inv unfolding store_inv_def active_exact_def s'(2) by simp
  qed
  ultimately show ?thesis by (simp add: store_inv_def)
qed

text \<open>A task made terminal: its record gets a time to live, it leaves the active set, and the
  indexes it owns are deleted or expire with it.\<close>

lemma store_inv_terminal:
  assumes inv: "store_inv R s"
    and same: "\<And>v. pending_at R s i v \<Longrightarrow> index_keys v = index_keys u"
    and u: "task_json R u = Some p" "t_id u = i" "is_terminal (t_status u)"
    and task: "string_at (r_db R s') (task_key i) = Some p" "task_key i \<in> r_volatile R s'"
    and others: "\<And>j. j \<noteq> i \<Longrightarrow> string_at (r_db R s') (task_key j) = string_at (r_db R s) (task_key j)"
      "\<And>j. j \<noteq> i \<Longrightarrow> task_key j \<in> r_volatile R s' \<longleftrightarrow> task_key j \<in> r_volatile R s"
    and active: "set_at (r_db R s') active_set_key = set_at (r_db R s) active_set_key - {i}"
      "active_set_key \<notin> r_volatile R s'"
    and kept: "\<And>k. is_index k \<Longrightarrow> k \<notin> set (index_keys u) \<or> string_at (r_db R s) k \<noteq> Some i \<Longrightarrow>
      string_at (r_db R s') k = string_at (r_db R s) k \<and> (k \<in> r_volatile R s' \<longleftrightarrow> k \<in> r_volatile R s)"
    and released: "\<And>k. k \<in> set (index_keys u) \<Longrightarrow> string_at (r_db R s) k = Some i \<Longrightarrow>
      string_at (r_db R s') k = None \<or> k \<in> r_volatile R s'"
  shows "store_inv R s'"
proof -
  have typed: "tasks_typed R s" using inv by (simp add: store_inv_def)
  have parse: "parse_task R p = Some u" by (rule serde_parse [OF u(1)])
  have pend: "pending_at R s' j v \<longleftrightarrow> j \<noteq> i \<and> pending_at R s j v" for j v
  proof (cases "j = i")
    case True
    then show ?thesis using task(1) parse u(3) by (auto simp: pending_at_def task_at_def)
  next
    case False
    then show ?thesis using others(1) by (simp add: pending_at_def task_at_def)
  qed
  have "tasks_typed R s'"
    unfolding tasks_typed_def
  proof (intro allI impI)
    fix j q assume q: "string_at (r_db R s') (task_key j) = Some q"
    show "\<exists>t. task_json R t = Some q \<and> t_id t = j \<and> is_terminal (t_status t) = (task_key j \<in> r_volatile R s')"
    proof (cases "j = i")
      case True
      then show ?thesis using q task u by (intro exI [of _ u]) simp
    next
      case False
      then have "string_at (r_db R s) (task_key j) = Some q" using q others(1) by simp
      then show ?thesis using typed others(2) [OF False] unfolding tasks_typed_def by simp
    qed
  qed
  moreover have "indexes_live R s'"
    unfolding indexes_live_def
  proof (intro allI impI, elim conjE)
    fix k j assume k: "is_index k" "string_at (r_db R s') k = Some j" "k \<notin> r_volatile R s'"
    have free: "k \<notin> set (index_keys u) \<or> string_at (r_db R s) k \<noteq> Some i"
      using released [of k] k(2,3) by auto
    have old: "string_at (r_db R s) k = Some j" "k \<notin> r_volatile R s"
      using kept [OF k(1) free] k(2,3) by simp_all
    then obtain v where v: "pending_at R s j v" "k \<in> set (index_keys v)"
      using inv k(1) unfolding store_inv_def indexes_live_def by blast
    have "j \<noteq> i" using same v old(1) free by auto
    then show "\<exists>v. pending_at R s' j v \<and> k \<in> set (index_keys v)" using v pend by blast
  qed
  moreover have "content_claimed R s'"
    unfolding content_claimed_def
  proof (intro allI impI)
    fix j v assume v: "pending_at R s' j v"
    then have j: "j \<noteq> i" "pending_at R s j v" using pend by blast+
    have c: "string_at (r_db R s) (content_active_key (t_content_hash v)) = Some j"
      "content_active_key (t_content_hash v) \<notin> r_volatile R s"
      using inv j(2) unfolding store_inv_def content_claimed_def by blast+
    show "string_at (r_db R s') (content_active_key (t_content_hash v)) = Some j
        \<and> content_active_key (t_content_hash v) \<notin> r_volatile R s'"
      using kept [of "content_active_key (t_content_hash v)"] c j(1) by simp
  qed
  moreover have "active_exact R s'"
    using inv active pend unfolding store_inv_def active_exact_def by auto
  ultimately show ?thesis by (simp add: store_inv_def)
qed

lemma index_key_facts:
  assumes "is_index k"
  shows "k \<noteq> task_key i" "k \<noteq> active_set_key" "k \<noteq> active_age_key" "k \<noteq> dlq_set_key" "task_key i \<noteq> k"
    "active_set_key \<noteq> k"
  using assms by auto

lemma active_not_index: "active_set_key \<notin> set (index_keys u)" "task_key i \<notin> set (index_keys u)"
  using index_keys_index by fastforce+

lemma done_script_inv:
  assumes inv: "store_inv R s" and same: "\<And>v. pending_at R s i v \<Longrightarrow> index_keys v = index_keys u"
    and u: "task_json R u = Some p" "t_id u = i" "is_terminal (t_status u)" and ttl: "0 < ttl"
  shows "store_inv R (snd (done_script R (task_key i) (index_keys u) p ttl i s))"
proof -
  define a where "a = r_zrem R (r_srem R (r_set R s (task_key i) p (Some ttl)) active_set_key i) active_age_key i"
  have s': "snd (done_script R (task_key i) (index_keys u) p ttl i s) = expire_own R i ttl (index_keys u) a"
    by (simp add: done_script_def a_def Let_def)
  have db: "r_db R a k = ((r_db R s)(task_key i \<mapsto> RString p)) k" if "k \<noteq> active_set_key" "k \<noteq> active_age_key" for k
    using that by (simp add: a_def)
  have vol: "k \<in> r_volatile R a \<longleftrightarrow> k = task_key i \<or> k \<in> r_volatile R s" if "k \<noteq> active_set_key" "k \<noteq> active_age_key" for k
    using that by (simp add: a_def)
  have str: "string_at (r_db R a) k = string_at (r_db R s) k" if "is_index k" for k
    using index_key_facts [OF that] db [of k] by (intro at_cong) simp
  have act: "set_at (r_db R a) active_set_key = set_at (r_db R s) active_set_key - {i}"
  proof -
    have "set_at (r_db R a) active_set_key
        = set_at (r_db R (r_srem R (r_set R s (task_key i) p (Some ttl)) active_set_key i)) active_set_key"
      unfolding a_def by (rule at_cong) simp
    then show ?thesis by (simp add: set_at_upd)
  qed
  have actv: "active_set_key \<notin> r_volatile R a"
  proof
    assume "active_set_key \<in> r_volatile R a"
    then have "active_set_key \<in> r_volatile R (r_srem R (r_set R s (task_key i) p (Some ttl)) active_set_key i)"
      by (simp add: a_def)
    then have "active_set_key \<in> r_volatile R (r_set R s (task_key i) p (Some ttl))" by (rule srem_volatile)
    then show False using inv by (simp add: store_inv_def active_exact_def)
  qed
  note eff = expire_own_effect [OF ttl]
  show ?thesis
    unfolding s'
  proof (rule store_inv_terminal [OF inv same u])
    show "string_at (r_db R (expire_own R i ttl (index_keys u) a)) (task_key i) = Some p"
      unfolding eff by (simp add: string_at_def db)
    show "task_key i \<in> r_volatile R (expire_own R i ttl (index_keys u) a)"
      unfolding eff by (simp add: vol)
    show "string_at (r_db R (expire_own R i ttl (index_keys u) a)) (task_key j) = string_at (r_db R s) (task_key j)"
      if "j \<noteq> i" for j
      unfolding eff using that by (intro at_cong) (simp add: db)
    show "task_key j \<in> r_volatile R (expire_own R i ttl (index_keys u) a) \<longleftrightarrow> task_key j \<in> r_volatile R s"
      if "j \<noteq> i" for j
      unfolding eff using that active_not_index(2) [of j u] by (simp add: vol)
    show "set_at (r_db R (expire_own R i ttl (index_keys u) a)) active_set_key = set_at (r_db R s) active_set_key - {i}"
      unfolding eff by (rule act)
    show "active_set_key \<notin> r_volatile R (expire_own R i ttl (index_keys u) a)"
      unfolding eff using actv active_not_index(1) [of u] by simp
    show "string_at (r_db R (expire_own R i ttl (index_keys u) a)) k = string_at (r_db R s) k
        \<and> (k \<in> r_volatile R (expire_own R i ttl (index_keys u) a) \<longleftrightarrow> k \<in> r_volatile R s)"
      if "is_index k" "k \<notin> set (index_keys u) \<or> string_at (r_db R s) k \<noteq> Some i" for k
      unfolding eff using that index_key_facts [OF that(1)] by (auto simp: str vol)
    show "string_at (r_db R (expire_own R i ttl (index_keys u) a)) k = None
        \<or> k \<in> r_volatile R (expire_own R i ttl (index_keys u) a)"
      if "k \<in> set (index_keys u)" "string_at (r_db R s) k = Some i" for k
      unfolding eff using that index_keys_index [OF that(1)] by (simp add: str)
  qed
qed

lemma failed_script_inv:
  assumes inv: "store_inv R s" and same: "\<And>v. pending_at R s i v \<Longrightarrow> index_keys v = index_keys u"
    and u: "task_json R u = Some p" "t_id u = i" "is_terminal (t_status u)"
  shows "store_inv R (snd (failed_script R (task_key i) (index_keys u) p ttl i s))"
proof -
  define a where "a = r_sadd R (r_zrem R (r_srem R (r_set R s (task_key i) p (Some ttl)) active_set_key i) active_age_key i)
    dlq_set_key i"
  have s': "snd (failed_script R (task_key i) (index_keys u) p ttl i s) = delete_own R i (index_keys u) a"
    by (simp add: failed_script_def a_def Let_def)
  have db: "r_db R a k = ((r_db R s)(task_key i \<mapsto> RString p)) k"
    if "k \<noteq> active_set_key" "k \<noteq> active_age_key" "k \<noteq> dlq_set_key" for k
    using that by (simp add: a_def)
  have vol: "k \<in> r_volatile R a \<longleftrightarrow> k = task_key i \<or> k \<in> r_volatile R s" if "k \<noteq> active_set_key" "k \<noteq> active_age_key" for k
    using that by (simp add: a_def)
  have str: "string_at (r_db R a) k = string_at (r_db R s) k" if "is_index k" for k
    using index_key_facts [OF that] db [of k] by (intro at_cong) simp
  have act: "set_at (r_db R a) active_set_key = set_at (r_db R s) active_set_key - {i}"
  proof -
    have "set_at (r_db R a) active_set_key
        = set_at (r_db R (r_srem R (r_set R s (task_key i) p (Some ttl)) active_set_key i)) active_set_key"
      unfolding a_def by (rule at_cong) simp
    then show ?thesis by (simp add: set_at_upd)
  qed
  have actv: "active_set_key \<notin> r_volatile R a"
  proof
    assume "active_set_key \<in> r_volatile R a"
    then have "active_set_key \<in> r_volatile R (r_srem R (r_set R s (task_key i) p (Some ttl)) active_set_key i)"
      by (simp add: a_def)
    then have "active_set_key \<in> r_volatile R (r_set R s (task_key i) p (Some ttl))" by (rule srem_volatile)
    then show False using inv by (simp add: store_inv_def active_exact_def)
  qed
  have eff: "string_at (r_db R (delete_own R i (index_keys u) a)) k =
      (if k \<in> set (index_keys u) \<and> string_at (r_db R a) k = Some i then None else string_at (r_db R a) k)" for k
    by (simp add: string_at_def delete_own_effect(1))
  note effv = delete_own_effect(2) [of i "index_keys u" a]
  show ?thesis
    unfolding s'
  proof (rule store_inv_terminal [OF inv same u])
    show "string_at (r_db R (delete_own R i (index_keys u) a)) (task_key i) = Some p"
      unfolding eff using active_not_index(2) [of i u] by (simp add: string_at_def db)
    show "task_key i \<in> r_volatile R (delete_own R i (index_keys u) a)"
      unfolding effv using active_not_index(2) [of i u] by (simp add: vol)
    show "string_at (r_db R (delete_own R i (index_keys u) a)) (task_key j) = string_at (r_db R s) (task_key j)"
      if "j \<noteq> i" for j
      unfolding eff using that active_not_index(2) [of j u] by (simp add: string_at_def db)
    show "task_key j \<in> r_volatile R (delete_own R i (index_keys u) a) \<longleftrightarrow> task_key j \<in> r_volatile R s"
      if "j \<noteq> i" for j
      unfolding effv using that active_not_index(2) [of j u] by (simp add: vol)
    have "r_db R (delete_own R i (index_keys u) a) active_set_key = r_db R a active_set_key"
      using active_not_index(1) [of u] by (simp add: delete_own_effect(1))
    then show "set_at (r_db R (delete_own R i (index_keys u) a)) active_set_key = set_at (r_db R s) active_set_key - {i}"
      using act at_cong(2) by metis
    show "active_set_key \<notin> r_volatile R (delete_own R i (index_keys u) a)"
      unfolding effv using actv by simp
    show "string_at (r_db R (delete_own R i (index_keys u) a)) k = string_at (r_db R s) k
        \<and> (k \<in> r_volatile R (delete_own R i (index_keys u) a) \<longleftrightarrow> k \<in> r_volatile R s)"
      if "is_index k" "k \<notin> set (index_keys u) \<or> string_at (r_db R s) k \<noteq> Some i" for k
      unfolding eff effv using that index_key_facts [OF that(1)] by (auto simp: str vol)
    show "string_at (r_db R (delete_own R i (index_keys u) a)) k = None
        \<or> k \<in> r_volatile R (delete_own R i (index_keys u) a)"
      if "k \<in> set (index_keys u)" "string_at (r_db R s) k = Some i" for k
      unfolding eff using that index_keys_index [OF that(1)] by (simp add: str)
  qed
qed

lemma admit_script_inv:
  assumes inv: "store_inv R s" and fresh: "string_at (r_db R s) (task_key i) = None"
    and t: "task_json R t = Some p" "t_id t = i" "\<not> is_terminal (t_status t)"
  shows "store_inv R (snd (admit_script R (task_key i) (content_active_key (t_content_hash t))
    (member_key_placeholders t) i p created s))"
proof (cases "string_at (r_db R s) (content_active_key (t_content_hash t))")
  case (Some existing)
  then show ?thesis using inv by (simp add: admit_script_def)
next
  case None
  let ?c = "content_active_key (t_content_hash t)" and ?ph = "member_key_placeholders t"
  define a where "a = r_set R (r_zadd R (r_sadd R (r_set R s (task_key i) p None) active_set_key i)
    active_age_key created i) ?c i None"
  define b where "b = claim_placeholders R i ?ph a"
  have s': "snd (admit_script R (task_key i) ?c ?ph i p created s) = b"
    by (simp add: admit_script_def None a_def b_def Let_def)
  have ph: "is_index k" if "k \<in> set ?ph" for k using that by (auto simp: member_key_placeholders_def)
  have db: "r_db R a k = ((r_db R s)(task_key i \<mapsto> RString p, ?c \<mapsto> RString i)) k"
    if "k \<noteq> active_set_key" "k \<noteq> active_age_key" for k
    using that by (simp add: a_def)
  have dbph: "r_db R a k = r_db R s k" if "k \<in> set ?ph" for k
    using that placeholder_not_content [OF that] index_key_facts [OF ph [OF that]] db [of k] by simp
  have str: "string_at (r_db R b) k = (if k \<in> set ?ph \<and> r_db R s k = None then Some i
      else if k = task_key i then Some p else if k = ?c then Some i else string_at (r_db R s) k)"
    if "k \<noteq> active_set_key" "k \<noteq> active_age_key" for k
    using that dbph [of k] placeholder_not_content [of k t]
    by (auto simp: string_at_def b_def claim_placeholders_effect(1) db)
  have vol: "k \<in> r_volatile R b \<longleftrightarrow> k \<in> r_volatile R s \<and> k \<noteq> task_key i \<and> k \<noteq> ?c \<and> \<not> (k \<in> set ?ph \<and> r_db R s k = None)" for k
    using dbph [of k] by (auto simp: b_def claim_placeholders_effect(2) a_def)
  have act: "set_at (r_db R b) active_set_key = insert i (set_at (r_db R s) active_set_key)"
  proof -
    have "active_set_key \<notin> set ?ph" using ph by fastforce
    then have "r_db R b active_set_key = r_db R a active_set_key" by (simp add: b_def claim_placeholders_effect(1))
    then have "set_at (r_db R b) active_set_key = set_at (r_db R a) active_set_key" by (rule at_cong)
    then show ?thesis by (simp add: a_def set_at_upd)
  qed
  have phk: "task_key j \<notin> set ?ph" for j using ph by fastforce
  have parse: "parse_task R p = Some t" by (rule serde_parse [OF t(1)])
  have new: "\<not> pending_at R s i v" for v using fresh by (simp add: pending_at_def task_at_def)
  have pend: "pending_at R b j v \<longleftrightarrow> (if j = i then v = t else pending_at R s j v)" for j v
    using t(3) phk [of j] by (auto simp: pending_at_def task_at_def str parse)
  have typed: "tasks_typed R s" using inv by (simp add: store_inv_def)
  have "tasks_typed R b"
    unfolding tasks_typed_def vol
  proof (intro allI impI)
    fix j q assume q: "string_at (r_db R b) (task_key j) = Some q"
    show "\<exists>u. task_json R u = Some q \<and> t_id u = j \<and> is_terminal (t_status u) =
      (task_key j \<in> r_volatile R s \<and> task_key j \<noteq> task_key i \<and> task_key j \<noteq> ?c
       \<and> \<not> (task_key j \<in> set ?ph \<and> r_db R s (task_key j) = None))"
    proof (cases "j = i")
      case True
      then show ?thesis using q t phk by (intro exI [of _ t]) (simp add: str)
    next
      case False
      then have "string_at (r_db R s) (task_key j) = Some q" using q phk by (simp add: str)
      then show ?thesis using typed False phk unfolding tasks_typed_def by simp
    qed
  qed
  moreover have "indexes_live R b"
    unfolding indexes_live_def
  proof (intro allI impI, elim conjE)
    fix k j assume k: "is_index k" "string_at (r_db R b) k = Some j" "k \<notin> r_volatile R b"
    note kf = index_key_facts [OF k(1)]
    consider (own) "k = ?c \<or> k \<in> set ?ph \<and> r_db R s k = None"
      | (old) "k \<noteq> ?c" "\<not> (k \<in> set ?ph \<and> r_db R s k = None)" by blast
    then show "\<exists>v. pending_at R b j v \<and> k \<in> set (index_keys v)"
    proof cases
      case own
      then have "j = i" using k(2) kf by (auto simp: str split: if_splits)
      then show ?thesis using own pend by (auto simp: index_keys_def)
    next
      case old
      then have "string_at (r_db R s) k = Some j" "k \<notin> r_volatile R s"
        using k(2,3) kf by (auto simp: str vol)
      then obtain v where v: "pending_at R s j v" "k \<in> set (index_keys v)"
        using inv k(1) unfolding store_inv_def indexes_live_def by blast
      then have "j \<noteq> i" using new by auto
      then show ?thesis using v pend by auto
    qed
  qed
  moreover have "content_claimed R b"
    unfolding content_claimed_def
  proof (intro allI impI)
    fix j v assume v: "pending_at R b j v"
    show "string_at (r_db R b) (content_active_key (t_content_hash v)) = Some j
        \<and> content_active_key (t_content_hash v) \<notin> r_volatile R b"
    proof (cases "j = i")
      case True
      then have "v = t" using v pend by simp
      then show ?thesis using True placeholder_not_content [of ?c t] by (auto simp: str vol)
    next
      case False
      then have "pending_at R s j v" using v pend by simp
      then have c: "string_at (r_db R s) (content_active_key (t_content_hash v)) = Some j"
        "content_active_key (t_content_hash v) \<notin> r_volatile R s"
        using inv unfolding store_inv_def content_claimed_def by blast+
      have "content_active_key (t_content_hash v) \<noteq> ?c" using c(1) None by auto
      moreover have "content_active_key (t_content_hash v) \<notin> set ?ph" using placeholder_not_content by blast
      ultimately show ?thesis using c by (simp add: str vol)
    qed
  qed
  moreover have "active_exact R b"
  proof -
    have "(\<exists>v. pending_at R b j v) = (j = i \<or> (\<exists>v. pending_at R s j v))" for j
      using pend [of j] by (cases "j = i") auto
    then show ?thesis using inv unfolding store_inv_def active_exact_def act by (simp add: vol)
  qed
  ultimately show ?thesis unfolding s' by (simp add: store_inv_def)
qed

section \<open>Operations\<close>

lemma query_inv:
  assumes "P (snd (r_next R s))" "\<And>s. P s \<Longrightarrow> I (snd (f s))" "\<And>s. P s \<Longrightarrow> I s"
  shows "I (snd (query R f s))"
proof -
  obtain d s' where n: "r_next R s = (d, s')" by (cases "r_next R s")
  obtain r s'' where f: "f s' = (r, s'')" by (cases "f s'")
  have "P s'" using assms(1) n by simp
  then have "I s''" "I s'" using assms(2) [of s'] assms(3) [of s'] f by simp_all
  then show ?thesis by (cases d) (simp_all add: query_def n f)
qed

lemma query_read: "snd (query R (\<lambda>s. (g s, s)) s) = snd (r_next R s)"
  by (simp add: query_def split: prod.split delivery.split)

lemma query_Inr: "query R f s = (Inr r, s') \<Longrightarrow> (r, s') = f (snd (r_next R s))"
  by (auto simp: query_def split: prod.splits delivery.splits)

lemma bind_op_inv:
  assumes "I (snd (m s))" "\<And>a s'. m s = (Inr a, s') \<Longrightarrow> I s' \<Longrightarrow> I (snd (f a s'))"
  shows "I (snd (bind_op m f s))"
  using assms by (auto simp: bind_op_def split: prod.splits sum.splits)

lemma get_task_state: "snd (get_task R i s) = snd (r_next R s)"
proof -
  have "snd (query R (\<lambda>s. (r_get R s (task_key i), s)) s) = snd (r_next R s)" by (rule query_read)
  then show ?thesis
    unfolding get_task_def bind_op_def return_op_def
    by (cases "query R (\<lambda>s. (r_get R s (task_key i), s)) s") (auto split: sum.splits)
qed

lemma get_task_Inr:
  assumes "get_task R i s = (Inr r, s')"
  shows "s' = snd (r_next R s)" "r = task_at R s' i"
proof -
  show s': "s' = snd (r_next R s)" using get_task_state [of i s] assms by simp
  obtain p where "query R (\<lambda>s. (r_get R s (task_key i), s)) s = (Inr p, s')"
    "r = (case p of None \<Rightarrow> None | Some p \<Rightarrow> parse_task R p)"
    using assms by (auto simp: get_task_def bind_op_def return_op_def split: prod.splits sum.splits)
  then show "r = task_at R s' i" using query_Inr s' by (fastforce simp: task_at_def)
qed

lemma get_task_inv: "store_inv R s \<Longrightarrow> store_inv R (snd (get_task R i s))"
  by (simp add: get_task_state store_inv_next)

lemma query_keeps:
  assumes "store_inv R s" "\<And>s. store_inv R s \<Longrightarrow> store_inv R (snd (f s))"
  shows "store_inv R (snd (query R f s))"
  by (rule query_inv [where P = "store_inv R"]) (use assms store_inv_next in auto)

lemma admit_inv:
  assumes "store_inv R s" "string_at (r_db R s) (task_key (t_id t)) = None" "\<not> is_terminal (t_status t)"
  shows "store_inv R (snd (admit R t s))"
proof -
  obtain p where p: "task_json R t = Some p" using serde by blast
  let ?f = "admit_script R (task_key (t_id t)) (content_active_key (t_content_hash t)) (member_key_placeholders t)
    (t_id t) p (sint (t_created_at t))"
  let ?P = "\<lambda>s. store_inv R s \<and> string_at (r_db R s) (task_key (t_id t)) = None"
  have "store_inv R (snd (query R ?f s))"
  proof (rule query_inv [where P = ?P])
    show "?P (snd (r_next R s))"
      using store_inv_next [OF assms(1)] next_string [of s "task_key (t_id t)"] assms(2)
      by (cases "string_at (r_db R (snd (r_next R s))) (task_key (t_id t))") auto
  qed (use admit_script_inv p assms(3) in auto)
  then show ?thesis
    unfolding admit_def p option.case run_script_def
    by (rule bind_op_inv) simp
qed

lemma transition_done_inv:
  assumes "store_inv R s" "\<And>v. pending_at R s (t_id u) v \<Longrightarrow> index_keys v = index_keys u" "is_terminal (t_status u)"
  shows "store_inv R (snd (transition_done R u s))"
proof -
  obtain p where p: "task_json R u = Some p" using serde by blast
  let ?P = "\<lambda>s. store_inv R s \<and> (\<forall>v. pending_at R s (t_id u) v \<longrightarrow> index_keys v = index_keys u)"
  have "?P (snd (r_next R s))"
    using store_inv_next assms(1,2) next_pending [of s] by (simp add: store_inv_def)
  then show ?thesis
    unfolding transition_done_def p option.case run_script_def index_keys_def [symmetric]
    by (rule query_inv [where P = ?P])
      (use done_script_inv p assms(3) in \<open>auto simp: TASK_DONE_TTL_def\<close>)
qed

lemma transition_failed_inv:
  assumes "store_inv R s" "\<And>v. pending_at R s (t_id u) v \<Longrightarrow> index_keys v = index_keys u" "is_terminal (t_status u)"
  shows "store_inv R (snd (transition_failed R u s))"
proof -
  obtain p where p: "task_json R u = Some p" using serde by blast
  let ?P = "\<lambda>s. store_inv R s \<and> (\<forall>v. pending_at R s (t_id u) v \<longrightarrow> index_keys v = index_keys u)"
  have "?P (snd (r_next R s))"
    using store_inv_next assms(1,2) next_pending [of s] by (simp add: store_inv_def)
  then show ?thesis
    unfolding transition_failed_def p option.case run_script_def index_keys_def [symmetric]
    by (rule query_inv [where P = ?P]) (use failed_script_inv p assms(3) in auto)
qed

lemma write_active_inv:
  assumes "store_inv R s" "pending_at R s (t_id u) t" "\<not> is_terminal (t_status u)" "index_keys u = index_keys t"
  shows "store_inv R (snd (write_active_task R u s))"
proof -
  obtain p where p: "task_json R u = Some p" using serde by blast
  let ?P = "\<lambda>s. store_inv R s \<and> pending_at R s (t_id u) t"
  have "?P (snd (r_next R s))"
    using store_inv_next assms(1,2) next_pending [of s] by (simp add: store_inv_def)
  then show ?thesis
    unfolding write_active_task_def set_task_def p option.case
  proof (rule query_inv [where P = ?P])
    fix s assume P: "?P s"
    have nv: "task_key (t_id u) \<notin> r_volatile R s"
      using P pending_nonvolatile(1) [of s "t_id u" t] by (simp add: store_inv_def)
    have "store_inv R (r_set R s (task_key (t_id u)) p None)"
      by (rule store_inv_rewrite [OF _ _ p refl assms(3,4)]) (use P nv in simp_all)
    then show "store_inv R (snd ((), r_set R s (task_key (t_id u)) p None))" by simp
  qed simp
qed

lemma pending_of_read:
  assumes "store_inv R s" "get_task R i s = (Inr (Some t), s')"
  shows "store_inv R s'" "task_at R s' i = Some t" "t_id t = i"
    "pending_at R s' i v \<Longrightarrow> index_keys v = index_keys t"
proof -
  show inv: "store_inv R s'" using get_task_inv [OF assms(1), of i] assms(2) by simp
  show at: "task_at R s' i = Some t" using get_task_Inr(2) [OF assms(2)] by simp
  show "t_id t = i" using stored_task(1) [OF _ at] inv by (simp add: store_inv_def)
  show "pending_at R s' i v \<Longrightarrow> index_keys v = index_keys t" using at by (simp add: pending_at_def)
qed

lemma mark_done_inv:
  assumes "store_inv R s"
  shows "store_inv R (snd (mark_done R i h n s))"
  unfolding mark_done_def
proof (rule bind_op_inv)
  fix found s' assume r: "get_task R i s = (Inr found, s')"
  show "store_inv R (snd ((case found of None \<Rightarrow> return_op None | Some task \<Rightarrow>
      let task = done_task h n task
      in bind_op (transition_done R task) (\<lambda>_. return_op (Some task))) s'))"
  proof (cases found)
    case None
    then show ?thesis using get_task_inv [OF assms, of i] r by (simp add: return_op_def)
  next
    case (Some t)
    note f = pending_of_read [OF assms r [unfolded Some]]
    show ?thesis
      unfolding Some option.case Let_def
      by (rule bind_op_inv, rule transition_done_inv)
        (use f in \<open>auto simp: return_op_def\<close>)
  qed
qed (rule get_task_inv [OF assms])

lemma mark_failed_inv:
  assumes "store_inv R s"
  shows "store_inv R (snd (mark_failed R i c m s))"
  unfolding mark_failed_def
proof (rule bind_op_inv)
  fix found s' assume r: "get_task R i s = (Inr found, s')"
  show "store_inv R (snd ((case found of None \<Rightarrow> return_op None | Some task \<Rightarrow>
      let task = failed_task c m task
      in bind_op (transition_failed R task) (\<lambda>_. return_op (Some task))) s'))"
  proof (cases found)
    case None
    then show ?thesis using get_task_inv [OF assms, of i] r by (simp add: return_op_def)
  next
    case (Some t)
    note f = pending_of_read [OF assms r [unfolded Some]]
    show ?thesis
      unfolding Some option.case Let_def
      by (rule bind_op_inv, rule transition_failed_inv)
        (use f in \<open>auto simp: return_op_def\<close>)
  qed
qed (rule get_task_inv [OF assms])

lemma record_transient_failure_inv:
  assumes "store_inv R s"
  shows "store_inv R (snd (record_transient_failure R i m s))"
  unfolding record_transient_failure_def
proof (rule bind_op_inv)
  fix found s' assume r: "get_task R i s = (Inr found, s')"
  have inv: "store_inv R s'" using get_task_inv [OF assms, of i] r by simp
  show "store_inv R (snd ((case found of None \<Rightarrow> return_op None | Some task \<Rightarrow>
      if is_terminal (t_status task) then return_op (Some task)
      else let task = retried_task m task
        in if 10 \<le> t_retries task
           then let task = exhausted_task task
                in bind_op (transition_failed R task) (\<lambda>_. return_op (Some task))
           else bind_op (write_active_task R task) (\<lambda>_. return_op (Some task))) s'))"
  proof (cases found)
    case None
    then show ?thesis using inv by (simp add: return_op_def)
  next
    case (Some t)
    note f = pending_of_read [OF assms r [unfolded Some]]
    let ?u = "retried_task m t"
    let ?x = "exhausted_task ?u"
    have failed: "store_inv R (snd (bind_op (transition_failed R ?x) (\<lambda>_. return_op (Some ?x)) s'))"
      by (rule bind_op_inv, rule transition_failed_inv) (use f in \<open>auto simp: return_op_def\<close>)
    have active: "store_inv R (snd (bind_op (write_active_task R ?u) (\<lambda>_. return_op (Some ?u)) s'))"
      if "\<not> is_terminal (t_status t)"
      by (rule bind_op_inv, rule write_active_inv [of _ _ t])
        (use f that in \<open>auto simp: return_op_def pending_at_def\<close>)
    show ?thesis
    proof (cases "is_terminal (t_status t)")
      case True
      then show ?thesis using inv by (simp only: Some option.case if_True return_op_def snd_conv)
    next
      case False
      show ?thesis
        unfolding Some option.case Let_def
        by (cases "10 \<le> t_retries ?u") (simp_all only: False if_True if_False failed active [OF False])
    qed
  qed
qed (rule get_task_inv [OF assms])

lemma swap_admitted_inv:
  assumes "store_inv R s" "t_id t = i" "\<not> is_terminal (t_status t)"
  shows "store_inv R (snd (swap_admitted R i t s))"
proof -
  obtain p q where p: "task_json R t = Some p" and q: "task_json R (t\<lparr>t_admitted := True\<rparr>) = Some q" using serde by blast
  have "store_inv R (snd (query R (swap_script R (task_key i) p q) s))"
  proof (rule query_keeps [OF assms(1)])
    fix s assume inv: "store_inv R s"
    show "store_inv R (snd (swap_script R (task_key i) p q s))"
    proof (cases "string_at (r_db R s) (task_key i) = Some p")
      case True
      then have "pending_at R s i t" using assms(3) serde_parse [OF p] by (simp add: pending_at_def task_at_def)
      then have "store_inv R (r_set_keepttl R s (task_key i) q)"
        using assms(2,3) by (intro store_inv_rewrite [OF inv _ q]) (simp_all add: index_keys_def member_key_placeholders_def)
      then show ?thesis using True by (simp add: swap_script_def)
    next
      case False
      then show ?thesis using inv by (simp add: swap_script_def)
    qed
  qed
  then show ?thesis
    unfolding swap_admitted_def p q option.case Let_def run_script_def
    by (rule bind_op_inv) (simp add: return_op_def get_task_inv)
qed

lemma mark_admitted_inv:
  assumes "store_inv R s"
  shows "store_inv R (snd (mark_admitted R i s))"
  unfolding mark_admitted_def
proof (rule bind_op_inv)
  fix found s' assume r: "get_task R i s = (Inr found, s')"
  have inv: "store_inv R s'" using get_task_inv [OF assms, of i] r by simp
  show "store_inv R (snd ((case found of None \<Rightarrow> return_op None | Some before \<Rightarrow>
      if is_terminal (t_status before) then return_op (Some before) else swap_admitted R i before) s'))"
  proof (cases found)
    case None
    then show ?thesis using inv by (simp add: return_op_def)
  next
    case (Some t)
    then show ?thesis
      using inv swap_admitted_inv [OF inv pending_of_read(3) [OF assms r [unfolded Some]]] by (simp add: return_op_def)
  qed
qed (rule get_task_inv [OF assms])

lemma find_by_index_inv:
  assumes "store_inv R s"
  shows "store_inv R (snd (find_by_index R k s))"
  unfolding find_by_index_def
proof (rule bind_op_inv)
  show "store_inv R (snd (query R (\<lambda>s. (r_get R s k, s)) s))"
    by (rule query_keeps [OF assms]) simp
qed (simp add: return_op_def get_task_inv split: option.split)

text \<open>Operations on keys of their own.\<close>

lemma own_key_inv:
  assumes "store_inv R s" "\<not> is_index k" "k \<notin> range task_key" "k \<noteq> active_set_key"
    and "\<And>k'. k' \<noteq> k \<Longrightarrow> r_db R s' k' = r_db R s k'"
    and "\<And>k'. k' \<noteq> k \<Longrightarrow> k' \<in> r_volatile R s' \<longleftrightarrow> k' \<in> r_volatile R s"
  shows "store_inv R s'" "task_at R s' = task_at R s"
proof -
  have str: "string_at (r_db R s') k' = string_at (r_db R s) k'" if "is_index k' \<or> k' \<in> range task_key" for k'
    using assms(2,3) assms(5) [of k'] that by (intro at_cong) auto
  have vol: "k' \<in> r_volatile R s' \<longleftrightarrow> k' \<in> r_volatile R s"
    if "is_index k' \<or> k' \<in> range task_key \<or> k' = active_set_key" for k'
    using assms(2,3,4) assms(6) [of k'] that by auto
  have act: "set_at (r_db R s') active_set_key = set_at (r_db R s) active_set_key"
    using assms(4) assms(5) [of active_set_key] by (intro at_cong) auto
  show "store_inv R s'" "task_at R s' = task_at R s"
    using store_inv_view [OF str vol act] assms(1) by auto
qed

lemma other_keys [simp]:
  "retry_digest_key h \<noteq> active_set_key" "broadcast_ledger_key \<noteq> active_set_key" "cache_key X h \<noteq> active_set_key"
  "retry_digest_key h \<notin> range task_key" "broadcast_ledger_key \<notin> range task_key" "cache_key X h \<notin> range task_key"
  by (auto simp: task_key_def retry_digest_key_def active_set_key_def broadcast_ledger_key_def cache_key_def)

lemma own_query_inv:
  assumes "store_inv R s" "\<not> is_index k" "k \<notin> range task_key" "k \<noteq> active_set_key"
    and "\<And>s k'. k' \<noteq> k \<Longrightarrow> r_db R (snd (f s)) k' = r_db R s k'"
    and "\<And>s k'. k' \<noteq> k \<Longrightarrow> k' \<in> r_volatile R (snd (f s)) \<longleftrightarrow> k' \<in> r_volatile R s"
  shows "store_inv R (snd (query R f s))"
proof (rule query_keeps [OF assms(1)])
  fix s assume "store_inv R s"
  then show "store_inv R (snd (f s))" by (rule own_key_inv(1) [OF _ assms(2-6)])
qed

lemma record_retry_digest_inv:
  "store_inv R s \<Longrightarrow> store_inv R (snd (record_retry_digest R d i ttl s))"
  unfolding record_retry_digest_def
  by (rule own_query_inv [where k = "retry_digest_key d"]) simp_all

lemma record_pending_tx_inv:
  assumes "store_inv R s"
  shows "store_inv R (snd (record_pending_tx R role nonce h sent n fees s))"
proof -
  have "store_inv R (snd (query R (\<lambda>s. ((), r_hset R s broadcast_ledger_key f p)) s))" for f p
    by (rule own_query_inv [OF assms, where k = broadcast_ledger_key]) simp_all
  then show ?thesis using assms unfolding record_pending_tx_def by (simp add: fail_op_def split: option.split)
qed

lemma delete_pending_tx_inv:
  "store_inv R s \<Longrightarrow> store_inv R (snd (delete_pending_tx R role nonce s))"
  unfolding delete_pending_tx_def
  by (rule own_query_inv [where k = broadcast_ledger_key]) simp_all

lemma write_cache_inv:
  assumes "store_inv R s"
  shows "store_inv R (snd (write_cache X R now key v fresh retention s))"
proof -
  have "store_inv R (snd (query R (\<lambda>s. ((), r_set R s (cache_key X key) p (Some retention))) s))" for p
    by (rule own_query_inv [OF assms, where k = "cache_key X key"]) simp_all
  then show ?thesis using assms unfolding write_cache_def by (simp add: fail_op_def split: option.split)
qed

section \<open>What the operations do to the tasks\<close>

lemma task_at_set:
  assumes "task_json R u = Some p" "\<And>k. k \<in> range task_key \<Longrightarrow> r_db R s' k = ((r_db R s)(task_key i \<mapsto> RString p)) k"
  shows "task_at R s' = (task_at R s)(i \<mapsto> u)"
proof
  fix j
  have "string_at (r_db R s') (task_key j) = (if j = i then Some p else string_at (r_db R s) (task_key j))"
    using assms(2) [of "task_key j"] by (simp add: string_at_def)
  then show "task_at R s' j = ((task_at R s)(i \<mapsto> u)) j"
    using serde_parse [OF assms(1)] by (simp add: task_at_def)
qed

lemma done_script_tasks:
  assumes "task_json R u = Some p" "0 < ttl"
  shows "task_at R (snd (done_script R (task_key i) (index_keys u) p ttl i s)) = (task_at R s)(i \<mapsto> u)"
  by (rule task_at_set [OF assms(1)]) (auto simp: done_script_def Let_def expire_own_effect [OF assms(2)])

lemma failed_script_tasks:
  assumes "task_json R u = Some p"
  shows "task_at R (snd (failed_script R (task_key i) (index_keys u) p ttl i s)) = (task_at R s)(i \<mapsto> u)"
proof (rule task_at_set [OF assms])
  fix k assume "k \<in> range task_key"
  then obtain j where k: "k = task_key j" by blast
  show "r_db R (snd (failed_script R (task_key i) (index_keys u) p ttl i s)) k = ((r_db R s)(task_key i \<mapsto> RString p)) k"
    unfolding k using active_not_index(2) [of j u]
    by (simp add: failed_script_def Let_def delete_own_effect(1))
qed

lemma admit_script_tasks:
  assumes "task_json R t = Some p"
  shows "task_at R (snd (admit_script R (task_key i) (content_active_key h) (member_key_placeholders t) i p created s)) =
    (if string_at (r_db R s) (content_active_key h) = None then (task_at R s)(i \<mapsto> t) else task_at R s)"
proof (cases "string_at (r_db R s) (content_active_key h)")
  case None
  have "task_at R (snd (admit_script R (task_key i) (content_active_key h) (member_key_placeholders t) i p created s))
      = (task_at R s)(i \<mapsto> t)"
  proof (rule task_at_set [OF assms])
    fix k assume "k \<in> range task_key"
    then obtain j where k: "k = task_key j" by blast
    have "task_key j \<notin> set (member_key_placeholders t)" by (auto simp: member_key_placeholders_def)
    then show "r_db R (snd (admit_script R (task_key i) (content_active_key h) (member_key_placeholders t) i p created s)) k
        = ((r_db R s)(task_key i \<mapsto> RString p)) k"
      using None unfolding k by (simp add: admit_script_def Let_def claim_placeholders_effect(1))
  qed
  then show ?thesis using None by simp
qed (simp add: admit_script_def)

lemma write_active_tasks:
  "task_json R u = Some p \<Longrightarrow> task_at R (r_set R s (task_key i) p px) = (task_at R s)(i \<mapsto> u)"
  by (rule task_at_set) auto

subsection \<open>Settled tasks stay settled\<close>

lemma settled_next: "settled (task_at R s i) \<Longrightarrow> settled (task_at R (snd (r_next R s)) i)"
  using next_task [of s i] by (cases "task_at R (snd (r_next R s)) i") (auto simp: settled_def)

lemma settled_get_task: "settled (task_at R s i) \<Longrightarrow> settled (task_at R (snd (get_task R j s)) i)"
  by (simp add: get_task_state settled_next)

lemma settled_query:
  assumes "settled (task_at R s i)" "\<And>s. settled (task_at R s i) \<Longrightarrow> settled (task_at R (snd (f s)) i)"
  shows "settled (task_at R (snd (query R f s)) i)"
  by (rule query_inv [where P = "\<lambda>s. settled (task_at R s i)"]) (use assms settled_next in auto)

lemma settled_transition:
  assumes "settled (task_at R s i)" "is_terminal (t_status u)"
  shows "settled (task_at R (snd (transition_done R u s)) i)" "settled (task_at R (snd (transition_failed R u s)) i)"
proof -
  obtain p where p: "task_json R u = Some p" using serde by blast
  have upd: "settled (Some u)" using assms(2) by (simp add: settled_def)
  show "settled (task_at R (snd (transition_done R u s)) i)"
    unfolding transition_done_def p option.case run_script_def index_keys_def [symmetric]
    by (rule settled_query [OF assms(1)]) (simp add: done_script_tasks [OF p] TASK_DONE_TTL_def upd)
  show "settled (task_at R (snd (transition_failed R u s)) i)"
    unfolding transition_failed_def p option.case run_script_def index_keys_def [symmetric]
    by (rule settled_query [OF assms(1)]) (simp add: failed_script_tasks [OF p] upd)
qed

lemma settled_bind:
  assumes "settled (task_at R (snd (m s)) i)"
    and "\<And>a s'. m s = (Inr a, s') \<Longrightarrow> settled (task_at R s' i) \<Longrightarrow> settled (task_at R (snd (f a s')) i)"
  shows "settled (task_at R (snd (bind_op m f s)) i)"
  by (rule bind_op_inv [where I = "\<lambda>s. settled (task_at R s i)"]) (use assms in auto)

lemma settled_mark_done:
  assumes "settled (task_at R s i)"
  shows "settled (task_at R (snd (mark_done R j h n s)) i)"
  unfolding mark_done_def
proof (rule settled_bind)
  fix found s' assume s': "settled (task_at R s' i)"
  show "settled (task_at R (snd ((case found of None \<Rightarrow> return_op None | Some task \<Rightarrow>
      let task = done_task h n task
      in bind_op (transition_done R task) (\<lambda>_. return_op (Some task))) s')) i)"
  proof (cases found)
    case (Some t)
    show ?thesis
      unfolding Some option.case Let_def
      by (rule settled_bind, rule settled_transition(1) [OF s']) (simp_all add: return_op_def)
  qed (use s' in \<open>simp add: return_op_def\<close>)
qed (rule settled_get_task [OF assms])

lemma settled_mark_failed:
  assumes "settled (task_at R s i)"
  shows "settled (task_at R (snd (mark_failed R j c m s)) i)"
  unfolding mark_failed_def
proof (rule settled_bind)
  fix found s' assume s': "settled (task_at R s' i)"
  show "settled (task_at R (snd ((case found of None \<Rightarrow> return_op None | Some task \<Rightarrow>
      let task = failed_task c m task
      in bind_op (transition_failed R task) (\<lambda>_. return_op (Some task))) s')) i)"
  proof (cases found)
    case (Some t)
    show ?thesis
      unfolding Some option.case Let_def
      by (rule settled_bind, rule settled_transition(2) [OF s']) (simp_all add: return_op_def)
  qed (use s' in \<open>simp add: return_op_def\<close>)
qed (rule settled_get_task [OF assms])

lemma settled_record_transient_failure:
  assumes inv: "store_inv R s" and st: "settled (task_at R s i)"
  shows "settled (task_at R (snd (record_transient_failure R j m s)) i)"
  unfolding record_transient_failure_def
proof (rule settled_bind)
  fix found s' assume r: "get_task R j s = (Inr found, s')" and s': "settled (task_at R s' i)"
  show "settled (task_at R (snd ((case found of None \<Rightarrow> return_op None | Some task \<Rightarrow>
      if is_terminal (t_status task) then return_op (Some task)
      else let task = retried_task m task
        in if 10 \<le> t_retries task
           then let task = exhausted_task task
                in bind_op (transition_failed R task) (\<lambda>_. return_op (Some task))
           else bind_op (write_active_task R task) (\<lambda>_. return_op (Some task))) s')) i)"
  proof (cases found)
    case None
    then show ?thesis using s' by (simp add: return_op_def)
  next
    case (Some t)
    note f = pending_of_read [OF inv r [unfolded Some]]
    let ?u = "retried_task m t"
    let ?x = "exhausted_task ?u"
    show ?thesis
    proof (cases "is_terminal (t_status t)")
      case True
      then show ?thesis using s' by (simp only: Some option.case if_True return_op_def snd_conv)
    next
      case False
      have "j \<noteq> i" using False f(2) s' by (auto simp: settled_def)
      obtain p where p: "task_json R ?u = Some p" using serde by blast
      have failed: "settled (task_at R (snd (bind_op (transition_failed R ?x) (\<lambda>_. return_op (Some ?x)) s')) i)"
        by (rule settled_bind, rule settled_transition(2) [OF s']) (simp_all add: return_op_def)
      have "settled (task_at R (snd (write_active_task R ?u s')) i)"
        unfolding write_active_task_def set_task_def p option.case
        by (rule settled_query [OF s']) (use \<open>j \<noteq> i\<close> f(3) in \<open>simp add: write_active_tasks [OF p]\<close>)
      then have active: "settled (task_at R (snd (bind_op (write_active_task R ?u) (\<lambda>_. return_op (Some ?u)) s')) i)"
        by (rule settled_bind) (simp add: return_op_def)
      show ?thesis
        unfolding Some option.case Let_def
        by (cases "10 \<le> t_retries ?u") (simp_all only: False if_True if_False failed active)
    qed
  qed
qed (rule settled_get_task [OF st])

subsection \<open>Results\<close>

lemma transition_done_Inr:
  assumes "transition_done R u s = (Inr x, s')"
  shows "task_at R s' = (task_at R (snd (r_next R s)))(t_id u \<mapsto> u)"
proof -
  obtain p where p: "task_json R u = Some p" using serde by blast
  have "s' = snd (done_script R (task_key (t_id u)) (index_keys u) p TASK_DONE_TTL (t_id u) (snd (r_next R s)))"
    using assms query_Inr unfolding transition_done_def p option.case run_script_def index_keys_def [symmetric]
    by (metis snd_conv)
  then show ?thesis using done_script_tasks [OF p, of TASK_DONE_TTL] by (simp add: TASK_DONE_TTL_def)
qed

lemma transition_failed_Inr:
  assumes "transition_failed R u s = (Inr x, s')"
  shows "task_at R s' = (task_at R (snd (r_next R s)))(t_id u \<mapsto> u)"
proof -
  obtain p where p: "task_json R u = Some p" using serde by blast
  have "s' = snd (failed_script R (task_key (t_id u)) (index_keys u) p TASK_FAILED_TTL (t_id u) (snd (r_next R s)))"
    using assms query_Inr unfolding transition_failed_def p option.case run_script_def index_keys_def [symmetric]
    by (metis snd_conv)
  then show ?thesis using failed_script_tasks [OF p] by simp
qed

lemma write_active_Inr:
  assumes "write_active_task R u s = (Inr x, s')"
  shows "task_at R s' = (task_at R (snd (r_next R s)))(t_id u \<mapsto> u)"
proof -
  obtain p where p: "task_json R u = Some p" using serde by blast
  have "s' = r_set R (snd (r_next R s)) (task_key (t_id u)) p None"
    using assms query_Inr unfolding write_active_task_def set_task_def p option.case
    by (metis (no_types, lifting) prod.inject)
  then show ?thesis using write_active_tasks [OF p] by simp
qed

lemma mark_done_result:
  assumes inv: "store_inv R s" and r: "mark_done R i h n s = (Inr r, s')"
  shows "task_at R s' i = r" "r = map_option (done_task h n) (task_at R (snd (r_next R s)) i)"
proof -
  obtain found s1 where g: "get_task R i s = (Inr found, s1)"
    and rest: "(case found of None \<Rightarrow> return_op None | Some task \<Rightarrow> let task = done_task h n task
       in bind_op (transition_done R task) (\<lambda>_. return_op (Some task))) s1 = (Inr r, s')"
    using r unfolding mark_done_def bind_op_Inr by blast
  have s1: "s1 = snd (r_next R s)" "found = task_at R s1 i" using get_task_Inr [OF g] by blast+
  have "task_at R s' i = r \<and> r = map_option (done_task h n) (task_at R (snd (r_next R s)) i)"
  proof (cases found)
    case None
    then show ?thesis
      using rest s1 by (simp_all add: return_op_def)
  next
    case (Some t)
    have "t_id t = i" by (rule pending_of_read(3) [OF inv g [unfolded Some]])
    moreover obtain x where "transition_done R (done_task h n t) s1 = (Inr x, s')" "r = Some (done_task h n t)"
      using rest unfolding Some option.case Let_def bind_op_Inr return_op_def by blast
    ultimately show ?thesis
      using transition_done_Inr s1 Some by fastforce
  qed
  then show "task_at R s' i = r" "r = map_option (done_task h n) (task_at R (snd (r_next R s)) i)" by blast+
qed

lemma mark_failed_result:
  assumes inv: "store_inv R s" and r: "mark_failed R i c m s = (Inr r, s')"
  shows "task_at R s' i = r" "r = map_option (failed_task c m) (task_at R (snd (r_next R s)) i)"
proof -
  obtain found s1 where g: "get_task R i s = (Inr found, s1)"
    and rest: "(case found of None \<Rightarrow> return_op None | Some task \<Rightarrow> let task = failed_task c m task
       in bind_op (transition_failed R task) (\<lambda>_. return_op (Some task))) s1 = (Inr r, s')"
    using r unfolding mark_failed_def bind_op_Inr by blast
  have s1: "s1 = snd (r_next R s)" "found = task_at R s1 i" using get_task_Inr [OF g] by blast+
  have "task_at R s' i = r \<and> r = map_option (failed_task c m) (task_at R (snd (r_next R s)) i)"
  proof (cases found)
    case None
    then show ?thesis
      using rest s1 by (simp_all add: return_op_def)
  next
    case (Some t)
    have "t_id t = i" by (rule pending_of_read(3) [OF inv g [unfolded Some]])
    moreover obtain x where "transition_failed R (failed_task c m t) s1 = (Inr x, s')" "r = Some (failed_task c m t)"
      using rest unfolding Some option.case Let_def bind_op_Inr return_op_def by blast
    ultimately show ?thesis
      using transition_failed_Inr s1 Some by fastforce
  qed
  then show "task_at R s' i = r" "r = map_option (failed_task c m) (task_at R (snd (r_next R s)) i)" by blast+
qed

lemma record_transient_failure_result:
  assumes inv: "store_inv R s" and r: "record_transient_failure R i m s = (Inr r, s')"
  shows "task_at R s' i = r" "r = map_option (after_retry m) (task_at R (snd (r_next R s)) i)"
proof -
  obtain found s1 where g: "get_task R i s = (Inr found, s1)"
    and rest: "(case found of None \<Rightarrow> return_op None | Some task \<Rightarrow>
      if is_terminal (t_status task) then return_op (Some task)
      else let task = retried_task m task
        in if 10 \<le> t_retries task
           then let task = exhausted_task task
                in bind_op (transition_failed R task) (\<lambda>_. return_op (Some task))
           else bind_op (write_active_task R task) (\<lambda>_. return_op (Some task))) s1 = (Inr r, s')"
    using r unfolding record_transient_failure_def bind_op_Inr by blast
  have s1: "s1 = snd (r_next R s)" "found = task_at R s1 i" using get_task_Inr [OF g] by blast+
  have "task_at R s' i = r \<and> r = map_option (after_retry m) (task_at R (snd (r_next R s)) i)"
  proof (cases found)
    case None
    then show ?thesis
      using rest s1 by (simp_all add: return_op_def)
  next
    case (Some t)
    have t: "t_id t = i" "task_at R (snd (r_next R s)) i = Some t"
      using pending_of_read(2,3) [OF inv g [unfolded Some]] s1(1) by simp_all
    let ?u = "retried_task m t"
    consider (terminal) "is_terminal (t_status t)" "r = Some t" "s' = s1"
      | (exhausted) x where "\<not> is_terminal (t_status t)" "10 \<le> t_retries ?u"
          "transition_failed R (exhausted_task ?u) s1 = (Inr x, s')" "r = Some (exhausted_task ?u)"
      | (active) x where "\<not> is_terminal (t_status t)" "\<not> 10 \<le> t_retries ?u"
          "write_active_task R ?u s1 = (Inr x, s')" "r = Some ?u"
      using rest unfolding Some option.case Let_def return_op_def
      by (cases "is_terminal (t_status t)"; cases "10 \<le> t_retries ?u") (auto simp: bind_op_Inr)
    then show ?thesis
    proof cases
      case terminal
      then show ?thesis using s1(1) t by (simp add: after_retry_def)
    next
      case exhausted
      then show ?thesis using s1(1) t transition_failed_Inr [OF exhausted(3)] by (simp add: after_retry_def)
    next
      case active
      then show ?thesis using s1(1) t write_active_Inr [OF active(3)] by (simp add: after_retry_def)
    qed
  qed
  then show "task_at R s' i = r" "r = map_option (after_retry m) (task_at R (snd (r_next R s)) i)" by blast+
qed

lemma split_once_tag [simp]:
  "split_once CHR ''|'' (''new|'' @ x) = Some (''new'', x)"
  "split_once CHR ''|'' (''existing|'' @ x) = Some (''existing'', x)"
  by simp_all

lemma admit_result:
  assumes "admit R t s = (Inr r, s')"
  defines "c \<equiv> content_active_key (t_content_hash t)"
  shows "string_at (r_db R (snd (r_next R s))) c = None \<Longrightarrow>
      r = New (t_id t) \<and> task_at R s' = (task_at R (snd (r_next R s)))(t_id t \<mapsto> t)"
    "string_at (r_db R (snd (r_next R s))) c = Some i \<Longrightarrow> r = Existing i \<and> s' = snd (r_next R s)"
proof -
  obtain p where p: "task_json R t = Some p" using serde by blast
  let ?f = "admit_script R (task_key (t_id t)) c (member_key_placeholders t) (t_id t) p (sint (t_created_at t))"
  obtain resp where q: "query R ?f s = (Inr resp, s')" and resp: "admission_response resp = Inr r"
    using assms(1) unfolding admit_def p option.case run_script_def bind_op_Inr c_def by auto
  have f: "(resp, s') = ?f (snd (r_next R s))" by (rule query_Inr [OF q])
  show "r = New (t_id t) \<and> task_at R s' = (task_at R (snd (r_next R s)))(t_id t \<mapsto> t)"
    if "string_at (r_db R (snd (r_next R s))) c = None"
  proof -
    have "resp = ''new|'' @ t_id t" using f that by (simp add: admit_script_def Let_def)
    then have "r = New (t_id t)" using resp by (simp add: admission_response_def)
    moreover have "s' = snd (?f (snd (r_next R s)))" using f by (metis snd_conv)
    then have "task_at R s' = (task_at R (snd (r_next R s)))(t_id t \<mapsto> t)"
      using admit_script_tasks [OF p, of "t_id t" "t_content_hash t"] that by (simp add: c_def)
    ultimately show ?thesis by blast
  qed
  show "r = Existing i \<and> s' = snd (r_next R s)" if "string_at (r_db R (snd (r_next R s))) c = Some i"
  proof -
    have "resp = ''existing|'' @ i" "s' = snd (r_next R s)" using f that by (simp_all add: admit_script_def)
    then show ?thesis using resp by (simp add: admission_response_def)
  qed
qed

text \<open>The compare-and-swap changes nothing but the very record that was read.\<close>

lemma swap_admitted_tasks:
  assumes "task_at R (snd (swap_admitted R i before s)) j = Some u"
  shows "task_at R s j = Some u \<or> j = i \<and> task_at R s i = Some before \<and> u = before\<lparr>t_admitted := True\<rparr>"
proof -
  let ?new = "before\<lparr>t_admitted := True\<rparr>"
  define old where "old s' = (\<forall>j u. task_at R s' j = Some u \<longrightarrow> task_at R s j = Some u)" for s'
  define good where "good s' = (\<forall>j u. task_at R s' j = Some u \<longrightarrow>
    task_at R s j = Some u \<or> j = i \<and> task_at R s i = Some before \<and> u = ?new)" for s'
  have old_good: "good s'" if "old s'" for s' using that unfolding old_def good_def by blast
  have good_next: "good (snd (r_next R s'))" if "good s'" for s'
    unfolding good_def
  proof (intro allI impI)
    fix j u assume "task_at R (snd (r_next R s')) j = Some u"
    then have "task_at R s' j = Some u" by (rule next_task)
    then show "task_at R s j = Some u \<or> j = i \<and> task_at R s i = Some before \<and> u = ?new"
      using that unfolding good_def by blast
  qed
  obtain p q where p: "task_json R before = Some p" and q: "task_json R ?new = Some q" using serde by blast
  have swap: "good (snd (query R (swap_script R (task_key i) p q) s))"
  proof (rule query_inv [where P = old])
    show "old (snd (r_next R s))" unfolding old_def using next_task by blast
    fix s' assume o: "old s'"
    then show "good s'" by (rule old_good)
    show "good (snd (swap_script R (task_key i) p q s'))"
    proof (cases "string_at (r_db R s') (task_key i) = Some p")
      case True
      then have "task_at R s' i = Some before" using serde_parse [OF p] by (simp add: task_at_def)
      then have b: "task_at R s i = Some before" using o unfolding old_def by blast
      have "task_at R (r_set_keepttl R s' (task_key i) q) = (task_at R s')(i \<mapsto> ?new)"
        by (rule task_at_set [OF q]) simp
      then have "good (r_set_keepttl R s' (task_key i) q)" using o b unfolding old_def good_def by simp
      then show ?thesis using True by (simp add: swap_script_def)
    next
      case False
      then show ?thesis using old_good [OF o] by (simp add: swap_script_def)
    qed
  qed
  have "good (snd (swap_admitted R i before s))"
    unfolding swap_admitted_def p q option.case Let_def run_script_def
    by (rule bind_op_inv [where I = good], rule swap) (simp add: return_op_def get_task_state good_next)
  then show ?thesis using assms unfolding good_def by blast
qed

section \<open>Counters\<close>

lemma incr:
  assumes "counter_at (r_db R s) k = Some n" "n + 1 < 2 ^ 63"
  shows "fst (r_incr R s k) = of_nat (n + 1)"
    "r_db R (snd (r_incr R s k)) k = Some (RString (decimal (n + 1)))"
    "k \<in> r_volatile R (snd (r_incr R s k)) \<longleftrightarrow> k \<in> r_volatile R s"
    "counter_at (r_db R (snd (r_incr R s k))) k = Some (n + 1)"
proof -
  have "incr_ok R" using ok by (simp add: services_ok_def)
  then show "fst (r_incr R s k) = of_nat (n + 1)"
    "r_db R (snd (r_incr R s k)) k = Some (RString (decimal (n + 1)))"
    "k \<in> r_volatile R (snd (r_incr R s k)) \<longleftrightarrow> k \<in> r_volatile R s"
    using assms unfolding incr_ok_def by blast+
  then show "counter_at (r_db R (snd (r_incr R s k))) k = Some (n + 1)"
    using assms(2) by (simp add: counter_at_def parse_unsigned_decimal)
qed

lemma incr_frame:
  "k' \<noteq> k \<Longrightarrow> r_db R (snd (r_incr R s k)) k' = r_db R s k'"
  "k' \<noteq> k \<Longrightarrow> k' \<in> r_volatile R (snd (r_incr R s k)) \<longleftrightarrow> k' \<in> r_volatile R s"
proof -
  have "incr_ok R" using ok by (simp add: services_ok_def)
  then show "k' \<noteq> k \<Longrightarrow> r_db R (snd (r_incr R s k)) k' = r_db R s k'"
    "k' \<noteq> k \<Longrightarrow> k' \<in> r_volatile R (snd (r_incr R s k)) \<longleftrightarrow> k' \<in> r_volatile R s"
    unfolding incr_ok_def by blast+
qed

lemma increment_minute_inv:
  assumes "store_inv R s" "\<not> is_index k" "k \<notin> range task_key" "k \<noteq> active_set_key"
  shows "store_inv R (snd (increment_minute R k s))"
  unfolding increment_minute_def
proof (rule bind_op_inv)
  show "store_inv R (snd (query R (\<lambda>s. r_incr R s k) s))"
    by (rule own_query_inv [OF assms]) (simp_all add: incr_frame)
  fix c s' assume inv: "store_inv R s'"
  have "store_inv R (snd (query R (\<lambda>s. ((), r_pexpire R s k 60000)) s'))"
    by (rule own_query_inv [OF inv assms(2-4)]) simp_all
  then show "store_inv R (snd ((if c = 1 then bind_op (query R (\<lambda>s. ((), r_pexpire R s k 60000))) (\<lambda>_. return_op c)
      else return_op c) s'))"
    using inv by (auto simp: return_op_def intro: bind_op_inv)
qed

end

end
