(* ===== verification/Store_Properties.thy ===== *)
theory Store_Properties
  imports Store_Laws Samples
begin

text \<open>
  The properties of the Redis store: its invariant over every sequence of operations with lost
  commands and expiring keys, admission by content, the compare-and-swap of \<^verbatim>\<open>mark_admitted\<close>, the
  retry budget, the rate counters, the cache and the broadcast ledger.
\<close>

section \<open>Histories of the store\<close>

text \<open>One operation of the service on the store.  Task ids are fresh when a task is admitted.\<close>

inductive store_step :: "externs \<Rightarrow> 's services \<Rightarrow> 's \<Rightarrow> 's \<Rightarrow> bool" for X :: externs and R :: "'s services" where
  step_admit: "\<not> is_terminal (t_status t) \<Longrightarrow> string_at (r_db R s) (task_key (t_id t)) = None
     \<Longrightarrow> store_step X R s (snd (admit R t s))"
| step_get: "store_step X R s (snd (get_task R i s))"
| step_content: "store_step X R s (snd (find_by_content R h s))"
| step_public_key: "store_step X R s (snd (find_by_public_key R h s))"
| step_find_digest: "store_step X R s (snd (find_by_retry_digest R d s))"
| step_stats: "store_step X R s (snd (queue_stats_op R now s))"
| step_list: "store_step X R s (snd (list_pending_txs R before s))"
| step_cache_get: "store_step X R s (snd (cache_get X R now key lim s))"
| step_retry_digest: "store_step X R s (snd (record_retry_digest R d i ttl s))"
| step_admitted: "store_step X R s (snd (mark_admitted R i s))"
| step_swap: "\<not> is_terminal (t_status t) \<Longrightarrow> t_id t = i \<Longrightarrow> store_step X R s (snd (swap_admitted R i t s))"
| step_done: "store_step X R s (snd (mark_done R i h n s))"
| step_transient: "store_step X R s (snd (record_transient_failure R i m s))"
| step_failed: "store_step X R s (snd (mark_failed R i c m s))"
| step_ledger: "store_step X R s (snd (record_pending_tx R role nonce h sent a fees s))"
| step_unledger: "store_step X R s (snd (delete_pending_tx R role nonce s))"
| step_ip: "store_step X R s (snd (allow_ip_create R ip s))"
| step_global: "store_step X R s (snd (allow_global_create R lim s))"
| step_read: "store_step X R s (snd (allow_read R ip s))"
| step_cache: "store_step X R s (snd (cache_set X R now key v stats s))"
| step_negative: "store_step X R s (snd (cache_set_negative X R now key s))"

inductive_cases store_step_elim: "store_step X R s s'"

lemma rate_keys:
  "\<not> is_index (''p256-index:rate:'' @ k)" "''p256-index:rate:'' @ k \<notin> range task_key"
  "''p256-index:rate:'' @ k \<noteq> active_set_key"
  by (auto simp: is_index_def task_key_def content_active_key_def key_active_key_def active_set_key_def)

context redis_laws
begin

lemma allow_inv:
  assumes "store_inv R s"
  shows "store_inv R (snd (allow_ip_create R ip s))" "store_inv R (snd (allow_global_create R lim s))"
    "store_inv R (snd (allow_read R ip s))"
proof -
  have i: "store_inv R (snd (increment_minute R (''p256-index:rate:'' @ k) s))" for k
    by (rule increment_minute_inv [OF assms rate_keys])
  have b: "store_inv R (snd (bind_op (increment_minute R (''p256-index:rate:'' @ k)) (\<lambda>c. return_op (c \<le> l)) s))" for k l
    by (rule bind_op_inv, rule i) (simp add: return_op_def)
  show "store_inv R (snd (allow_ip_create R ip s))" "store_inv R (snd (allow_global_create R lim s))"
    "store_inv R (snd (allow_read R ip s))"
    using b [of "''create:'' @ ip" 5] b [of "''create:global''" lim] b [of "''read:'' @ ip" 120]
    by (simp_all add: allow_ip_create_def allow_global_create_def allow_read_def)
qed

lemma read_inv: "store_inv R s \<Longrightarrow> store_inv R (snd (query R (\<lambda>s. (g s, s)) s))"
  by (simp add: query_read store_inv_next)

lemma reads_inv:
  assumes "store_inv R s"
  shows "store_inv R (snd (queue_stats_op R now s))" "store_inv R (snd (list_pending_txs R before s))"
    "store_inv R (snd (cache_get X R now key lim s))" "store_inv R (snd (find_by_retry_digest R d s))"
proof -
  show "store_inv R (snd (queue_stats_op R now s))"
    unfolding queue_stats_op_def
    by (rule bind_op_inv, rule read_inv [OF assms], rule bind_op_inv, erule read_inv, rule bind_op_inv, erule read_inv)
      (simp add: return_op_def Let_def)
  show "store_inv R (snd (list_pending_txs R before s))"
    unfolding list_pending_txs_def
    by (rule bind_op_inv, rule read_inv [OF assms]) (simp add: return_op_def)
  show "store_inv R (snd (cache_get X R now key lim s))"
    unfolding cache_get_def
    by (rule bind_op_inv, rule read_inv [OF assms]) (simp add: return_op_def fail_op_def split: option.split)
  show "store_inv R (snd (find_by_retry_digest R d s))"
    unfolding find_by_retry_digest_def
    by (rule bind_op_inv, rule read_inv [OF assms]) (simp add: return_op_def get_task_inv split: option.split)
qed

lemma store_step_inv: "store_step X R s s' \<Longrightarrow> store_inv R s \<Longrightarrow> store_inv R s'"
proof (induction rule: store_step.induct)
  case (step_content s h)
  then show ?case unfolding find_by_content_def by (rule find_by_index_inv)
next
  case (step_public_key s h)
  then show ?case unfolding find_by_public_key_def by (rule find_by_index_inv)
next
  case (step_cache s now key v stats)
  then show ?case unfolding cache_set_def by (rule write_cache_inv)
next
  case (step_negative s now key)
  then show ?case unfolding cache_set_negative_def by (rule write_cache_inv)
qed (simp_all add: admit_inv get_task_inv record_retry_digest_inv mark_admitted_inv swap_admitted_inv mark_done_inv
    record_transient_failure_inv mark_failed_inv record_pending_tx_inv delete_pending_tx_inv allow_inv
    reads_inv)

lemma empty_inv: "(\<And>k. r_db R s k = None) \<Longrightarrow> r_volatile R s = {} \<Longrightarrow> store_inv R s"
  by (simp add: store_inv_def tasks_typed_def indexes_live_def content_claimed_def active_exact_def
      pending_at_def task_at_def string_at_def set_at_def)

lemma reachable_inv:
  assumes "(store_step X R)\<^sup>*\<^sup>* s s'" "store_inv R s"
  shows "store_inv R s'"
  using assms by (induction rule: rtranclp_induct) (auto intro: store_step_inv)

lemma pending_unique:
  assumes "store_inv R s" "pending_at R s i t" "pending_at R s j u"
    "to_ascii_lowercase (t_content_hash t) = to_ascii_lowercase (t_content_hash u)"
  shows "i = j"
proof -
  have c: "content_claimed R s" using assms(1) by (simp add: store_inv_def)
  have k: "content_active_key (t_content_hash t) = content_active_key (t_content_hash u)"
    using assms(4) by (simp add: content_active_key_def)
  have "string_at (r_db R s) (content_active_key (t_content_hash t)) = Some i"
    using c assms(2) unfolding content_claimed_def by blast
  moreover have "string_at (r_db R s) (content_active_key (t_content_hash u)) = Some j"
    using c assms(3) unfolding content_claimed_def by blast
  ultimately show ?thesis using k by simp
qed

lemma active_pending: "store_inv R s \<Longrightarrow> set_at (r_db R s) active_set_key = {i. \<exists>t. pending_at R s i t}"
  by (auto simp: store_inv_def active_exact_def)

lemma index_owner:
  assumes "store_inv R s" "is_index k" "string_at (r_db R s) k = Some i" "k \<notin> r_volatile R s"
  shows "\<exists>t. pending_at R s i t \<and> k \<in> set (index_keys t)"
  using assms unfolding store_inv_def indexes_live_def by blast

lemma stored_record:
  assumes "store_inv R s" "string_at (r_db R s) (task_key i) = Some p"
  shows "\<exists>t. parse_task R p = Some t \<and> task_json R t = Some p \<and> t_id t = i
     \<and> (is_terminal (t_status t) \<longleftrightarrow> task_key i \<in> r_volatile R s)"
proof -
  have "tasks_typed R s" using assms(1) by (simp add: store_inv_def)
  then obtain t where t: "task_json R t = Some p" "t_id t = i"
    "is_terminal (t_status t) \<longleftrightarrow> task_key i \<in> r_volatile R s"
    using assms(2) unfolding tasks_typed_def by blast
  then show ?thesis using serde_parse [OF t(1)] by blast
qed

lemma pending_content:
  assumes "store_inv R s" "pending_at R s i t"
  shows "string_at (r_db R s) (content_active_key (t_content_hash t)) = Some i"
    "content_active_key (t_content_hash t) \<notin> r_volatile R s"
  using assms unfolding store_inv_def content_claimed_def by blast+

lemma admit_pending:
  assumes inv: "store_inv R s" and a: "admit R u s = (Inr r, s')" and t: "pending_at R s i t"
    and same: "content_active_key (t_content_hash u) = content_active_key (t_content_hash t)"
  shows "r = Existing i" "pending_at R s' i t"
proof -
  have c: "string_at (r_db R (snd (r_next R s))) (content_active_key (t_content_hash u)) = Some i"
    using pending_content [OF inv t] next_keeps(2) same by simp
  then show "r = Existing i" using admit_result(2) [OF a] by blast
  have "s' = snd (r_next R s)" using admit_result(2) [OF a c] by blast
  moreover have "tasks_typed R s" using inv by (simp add: store_inv_def)
  ultimately show "pending_at R s' i t" using next_pending [of s i t] t by simp
qed

lemma admit_new:
  assumes "admit R u s = (Inr (New i), s')"
  shows "i = t_id u" "task_at R s' i = Some u"
    "string_at (r_db R (snd (r_next R s))) (content_active_key (t_content_hash u)) = None"
proof -
  show n: "string_at (r_db R (snd (r_next R s))) (content_active_key (t_content_hash u)) = None"
    using admit_result(2) [OF assms] by (cases "string_at (r_db R (snd (r_next R s))) (content_active_key (t_content_hash u))") auto
  show "i = t_id u" "task_at R s' i = Some u" using admit_result(1) [OF assms n] by auto
qed

lemma admit_existing:
  assumes "admit R u s = (Inr (Existing i), s')"
  shows "string_at (r_db R s) (content_active_key (t_content_hash u)) = Some i" "s' = snd (r_next R s)"
proof -
  let ?c = "string_at (r_db R (snd (r_next R s))) (content_active_key (t_content_hash u))"
  have "?c \<noteq> None" using admit_result(1) [OF assms] by auto
  then obtain j where j: "?c = Some j" by blast
  have "j = i" "s' = snd (r_next R s)" using admit_result(2) [OF assms j] by auto
  then show "string_at (r_db R s) (content_active_key (t_content_hash u)) = Some i" "s' = snd (r_next R s)"
    using next_string [of s] j by blast+
qed

end

interpretation ref_redis: redis_laws ref_services
  by (rule redis_laws.intro [OF ref_services_ok])

lemmas redis_laws_of = redis_laws.intro

section \<open>Terminal tasks\<close>

context redis_laws
begin

lemma task_at_view:
  assumes "\<And>k. k \<in> range task_key \<Longrightarrow> r_db R s' k = r_db R s k"
  shows "task_at R s' = task_at R s"
  using assms by (simp add: task_at_def fun_eq_iff string_at_def)

lemma settled_read: "settled (task_at R s i) \<Longrightarrow> settled (task_at R (snd (query R (\<lambda>s. (g s, s)) s)) i)"
  by (simp add: query_read settled_next)

lemma settled_own:
  assumes "settled (task_at R s i)" "k \<notin> range task_key" "\<And>s k'. k' \<noteq> k \<Longrightarrow> r_db R (snd (f s)) k' = r_db R s k'"
  shows "settled (task_at R (snd (query R f s)) i)"
proof (rule settled_query [OF assms(1)])
  fix s assume "settled (task_at R s i)"
  moreover have "task_at R (snd (f s)) = task_at R s"
  proof (rule task_at_view)
    fix k' assume "k' \<in> range task_key"
    then have "k' \<noteq> k" using assms(2) by blast
    then show "r_db R (snd (f s)) k' = r_db R s k'" by (rule assms(3))
  qed
  ultimately show "settled (task_at R (snd (f s)) i)" by simp
qed

lemma settled_find: "settled (task_at R s i) \<Longrightarrow> settled (task_at R (snd (find_by_index R k s)) i)"
  unfolding find_by_index_def
  by (rule settled_bind, erule settled_read) (simp add: return_op_def settled_get_task split: option.split)

lemma settled_reads:
  assumes "settled (task_at R s i)"
  shows "settled (task_at R (snd (queue_stats_op R now s)) i)" "settled (task_at R (snd (list_pending_txs R before s)) i)"
    "settled (task_at R (snd (cache_get X R now key lim s)) i)" "settled (task_at R (snd (find_by_retry_digest R d s)) i)"
    "settled (task_at R (snd (find_by_content R h s)) i)" "settled (task_at R (snd (find_by_public_key R h s)) i)"
proof -
  show "settled (task_at R (snd (queue_stats_op R now s)) i)"
    unfolding queue_stats_op_def
    by (rule settled_bind, rule settled_read [OF assms], rule settled_bind, erule settled_read, rule settled_bind,
        erule settled_read) (simp add: return_op_def Let_def)
  show "settled (task_at R (snd (list_pending_txs R before s)) i)"
    unfolding list_pending_txs_def
    by (rule settled_bind, rule settled_read [OF assms]) (simp add: return_op_def)
  show "settled (task_at R (snd (cache_get X R now key lim s)) i)"
    unfolding cache_get_def
    by (rule settled_bind, rule settled_read [OF assms]) (simp add: return_op_def fail_op_def split: option.split)
  show "settled (task_at R (snd (find_by_retry_digest R d s)) i)"
    unfolding find_by_retry_digest_def
    by (rule settled_bind, rule settled_read [OF assms]) (simp add: return_op_def settled_get_task split: option.split)
  show "settled (task_at R (snd (find_by_content R h s)) i)" "settled (task_at R (snd (find_by_public_key R h s)) i)"
    unfolding find_by_content_def find_by_public_key_def by (rule settled_find [OF assms])+
qed

lemma settled_minute:
  assumes "settled (task_at R s i)" "k \<notin> range task_key"
  shows "settled (task_at R (snd (increment_minute R k s)) i)"
  unfolding increment_minute_def
proof (rule settled_bind)
  show "settled (task_at R (snd (query R (\<lambda>s. r_incr R s k) s)) i)"
    by (rule settled_own [OF assms]) (simp add: incr_frame)
  fix c s' assume "settled (task_at R s' i)"
  then have "settled (task_at R (snd (query R (\<lambda>s. ((), r_pexpire R s k 60000)) s')) i)"
    by (rule settled_own [OF _ assms(2)]) simp
  then show "settled (task_at R (snd ((if c = 1 then bind_op (query R (\<lambda>s. ((), r_pexpire R s k 60000))) (\<lambda>_. return_op c)
      else return_op c) s')) i)"
    using \<open>settled (task_at R s' i)\<close> settled_bind [of "query R (\<lambda>s. ((), r_pexpire R s k 60000))" s' i "\<lambda>_. return_op c"]
    by (auto simp: return_op_def)
qed

lemma settled_allow:
  assumes "settled (task_at R s i)"
  shows "settled (task_at R (snd (allow_ip_create R ip s)) i)" "settled (task_at R (snd (allow_global_create R lim s)) i)"
    "settled (task_at R (snd (allow_read R ip s)) i)"
proof -
  have m: "settled (task_at R (snd (increment_minute R (''p256-index:rate:'' @ k) s)) i)" for k
    by (rule settled_minute [OF assms rate_keys(2)])
  have b: "settled (task_at R (snd (bind_op (increment_minute R (''p256-index:rate:'' @ k)) (\<lambda>c. return_op (c \<le> l)) s)) i)" for k l
    by (rule settled_bind, rule m) (simp add: return_op_def)
  show "settled (task_at R (snd (allow_ip_create R ip s)) i)" "settled (task_at R (snd (allow_global_create R lim s)) i)"
    "settled (task_at R (snd (allow_read R ip s)) i)"
    using b [of "''create:'' @ ip" 5] b [of "''create:global''" lim] b [of "''read:'' @ ip" 120]
    by (simp_all add: allow_ip_create_def allow_global_create_def allow_read_def)
qed

lemma settled_writes:
  assumes "settled (task_at R s i)"
  shows "settled (task_at R (snd (record_retry_digest R d j ttl s)) i)"
    "settled (task_at R (snd (record_pending_tx R role nonce h sent a fees s)) i)"
    "settled (task_at R (snd (delete_pending_tx R role nonce s)) i)"
    "settled (task_at R (snd (write_cache X R now key v fresh ret s)) i)"
proof -
  show "settled (task_at R (snd (record_retry_digest R d j ttl s)) i)"
    unfolding record_retry_digest_def by (rule settled_own [OF assms, of "retry_digest_key d"]) simp_all
  show "settled (task_at R (snd (delete_pending_tx R role nonce s)) i)"
    unfolding delete_pending_tx_def by (rule settled_own [OF assms, of broadcast_ledger_key]) simp_all
  have "settled (task_at R (snd (query R (\<lambda>s. ((), r_hset R s broadcast_ledger_key f p)) s)) i)" for f p
    by (rule settled_own [OF assms, of broadcast_ledger_key]) simp_all
  then show "settled (task_at R (snd (record_pending_tx R role nonce h sent a fees s)) i)"
    using assms unfolding record_pending_tx_def by (simp add: fail_op_def split: option.split)
  have "settled (task_at R (snd (query R (\<lambda>s. ((), r_set R s (cache_key X key) p (Some ret))) s)) i)" for p
    by (rule settled_own [OF assms, of "cache_key X key"]) simp_all
  then show "settled (task_at R (snd (write_cache X R now key v fresh ret s)) i)"
    using assms unfolding write_cache_def by (simp add: fail_op_def split: option.split)
qed

lemma settled_swap:
  assumes "settled (task_at R s i)" "\<not> is_terminal (t_status t)"
  shows "settled (task_at R (snd (swap_admitted R j t s)) i)"
  using swap_admitted_tasks [of j t s i] assms
  by (cases "task_at R (snd (swap_admitted R j t s)) i") (auto simp: settled_def)

lemma settled_mark_admitted:
  assumes "settled (task_at R s i)"
  shows "settled (task_at R (snd (mark_admitted R j s)) i)"
  unfolding mark_admitted_def
proof (rule settled_bind, rule settled_get_task [OF assms])
  fix found s' assume s': "settled (task_at R s' i)"
  show "settled (task_at R (snd ((case found of None \<Rightarrow> return_op None | Some before \<Rightarrow>
      if is_terminal (t_status before) then return_op (Some before) else swap_admitted R j before) s')) i)"
  proof (cases found)
    case None
    then show ?thesis using s' by (simp add: return_op_def)
  next
    case (Some before)
    then show ?thesis using s' settled_swap [OF s', of before j]
      by (cases "is_terminal (t_status before)") (simp_all add: return_op_def)
  qed
qed

lemma settled_admit:
  assumes "settled (task_at R s i)" "t_id t \<noteq> i"
  shows "settled (task_at R (snd (admit R t s)) i)"
proof -
  obtain p where p: "task_json R t = Some p" using serde by blast
  show ?thesis
    unfolding admit_def p option.case run_script_def
  proof (rule settled_bind)
    show "settled (task_at R (snd (query R (admit_script R (task_key (t_id t)) (content_active_key (t_content_hash t))
        (member_key_placeholders t) (t_id t) p (sint (t_created_at t))) s)) i)"
      by (rule settled_query [OF assms(1)]) (use assms(2) in \<open>simp add: admit_script_tasks [OF p]\<close>)
  qed simp
qed

lemma terminal_stays:
  assumes "store_step X R s s'" "store_inv R s" "settled (task_at R s i)" "task_at R s i \<noteq> None"
  shows "settled (task_at R s' i)"
  using assms
proof (induction rule: store_step.induct)
  case (step_admit u s)
  have "t_id u \<noteq> i" using step_admit by (auto simp: task_at_def)
  then show ?case by (rule settled_admit [OF step_admit(4)])
next
  case (step_transient s j m)
  show ?case by (rule settled_record_transient_failure [OF step_transient(1,2)])
next
  case (step_swap u j s)
  show ?case by (rule settled_swap [OF step_swap(4,1)])
next
  case (step_cache s now key v stats)
  show ?case unfolding cache_set_def by (rule settled_writes(4) [OF step_cache(2)])
next
  case (step_negative s now key)
  show ?case unfolding cache_set_negative_def by (rule settled_writes(4) [OF step_negative(2)])
next
  case (step_get s j)
  show ?case by (rule settled_get_task [OF step_get(2)])
next
  case (step_content s h)
  show ?case by (rule settled_reads(5) [OF step_content(2)])
next
  case (step_public_key s h)
  show ?case by (rule settled_reads(6) [OF step_public_key(2)])
next
  case (step_find_digest s d)
  show ?case by (rule settled_reads(4) [OF step_find_digest(2)])
next
  case (step_stats s now)
  show ?case by (rule settled_reads(1) [OF step_stats(2)])
next
  case (step_list s before)
  show ?case by (rule settled_reads(2) [OF step_list(2)])
next
  case (step_cache_get s now key lim)
  show ?case by (rule settled_reads(3) [OF step_cache_get(2)])
next
  case (step_retry_digest s d j ttl)
  show ?case by (rule settled_writes(1) [OF step_retry_digest(2)])
next
  case (step_admitted s j)
  show ?case by (rule settled_mark_admitted [OF step_admitted(2)])
next
  case (step_done s j h n)
  show ?case by (rule settled_mark_done [OF step_done(2)])
next
  case (step_failed s j c m)
  show ?case by (rule settled_mark_failed [OF step_failed(2)])
next
  case (step_ledger s role nonce h sent a fees)
  show ?case by (rule settled_writes(2) [OF step_ledger(2)])
next
  case (step_unledger s role nonce)
  show ?case by (rule settled_writes(3) [OF step_unledger(2)])
next
  case (step_ip s ip)
  show ?case by (rule settled_allow(1) [OF step_ip(2)])
next
  case (step_global s lim)
  show ?case by (rule settled_allow(2) [OF step_global(2)])
next
  case (step_read s ip)
  show ?case by (rule settled_allow(3) [OF step_read(2)])
qed

end

section \<open>The retry budget\<close>

text \<open>The transient failures of one task, one batch after the other.\<close>

fun retry_all :: "'s services \<Rightarrow> string \<Rightarrow> string list \<Rightarrow> ('s, unit) op" where
  "retry_all R i [] = return_op ()"
| "retry_all R i (m # ms) = bind_op (record_transient_failure R i m) (\<lambda>_. retry_all R i ms)"

lemma after_retry_terminal: "is_terminal (t_status t) \<Longrightarrow> after_retry m t = t"
  by (simp add: after_retry_def)

lemma after_retry_pending:
  assumes "\<not> is_terminal (t_status t)" "unat (t_retries t) < 9"
  shows "\<not> is_terminal (t_status (after_retry m t))" "unat (t_retries (after_retry m t)) = Suc (unat (t_retries t))"
    "t_error (after_retry m t) = Some (redact_error m)"
proof -
  have r: "unat (saturating_add (t_retries t) 1) = Suc (unat (t_retries t))"
    using assms(2) by (simp add: unat_saturating_add)
  then have "\<not> 10 \<le> saturating_add (t_retries t) 1" using assms(2) by (simp add: word_le_nat_alt)
  then have "after_retry m t = retried_task m t" using assms(1) by (simp add: after_retry_def)
  then show "\<not> is_terminal (t_status (after_retry m t))" "unat (t_retries (after_retry m t)) = Suc (unat (t_retries t))"
    "t_error (after_retry m t) = Some (redact_error m)"
    using assms(1) r by (simp_all add: retried_task_def)
qed

lemma after_retry_exhausted:
  assumes "\<not> is_terminal (t_status t)" "unat (t_retries t) = 9"
  shows "t_status (after_retry m t) = Failed" "unat (t_retries (after_retry m t)) = 10"
    "t_error (after_retry m t) = Some (''EXHAUSTED: '' @ redact_error m)"
proof -
  have r: "unat (saturating_add (t_retries t) 1) = 10"
    using assms(2) by (simp add: unat_saturating_add)
  then have "10 \<le> saturating_add (t_retries t) 1" by (simp add: word_le_nat_alt)
  then have "after_retry m t = exhausted_task (retried_task m t)" using assms(1) by (simp add: after_retry_def)
  then show "t_status (after_retry m t) = Failed" "unat (t_retries (after_retry m t)) = 10"
    "t_error (after_retry m t) = Some (''EXHAUSTED: '' @ redact_error m)"
    using r by (simp_all add: retried_task_def exhausted_task_def unwrap_or_def)
qed

text \<open>A task that ended as \<open>e\<close> is still that record, or expired.\<close>

definition dead :: "'s services \<Rightarrow> 's \<Rightarrow> string \<Rightarrow> register_task \<Rightarrow> bool" where
  "dead R s i e = (is_terminal (t_status e) \<and> (task_at R s i = None \<or> task_at R s i = Some e))"

context redis_laws
begin

lemma dead_retry:
  assumes "store_inv R s" "dead R s i e" "record_transient_failure R i m s = (Inr r, s')"
  shows "dead R s' i e"
proof -
  note res = record_transient_failure_result [OF assms(1,3)]
  show ?thesis
  proof (cases "task_at R (snd (r_next R s)) i")
    case None
    then show ?thesis using res assms(2) by (simp add: dead_def)
  next
    case (Some x)
    then have "task_at R s i = Some x" by (rule next_task)
    then have "x = e" using assms(2) by (simp add: dead_def)
    then show ?thesis using Some res assms(2) after_retry_terminal [of e m] by (simp add: dead_def)
  qed
qed

lemma dead_retry_all:
  assumes "store_inv R s" "dead R s i e" "retry_all R i ms s = (Inr x, s')"
  shows "dead R s' i e"
  using assms
proof (induction ms arbitrary: s)
  case (Cons m ms)
  obtain r s1 where r: "record_transient_failure R i m s = (Inr r, s1)" "retry_all R i ms s1 = (Inr x, s')"
    using Cons.prems(3) by (auto simp: bind_op_Inr)
  have "store_inv R s1" using record_transient_failure_inv [OF Cons.prems(1), of i m] r(1) by simp
  then show ?case using Cons.IH dead_retry [OF Cons.prems(1,2) r(1)] r(2) by blast
qed (simp add: return_op_def)

lemma retry_pending:
  assumes "store_inv R s" "pending_at R s i t" "record_transient_failure R i m s = (Inr r, s')"
  shows "store_inv R s'" "task_at R s' i = Some (after_retry m t)"
proof -
  show "store_inv R s'" using record_transient_failure_inv [OF assms(1), of i m] assms(3) by simp
  have "pending_at R (snd (r_next R s)) i t"
    using next_pending [of s i t] assms(1,2) by (simp add: store_inv_def)
  then show "task_at R s' i = Some (after_retry m t)"
    using record_transient_failure_result [OF assms(1,3)] by (simp add: pending_at_def)
qed

lemma retry_budget:
  assumes "store_inv R s" "pending_at R s i t" "unat (t_retries t) < 10" "retry_all R i ms s = (Inr x, s')"
  shows "if unat (t_retries t) + length ms < 10
    then \<exists>u. pending_at R s' i u \<and> unat (t_retries u) = unat (t_retries t) + length ms
    else \<exists>e. dead R s' i e \<and> t_status e = Failed \<and> unat (t_retries e) = 10
           \<and> t_error e = Some (''EXHAUSTED: '' @ redact_error (ms ! (9 - unat (t_retries t))))"
  using assms
proof (induction ms arbitrary: s t)
  case Nil
  then show ?case by (auto simp: return_op_def)
next
  case (Cons m ms)
  obtain r s1 where r: "record_transient_failure R i m s = (Inr r, s1)" "retry_all R i ms s1 = (Inr x, s')"
    using Cons.prems(4) by (auto simp: bind_op_Inr)
  note s1 = retry_pending [OF Cons.prems(1,2) r(1)]
  have live: "\<not> is_terminal (t_status t)" using Cons.prems(2) by (simp add: pending_at_def)
  show ?case
  proof (cases "unat (t_retries t) < 9")
    case True
    note a = after_retry_pending [OF live True, of m]
    have p: "pending_at R s1 i (after_retry m t)" using s1(2) a(1) by (simp add: pending_at_def)
    have l: "unat (t_retries t) + length (m # ms) = unat (t_retries (after_retry m t)) + length ms"
      "(m # ms) ! (9 - unat (t_retries t)) = ms ! (9 - unat (t_retries (after_retry m t)))"
      "unat (t_retries (after_retry m t)) < 10"
      using True by (simp_all add: a(2) nth_Cons')
    from Cons.IH [OF s1(1) p l(3) r(2)] show ?thesis unfolding l(1,2) .
  next
    case False
    then have nine: "unat (t_retries t) = 9" using Cons.prems(3) by simp
    note a = after_retry_exhausted [OF live nine, of m]
    have "dead R s1 i (after_retry m t)" using s1(2) a(1) by (simp add: dead_def is_terminal_def)
    from dead_retry_all [OF s1(1) this r(2)] show ?thesis using a nine by auto
  qed
qed

end

section \<open>Properties\<close>

definition empty_redis :: ref_state where
  "empty_redis = \<lparr>rs_db = Map.empty, rs_volatile = {}, rs_faults = []\<rparr>"

lemma empty_redis_observe [simp]: "r_db ref_services empty_redis k = None" "r_volatile ref_services empty_redis = {}"
  by (simp_all add: ref_observe empty_redis_def)

lemma sample_step: "store_step ref_externs ref_services empty_redis (snd (admit ref_services sample_register empty_redis))"
  by (rule step_admit) (simp_all add: sample_register_def pending_task_def string_at_def ref_observe empty_redis_def)

text \<open>C33: After any sequence of store operations from an empty Redis, with lost commands and expiring
  keys, every stored task record parses back to a task with its own id, and exactly the terminal
  records have a time to live.\<close>

theorem store_records_typed:
  assumes "services_ok R" "\<And>k. r_db R s0 k = None" "r_volatile R s0 = {}" "(store_step X R)\<^sup>*\<^sup>* s0 s"
    and "string_at (r_db R s) (task_key i) = Some p"
  shows "\<exists>t. parse_task R p = Some t \<and> task_json R t = Some p \<and> t_id t = i
     \<and> (is_terminal (t_status t) \<longleftrightarrow> task_key i \<in> r_volatile R s)"
proof -
  note laws = redis_laws_of [OF assms(1)]
  show ?thesis
    by (rule redis_laws.stored_record [OF laws _ assms(5)],
        rule redis_laws.reachable_inv [OF laws assms(4)], rule redis_laws.empty_inv [OF laws assms(2,3)])
qed

text \<open>C6: After any sequence of store operations from an empty Redis, the pending tasks, the active set
  and the indexes agree: the active set holds exactly the pending ids, two pending tasks never
  share a content hash, and an index key that does not expire points at a pending task that owns it.\<close>

theorem store_indexes_consistent:
  assumes "services_ok R" "\<And>k. r_db R s0 k = None" "r_volatile R s0 = {}" "(store_step X R)\<^sup>*\<^sup>* s0 s"
  shows "set_at (r_db R s) active_set_key = {i. \<exists>t. pending_at R s i t}
    \<and> (\<forall>i j t u. pending_at R s i t \<and> pending_at R s j u
         \<and> to_ascii_lowercase (t_content_hash t) = to_ascii_lowercase (t_content_hash u) \<longrightarrow> i = j)
    \<and> (\<forall>k i. is_index k \<and> string_at (r_db R s) k = Some i \<and> k \<notin> r_volatile R s \<longrightarrow>
         (\<exists>t. pending_at R s i t \<and> k \<in> set (index_keys t)))"
proof -
  note laws = redis_laws_of [OF assms(1)]
  have inv: "store_inv R s"
    by (rule redis_laws.reachable_inv [OF laws assms(4)], rule redis_laws.empty_inv [OF laws assms(2,3)])
  have "\<forall>i j t u. pending_at R s i t \<and> pending_at R s j u
       \<and> to_ascii_lowercase (t_content_hash t) = to_ascii_lowercase (t_content_hash u) \<longrightarrow> i = j"
    using redis_laws.pending_unique [OF laws inv] by blast
  moreover have "\<forall>k i. is_index k \<and> string_at (r_db R s) k = Some i \<and> k \<notin> r_volatile R s \<longrightarrow>
       (\<exists>t. pending_at R s i t \<and> k \<in> set (index_keys t))"
    using redis_laws.index_owner [OF laws inv] by blast
  ultimately show ?thesis using redis_laws.active_pending [OF laws inv] by blast
qed

text \<open>C12: Admission is idempotent by content: while a task with the same content hash is pending, an
  answered admission returns that task and changes nothing; otherwise an answered admission
  either stores the new task as given or returns the id the content key still points at.\<close>

theorem admit_by_content:
  assumes "services_ok R" "store_inv R s" "admit R u s = (Inr r, s')"
  shows "(\<forall>i t. pending_at R s i t
      \<and> to_ascii_lowercase (t_content_hash t) = to_ascii_lowercase (t_content_hash u) \<longrightarrow>
        r = Existing i \<and> pending_at R s' i t)
    \<and> (case r of
         New i \<Rightarrow> i = t_id u \<and> task_at R s' i = Some u
       | Existing i \<Rightarrow> string_at (r_db R s) (content_active_key (t_content_hash u)) = Some i
           \<and> s' = snd (r_next R s))"
proof -
  note laws = redis_laws_of [OF assms(1)]
  have "r = Existing i \<and> pending_at R s' i t" if "pending_at R s i t"
    "to_ascii_lowercase (t_content_hash t) = to_ascii_lowercase (t_content_hash u)" for i t
    using redis_laws.admit_pending [OF laws assms(2,3) that(1)] that(2) by (simp add: content_active_key_def)
  moreover have "case r of New i \<Rightarrow> i = t_id u \<and> task_at R s' i = Some u
       | Existing i \<Rightarrow> string_at (r_db R s) (content_active_key (t_content_hash u)) = Some i
           \<and> s' = snd (r_next R s)"
  proof (cases r)
    case (New i)
    then show ?thesis using redis_laws.admit_new [OF laws, of u s i s'] assms(3) by simp
  next
    case (Existing i)
    then show ?thesis using redis_laws.admit_existing [OF laws, of u s i s'] assms(3) by simp
  qed
  ultimately show ?thesis by blast
qed

lemma sample_admitted:
  "fst (admit ref_services sample_register empty_redis) = Inr (New ''t1'')"
  "pending_at ref_services (snd (admit ref_services sample_register empty_redis)) ''t1'' sample_register"
proof -
  show r: "fst (admit ref_services sample_register empty_redis) = Inr (New ''t1'')"
    by (simp add: admit_def ref_services_def bind_op_def run_script_def query_def empty_redis_def admit_script_def
        admission_response_def sample_register_def pending_task_def string_at_def Let_def split: prod.split)
  show "pending_at ref_services (snd (admit ref_services sample_register empty_redis)) ''t1'' sample_register"
    using ref_redis.admit_new(2) [of sample_register empty_redis "''t1''" "snd (admit ref_services sample_register empty_redis)"] r
    by (simp add: pending_at_def prod_eq_iff sample_register_def pending_task_def)
qed

theorem store_records_typed_witness:
  "\<exists>p t. string_at (r_db ref_services (snd (admit ref_services sample_register empty_redis))) (task_key ''t1'') = Some p
     \<and> parse_task ref_services p = Some t \<and> t_id t = ''t1''"
proof -
  obtain p where p: "string_at (r_db ref_services (snd (admit ref_services sample_register empty_redis))) (task_key ''t1'') = Some p"
    using sample_admitted(2) unfolding pending_at_def ref_redis.task_at_Some by blast
  show ?thesis
    using store_records_typed [OF ref_services_ok empty_redis_observe r_into_rtranclp [of "store_step ref_externs ref_services", OF sample_step] p] p
    by blast
qed

theorem store_indexes_consistent_witness:
  "''t1'' \<in> set_at (r_db ref_services (snd (admit ref_services sample_register empty_redis))) active_set_key"
  using store_indexes_consistent [OF ref_services_ok empty_redis_observe r_into_rtranclp [of "store_step ref_externs ref_services", OF sample_step]]
    sample_admitted(2) by blast

theorem admit_by_content_witness:
  "fst (admit ref_services sample_register empty_redis) = Inr (New ''t1'')
   \<and> task_at ref_services (snd (admit ref_services sample_register empty_redis)) ''t1'' = Some sample_register"
proof -
  have e: "store_inv ref_services empty_redis" by (rule ref_redis.empty_inv) simp_all
  have "admit ref_services sample_register empty_redis
      = (Inr (New ''t1''), snd (admit ref_services sample_register empty_redis))"
    using sample_admitted(1) by (simp add: prod_eq_iff)
  from admit_by_content [OF ref_services_ok e this] show ?thesis
    using sample_admitted(1) unfolding admission.case by blast
qed

text \<open>C11: No store operation revives a terminal task: whatever operation runs next, and whatever is lost
  or expires, a done or failed record is afterwards terminal or gone.  This includes the
  compare-and-swap of \<^verbatim>\<open>mark_admitted\<close> run with a record read arbitrarily long before.\<close>

theorem terminal_never_revived:
  assumes "services_ok R" "store_inv R s" "store_step X R s s'" "task_at R s i = Some t" "is_terminal (t_status t)"
  shows "store_inv R s' \<and> (\<forall>u. task_at R s' i = Some u \<longrightarrow> is_terminal (t_status u))"
proof -
  note laws = redis_laws_of [OF assms(1)]
  have "settled (task_at R s' i)"
    by (rule redis_laws.terminal_stays [OF laws assms(3,2)]) (simp_all add: assms(4,5) settled_def)
  moreover have "store_inv R s'" by (rule redis_laws.store_step_inv [OF laws assms(3,2)])
  ultimately show ?thesis by (simp add: settled_def split: option.splits)
qed

text \<open>C14: The retry budget: recording transient failures of a pending task keeps it pending and counts
  them while the total is below ten; the tenth fails it as \<^verbatim>\<open>EXHAUSTED\<close> with that failure's message,
  and every later one leaves that record as it is.\<close>

theorem retry_budget_bounded:
  assumes "services_ok R" "store_inv R s" "pending_at R s i t" "unat (t_retries t) < 10"
    and "retry_all R i ms s = (Inr x, s')"
  shows "if unat (t_retries t) + length ms < 10
    then \<exists>u. pending_at R s' i u \<and> unat (t_retries u) = unat (t_retries t) + length ms
    else \<exists>e. dead R s' i e \<and> t_status e = Failed \<and> unat (t_retries e) = 10
           \<and> t_error e = Some (''EXHAUSTED: '' @ redact_error (ms ! (9 - unat (t_retries t))))"
  by (rule redis_laws.retry_budget [OF redis_laws_of [OF assms(1)] assms(2-5)])

section \<open>A Redis that answers\<close>

text \<open>On the concrete Redis without pending faults every operation is answered.\<close>

definition calm :: "(ref_state, 'a) op \<Rightarrow> bool" where
  "calm m = (\<forall>s. rs_faults s = [] \<longrightarrow> (\<exists>a s'. m s = (Inr a, s') \<and> rs_faults s' = []))"

lemma calm_return [intro]: "calm (return_op a)"
  by (simp add: calm_def return_op_def)

lemma calm_bind [intro]: "calm m \<Longrightarrow> (\<And>a. calm (f a)) \<Longrightarrow> calm (bind_op m f)"
  by (fastforce simp: calm_def bind_op_def)

lemma calm_query [intro]: "(\<And>s. rs_faults (snd (f s)) = rs_faults s) \<Longrightarrow> calm (query ref_services f)"
  by (auto simp: calm_def query_def ref_services_def split: prod.split)
    (metis ref_state.select_convs(3) ref_state.update_convs(2,3) ref_state.surjective snd_conv)

lemma ref_faults [simp]:
  "rs_faults (r_set ref_services s k v px) = rs_faults s" "rs_faults (r_set_keepttl ref_services s k v) = rs_faults s"
  "rs_faults (r_del ref_services s k) = rs_faults s" "rs_faults (r_pexpire ref_services s k n) = rs_faults s"
  "rs_faults (snd (r_incr ref_services s k)) = rs_faults s" "rs_faults (r_sadd ref_services s k m) = rs_faults s"
  "rs_faults (r_srem ref_services s k m) = rs_faults s" "rs_faults (r_zadd ref_services s k sc m) = rs_faults s"
  "rs_faults (r_zrem ref_services s k m) = rs_faults s" "rs_faults (r_hset ref_services s k m v) = rs_faults s"
  "rs_faults (r_hdel ref_services s k m) = rs_faults s"
  by (simp_all add: ref_services_def split: option.split)

lemma ref_faults_loops [simp]:
  "rs_faults (claim_placeholders ref_services i ks s) = rs_faults s"
  "rs_faults (expire_own ref_services i ttl ks s) = rs_faults s"
  "rs_faults (delete_own ref_services i ks s) = rs_faults s"
  by (induction ks arbitrary: s) simp_all

lemma ref_faults_scripts [simp]:
  "rs_faults (snd (done_script ref_services tk ks p ttl i s)) = rs_faults s"
  "rs_faults (snd (failed_script ref_services tk ks p ttl i s)) = rs_faults s"
  "rs_faults (snd (swap_script ref_services k p u s)) = rs_faults s"
  "rs_faults (snd (admit_script ref_services tk ck ks i p c s)) = rs_faults s"
  by (simp_all add: done_script_def failed_script_def swap_script_def admit_script_def Let_def split: option.split)

lemma calm_get_task [intro]: "calm (get_task ref_services i)"
  unfolding get_task_def by (intro calm_bind calm_query calm_return) simp

lemma calm_transitions [intro]:
  "calm (transition_done ref_services t)" "calm (transition_failed ref_services t)" "calm (write_active_task ref_services t)"
  unfolding transition_done_def transition_failed_def write_active_task_def set_task_def ref_serde option.case run_script_def
  by (intro calm_query, simp)+

lemma calm_mark_done [intro]: "calm (Store.mark_done ref_services i h n)"
  unfolding Store.mark_done_def Let_def
  by (intro calm_bind calm_get_task) (auto split: option.split)

lemma calm_mark_failed [intro]: "calm (Store.mark_failed ref_services i c m)"
  unfolding Store.mark_failed_def Let_def
  by (intro calm_bind calm_get_task) (auto split: option.split)

lemma calm_record_transient_failure [intro]: "calm (record_transient_failure ref_services i m)"
  unfolding record_transient_failure_def Let_def
  by (intro calm_bind calm_get_task) (auto split: option.split)

lemma calm_retry_all [intro]: "calm (retry_all ref_services i ms)"
  by (induction ms) auto

lemma calm_faults: "rs_faults s = [] \<Longrightarrow> calm m \<Longrightarrow> \<exists>a s'. m s = (Inr a, s') \<and> rs_faults s' = []"
  by (simp add: calm_def)

lemma calm_admit: "rs_faults s = [] \<Longrightarrow> rs_faults (snd (admit ref_services t s)) = []"
proof -
  let ?f = "admit_script ref_services (task_key (t_id t)) (content_active_key (t_content_hash t))
     (member_key_placeholders t) (t_id t) (number (task_tuple t)) (sint (t_created_at t))"
  assume "rs_faults s = []"
  moreover have "calm (query ref_services ?f)" by (rule calm_query) simp
  ultimately obtain a s' where "query ref_services ?f s = (Inr a, s')" "rs_faults s' = []"
    using calm_faults by blast
  then show ?thesis by (simp add: admit_def ref_serde run_script_def bind_op_def)
qed

definition sample_store :: ref_state where
  "sample_store = snd (admit ref_services sample_register empty_redis)"

lemma sample_store_ok:
  "rs_faults sample_store = []" "store_inv ref_services sample_store"
  "pending_at ref_services sample_store ''t1'' sample_register"
proof -
  show "rs_faults sample_store = []" unfolding sample_store_def by (rule calm_admit) (simp add: empty_redis_def)
  show "store_inv ref_services sample_store"
    unfolding sample_store_def
    by (rule ref_redis.store_step_inv [OF sample_step], rule ref_redis.empty_inv) simp_all
  show "pending_at ref_services sample_store ''t1'' sample_register"
    unfolding sample_store_def by (rule sample_admitted(2))
qed

theorem terminal_never_revived_witness:
  "\<exists>s t. task_at ref_services s ''t1'' = Some t \<and> t_status t = Failed
     \<and> (\<forall>u. task_at ref_services (snd (mark_admitted ref_services ''t1'' s)) ''t1'' = Some u \<longrightarrow> is_terminal (t_status u))"
proof -
  obtain r s where r: "Store.mark_failed ref_services ''t1'' ''REVERT'' ''no'' sample_store = (Inr r, s)"
    using calm_faults [OF sample_store_ok(1) calm_mark_failed] by blast
  have inv: "store_inv ref_services s"
    using ref_redis.mark_failed_inv [OF sample_store_ok(2), of "''t1''" "''REVERT''" "''no''"] r by simp
  have "pending_at ref_services (snd (r_next ref_services sample_store)) ''t1'' sample_register"
    using ref_redis.next_pending [of sample_store] sample_store_ok(2,3) by (simp add: store_inv_def)
  then have t: "task_at ref_services s ''t1'' = Some (failed_task ''REVERT'' ''no'' sample_register)"
    using ref_redis.mark_failed_result [OF sample_store_ok(2) r] by (simp add: pending_at_def)
  have st: "t_status (failed_task ''REVERT'' ''no'' sample_register) = Failed" by simp
  have "is_terminal (t_status (failed_task ''REVERT'' ''no'' sample_register))" by (simp add: is_terminal_def)
  from terminal_never_revived [OF ref_services_ok inv step_admitted [of ref_externs ref_services s "''t1''"] t this]
  show ?thesis using t st by blast
qed

theorem retry_budget_bounded_witness:
  "\<exists>x s' e. retry_all ref_services ''t1'' (replicate 12 ''rpc down'') sample_store = (Inr x, s')
     \<and> dead ref_services s' ''t1'' e \<and> t_status e = Failed \<and> t_error e = Some ''EXHAUSTED: rpc down''"
proof -
  obtain x s' where r: "retry_all ref_services ''t1'' (replicate 12 ''rpc down'') sample_store = (Inr x, s')"
    using calm_faults [OF sample_store_ok(1) calm_retry_all] by blast
  have z: "t_retries sample_register = 0" by (simp add: sample_register_def pending_task_def)
  have m: "replicate 12 ''rpc down'' ! (9 - unat (t_retries sample_register)) = ''rpc down''"
    by (simp add: z)
  have e: "redact_error ''rpc down'' = ''rpc down''"
    by (simp add: redact_error_def is_continuation_def numeral_eq_Suc)
  show ?thesis
    using retry_budget_bounded [OF ref_services_ok sample_store_ok(2,3) _ r] r
    unfolding m e by (auto simp: z)
qed

end
