(* ===== verification/Store_Data.thy ===== *)
theory Store_Data
  imports Store_Properties
begin

text \<open>
  The other data of the Redis store: the rate counters, the response cache, the broadcast ledger
  and the public-key placeholders of pending tasks.
\<close>

section \<open>Rate counters\<close>

text \<open>The answers of \<open>n\<close> calls of a rate limit, while every call is answered.\<close>

fun repeat_calls :: "('s, bool) op \<Rightarrow> nat \<Rightarrow> ('s, bool list) op" where
  "repeat_calls f 0 = return_op []"
| "repeat_calls f (Suc n) = bind_op f (\<lambda>b. bind_op (repeat_calls f n) (\<lambda>bs. return_op (b # bs)))"

text \<open>The three limits: the call, its counter and how many calls a minute may have.\<close>

definition rate_limits :: "'s services \<Rightarrow> string \<Rightarrow> u64 \<Rightarrow> (('s, bool) op \<times> string \<times> u64) set" where
  "rate_limits R ip global_limit =
     {(allow_ip_create R ip, ''p256-index:rate:create:'' @ ip, 5),
      (allow_global_create R global_limit, ''p256-index:rate:create:global'', global_limit),
      (allow_read R ip, ''p256-index:rate:read:'' @ ip, 120)}"

lemma rate_limits_op:
  "(f, k, l) \<in> rate_limits R ip g \<Longrightarrow> f = bind_op (increment_minute R k) (\<lambda>count. return_op (count \<le> l))"
  by (auto simp: rate_limits_def allow_ip_create_def allow_global_create_def allow_read_def)

context redis_laws
begin

lemma minute_running:
  assumes "increment_minute R k s = (Inr c, s')" "k \<notin> r_volatile R s"
    "counter_at (r_db R s) k = Some n" "0 < n" "n + 1 < 2 ^ 63"
  shows "c = of_nat (n + 1)" "k \<notin> r_volatile R s'" "counter_at (r_db R s') k = Some (n + 1)"
proof -
  let ?s = "snd (r_next R s)"
  obtain c1 s1 where q: "query R (\<lambda>s. r_incr R s k) s = (Inr c1, s1)"
    and rest: "(if c1 = 1 then bind_op (query R (\<lambda>s. ((), r_pexpire R s k 60000))) (\<lambda>_. return_op c1)
       else return_op c1) s1 = (Inr c, s')"
    using assms(1) unfolding increment_minute_def bind_op_Inr by blast
  have n: "counter_at (r_db R ?s) k = Some n" "k \<notin> r_volatile R ?s"
    using assms(2,3) next_keeps(1,4) [of k s] by (simp_all add: counter_at_def)
  have i: "(c1, s1) = r_incr R ?s k" by (rule query_Inr [OF q])
  note step = incr [OF n(1) assms(5)]
  have c1: "c1 = of_nat (n + 1)" "counter_at (r_db R s1) k = Some (n + 1)" "k \<notin> r_volatile R s1"
    using step n(2) i [symmetric] by simp_all
  have "unat c1 = n + 1" unfolding c1(1) using assms(5) by (simp add: unsigned_of_nat take_bit_nat_eq_self del: of_nat_add of_nat_Suc)
  then have "c1 \<noteq> 1" using assms(4) by auto
  then have "c = c1" "s' = s1" using rest by (simp_all add: return_op_def)
  then show "c = of_nat (n + 1)" "k \<notin> r_volatile R s'" "counter_at (r_db R s') k = Some (n + 1)"
    using c1 by simp_all
qed

lemma calls_running:
  assumes "repeat_calls (bind_op (increment_minute R k) (\<lambda>count. return_op (count \<le> l))) m s = (Inr bs, s')"
    "k \<notin> r_volatile R s" "counter_at (r_db R s) k = Some n" "0 < n" "n + m < 2 ^ 63"
  shows "bs = map (\<lambda>j. n + Suc j \<le> unat l) [0..<m] \<and> k \<notin> r_volatile R s'
    \<and> counter_at (r_db R s') k = Some (n + m)"
  using assms
proof (induction m arbitrary: s n bs)
  case (Suc m)
  let ?f = "bind_op (increment_minute R k) (\<lambda>count. return_op (count \<le> l))"
  obtain c s1 cs where c: "increment_minute R k s = (Inr c, s1)"
    and cs: "repeat_calls ?f m s1 = (Inr cs, s')" and bs: "bs = (c \<le> l) # cs"
    using Suc.prems(1) by (auto simp: bind_op_Inr return_op_Inr)
  note step = minute_running [OF c Suc.prems(2-4)]
  have "unat c = n + 1"
    using step(1) Suc.prems(5) by (simp add: unsigned_of_nat take_bit_nat_eq_self del: of_nat_add of_nat_Suc)
  then have le: "(c \<le> l) = (n + 1 \<le> unat l)" by (simp add: word_le_nat_alt)
  have ih: "cs = map (\<lambda>j. n + 1 + Suc j \<le> unat l) [0..<m] \<and> k \<notin> r_volatile R s'
    \<and> counter_at (r_db R s') k = Some (n + 1 + m)"
    by (rule Suc.IH [OF cs]) (use step Suc.prems(5) in simp_all)
  have "map (\<lambda>j. n + Suc j \<le> unat l) [0..<Suc m] = (n + 1 \<le> unat l) # map (\<lambda>j. n + 1 + Suc j \<le> unat l) [0..<m]"
    by (simp add: upt_conv_Cons map_Suc_upt [symmetric] del: upt_Suc)
  then show ?case using ih bs le by simp
qed (simp add: return_op_def)

end

text \<open>C35: A rate counter that lost its expiry never resets: from a counter without a time to live, any
  number of answered calls is allowed only up to the limit counted from the very first call, and
  the counter still has no time to live.  Such a counter is what a lost \<^verbatim>\<open>PEXPIRE\<close> leaves, because
  \<^verbatim>\<open>increment_minute\<close> sends it only when the count is 1: the address, or with the global counter
  every address, is refused from then on.\<close>

theorem rate_limit_without_expiry:
  assumes "services_ok R" "(f, k, l) \<in> rate_limits R ip g" "repeat_calls f m s = (Inr bs, s')"
    "k \<notin> r_volatile R s" "counter_at (r_db R s) k = Some n" "0 < n" "n + m < 2 ^ 63"
  shows "bs = map (\<lambda>j. n + Suc j \<le> unat l) [0..<m] \<and> k \<notin> r_volatile R s'
    \<and> counter_at (r_db R s') k = Some (n + m)"
  by (rule redis_laws.calls_running [OF redis_laws_of [OF assms(1)] assms(3) [unfolded rate_limits_op [OF assms(2)]] assms(4-7)])

lemma calm_minute: "calm (increment_minute ref_services k)"
  unfolding increment_minute_def by (intro calm_bind calm_query) (auto intro!: calm_bind calm_query)

lemma calm_repeat: "calm f \<Longrightarrow> calm (repeat_calls f n)"
  by (induction n) auto

text \<open>The first call of a minute, with its \<^verbatim>\<open>PEXPIRE\<close> lost.\<close>

definition lost_expiry :: ref_state where
  "lost_expiry = snd (allow_ip_create ref_services ''ip'' (empty_redis\<lparr>rs_faults := [Delivered, Failing False True]\<rparr>))"

theorem rate_limit_without_expiry_witness:
  "fst (allow_ip_create ref_services ''ip'' (empty_redis\<lparr>rs_faults := [Delivered, Failing False True]\<rparr>))
     = Inl ''Redis command timed out''
   \<and> (\<exists>s'. repeat_calls (allow_ip_create ref_services ''ip'') 7 lost_expiry
        = (Inr [True, True, True, True, False, False, False], s'))"
proof -
  let ?k = "''p256-index:rate:create:'' @ ''ip''"
  have run: "allow_ip_create ref_services ''ip'' (empty_redis\<lparr>rs_faults := [Delivered, Failing False True]\<rparr>)
      = (Inl ''Redis command timed out'', \<lparr>rs_db = [?k \<mapsto> RString (decimal 1)], rs_volatile = {}, rs_faults = []\<rparr>)"
    by (simp add: allow_ip_create_def increment_minute_def bind_op_def query_def ref_services_def empty_redis_def
        counter_at_def)
  have f: "rs_faults lost_expiry = []" "?k \<notin> r_volatile ref_services lost_expiry"
    "counter_at (r_db ref_services lost_expiry) ?k = Some 1"
    by (simp_all add: lost_expiry_def run ref_observe counter_at_def parse_unsigned_decimal)
  have "calm (allow_ip_create ref_services ''ip'')"
    unfolding allow_ip_create_def by (intro calm_bind calm_minute) auto
  then obtain bs s' where r: "repeat_calls (allow_ip_create ref_services ''ip'') 7 lost_expiry = (Inr bs, s')"
    using calm_faults [OF f(1) calm_repeat] by blast
  have "(allow_ip_create ref_services ''ip'', ?k, 5) \<in> rate_limits ref_services ''ip'' 0" by (simp add: rate_limits_def)
  from rate_limit_without_expiry [OF ref_services_ok this r f(2,3)]
  have "bs = [True, True, True, True, False, False, False]" by (simp add: upt_rec)
  then show ?thesis using run r by simp
qed

section \<open>The response cache\<close>

text \<open>What a cache entry reads back as: serde reads a \<^verbatim>\<open>null\<close> value as no value.\<close>

definition read_back :: "json option \<Rightarrow> json option" where
  "read_back v = (if v = Some JNull then None else v)"

context redis_laws
begin

lemma cache_written:
  assumes "write_cache X R now key v fresh ret s = (Inr x, s')"
  shows "\<exists>p. string_at (r_db R s') (cache_key X key) = Some p
    \<and> parse_cache R p = Some \<lparr>ce_value = read_back v, ce_stored_at_ms = now, ce_fresh_until_ms = saturating_add now fresh\<rparr>"
proof -
  let ?e = "\<lparr>ce_value = v, ce_stored_at_ms = now, ce_fresh_until_ms = saturating_add now fresh\<rparr>"
  have "serde_ok R" using ok by (simp add: services_ok_def)
  then obtain p where p: "cache_json R ?e = Some p"
      "parse_cache R p = Some (if ce_value ?e = Some JNull then ?e\<lparr>ce_value := None\<rparr> else ?e)"
    unfolding serde_ok_def by blast
  have "(x, s') = ((), r_set R (snd (r_next R s)) (cache_key X key) p (Some ret))"
    by (rule query_Inr) (use assms p(1) in \<open>simp add: write_cache_def\<close>)
  then have "string_at (r_db R s') (cache_key X key) = Some p" by simp
  then show ?thesis using p(2) by (auto simp: read_back_def)
qed

lemma cache_read_back:
  assumes "write_cache X R now key v fresh ret s = (Inr x, s1)" "cache_get X R later key lim s1 = (Inr r, s2)"
  shows "r = (if r_db R s2 (cache_key X key) = None then Miss
     else cache_verdict \<lparr>ce_value = read_back v, ce_stored_at_ms = now, ce_fresh_until_ms = saturating_add now fresh\<rparr> later lim)"
proof -
  let ?k = "cache_key X key"
  obtain p where p: "string_at (r_db R s1) ?k = Some p"
    "parse_cache R p = Some \<lparr>ce_value = read_back v, ce_stored_at_ms = now, ce_fresh_until_ms = saturating_add now fresh\<rparr>"
    using cache_written [OF assms(1)] by blast
  obtain q s' where q: "query R (\<lambda>s. (r_get R s ?k, s)) s1 = (Inr q, s')"
    and rest: "(case q of None \<Rightarrow> return_op Miss | Some payload \<Rightarrow>
       (case parse_cache R payload of None \<Rightarrow> fail_op ''stored cache entry is invalid''
         | Some entry \<Rightarrow> return_op (cache_verdict entry later lim))) s' = (Inr r, s2)"
    using assms(2) unfolding cache_get_def bind_op_Inr by blast
  have s': "s' = snd (r_next R s1)" "q = string_at (r_db R s') ?k"
    using query_Inr [OF q] by auto
  have "r_db R s' ?k = None \<or> r_db R s' ?k = Some (RString p)"
    using next_db [of s1 ?k] at_None(2) [OF p(1)] s'(1) by auto
  then show ?thesis
  proof
    assume n: "r_db R s' ?k = None"
    then have "q = None" using s'(2) by (simp add: at_None)
    then show ?thesis using rest n by (simp add: return_op_Inr)
  next
    assume n: "r_db R s' ?k = Some (RString p)"
    then have "q = Some p" using s'(2) by (simp add: string_at_def)
    then show ?thesis using rest n p(2) by (simp add: return_op_Inr)
  qed
qed

end

text \<open>C34: The response cache round trip: a value stored at \<open>now\<close> is served fresh for five minutes, then
  stale with its exact age while the caller's limit allows it, and is a miss after that or once
  the entry expired; a stored negative is served for one minute.  A stored JSON \<^verbatim>\<open>null\<close> comes back
  as a negative, not as the value.\<close>

theorem cache_round_trip:
  assumes "services_ok R" "cache_set X R now key v stats s = (Inr x, s1)" "cache_get X R later key lim s1 = (Inr r, s2)"
    and "cache_set_negative X R now key t = (Inr y, t1)" "cache_get X R later key lim t1 = (Inr n, t2)"
  shows "r = (if r_db R s2 (cache_key X key) = None then Miss
      else if v = JNull then (if later \<le> saturating_add now 300000 then NegativeRead else Miss)
      else if later \<le> saturating_add now 300000 then Fresh v
      else if saturating_sub later now \<le> lim then Stale v (saturating_sub later now)
      else Miss)
    \<and> n = (if r_db R t2 (cache_key X key) \<noteq> None \<and> later \<le> saturating_add now 60000 then NegativeRead else Miss)"
  using redis_laws.cache_read_back [OF redis_laws_of [OF assms(1)] assms(2) [unfolded cache_set_def] assms(3)]
    redis_laws.cache_read_back [OF redis_laws_of [OF assms(1)] assms(4) [unfolded cache_set_negative_def] assms(5)]
  by (simp add: read_back_def cache_verdict_def CACHE_FRESH_TTL_def CACHE_NEGATIVE_TTL_def)

lemma ref_cache_run:
  "\<exists>s1 s2 r. write_cache X ref_services now key v fresh ret empty_redis = (Inr (), s1)
     \<and> cache_get X ref_services later key lim s1 = (Inr r, s2) \<and> r_db ref_services s2 (cache_key X key) \<noteq> None"
  by (simp add: write_cache_def cache_get_def query_def bind_op_def ref_services_def empty_redis_def string_at_def
      return_op_def)

theorem cache_round_trip_witness:
  "\<exists>s1 s2 t1 t2. cache_set ref_externs ref_services 1000 ''q'' (JBool True) False empty_redis = (Inr (), s1)
     \<and> cache_get ref_externs ref_services 400000 ''q'' 3600000 s1 = (Inr (Stale (JBool True) 399000), s2)
     \<and> cache_set_negative ref_externs ref_services 1000 ''q'' empty_redis = (Inr (), t1)
     \<and> cache_get ref_externs ref_services 400000 ''q'' 3600000 t1 = (Inr Miss, t2)"
proof -
  obtain s1 s2 r where r: "cache_set ref_externs ref_services 1000 ''q'' (JBool True) False empty_redis = (Inr (), s1)"
    "cache_get ref_externs ref_services 400000 ''q'' 3600000 s1 = (Inr r, s2)"
    "r_db ref_services s2 (cache_key ref_externs ''q'') \<noteq> None"
    unfolding cache_set_def using ref_cache_run by blast
  obtain t1 t2 n where n: "cache_set_negative ref_externs ref_services 1000 ''q'' empty_redis = (Inr (), t1)"
    "cache_get ref_externs ref_services 400000 ''q'' 3600000 t1 = (Inr n, t2)"
    unfolding cache_set_negative_def using ref_cache_run by blast
  have "r = Stale (JBool True) 399000" "n = Miss"
    using cache_round_trip [OF ref_services_ok r(1,2) n] r(3)
    by (simp_all add: saturating_add_def saturating_sub_def)
  then show ?thesis using r n by blast
qed

section \<open>The broadcast ledger\<close>

text \<open>The ledger is a map from a role and a nonce to what was broadcast; a role has no colon.\<close>

definition ledger_entry_row :: "string \<Rightarrow> u64 \<Rightarrow> pending_tx_entry \<Rightarrow> pending_tx" where
  "ledger_entry_row role nonce e =
     \<lparr>px_role = role, px_nonce = nonce, px_hash = pe_hash e, px_sent_at_ms = pe_sent_at_ms e, px_attempts = pe_attempts e,
      px_max_fee_wei = parse_u128 (pe_max_fee_wei e), px_max_priority_fee_wei = parse_u128 (pe_max_priority_fee_wei e)\<rparr>"

definition ledger :: "'s services \<Rightarrow> 's \<Rightarrow> string \<times> u64 \<Rightarrow> pending_tx option" where
  "ledger R s = (\<lambda>(role, nonce).
     if CHR '':'' \<in> set role then None
     else case hash_at (r_db R s) broadcast_ledger_key (ledger_field role nonce) of
            None \<Rightarrow> None
          | Some p \<Rightarrow> map_option (ledger_entry_row role nonce) (parse_tx R p))"

definition ledger_ok :: "'s services \<Rightarrow> 's \<Rightarrow> bool" where
  "ledger_ok R s =
     (finite (dom (hash_at (r_db R s) broadcast_ledger_key))
      \<and> (\<forall>f \<in> dom (hash_at (r_db R s) broadcast_ledger_key). \<exists>role nonce. f = ledger_field role nonce \<and> CHR '':'' \<notin> set role)
      \<and> broadcast_ledger_key \<notin> r_volatile R s)"

lemma parse_decimal_word [simp]:
  "parse_unsigned 64 (decimal (unat (n :: u64))) = Some (unat n)"
  "parse_unsigned 128 (decimal (unat (m :: u128))) = Some (unat m)"
proof -
  have "unat n < 2 ^ LENGTH(64)" "unat m < 2 ^ LENGTH(128)" by (rule unsigned_less)+
  then show "parse_unsigned 64 (decimal (unat n)) = Some (unat n)" "parse_unsigned 128 (decimal (unat m)) = Some (unat m)"
    by (simp_all add: parse_unsigned_decimal)
qed

lemma split_once_field:
  "CHR '':'' \<notin> set role \<Longrightarrow> split_once CHR '':'' (ledger_field role nonce) = Some (role, decimal (unat nonce))"
  by (induction role) (auto simp: ledger_field_def)

lemma ledger_field_inject:
  assumes "ledger_field role nonce = ledger_field role' nonce'" "CHR '':'' \<notin> set role" "CHR '':'' \<notin> set role'"
  shows "role = role' \<and> nonce = nonce'"
proof -
  have "Some (role, decimal (unat nonce)) = Some (role', decimal (unat nonce'))"
    using split_once_field [OF assms(2), of nonce] split_once_field [OF assms(3), of nonce'] assms(1) by simp
  then have "role = role'" "parse_unsigned 64 (decimal (unat nonce)) = parse_unsigned 64 (decimal (unat nonce'))" by simp_all
  then show ?thesis by (simp add: word_unat_eq_iff)
qed

lemma ledger_row_of_field:
  assumes "CHR '':'' \<notin> set role"
  shows "ledger_row_of R before (ledger_field role nonce, p) =
    (case parse_tx R p of None \<Rightarrow> None
     | Some e \<Rightarrow> if pe_sent_at_ms e < before then Some (ledger_entry_row role nonce e) else None)"
  by (simp add: ledger_row_of_def split_once_field [OF assms] ledger_entry_row_def split: option.split)

lemma ledger_row_key: "ledger_row_of R before (f, p) = Some row \<Longrightarrow> CHR '':'' \<notin> set role \<Longrightarrow> f = ledger_field role nonce
  \<Longrightarrow> px_role row = role \<and> px_nonce row = nonce"
  by (auto simp: ledger_row_of_field ledger_entry_row_def split: option.splits if_splits)

lemma distinct_map_filter:
  assumes "distinct (map fst xs)" "\<And>x y r. x \<in> set xs \<Longrightarrow> y \<in> set xs \<Longrightarrow> f x = Some r \<Longrightarrow> f y = Some r \<Longrightarrow> fst x = fst y"
  shows "distinct (List.map_filter f xs)"
  using assms
proof (induction xs)
  case (Cons x xs)
  have d: "distinct (List.map_filter f xs)" by (rule Cons.IH) (use Cons.prems in \<open>simp, metis list.set_intros(2)\<close>)
  have "r \<notin> set (List.map_filter f xs)" if "f x = Some r" for r
  proof
    assume "r \<in> set (List.map_filter f xs)"
    then obtain y where y: "y \<in> set xs" "f y = Some r" by (auto simp: List.map_filter_def)
    then have "fst x = fst y" using Cons.prems(2) [of x y r] that by simp
    then show False using Cons.prems(1) y(1) by auto
  qed
  then show ?case using d by (simp add: List.map_filter_simps split: option.split)
qed (simp add: List.map_filter_simps)

context redis_laws
begin

lemma ledger_next: 
  assumes "ledger_ok R s"
  shows "ledger R (snd (r_next R s)) = ledger R s" "ledger_ok R (snd (r_next R s))"
proof -
  have k: "r_db R (snd (r_next R s)) broadcast_ledger_key = r_db R s broadcast_ledger_key"
    "broadcast_ledger_key \<notin> r_volatile R (snd (r_next R s))"
    using assms next_keeps(1,4) [of broadcast_ledger_key s] by (simp_all add: ledger_ok_def)
  then have h: "hash_at (r_db R (snd (r_next R s))) broadcast_ledger_key = hash_at (r_db R s) broadcast_ledger_key"
    by (simp add: hash_at_def)
  show "ledger R (snd (r_next R s)) = ledger R s" by (simp add: ledger_def h fun_eq_iff)
  show "ledger_ok R (snd (r_next R s))" using assms k(2) by (simp add: ledger_ok_def h)
qed

lemma hdel [simp]: "hash_at (r_db R (r_hdel R s k m)) k = (hash_at (r_db R s) k)(m := None)"
  using ok by (simp add: services_ok_def collections_ok_def)

lemma ledger_hset:
  fixes nonce :: u64
  assumes "ledger_ok R s" "CHR '':'' \<notin> set role" "tx_json R e = Some p"
  defines "s' \<equiv> r_hset R s broadcast_ledger_key (ledger_field role nonce) p"
  shows "ledger R s' = (ledger R s)((role, nonce) \<mapsto> ledger_entry_row role nonce e)" "ledger_ok R s'"
proof -
  have "serde_ok R" using ok by (simp add: services_ok_def)
  then have p: "parse_tx R p = Some e" using assms(3) unfolding serde_ok_def by (metis option.inject)
  have h: "hash_at (r_db R s') broadcast_ledger_key = (hash_at (r_db R s) broadcast_ledger_key)(ledger_field role nonce \<mapsto> p)"
    by (simp add: s'_def)
  show "ledger R s' = (ledger R s)((role, nonce) \<mapsto> ledger_entry_row role nonce e)"
    using assms(2) ledger_field_inject [of _ _ role nonce] p
    by (auto simp: ledger_def h fun_eq_iff)
  show "ledger_ok R s'" using assms(1,2) by (auto simp: ledger_ok_def h, simp add: s'_def)
qed

lemma ledger_hdel:
  fixes nonce :: u64
  assumes "ledger_ok R s" "CHR '':'' \<notin> set role"
  defines "s' \<equiv> r_hdel R s broadcast_ledger_key (ledger_field role nonce)"
  shows "ledger R s' = (ledger R s)((role, nonce) := None)" "ledger_ok R s'"
proof -
  have h: "hash_at (r_db R s') broadcast_ledger_key = (hash_at (r_db R s) broadcast_ledger_key)(ledger_field role nonce := None)"
    by (simp add: s'_def)
  show "ledger R s' = (ledger R s)((role, nonce) := None)"
    using assms(2) ledger_field_inject [of _ _ role nonce] by (auto simp: ledger_def h fun_eq_iff)
  have "broadcast_ledger_key \<notin> r_volatile R s'"
    using assms(1) removals_volatile_bounds(5) [of s] by (auto simp: ledger_ok_def s'_def)
  then show "ledger_ok R s'" using assms(1) by (auto simp: ledger_ok_def h)
qed

lemma hgetall:
  assumes "finite (dom (hash_at (r_db R s) k))"
  shows "distinct (map fst (r_hgetall R s k))" "map_of (r_hgetall R s k) = hash_at (r_db R s) k"
proof -
  have "reads_ok R" using ok by (simp add: services_ok_def)
  then show "distinct (map fst (r_hgetall R s k))" "map_of (r_hgetall R s k) = hash_at (r_db R s) k"
    using assms unfolding reads_ok_def by blast+
qed

lemma ledger_listed:
  fixes before :: u64
  assumes "ledger_ok R s"
  defines "rows \<equiv> List.map_filter (ledger_row_of R before) (r_hgetall R s broadcast_ledger_key)"
  shows "set rows = {row \<in> ran (ledger R s). px_sent_at_ms row < before}" "distinct rows"
proof -
  let ?h = "hash_at (r_db R s) broadcast_ledger_key"
  have fin: "finite (dom ?h)" using assms(1) by (simp add: ledger_ok_def)
  note get = hgetall [OF fin]
  have mem: "(f, p) \<in> set (r_hgetall R s broadcast_ledger_key) \<longleftrightarrow> ?h f = Some p" for f p
    using map_of_eq_Some_iff [OF get(1), of f p] get(2) by simp
  have field: "\<exists>role nonce. f = ledger_field role nonce \<and> CHR '':'' \<notin> set role" if "?h f = Some p" for f p
    using that assms(1) unfolding ledger_ok_def by blast
  show "set rows = {row \<in> ran (ledger R s). px_sent_at_ms row < before}"
  proof (intro set_eqI iffI)
    fix row assume "row \<in> set rows"
    then obtain f p where fp: "?h f = Some p" "ledger_row_of R before (f, p) = Some row"
      unfolding rows_def by (auto simp: List.map_filter_def mem)
    obtain role nonce where f: "f = ledger_field role nonce" "CHR '':'' \<notin> set role" using field [OF fp(1)] by blast
    have "ledger R s (role, nonce) = Some row \<and> px_sent_at_ms row < before"
      using fp f by (auto simp: ledger_row_of_field ledger_def ledger_entry_row_def split: option.splits if_splits)
    then show "row \<in> {row \<in> ran (ledger R s). px_sent_at_ms row < before}" by (auto simp: ran_def)
  next
    fix row assume "row \<in> {row \<in> ran (ledger R s). px_sent_at_ms row < before}"
    then obtain role nonce where l: "ledger R s (role, nonce) = Some row" "px_sent_at_ms row < before"
      by (auto simp: ran_def)
    then obtain p e where p: "CHR '':'' \<notin> set role" "?h (ledger_field role nonce) = Some p" "parse_tx R p = Some e"
      "row = ledger_entry_row role nonce e"
      by (auto simp: ledger_def split: if_splits option.splits)
    have "ledger_row_of R before (ledger_field role nonce, p) = Some row"
      using p l(2) by (simp add: ledger_row_of_field) (simp add: ledger_entry_row_def)
    then show "row \<in> set rows" using p(2) mem unfolding rows_def List.map_filter_def by force
  qed
  show "distinct rows"
    unfolding rows_def
  proof (rule distinct_map_filter [OF get(1)])
    fix x y r assume xy: "x \<in> set (r_hgetall R s broadcast_ledger_key)" "y \<in> set (r_hgetall R s broadcast_ledger_key)"
      "ledger_row_of R before x = Some r" "ledger_row_of R before y = Some r"
    obtain rx nx where x: "fst x = ledger_field rx nx" "CHR '':'' \<notin> set rx" using field xy(1) mem by (metis prod.collapse)
    obtain ry ny where y: "fst y = ledger_field ry ny" "CHR '':'' \<notin> set ry" using field xy(2) mem by (metis prod.collapse)
    have "px_role r = rx \<and> px_nonce r = nx" using ledger_row_key [of R before "fst x" "snd x" r rx nx, OF _ x(2,1)] xy(3) by simp
    moreover have "px_role r = ry \<and> px_nonce r = ny" using ledger_row_key [of R before "fst y" "snd y" r ry ny, OF _ y(2,1)] xy(4) by simp
    ultimately show "fst x = fst y" using x y by simp
  qed
qed

lemma record_ledger:
  assumes "ledger_ok R s" "CHR '':'' \<notin> set role" "record_pending_tx R role nonce h sent a fees s = (Inr x, s')"
  shows "ledger R s' = (ledger R s)((role, nonce) \<mapsto>
      \<lparr>px_role = role, px_nonce = nonce, px_hash = h, px_sent_at_ms = sent, px_attempts = a,
       px_max_fee_wei = map_option fst fees, px_max_priority_fee_wei = map_option snd fees\<rparr>)" "ledger_ok R s'"
proof -
  let ?e = "\<lparr>pe_hash = h, pe_sent_at_ms = sent, pe_attempts = a,
     pe_max_fee_wei = map_option (\<lambda>(f, _). decimal (unat f)) fees,
     pe_max_priority_fee_wei = map_option (\<lambda>(_, f). decimal (unat f)) fees\<rparr>"
  have "serde_ok R" using ok by (simp add: services_ok_def)
  then obtain p where p: "tx_json R ?e = Some p" unfolding serde_ok_def by blast
  have "(x, s') = ((), r_hset R (snd (r_next R s)) broadcast_ledger_key (ledger_field role nonce) p)"
    by (rule query_Inr) (use assms(3) p in \<open>simp add: record_pending_tx_def\<close>)
  then have s': "s' = r_hset R (snd (r_next R s)) broadcast_ledger_key (ledger_field role nonce) p" by simp
  have row: "ledger_entry_row role nonce ?e = \<lparr>px_role = role, px_nonce = nonce, px_hash = h, px_sent_at_ms = sent, px_attempts = a,
       px_max_fee_wei = map_option fst fees, px_max_priority_fee_wei = map_option snd fees\<rparr>"
    by (cases fees) (simp_all add: ledger_entry_row_def parse_u128_def split: prod.split)
  note n = ledger_next [OF assms(1)]
  show "ledger R s' = (ledger R s)((role, nonce) \<mapsto>
      \<lparr>px_role = role, px_nonce = nonce, px_hash = h, px_sent_at_ms = sent, px_attempts = a,
       px_max_fee_wei = map_option fst fees, px_max_priority_fee_wei = map_option snd fees\<rparr>)" "ledger_ok R s'"
    unfolding s' using ledger_hset [OF n(2) assms(2) p] n(1) row by simp_all
qed

lemma delete_ledger:
  assumes "ledger_ok R s" "CHR '':'' \<notin> set role" "delete_pending_tx R role nonce s = (Inr x, s')"
  shows "ledger R s' = (ledger R s)((role, nonce) := None)" "ledger_ok R s'"
proof -
  have "(x, s') = ((), r_hdel R (snd (r_next R s)) broadcast_ledger_key (ledger_field role nonce))"
    by (rule query_Inr) (use assms(3) in \<open>simp add: delete_pending_tx_def\<close>)
  then have s': "s' = r_hdel R (snd (r_next R s)) broadcast_ledger_key (ledger_field role nonce)" by simp
  note n = ledger_next [OF assms(1)]
  show "ledger R s' = (ledger R s)((role, nonce) := None)" "ledger_ok R s'"
    unfolding s' using ledger_hdel [OF n(2) assms(2)] n(1) by simp_all
qed

lemma list_ledger:
  assumes "ledger_ok R s" "list_pending_txs R before s = (Inr rows, s')"
  shows "set rows = {row \<in> ran (ledger R s). px_sent_at_ms row < before}" "distinct rows"
    "ledger R s' = ledger R s" "ledger_ok R s'"
proof -
  obtain es where q: "query R (\<lambda>s. (r_hgetall R s broadcast_ledger_key, s)) s = (Inr es, s')"
    and rows: "rows = List.map_filter (ledger_row_of R before) es"
    using assms(2) unfolding list_pending_txs_def bind_op_Inr return_op_Inr by blast
  have "(es, s') = (r_hgetall R (snd (r_next R s)) broadcast_ledger_key, snd (r_next R s))" by (rule query_Inr [OF q])
  then have e: "es = r_hgetall R s' broadcast_ledger_key" "s' = snd (r_next R s)" by simp_all
  note n = ledger_next [OF assms(1)]
  show "ledger R s' = ledger R s" "ledger_ok R s'" using n e(2) by simp_all
  then show "set rows = {row \<in> ran (ledger R s). px_sent_at_ms row < before}" "distinct rows"
    using ledger_listed [of s' before] unfolding rows e(1) by simp_all
qed

end

text \<open>C15: The broadcast ledger refines a map from a role and a nonce to the broadcast: an answered
  \<^verbatim>\<open>record_pending_tx\<close> updates that map at one key, fees included, an answered \<^verbatim>\<open>delete_pending_tx\<close>
  removes one key, and an answered \<^verbatim>\<open>list_pending_txs\<close> returns, each once, exactly the entries
  of the map sent before the given time.\<close>

theorem ledger_refines_map:
  assumes "services_ok R" "ledger_ok R s" "CHR '':'' \<notin> set role"
  shows "(\<forall>x s'. record_pending_tx R role nonce h sent a fees s = (Inr x, s') \<longrightarrow> ledger_ok R s'
        \<and> ledger R s' = (ledger R s)((role, nonce) \<mapsto>
            \<lparr>px_role = role, px_nonce = nonce, px_hash = h, px_sent_at_ms = sent, px_attempts = a,
             px_max_fee_wei = map_option fst fees, px_max_priority_fee_wei = map_option snd fees\<rparr>))
    \<and> (\<forall>x s'. delete_pending_tx R role nonce s = (Inr x, s') \<longrightarrow> ledger_ok R s'
        \<and> ledger R s' = (ledger R s)((role, nonce) := None))
    \<and> (\<forall>rows s'. list_pending_txs R before s = (Inr rows, s') \<longrightarrow> ledger_ok R s' \<and> ledger R s' = ledger R s
        \<and> distinct rows \<and> set rows = {row \<in> ran (ledger R s). px_sent_at_ms row < before})"
proof -
  note laws = redis_laws_of [OF assms(1)]
  show ?thesis
    by (intro conjI allI impI)
      (rule redis_laws.record_ledger [OF laws assms(2,3)] redis_laws.delete_ledger [OF laws assms(2,3)]
        redis_laws.list_ledger [OF laws assms(2)], assumption)+
qed

lemma empty_ledger: "ledger_ok ref_services empty_redis" "ledger ref_services empty_redis = Map.empty"
  by (simp_all add: ledger_ok_def ledger_def hash_at_def fun_eq_iff)

theorem ledger_refines_map_witness:
  "\<exists>s'. record_pending_tx ref_services ''register'' 7 ''0xab'' 1000 0 (Some (30, 2)) empty_redis = (Inr (), s')
     \<and> ledger ref_services s' = [(''register'', 7) \<mapsto>
          \<lparr>px_role = ''register'', px_nonce = 7, px_hash = ''0xab'', px_sent_at_ms = 1000, px_attempts = 0,
           px_max_fee_wei = Some 30, px_max_priority_fee_wei = Some 2\<rparr>]"
proof -
  have "calm (record_pending_tx ref_services ''register'' 7 ''0xab'' 1000 0 (Some (30, 2)))"
    unfolding record_pending_tx_def ref_serde option.case by (rule calm_query) simp
  moreover have "rs_faults empty_redis = []" by (simp add: empty_redis_def)
  ultimately obtain s' where r: "record_pending_tx ref_services ''register'' 7 ''0xab'' 1000 0 (Some (30, 2)) empty_redis = (Inr (), s')"
    using calm_faults by fastforce
  have "CHR '':'' \<notin> set ''register''" by simp
  from ledger_refines_map [OF ref_services_ok empty_ledger(1) this, THEN conjunct1, rule_format, OF r]
  show ?thesis using r by (simp add: empty_ledger(2))
qed

section \<open>Public-key placeholders\<close>

context redis_laws
begin

lemma next_index:
  "string_at (r_db R s) k = Some i \<or> r_db R s k = None \<Longrightarrow>
   string_at (r_db R (snd (r_next R s))) k = Some i \<or> r_db R (snd (r_next R s)) k = None"
  using next_db [of s k] by (auto simp: string_at_def)

lemma transition_failed_index:
  assumes "transition_failed R u s = (Inr x, s')" "k \<in> set (index_keys u)"
    "string_at (r_db R s) k = Some (t_id u) \<or> r_db R s k = None"
  shows "r_db R s' k = None"
proof -
  let ?s = "snd (r_next R s)"
  obtain p where p: "task_json R u = Some p" using serde by blast
  have "(x, s') = failed_script R (task_key (t_id u)) (index_keys u) p TASK_FAILED_TTL (t_id u) ?s"
    by (rule query_Inr) (use assms(1) p in \<open>simp add: transition_failed_def run_script_def index_keys_def\<close>)
  then have s': "s' = snd (failed_script R (task_key (t_id u)) (index_keys u) p TASK_FAILED_TTL (t_id u) ?s)"
    by (metis snd_conv)
  note k = index_key_facts [OF index_keys_index [OF assms(2)]]
  show ?thesis
    using next_index [OF assms(3)] assms(2) k
    by (auto simp: s' failed_script_def Let_def delete_own_effect(1) string_at_def)
qed

lemma mark_failed_others:
  assumes inv: "store_inv R s" and t: "pending_at R s i t" and u: "pending_at R s j u" and ij: "i \<noteq> j"
    and k: "k \<in> set (index_keys t)" "string_at (r_db R s) k = Some i"
    and r: "Store.mark_failed R i c m s = (Inr x, s')"
  shows "pending_at R s' j u" "r_db R s' k = None"
proof -
  let ?t = "failed_task c m t" and ?s = "snd (r_next R s)"
  have typed: "tasks_typed R s" "tasks_typed R ?s"
    using inv store_inv_next [OF inv] by (simp_all add: store_inv_def)
  have p: "pending_at R ?s i t" "pending_at R ?s j u" using next_pending [OF typed(1)] t u by simp_all
  then have found: "task_at R ?s i = Some t" by (simp add: pending_at_def)
  obtain f s1 where g: "get_task R i s = (Inr f, s1)"
    and rest: "(case f of None \<Rightarrow> return_op None | Some task \<Rightarrow> let task = failed_task c m task
       in bind_op (transition_failed R task) (\<lambda>_. return_op (Some task))) s1 = (Inr x, s')"
    using r unfolding Store.mark_failed_def bind_op_Inr by blast
  have "s1 = ?s" "f = Some t" using get_task_Inr [OF g] found by simp_all
  then obtain y where y: "transition_failed R ?t ?s = (Inr y, s')"
    using rest by (auto simp: bind_op_Inr return_op_Inr Let_def)
  have id: "t_id ?t = i" using pending_nonvolatile(2) [OF typed(1) t] by simp
  show "pending_at R s' j u"
    using transition_failed_Inr [OF y] next_pending [OF typed(2), of j u] p(2) ij id by (simp add: pending_at_def)
  show "r_db R s' k = None"
    by (rule transition_failed_index [OF y]) (use k next_index [of s k i] id in simp_all)
qed

lemma admit_index:
  assumes "admit R u s = (Inr (New i), s')"
  defines "a \<equiv> snd (r_next R s)"
  shows "k \<in> set (member_key_placeholders u) \<Longrightarrow>
      r_db R s' k = (case r_db R a k of None \<Rightarrow> Some (RString i) | Some v \<Rightarrow> Some v)
      \<and> (k \<in> r_volatile R s' \<longleftrightarrow> k \<in> r_volatile R a \<and> r_db R a k \<noteq> None)"
    "k \<notin> {task_key i, active_set_key, active_age_key} \<union> set (index_keys u) \<Longrightarrow> r_db R s' k = r_db R a k"
proof -
  let ?c = "content_active_key (t_content_hash u)"
  obtain p where p: "task_json R u = Some p" using serde by blast
  let ?f = "admit_script R (task_key (t_id u)) ?c (member_key_placeholders u) (t_id u) p (sint (t_created_at u))"
  obtain resp where q: "query R ?f s = (Inr resp, s')"
    using assms(1) p by (auto simp: admit_def run_script_def bind_op_def split: prod.splits sum.splits)
  have s': "(resp, s') = ?f a" unfolding a_def by (rule query_Inr [OF q])
  have new: "string_at (r_db R a) ?c = None" "i = t_id u" using admit_new [OF assms(1)] by (simp_all add: a_def)
  show "k \<notin> {task_key i, active_set_key, active_age_key} \<union> set (index_keys u) \<Longrightarrow> r_db R s' k = r_db R a k"
    using s' new by (auto simp: admit_script_def Let_def claim_placeholders_effect(1) index_keys_def)
  assume k: "k \<in> set (member_key_placeholders u)"
  have "is_index k" using k index_keys_index [of k u] by (simp add: index_keys_def)
  note f = index_key_facts [OF this] placeholder_not_content [OF k]
  show "r_db R s' k = (case r_db R a k of None \<Rightarrow> Some (RString i) | Some v \<Rightarrow> Some v)
      \<and> (k \<in> r_volatile R s' \<longleftrightarrow> k \<in> r_volatile R a \<and> r_db R a k \<noteq> None)"
    using s' new k f
    by (auto simp: admit_script_def Let_def claim_placeholders_effect split: option.split)
qed

lemma find_missing:
  assumes "r_db R s (key_active_key pk) = None" "find_by_public_key R pk s = (Inr x, s')"
  shows "x = None"
proof -
  obtain q s1 where q: "query R (\<lambda>s. (r_get R s (key_active_key pk), s)) s = (Inr q, s1)"
    and rest: "(case q of Some tid \<Rightarrow> get_task R tid | None \<Rightarrow> return_op None) s1 = (Inr x, s')"
    using assms(2) unfolding find_by_public_key_def find_by_index_def bind_op_Inr by blast
  have "q = string_at (r_db R (snd (r_next R s))) (key_active_key pk)" using query_Inr [OF q] by simp
  moreover have "r_db R (snd (r_next R s)) (key_active_key pk) = None" using next_db [of s "key_active_key pk"] assms(1) by auto
  ultimately have "q = None" by (simp add: at_None)
  then show ?thesis using rest by (simp add: return_op_Inr)
qed

end

text \<open>C36: A pending task can become invisible by public key: when two pending tasks share a key and the
  one that holds the placeholder fails, the placeholder is deleted, and the other task, still
  pending, is no longer found under that key.\<close>

theorem placeholder_lost:
  assumes "services_ok R" "store_inv R s" "pending_at R s i t" "pending_at R s j u" "i \<noteq> j"
    and "key_active_key pk \<in> set (member_key_placeholders t) \<inter> set (member_key_placeholders u)"
    and "string_at (r_db R s) (key_active_key pk) = Some i"
    and "Store.mark_failed R i c m s = (Inr x, s')" "find_by_public_key R pk s' = (Inr y, s'')"
  shows "pending_at R s' j u \<and> y = None"
proof -
  note laws = redis_laws_of [OF assms(1)]
  have "key_active_key pk \<in> set (index_keys t)" using assms(6) by (simp add: index_keys_def)
  note f = redis_laws.mark_failed_others [OF laws assms(2-5) this assms(7,8)]
  show ?thesis using f(1) redis_laws.find_missing [OF laws f(2) assms(9)] by blast
qed

definition first_unit :: register_task where
  "first_unit = sample_register\<lparr>t_content_hash := ''0x01''\<rparr>"

definition second_unit :: register_task where
  "second_unit = sample_register\<lparr>t_id := ''t2'', t_content_hash := ''0x02''\<rparr>"

lemma units [simp]:
  "t_id first_unit = ''t1''" "t_id second_unit = ''t2''" "t_status first_unit = Pending" "t_status second_unit = Pending"
  "t_content_hash first_unit = ''0x01''" "t_content_hash second_unit = ''0x02''"
  "member_key_placeholders second_unit = member_key_placeholders first_unit"
  by (simp_all add: first_unit_def second_unit_def sample_register_def pending_task_def member_key_placeholders_def)

lemma ref_admit_new:
  assumes "rs_faults s = []" "string_at (rs_db s) (content_active_key (t_content_hash u)) = None"
  shows "\<exists>s'. admit ref_services u s = (Inr (New (t_id u)), s') \<and> rs_faults s' = []"
proof -
  let ?s = "s\<lparr>rs_faults := [], rs_volatile := rs_volatile s \<inter> dom (rs_db s)\<rparr>"
  have n: "r_next ref_services s = (Delivered, ?s)" by (simp add: ref_services_def assms(1))
  have "r_get ref_services ?s (content_active_key (t_content_hash u)) = None" by (simp add: ref_services_def assms(2))
  then have "fst (admit ref_services u s) = Inr (New (t_id u))"
    by (simp add: admit_def ref_serde bind_op_def run_script_def query_def n admit_script_def admission_response_def Let_def
        split: prod.split)
  then show ?thesis using calm_admit [OF assms(1), of u] by (metis prod.collapse)
qed

lemma two_units:
  "\<exists>s. rs_faults s = [] \<and> store_inv ref_services s \<and> pending_at ref_services s ''t1'' first_unit
     \<and> pending_at ref_services s ''t2'' second_unit
     \<and> string_at (r_db ref_services s) (key_active_key (ref_hex_encode key_2)) = Some ''t1''"
proof -
  let ?k = "key_active_key (ref_hex_encode key_2)"
  have live: "\<not> is_terminal (t_status first_unit)" "\<not> is_terminal (t_status second_unit)" by (simp_all add: is_terminal_def)
  have k: "?k \<in> set (member_key_placeholders first_unit)"
    by (simp add: member_key_placeholders_def first_unit_def sample_register_def pending_task_def)
  obtain s1 where a1: "admit ref_services first_unit empty_redis = (Inr (New ''t1''), s1)" "rs_faults s1 = []"
    using ref_admit_new [of empty_redis first_unit] by (auto simp: empty_redis_def string_at_def)
  have inv0: "store_inv ref_services empty_redis" by (rule ref_redis.empty_inv) simp_all
  have inv1: "store_inv ref_services s1"
    using ref_redis.admit_inv [OF inv0, of first_unit] live a1(1) by (simp add: at_None)
  have p1: "pending_at ref_services s1 ''t1'' first_unit"
    using ref_redis.admit_new(2) [OF a1(1)] live by (simp add: pending_at_def)
  have n0: "r_db ref_services (snd (r_next ref_services empty_redis)) q = None" for q
    using ref_redis.next_db [of empty_redis q] by simp
  have k1: "r_db ref_services s1 ?k = Some (RString ''t1'')"
    using ref_redis.admit_index(1) [OF a1(1) k] n0 by simp
  have free: "string_at (rs_db s1) (content_active_key ''0x02'') = None" "string_at (rs_db s1) (task_key ''t2'') = None"
    using ref_redis.admit_index(2) [OF a1(1), of "content_active_key ''0x02''"]
      ref_redis.admit_index(2) [OF a1(1), of "task_key ''t2''"] n0 ref_redis.active_not_index(2) [of "''t2''" first_unit]
    by (auto simp: ref_observe at_None content_in_index_keys, simp add: content_active_key_def to_ascii_lowercase_def ascii_lower_def at_None)
  have vol: "?k \<notin> r_volatile ref_services s1" using ref_redis.admit_index(1) [OF a1(1) k] n0 by simp
  obtain s2 where a2: "admit ref_services second_unit s1 = (Inr (New ''t2''), s2)" "rs_faults s2 = []"
    using ref_admit_new [OF a1(2), of second_unit] free by auto
  have inv2: "store_inv ref_services s2"
    using ref_redis.admit_inv [OF inv1, of second_unit] live a2(1) free(2) by (simp add: ref_observe)
  have p2: "pending_at ref_services s2 ''t2'' second_unit"
    using ref_redis.admit_new(2) [OF a2(1)] live by (simp add: pending_at_def)
  have t1: "pending_at ref_services s2 ''t1'' first_unit"
    using ref_redis.admit_result(1) [OF a2(1)] ref_redis.admit_new(3) [OF a2(1)] p1
      ref_redis.next_pending [of s1 "''t1''" first_unit] inv1 by (simp add: pending_at_def store_inv_def)
  have "string_at (r_db ref_services s2) ?k = Some ''t1''"
    using ref_redis.admit_index(1) [OF a2(1), of ?k] k k1 ref_redis.next_keeps(1) [OF vol] by (simp add: string_at_def)
  then show ?thesis using inv2 p2 t1 a2(2) by blast
qed

theorem placeholder_lost_witness:
  "\<exists>s s' s'' x. Store.mark_failed ref_services ''t1'' ''REVERT'' ''no'' s = (Inr x, s')
     \<and> pending_at ref_services s ''t2'' second_unit \<and> pending_at ref_services s' ''t2'' second_unit
     \<and> find_by_public_key ref_services (ref_hex_encode key_2) s' = (Inr None, s'')"
proof -
  let ?k = "key_active_key (ref_hex_encode key_2)"
  obtain s where s: "rs_faults s = []" "store_inv ref_services s" "pending_at ref_services s ''t1'' first_unit"
    "pending_at ref_services s ''t2'' second_unit" "string_at (r_db ref_services s) ?k = Some ''t1''"
    using two_units by blast
  obtain x s' where f: "Store.mark_failed ref_services ''t1'' ''REVERT'' ''no'' s = (Inr x, s')" "rs_faults s' = []"
    using calm_faults [OF s(1) calm_mark_failed] by blast
  have "calm (find_by_public_key ref_services (ref_hex_encode key_2))"
    unfolding find_by_public_key_def find_by_index_def
    by (intro calm_bind calm_query) (auto split: option.split)
  then obtain y s'' where y: "find_by_public_key ref_services (ref_hex_encode key_2) s' = (Inr y, s'')"
    using calm_faults [OF f(2)] by blast
  have k: "?k \<in> set (member_key_placeholders first_unit) \<inter> set (member_key_placeholders second_unit)"
    by (simp, simp add: member_key_placeholders_def first_unit_def sample_register_def pending_task_def)
  have "''t1'' \<noteq> ''t2''" by simp
  from placeholder_lost [OF ref_services_ok s(2-4) this k s(5) f(1) y] show ?thesis using f s y by blast
qed

end
