(* ===== verification/Cf_Chain.thy ===== *)
theory Cf_Chain
  imports Chain_Properties
begin

text \<open>
  The chain access of the Cloudflare shell, \<^verbatim>\<open>p256-index-cf/src/chain.rs\<close>, a port of the server's
  \<^verbatim>\<open>chain.rs\<close> to \<^verbatim>\<open>worker::Fetch\<close> and the wall clock: the roster's cooldowns and the receipt deadline
  read \<^verbatim>\<open>Date::now()\<close>.  Parsers, the JSON-RPC envelope, signing and the fee policy are the same text
  in both files and are shared with \<open>Chain\<close>.  \<open>cf_chain_is_port\<close> states that the port computes what
  the server computes on a host whose monotonic clock is the wall clock.
\<close>

section \<open>The RPC pool\<close>

definition wall_ms :: "'w host \<Rightarrow> 'w net \<Rightarrow> u64 \<times> 'w net" where
  "wall_ms H s = (let (now, w) = h_now_ms H (n_world s) in (now, s\<lparr>n_world := w\<rparr>))"

definition cf_read_available :: "'w host \<Rightarrow> 'w net \<Rightarrow> bool \<times> 'w net" where
  "cf_read_available H s =
     (let (now, s) = wall_ms H s;
          (st, R) = circuit_state now (n_roster s)
      in (st = ''closed'', s\<lparr>n_roster := R\<rparr>))"

definition cf_select_on :: "'w host \<Rightarrow> lane \<Rightarrow> 'w net \<Rightarrow> string option \<times> 'w net" where
  "cf_select_on H lane s =
     (let (now, s) = wall_ms H s;
          (url, R) = select lane now (n_roster s)
      in (url, s\<lparr>n_roster := R\<rparr>))"

definition cf_select_write :: "'w host \<Rightarrow> 'w net \<Rightarrow> string option \<times> 'w net" where
  "cf_select_write H s = cf_select_on H Write s"

text \<open>A fetch that fails or runs into the ten-second timer, and a status of 400 or more, are
  \<^verbatim>\<open>Unavailable\<close>; a body that is not JSON is \<^verbatim>\<open>InvalidResponse\<close>.\<close>

definition post_json :: "'w host \<Rightarrow> string \<Rightarrow> json \<Rightarrow> ('w, json) chain_op" where
  "post_json H url payload s =
     (let (reply, w) = h_post H (n_world s) url payload;
          s = s\<lparr>n_world := w\<rparr>
      in case reply of
           NotSent \<Rightarrow> (Inl Unavailable, s)
         | BadStatus \<Rightarrow> (Inl Unavailable, s)
         | NotJson \<Rightarrow> (Inl InvalidResponse, s)
         | Body body \<Rightarrow> (Inr body, s))"

definition cf_call_on :: "'w host \<Rightarrow> string \<Rightarrow> string \<Rightarrow> json \<Rightarrow> ('w, json) chain_op" where
  "cf_call_on H url meth params =
     bind_op (post_json H url (rpc_request meth params)) (\<lambda>body.
       case json_get ''error'' body of
         Some err \<Rightarrow> fail_op (rpc_error H err)
       | None \<Rightarrow>
           bind_op (lift_op (ok_or InvalidResponse (json_get ''result'' body))) (\<lambda>result s.
             (Inr result, s\<lparr>n_roster := mark_healthy url (n_roster s)\<rparr>)))"

fun cf_call_loop :: "'w host \<Rightarrow> nat \<Rightarrow> string \<Rightarrow> json \<Rightarrow> ('w, json) chain_op" where
  "cf_call_loop H 0 meth params s = (Inl Unavailable, s)"
| "cf_call_loop H (Suc n) meth params s =
     (case cf_select_on H Read s of
        (None, s) \<Rightarrow> (Inl Unavailable, s)
      | (Some url, s) \<Rightarrow>
          (case cf_call_on H url meth params s of
             (Inr v, s) \<Rightarrow> (Inr v, s)
           | (Inl (Reverted err), s) \<Rightarrow> (Inl (Reverted err), s)
           | (Inl _, s) \<Rightarrow>
               (let (now, s) = wall_ms H s
                in cf_call_loop H n meth params (s\<lparr>n_roster := mark_failed url now (n_roster s)\<rparr>))))"

definition cf_call :: "'w host \<Rightarrow> string \<Rightarrow> json \<Rightarrow> ('w, json) chain_op" where
  "cf_call H meth params s = cf_call_loop H (read_attempts (n_roster s)) meth params s"

definition cf_call_contract :: "externs \<Rightarrow> 'w host \<Rightarrow> bytes \<Rightarrow> bytes \<Rightarrow> ('w, bytes) chain_op" where
  "cf_call_contract X H to data =
     bind_op (cf_call H ''eth_call''
       (JArray [JObject [(''to'', JString (address_text H to)), (''data'', hex_0x X data)], JString ''latest'']))
     (\<lambda>result. bind_op (lift_op (ok_or InvalidResponse (as_str result))) (\<lambda>v. lift_op (decode_rpc_bytes X v)))"

section \<open>Set-up\<close>

definition cf_parse_secret_key :: "externs \<Rightarrow> 'w host \<Rightarrow> string \<Rightarrow> bytes result" where
  "cf_parse_secret_key X H v =
     bind_res (ok_or ''PRIVATE_KEY is not valid hex'' (hex_decode X (strip_0x v))) (\<lambda>b.
       if secret_key_ok H b then Inr b else Inl ''PRIVATE_KEY is not a valid secp256k1 key'')"

definition cf_chain_new ::
  "externs \<Rightarrow> 'w host \<Rightarrow> string option \<Rightarrow> string list \<Rightarrow> string list \<Rightarrow> string \<Rightarrow> string \<Rightarrow> u128
     \<Rightarrow> (roster \<times> chain) result" where
  "cf_chain_new X H private_key read_rpcs write_rpcs contract_address domain_registry max_gas_price_wei =
     bind_res (case private_key of None \<Rightarrow> Inr None | Some k \<Rightarrow> bind_res (cf_parse_secret_key X H k) (\<lambda>key. Inr (Some key)))
       (\<lambda>signer_key.
     bind_res (ok_or ''P256_INDEX_CONTRACT_ADDRESS is not a valid address'' (parse_address X contract_address))
       (\<lambda>registry.
     bind_res (ok_or ''P256_INDEX_DOMAIN_REGISTRY is not a valid address'' (parse_address X domain_registry))
       (\<lambda>domain_address.
     Inr (roster_new read_rpcs write_rpcs,
          \<lparr>ch_registry_address = registry, ch_domain_registry_address = domain_address,
           ch_signer_key = signer_key, ch_max_gas_price_wei = ucast max_gas_price_wei\<rparr>))))"

definition cf_rpc_circuit_state :: "'w host \<Rightarrow> 'w net \<Rightarrow> string \<times> 'w net" where
  "cf_rpc_circuit_state H s =
     (let (ok, s) = cf_read_available H s in (if ok then ''closed'' else ''open'', s))"

section \<open>Reads\<close>

definition cf_read :: "externs \<Rightarrow> 'w host \<Rightarrow> chain \<Rightarrow> bytes \<Rightarrow> ('w, bytes) chain_op" where
  "cf_read X H C data = cf_call_contract X H (ch_registry_address C) data"

text \<open>A read by id: a revert means that the record does not exist.\<close>

definition read_by_id ::
  "externs \<Rightarrow> 'w host \<Rightarrow> chain \<Rightarrow> bytes \<Rightarrow> (bytes \<Rightarrow> 'a result) \<Rightarrow> ('w, 'a option) chain_op" where
  "read_by_id X H C data decode s =
     (case cf_read X H C data s of
        (Inr b, s) \<Rightarrow> (case decode b of Inr a \<Rightarrow> (Inr (Some a), s) | Inl _ \<Rightarrow> (Inl InvalidResponse, s))
      | (Inl (Reverted _), s) \<Rightarrow> (Inr None, s)
      | (Inl e, s) \<Rightarrow> (Inl e, s))"

definition cf_entry :: "externs \<Rightarrow> 'w host \<Rightarrow> chain \<Rightarrow> u64 \<Rightarrow> ('w, entry_record option) chain_op" where
  "cf_entry X H C entry_id = read_by_id X H C (get_entry_calldata X entry_id) (decode_entry X entry_id)"

definition cf_unit :: "externs \<Rightarrow> 'w host \<Rightarrow> chain \<Rightarrow> u64 \<Rightarrow> ('w, unit_record option) chain_op" where
  "cf_unit X H C unit_id = read_by_id X H C (get_unit_calldata X unit_id) (decode_unit X unit_id)"

definition cf_key_profile ::
  "externs \<Rightarrow> 'w host \<Rightarrow> chain \<Rightarrow> string \<Rightarrow> u64 \<Rightarrow> u64 \<Rightarrow> bool \<Rightarrow> ('w, key_profile option) chain_op" where
  "cf_key_profile X H C public_key page page_size descending =
     bind_op (lift_op (ok_or InvalidResponse (hex_decode X (strip_0x public_key)))) (\<lambda>key.
     bind_op (cf_read X H C (get_entry_by_key_calldata X key)) (\<lambda>b.
     bind_op (decoded (decode_entry_by_key X b)) (\<lambda>found.
       case found of
         None \<Rightarrow> return_op None
       | Some e \<Rightarrow>
           (let offset = chain_offset page page_size in
            bind_op (cf_read X H C (groups_of_key_calldata X key offset page_size descending)) (\<lambda>b.
            bind_op (decoded (decode_id_page X b)) (\<lambda>(group_total, group_ids).
            bind_op (cf_read X H C (references_of_key_calldata X key offset page_size descending)) (\<lambda>b.
            bind_op (decoded (decode_id_page X b)) (\<lambda>(reference_total, reference_ids).
              return_op (Some \<lparr>kp_entry = e, kp_group_total = group_total, kp_group_ids = group_ids,
                               kp_reference_total = reference_total, kp_reference_ids = reference_ids\<rparr>)))))))))"

fun cf_units :: "externs \<Rightarrow> 'w host \<Rightarrow> chain \<Rightarrow> u64 list \<Rightarrow> ('w, unit_record list) chain_op" where
  "cf_units X H C [] = return_op []"
| "cf_units X H C (unit_id # ids) =
     bind_op (cf_read X H C (get_unit_calldata X unit_id)) (\<lambda>b.
     bind_op (decoded (decode_unit X unit_id b)) (\<lambda>u.
     bind_op (cf_units X H C ids) (\<lambda>us. return_op (u # us))))"

definition cf_groups_by_rp_id ::
  "externs \<Rightarrow> 'w host \<Rightarrow> chain \<Rightarrow> string \<Rightarrow> u64 \<Rightarrow> u64 \<Rightarrow> bool \<Rightarrow> ('w, unit_record page) chain_op" where
  "cf_groups_by_rp_id X H C rp_id page page_size descending =
     (let offset = chain_offset page page_size in
      bind_op (cf_read X H C (groups_by_rp_id_calldata X rp_id offset page_size descending)) (\<lambda>b.
      bind_op (decoded (decode_id_page X b)) (\<lambda>(total, ids).
      bind_op (cf_units X H C ids) (\<lambda>items.
        return_op \<lparr>pg_total = total, pg_page = page, pg_page_size = page_size, pg_items = items\<rparr>))))"

definition cf_rp_ids ::
  "externs \<Rightarrow> 'w host \<Rightarrow> chain \<Rightarrow> u64 \<Rightarrow> u64 \<Rightarrow> bool \<Rightarrow> ('w, site_item page) chain_op" where
  "cf_rp_ids X H C page page_size descending =
     (let offset = chain_offset page page_size in
      bind_op (cf_read X H C (rp_ids_calldata X offset page_size descending)) (\<lambda>b.
      bind_op (decoded (decode_rp_ids X b)) (\<lambda>(total, items).
        return_op \<lparr>pg_total = total, pg_page = page, pg_page_size = page_size,
          pg_items = map (\<lambda>(rp_id, entry_count, created_at).
            \<lparr>si_rp_id = rp_id, si_entry_count = entry_count, si_created_at = created_at\<rparr>) items\<rparr>)))"

definition cf_unit_by_group_key :: "externs \<Rightarrow> 'w host \<Rightarrow> chain \<Rightarrow> bytes \<Rightarrow> ('w, unit_record option) chain_op" where
  "cf_unit_by_group_key X H C public_key =
     bind_op (cf_read X H C (get_unit_by_group_key_calldata X public_key)) (\<lambda>b.
       decoded (decode_unit_by_group_key X b))"

definition cf_group_detail_for ::
  "externs \<Rightarrow> 'w host \<Rightarrow> chain \<Rightarrow> unit_record \<Rightarrow> bytes \<Rightarrow> u64 \<Rightarrow> u64 \<Rightarrow> bool \<Rightarrow> ('w, group_detail) chain_op" where
  "cf_group_detail_for X H C unit group_key page page_size descending =
     (let offset = chain_offset page page_size in
      bind_op (cf_read X H C (get_group_members_calldata X (u_unit_id unit) offset page_size descending)) (\<lambda>b.
      bind_op (decoded (decode_group_members X b)) (\<lambda>(member_total, members).
      bind_op (cf_read X H C (references_to_group_calldata X group_key offset page_size descending)) (\<lambda>b.
      bind_op (decoded (decode_id_page X b)) (\<lambda>(reference_total, reference_ids).
        return_op \<lparr>gd_unit = unit, gd_member_total = member_total, gd_members = members,
                   gd_reference_total = reference_total, gd_reference_ids = reference_ids\<rparr>)))))"

definition cf_group_detail_by_key ::
  "externs \<Rightarrow> 'w host \<Rightarrow> chain \<Rightarrow> bytes \<Rightarrow> u64 \<Rightarrow> u64 \<Rightarrow> bool \<Rightarrow> ('w, group_detail option) chain_op" where
  "cf_group_detail_by_key X H C public_key page page_size descending =
     bind_op (cf_unit_by_group_key X H C public_key) (\<lambda>found.
       case found of
         None \<Rightarrow> return_op None
       | Some unit \<Rightarrow>
           bind_op (cf_group_detail_for X H C unit public_key page page_size descending) (\<lambda>d. return_op (Some d)))"

definition cf_group_detail_by_id ::
  "externs \<Rightarrow> 'w host \<Rightarrow> chain \<Rightarrow> u64 \<Rightarrow> u64 \<Rightarrow> u64 \<Rightarrow> bool \<Rightarrow> ('w, group_detail option) chain_op" where
  "cf_group_detail_by_id X H C unit_id page page_size descending =
     bind_op (cf_unit X H C unit_id) (\<lambda>found.
       case found of
         None \<Rightarrow> return_op None
       | Some unit \<Rightarrow>
           bind_op (lift_op (ok_or InvalidResponse (hex_decode X (u_group_public_key unit)))) (\<lambda>group_key.
           bind_op (cf_group_detail_for X H C unit group_key page page_size descending) (\<lambda>d. return_op (Some d))))"

definition cf_is_referenced :: "externs \<Rightarrow> 'w host \<Rightarrow> chain \<Rightarrow> bytes \<Rightarrow> bytes \<Rightarrow> ('w, bool) chain_op" where
  "cf_is_referenced X H C group_public_key member_public_key =
     bind_op (cf_read X H C (is_referenced_calldata X group_public_key member_public_key)) (\<lambda>b.
       decoded (decode_bool X b))"

definition cf_read_total :: "externs \<Rightarrow> 'w host \<Rightarrow> chain \<Rightarrow> bytes \<Rightarrow> ('w, u64) chain_op" where
  "cf_read_total X H C data = bind_op (cf_read X H C data) (\<lambda>b. decoded (decode_total X b))"

definition cf_totals :: "externs \<Rightarrow> 'w host \<Rightarrow> chain \<Rightarrow> ('w, totals) chain_op" where
  "cf_totals X H C =
     bind_op (cf_read_total X H C (total_entries_calldata X)) (\<lambda>entries.
     bind_op (cf_read_total X H C (total_units_calldata X)) (\<lambda>units.
     bind_op (cf_read_total X H C (total_references_calldata X)) (\<lambda>references.
     bind_op (cf_read_total X H C (total_rp_ids_calldata X)) (\<lambda>rp_ids.
       return_op \<lparr>tot_entries = entries, tot_units = units, tot_references = references, tot_rp_ids = rp_ids\<rparr>))))"

definition cf_is_content_registered :: "externs \<Rightarrow> 'w host \<Rightarrow> chain \<Rightarrow> bytes \<Rightarrow> ('w, bool) chain_op" where
  "cf_is_content_registered X H C content_hash =
     bind_op (cf_read X H C (is_content_registered_calldata X content_hash)) (\<lambda>b.
       decoded (decode_bool X b))"

definition cf_pending_nonce :: "'w host \<Rightarrow> chain \<Rightarrow> wallet_role \<Rightarrow> ('w, u64) chain_op" where
  "cf_pending_nonce H C role =
     bind_op (lift_op (wallet_address H C role)) (\<lambda>address.
     bind_op (cf_call H ''eth_getTransactionCount'' (JArray [JString (address_text H address), JString ''pending''])) (\<lambda>v.
       lift_op (parse_quantity_value H v)))"

definition cf_confirmed_nonce :: "'w host \<Rightarrow> chain \<Rightarrow> wallet_role \<Rightarrow> ('w, u64) chain_op" where
  "cf_confirmed_nonce H C role =
     bind_op (lift_op (wallet_address H C role)) (\<lambda>address.
     bind_op (cf_call H ''eth_getTransactionCount'' (JArray [JString (address_text H address), JString ''latest''])) (\<lambda>v.
       lift_op (parse_quantity_value H v)))"

definition cf_gas_price :: "'w host \<Rightarrow> ('w, u256) chain_op" where
  "cf_gas_price H = bind_op (cf_call H ''eth_gasPrice'' (JArray [])) (\<lambda>v. lift_op (parse_u256_value H v))"

definition cf_balance :: "'w host \<Rightarrow> chain \<Rightarrow> wallet_role \<Rightarrow> ('w, u256) chain_op" where
  "cf_balance H C role =
     bind_op (lift_op (wallet_address H C role)) (\<lambda>address.
     bind_op (cf_call H ''eth_getBalance'' (JArray [JString (address_text H address), JString ''latest''])) (\<lambda>v.
       lift_op (parse_u256_value H v)))"

section \<open>Writes\<close>

definition cf_write_node :: "'w host \<Rightarrow> ('w, string) chain_op" where
  "cf_write_node H s = (let (url, s) = cf_select_write H s in (ok_or Unavailable url, s))"

definition cf_send_transaction_on ::
  "externs \<Rightarrow> 'w host \<Rightarrow> string \<Rightarrow> bytes \<Rightarrow> transaction \<Rightarrow> ('w, string) chain_op" where
  "cf_send_transaction_on X H url key tr =
     bind_op (lift_op (sign_eip1559 H key (tr_nonce tr) (tr_gas_limit tr) (tr_fees tr) (tr_to tr) (tr_value tr)
                (tr_data tr))) (\<lambda>signed.
     bind_op (cf_call_on H url ''eth_sendRawTransaction'' (JArray [hex_0x X signed])) (\<lambda>result.
       lift_op (ok_or InvalidResponse (as_str result))))"

definition cf_estimate_gas_on ::
  "externs \<Rightarrow> 'w host \<Rightarrow> string \<Rightarrow> bytes \<Rightarrow> bytes \<Rightarrow> bytes \<Rightarrow> ('w, u64) chain_op" where
  "cf_estimate_gas_on X H url from to data =
     bind_op (cf_call_on H url ''eth_estimateGas''
       (JArray [JObject [(''from'', JString (address_text H from)), (''to'', JString (address_text H to)),
                         (''data'', hex_0x X data)]])) (\<lambda>v. lift_op (parse_quantity_value H v))"

definition cf_gas_price_on :: "'w host \<Rightarrow> string \<Rightarrow> ('w, u256) chain_op" where
  "cf_gas_price_on H url =
     bind_op (cf_call_on H url ''eth_gasPrice'' (JArray [])) (\<lambda>v. lift_op (parse_u256_value H v))"

definition cf_base_fee_on :: "'w host \<Rightarrow> string \<Rightarrow> ('w, u256) chain_op" where
  "cf_base_fee_on H url =
     bind_op (cf_call_on H url ''eth_getBlockByNumber'' (JArray [JString ''latest'', JBool False])) (\<lambda>v.
       case json_get ''baseFeePerGas'' v of
         Some fee \<Rightarrow> lift_op (parse_u256_value H fee)
       | None \<Rightarrow> cf_gas_price_on H url)"

definition cf_base_fee :: "'w host \<Rightarrow> ('w, u256) chain_op" where
  "cf_base_fee H = bind_op (cf_write_node H) (\<lambda>url. cf_base_fee_on H url)"

definition cf_balance_on :: "'w host \<Rightarrow> bytes \<Rightarrow> ('w, u256) chain_op" where
  "cf_balance_on H address =
     bind_op (cf_call H ''eth_getBalance'' (JArray [JString (address_text H address), JString ''latest''])) (\<lambda>v.
       lift_op (parse_u256_value H v))"

definition cf_fee_plan :: "'w host \<Rightarrow> chain \<Rightarrow> ('w, fee_verdict) chain_op" where
  "cf_fee_plan H C =
     bind_op (cf_write_node H) (\<lambda>url.
     bind_op (cf_base_fee_on H url) (\<lambda>base. return_op (fee_plan_from C base)))"

definition cf_send_contract_transaction ::
  "externs \<Rightarrow> 'w host \<Rightarrow> chain \<Rightarrow> wallet_role \<Rightarrow> bytes \<Rightarrow> bytes \<Rightarrow> u64 \<Rightarrow> ('w, broadcast) chain_op" where
  "cf_send_contract_transaction X H C role to data nonce =
     bind_op (lift_op (wallet_key C role)) (\<lambda>key.
     let from = key_address H key in
     bind_op (cf_write_node H) (\<lambda>url.
     bind_op (cf_estimate_gas_on X H url from to data) (\<lambda>estimate.
     let gas_limit = saturating_mul estimate 120 div 100 in
     if \<not> gas_limit_within_bounds gas_limit then fail_op (over_gas_limit gas_limit)
     else
       bind_op (cf_base_fee_on H url) (\<lambda>base.
       case fee_plan_from C base of
         TooExpensive required cap \<Rightarrow> fail_op (Rejected (too_expensive_reason required cap))
       | Send fees \<Rightarrow>
           (let required = required_balance gas_limit (max_fee_per_gas fees) in
            bind_op (cf_balance_on H from) (\<lambda>bal.
            if bal < required then fail_op (underfunded H from bal required)
            else
              bind_op (cf_send_transaction_on X H url key
                 \<lparr>tr_to = to, tr_data = data, tr_value = 0, tr_nonce = nonce, tr_gas_limit = gas_limit, tr_fees = fees\<rparr>)
               (\<lambda>hash. return_op \<lparr>bc_hash = hash, bc_fees_wei = fees_wei fees\<rparr>)))))))"

definition cf_register :: "externs \<Rightarrow> 'w host \<Rightarrow> chain \<Rightarrow> register_task \<Rightarrow> u64 \<Rightarrow> ('w, broadcast) chain_op" where
  "cf_register X H C task nonce =
     bind_op (lift_op (map_err (\<lambda>_. Rejected ''could not encode a register call'') (write_calldata X task))) (\<lambda>data.
       cf_send_contract_transaction X H C RegisterWallet (ch_registry_address C) data nonce)"

definition cf_cancel_stuck_nonce ::
  "externs \<Rightarrow> 'w host \<Rightarrow> chain \<Rightarrow> wallet_role \<Rightarrow> u64 \<Rightarrow> fee_plan \<Rightarrow> ('w, string) chain_op" where
  "cf_cancel_stuck_nonce X H C role nonce fees =
     bind_op (lift_op (wallet_key C role)) (\<lambda>key.
     let address = key_address H key in
     bind_op (cf_write_node H) (\<lambda>url.
       cf_send_transaction_on X H url key
         \<lparr>tr_to = address, tr_data = [], tr_value = 0, tr_nonce = nonce, tr_gas_limit = 21000, tr_fees = fees\<rparr>))"

text \<open>The polling loop, with fuel for the number of polls; the deadline is a wall-clock time in
  milliseconds.\<close>

fun cf_receipt_loop :: "'w host \<Rightarrow> nat \<Rightarrow> u64 \<Rightarrow> string \<Rightarrow> ('w, receipt_outcome) chain_op" where
  "cf_receipt_loop H 0 deadline hash s = (Inl Unavailable, s)"
| "cf_receipt_loop H (Suc n) deadline hash s =
     (let (now, s) = wall_ms H s
      in if now < deadline
         then (case cf_call H ''eth_getTransactionReceipt'' (JArray [JString hash]) s of
                 (Inl e, s) \<Rightarrow> (Inl e, s)
               | (Inr v, s) \<Rightarrow>
                   if v = JNull
                   then cf_receipt_loop H n deadline hash (s\<lparr>n_world := h_sleep H (n_world s) RECEIPT_POLL\<rparr>)
                   else (receipt_of v, s))
         else (Inl Unavailable, s))"

definition cf_wait_for_receipt :: "'w host \<Rightarrow> string \<Rightarrow> u64 \<Rightarrow> ('w, receipt_outcome) chain_op" where
  "cf_wait_for_receipt H hash timeout_ms s =
     (let (now, s) = wall_ms H s
      in cf_receipt_loop H (unat timeout_ms div 2000 + 2) (now + timeout_ms) hash s)"

section \<open>The port\<close>

text \<open>The server's host with the wall clock in place of the monotonic one.\<close>

definition wall_host :: "'w host \<Rightarrow> 'w host" where
  "wall_host H =
     H\<lparr>h_instant := (\<lambda>w. let (now, w') = h_now_ms H w in (unat now * 1000000, w')), h_start := 0\<rparr>"

lemma wall_host_simps [simp]:
  "h_posted (wall_host H) = h_posted H" "h_clock (wall_host H) = h_clock H" "h_post (wall_host H) = h_post H"
  "h_now_ms (wall_host H) = h_now_ms H" "h_sleep (wall_host H) = h_sleep H" "json_text (wall_host H) = json_text H"
  "u256_from_hex (wall_host H) = u256_from_hex H" "address_text (wall_host H) = address_text H"
  "key_address (wall_host H) = key_address H" "sign_transaction (wall_host H) = sign_transaction H"
  "h_instant (wall_host H) w = (unat (fst (h_now_ms H w)) * 1000000, snd (h_now_ms H w))"
  by (simp_all add: wall_host_def split_def Let_def)

lemma port_clock: "monotonic_ms (wall_host H) s = wall_ms H s"
  by (simp add: monotonic_ms_def wall_ms_def wall_host_def split_def Let_def)

lemma port_pure [simp]:
  "parse_u256_value (wall_host H) = parse_u256_value H" "parse_quantity_value (wall_host H) = parse_quantity_value H"
  "rpc_error (wall_host H) = rpc_error H" "wallet_address (wall_host H) = wallet_address H"
  "sign_eip1559 (wall_host H) = sign_eip1559 H" "underfunded (wall_host H) = underfunded H"
  unfolding fun_eq_iff parse_u256_value_def parse_quantity_value_def rpc_error_def wallet_address_def
    sign_eip1559_def underfunded_def wall_host_simps by simp_all

lemma port_select: "cf_select_on H lane s = select_on (wall_host H) lane s"
  by (simp add: cf_select_on_def select_on_def port_clock)

lemma port_call_on: "cf_call_on H url meth params = call_on (wall_host H) url meth params"
  by (rule ext)
    (simp add: cf_call_on_def call_on_def post_json_def bind_op_def lift_op_def fail_op_def ok_or_def Let_def split_def
      split: http_reply.split option.split)

lemma port_call_loop: "cf_call_loop H n meth params s = call_loop (wall_host H) n meth params s"
  by (induction n arbitrary: s)
    (simp_all add: port_select port_call_on fail_node_def port_clock split_def Let_def
      split: option.split sum.split chain_error.split)

lemma port_call: "cf_call H = call (wall_host H)"
  by (simp add: fun_eq_iff cf_call_def call_def port_call_loop)

lemma port_read: "cf_read X H = read_call X (wall_host H)"
  by (simp add: fun_eq_iff cf_read_def read_call_def cf_call_contract_def call_contract_def port_call bind_op_def
      lift_op_def fail_op_def ok_or_def split: prod.split sum.split option.split)

lemma port_read_by_id:
  "read_by_id X H C data decode =
     bind_op (absent_on_revert (read_call X (wall_host H) C data)) (\<lambda>b.
       case b of None \<Rightarrow> return_op None | Some b \<Rightarrow> bind_op (decoded (decode b)) (\<lambda>e. return_op (Some e)))"
  by (rule ext)
    (simp add: read_by_id_def port_read absent_on_revert_def decoded_def map_err_def bind_op_def lift_op_def return_op_def
      split: prod.split sum.split chain_error.split)

lemma port_units: "cf_units X H C ids = units_of X (wall_host H) C ids"
  by (induction ids) (simp_all add: port_read)

lemmas port_ops = port_call port_call_on port_read port_read_by_id port_units port_select

lemma port_reads:
  "cf_entry X H = entry X (wall_host H)" "cf_unit X H = unit_of_id X (wall_host H)"
  "cf_key_profile X H = key_profile_of X (wall_host H)" "cf_groups_by_rp_id X H = groups_by_rp_id X (wall_host H)"
  "cf_rp_ids X H = rp_ids_page X (wall_host H)" "cf_unit_by_group_key X H = unit_by_group_key X (wall_host H)"
  "cf_group_detail_for X H = group_detail_for X (wall_host H)" "cf_is_referenced X H = is_referenced X (wall_host H)"
  "cf_totals X H = totals_of X (wall_host H)" "cf_is_content_registered X H = is_content_registered X (wall_host H)"
  unfolding fun_eq_iff cf_entry_def entry_def cf_unit_def unit_of_id_def cf_key_profile_def key_profile_of_def
    cf_groups_by_rp_id_def groups_by_rp_id_def cf_rp_ids_def rp_ids_page_def cf_unit_by_group_key_def
    unit_by_group_key_def cf_group_detail_for_def group_detail_for_def cf_is_referenced_def is_referenced_def
    cf_totals_def totals_of_def cf_read_total_def read_total_def cf_is_content_registered_def
    is_content_registered_def port_ops
  by (intro allI refl)+

lemma port_details:
  "cf_group_detail_by_key X H = group_detail_by_key X (wall_host H)"
  "cf_group_detail_by_id X H = group_detail_by_id X (wall_host H)"
  unfolding fun_eq_iff cf_group_detail_by_key_def group_detail_by_key_def cf_group_detail_by_id_def
    group_detail_by_id_def port_reads
  by (intro allI refl)+

lemma port_quantities:
  "cf_pending_nonce H = pending_nonce (wall_host H)" "cf_confirmed_nonce H = confirmed_nonce (wall_host H)"
  "cf_gas_price H = gas_price (wall_host H)" "cf_balance H = balance (wall_host H)"
  "cf_rpc_circuit_state H = rpc_circuit_state (wall_host H)"
  unfolding fun_eq_iff cf_pending_nonce_def pending_nonce_def cf_confirmed_nonce_def confirmed_nonce_def nonce_at_def
    cf_gas_price_def gas_price_def cf_balance_def balance_def balance_of_def [abs_def] cf_rpc_circuit_state_def
    rpc_circuit_state_def cf_read_available_def read_available_def port_clock port_ops port_pure wall_host_simps
  by (intro allI refl)+

lemma port_write_steps:
  "cf_write_node H = write_node (wall_host H)" "cf_send_transaction_on X H = send_transaction_on X (wall_host H)"
  "cf_estimate_gas_on X H = estimate_gas_on X (wall_host H)" "cf_base_fee_on H = base_fee_on (wall_host H)"
  "balance_on (wall_host H) url a = cf_balance_on H a"
  unfolding fun_eq_iff cf_write_node_def write_node_def cf_select_write_def select_write_def
    cf_send_transaction_on_def send_transaction_on_def cf_estimate_gas_on_def estimate_gas_on_def cf_base_fee_on_def
    base_fee_on_def cf_gas_price_on_def gas_price_on_def cf_balance_on_def balance_on_def balance_of_def port_ops
    port_pure wall_host_simps
  by (intro allI refl)+

lemma port_send: "cf_send_contract_transaction X H = send_contract_transaction X (wall_host H)"
  unfolding fun_eq_iff cf_send_contract_transaction_def send_contract_transaction_def port_write_steps
    gas_limit_for_def port_pure wall_host_simps
  by (intro allI refl)

lemma port_register: "cf_register X H = chain_register X (wall_host H)"
  unfolding fun_eq_iff cf_register_def chain_register_def port_send by (intro allI refl)

lemma port_base_fee: "cf_base_fee H = base_fee (wall_host H)"
  unfolding cf_base_fee_def base_fee_def port_write_steps by (rule refl)

lemma port_fee_plan: "cf_fee_plan H C = fee_plan_of (wall_host H) C"
  unfolding cf_fee_plan_def fee_plan_of_def base_fee_def port_write_steps
  by (rule ext) (simp add: bind_op_def split: prod.split sum.split)

lemma port_cancel: "cf_cancel_stuck_nonce X H C role nonce fees = cancel_stuck_nonce X (wall_host H) C role nonce fees"
  unfolding cf_cancel_stuck_nonce_def cancel_stuck_nonce_def send_transaction_def wallet_address_def port_write_steps
  by (rule ext) (simp add: bind_op_def lift_op_def bind_res_def Let_def split: prod.split sum.split)

text \<open>A \<^verbatim>\<open>Date\<close> is at most 8.64e15 milliseconds.\<close>

definition date_ok :: "'w host \<Rightarrow> bool" where
  "date_ok H = (\<forall>w. unat (fst (h_now_ms H w)) \<le> 8640000000000000)"

lemma wall_ms_range: "date_ok H \<Longrightarrow> wall_ms H s = (now, s') \<Longrightarrow> unat now \<le> 8640000000000000"
  by (auto simp: date_ok_def wall_ms_def Let_def split_def)

lemma deadline_elapsed:
  assumes "unat (started :: u64) \<le> 8640000000000000" "0 < timeout" "unat timeout \<le> 2 ^ 40"
  shows "now < started + timeout \<longleftrightarrow> unat now * 1000000 - unat started * 1000000 < unat timeout * 1000000"
proof -
  have "unat (started + timeout) = unat started + unat timeout"
    by (rule unat_add_lem [THEN iffD1]) (use assms in simp)
  moreover have "unat now * 1000000 - unat started * 1000000 = (unat now - unat started) * 1000000"
    by (simp add: diff_mult_distrib)
  moreover have "0 < unat timeout" using assms(2) by (simp add: word_less_nat_alt)
  ultimately show ?thesis unfolding word_less_nat_alt by (simp add: less_diff_conv2) linarith
qed

lemma port_receipt_loop:
  assumes "unat (started :: u64) \<le> 8640000000000000" "0 < timeout" "unat timeout \<le> 2 ^ 40"
  shows "cf_receipt_loop H n (started + timeout) hash s =
    receipt_loop (wall_host H) n (unat started * 1000000) (unat timeout * 1000000) hash s"
proof (induction n arbitrary: s)
  case (Suc n)
  show ?case
    by (simp add: Suc wall_ms_def port_call deadline_elapsed [OF assms] Let_def split_def split: sum.split)
qed simp

lemma port_wait:
  assumes "date_ok H" "0 < timeout" "unat timeout \<le> 2 ^ 40"
  shows "cf_wait_for_receipt H hash timeout s = wait_for_receipt (wall_host H) hash (unat timeout * 1000000) s"
proof -
  have fuel: "unat timeout * 1000000 div RECEIPT_POLL = unat timeout div 2000"
    using div_mult_mult2 [of "1000000 :: nat" "unat timeout" 2000] by (simp add: RECEIPT_POLL_def)
  obtain now s' where now: "wall_ms H s = (now, s')" by fastforce
  have "h_instant (wall_host H) (n_world s) = (unat now * 1000000, n_world s')" "s\<lparr>n_world := n_world s'\<rparr> = s'"
    using now by (auto simp: wall_ms_def Let_def split_def)
  then have "wait_for_receipt (wall_host H) hash (unat timeout * 1000000) s =
      receipt_loop (wall_host H) (unat timeout div 2000 + 2) (unat now * 1000000) (unat timeout * 1000000) hash s'"
    unfolding wait_for_receipt_def fuel by (simp only: Let_def prod.case)
  also have "\<dots> = cf_receipt_loop H (unat timeout div 2000 + 2) (now + timeout) hash s'"
    by (rule port_receipt_loop [OF wall_ms_range [OF assms(1) now] assms(2,3), symmetric])
  also have "\<dots> = cf_wait_for_receipt H hash timeout s"
    unfolding cf_wait_for_receipt_def now by (simp only: Let_def prod.case)
  finally show ?thesis by (rule sym)
qed

section \<open>Properties\<close>

text \<open>C40: The Cloudflare chain access is a port of the server's: every read, the fee verdict, the one path that
  prices, funds, signs and broadcasts a write, the cancelling transfer, and the wait for a receipt (any
  timeout between a millisecond and 2^40 of them) return the same result and leave the same roster and
  the same requests on the wire as the server's operation on a host whose monotonic clock is the wall
  clock, whatever the endpoints answer, provided the wall clock stays in the range of a Date.\<close>

theorem cf_chain_is_port:
  assumes "date_ok H" "0 < timeout" "unat timeout \<le> 2 ^ 40"
  shows "cf_entry X H = entry X (wall_host H)
    \<and> cf_unit X H = unit_of_id X (wall_host H)
    \<and> cf_key_profile X H = key_profile_of X (wall_host H)
    \<and> cf_groups_by_rp_id X H = groups_by_rp_id X (wall_host H)
    \<and> cf_rp_ids X H = rp_ids_page X (wall_host H)
    \<and> cf_unit_by_group_key X H = unit_by_group_key X (wall_host H)
    \<and> cf_group_detail_by_key X H = group_detail_by_key X (wall_host H)
    \<and> cf_group_detail_by_id X H = group_detail_by_id X (wall_host H)
    \<and> cf_totals X H = totals_of X (wall_host H)
    \<and> cf_rpc_circuit_state H = rpc_circuit_state (wall_host H)
    \<and> cf_is_content_registered X H = is_content_registered X (wall_host H)
    \<and> cf_is_referenced X H = is_referenced X (wall_host H)
    \<and> cf_pending_nonce H = pending_nonce (wall_host H)
    \<and> cf_confirmed_nonce H = confirmed_nonce (wall_host H)
    \<and> cf_gas_price H = gas_price (wall_host H)
    \<and> cf_balance H = balance (wall_host H)
    \<and> cf_fee_plan H C = fee_plan_of (wall_host H) C
    \<and> cf_base_fee H = base_fee (wall_host H)
    \<and> cf_register X H C task nonce = chain_register X (wall_host H) C task nonce
    \<and> cf_cancel_stuck_nonce X H C role nonce fees = cancel_stuck_nonce X (wall_host H) C role nonce fees
    \<and> cf_wait_for_receipt H hash timeout s = wait_for_receipt (wall_host H) hash (unat timeout * 1000000) s"
  by (simp only: port_reads port_details port_quantities port_fee_plan port_base_fee port_register port_cancel
      port_wait [OF assms] simp_thms)

text \<open>A host whose clock stops at the end of the range of a \<^verbatim>\<open>Date\<close>.\<close>

definition dated_host :: "ref_world host" where
  "dated_host = ref_host\<lparr>h_now_ms := (\<lambda>w. (of_nat (min (rw_time w div 1000000) 8640000000000000), w))\<rparr>"

lemma dated_host_ok: "date_ok dated_host"
  by (simp add: date_ok_def dated_host_def unat_of_nat)

theorem cf_chain_is_port_witness:
  "cf_wait_for_receipt dated_host ''0xabc'' 60000 (sample_net [])
     = wait_for_receipt (wall_host dated_host) ''0xabc'' 60000000000 (sample_net [])"
  using cf_chain_is_port [OF dated_host_ok, of 60000] by simp

end
