(* ===== verification/Cf_Store.thy ===== *)
theory Cf_Store
  imports Cf_Chain Store Rescue Sentinel
begin

text \<open>
  The store of the Cloudflare shell, the first half of \<^verbatim>\<open>p256-index-cf/src/submitter.rs\<close>: the tables of
  the Durable Object's SQLite database and one definition per store operation, with the SQL
  statements written out on the tables.  A table with a primary key is an association list with
  distinct keys.  An SQL integer is an \<^typ>\<open>int\<close>; times are milliseconds.  Every statement may fail,
  with or without its effect, as the platform decides; an operation that fails at one statement
  keeps the effects of those before it.
\<close>

section \<open>Tables\<close>

record task_row =
  tk_payload :: string
  tk_status :: string
  tk_admitted :: bool
  tk_content_hash :: string
  tk_created_at :: int
  tk_active :: bool
  tk_expires_at :: "int option"

record index_row =
  ix_task_id :: string
  ix_expires_at :: "int option"

record rate_row =
  rt_count :: int
  rt_window_end :: int

record tx_row =
  lx_hash :: string
  lx_sent_at :: int
  lx_attempts :: int
  lx_max_fee :: "string option"
  lx_max_priority :: "string option"

record db =
  db_tasks :: "(string \<times> task_row) list"
  db_content :: "(string \<times> index_row) list"
  db_keys :: "(string \<times> index_row) list"
  db_retry :: "(string \<times> index_row) list"
  db_queue :: "(int \<times> string) list"              \<comment> \<open>by \<^verbatim>\<open>seq\<close>\<close>
  db_next_seq :: int                              \<comment> \<open>\<^verbatim>\<open>AUTOINCREMENT\<close>\<close>
  db_dlq :: "string list"
  db_rates :: "(string \<times> rate_row) list"
  db_ledger :: "((string \<times> int) \<times> tx_row) list"
  db_alerts :: "(string \<times> int) list"
  db_meta :: "(string \<times> int) list"

definition empty_db :: db where
  "empty_db = \<lparr>db_tasks = [], db_content = [], db_keys = [], db_retry = [], db_queue = [], db_next_seq = 1,
     db_dlq = [], db_rates = [], db_ledger = [], db_alerts = [], db_meta = []\<rparr>"

text \<open>\<^verbatim>\<open>INSERT OR REPLACE\<close>, \<^verbatim>\<open>INSERT OR IGNORE\<close>, \<^verbatim>\<open>UPDATE ... WHERE\<close> and \<^verbatim>\<open>DELETE ... WHERE\<close> on a table with
  a primary key.\<close>

definition insert_or_replace :: "'k \<Rightarrow> 'v \<Rightarrow> ('k \<times> 'v) list \<Rightarrow> ('k \<times> 'v) list" where
  "insert_or_replace k v rows = filter (\<lambda>(k', _). k' \<noteq> k) rows @ [(k, v)]"

definition insert_or_ignore :: "'k \<Rightarrow> 'v \<Rightarrow> ('k \<times> 'v) list \<Rightarrow> ('k \<times> 'v) list" where
  "insert_or_ignore k v rows = (if k \<in> fst ` set rows then rows else rows @ [(k, v)])"

definition update_where :: "('k \<Rightarrow> 'v \<Rightarrow> bool) \<Rightarrow> ('v \<Rightarrow> 'v) \<Rightarrow> ('k \<times> 'v) list \<Rightarrow> ('k \<times> 'v) list" where
  "update_where p f rows = map (\<lambda>(k, v). (k, if p k v then f v else v)) rows"

definition delete_where :: "('k \<Rightarrow> 'v \<Rightarrow> bool) \<Rightarrow> ('k \<times> 'v) list \<Rightarrow> ('k \<times> 'v) list" where
  "delete_where p rows = filter (\<lambda>(k, v). \<not> p k v) rows"

section \<open>The object\<close>

datatype sql_fate = Ran | Failing bool            \<comment> \<open>whether a failing statement took effect\<close>

text \<open>What the object relies on outside this repository besides the host: how the next statement
  ends, whether the alarm API answers, and serde on tasks.\<close>

record 'w platform =
  p_fate :: "'w \<Rightarrow> sql_fate \<times> 'w"
  p_alarm_api :: "'w \<Rightarrow> bool \<times> 'w"
  p_task_json :: "register_task \<Rightarrow> string option"
  p_parse_task :: "string \<Rightarrow> register_task option"

text \<open>serde reads back what it wrote.\<close>

definition platform_ok :: "'w platform \<Rightarrow> bool" where
  "platform_ok P = (\<forall>t p. p_task_json P t = Some p \<longrightarrow> p_parse_task P p = Some t)"

record 'w submitter =
  sb_db :: db
  sb_net :: "'w net"
  sb_failures :: u32
  sb_nonce :: "u64 option"
  sb_alarm :: "u64 option"                        \<comment> \<open>the delay of the armed alarm, milliseconds\<close>
  sb_sent :: "(string \<times> string) list"             \<comment> \<open>operator alerts, kind and text\<close>

type_synonym ('w, 'a) do_op = "('w submitter, string, 'a) act"

definition now_ms :: "'w host \<Rightarrow> 'w submitter \<Rightarrow> int \<times> 'w submitter" where
  "now_ms H st =
     (let n = sb_net st; (now, w) = h_now_ms H (n_world n) in (sint now, st\<lparr>sb_net := n\<lparr>n_world := w\<rparr>\<rparr>))"

definition clocked :: "'w host \<Rightarrow> (int \<Rightarrow> ('w, 'a) do_op) \<Rightarrow> ('w, 'a) do_op" where
  "clocked H f st = (let (now, st) = now_ms H st in f now st)"

definition sql :: "'w platform \<Rightarrow> (db \<Rightarrow> 'a \<times> db) \<Rightarrow> ('w, 'a) do_op" where
  "sql P statement st =
     (let n = sb_net st;
          (fate, w) = p_fate P (n_world n);
          st = st\<lparr>sb_net := n\<lparr>n_world := w\<rparr>\<rparr>;
          (a, d) = statement (sb_db st)
      in case fate of
           Ran \<Rightarrow> (Inr a, st\<lparr>sb_db := d\<rparr>)
         | Failing executed \<Rightarrow> (Inl ''SQL statement failed'', if executed then st\<lparr>sb_db := d\<rparr> else st))"

definition sql_write :: "'w platform \<Rightarrow> (db \<Rightarrow> db) \<Rightarrow> ('w, unit) do_op" where
  "sql_write P f = sql P (\<lambda>d. ((), f d))"

definition sql_read :: "'w platform \<Rightarrow> (db \<Rightarrow> 'a) \<Rightarrow> ('w, 'a) do_op" where
  "sql_read P f = sql P (\<lambda>d. (f d, d))"

text \<open>\<^verbatim>\<open>CREATE TABLE IF NOT EXISTS\<close>: the tables are there, empty before the first call.\<close>

definition bootstrap :: "'w platform \<Rightarrow> ('w, unit) do_op" where
  "bootstrap P = sql_write P (\<lambda>d. d)"

definition expired :: "int \<Rightarrow> int option \<Rightarrow> bool" where
  "expired now expires_at = (case expires_at of None \<Rightarrow> False | Some t \<Rightarrow> t \<le> now)"

definition purge_expired :: "'w platform \<Rightarrow> 'w host \<Rightarrow> ('w, unit) do_op" where
  "purge_expired P H = clocked H (\<lambda>now.
     bind_op (sql_write P (\<lambda>d. d\<lparr>db_tasks := delete_where (\<lambda>_ row. expired now (tk_expires_at row)) (db_tasks d)\<rparr>)) (\<lambda>_.
     bind_op (sql_write P (\<lambda>d. d\<lparr>db_content := delete_where (\<lambda>_ row. expired now (ix_expires_at row)) (db_content d)\<rparr>)) (\<lambda>_.
     bind_op (sql_write P (\<lambda>d. d\<lparr>db_keys := delete_where (\<lambda>_ row. expired now (ix_expires_at row)) (db_keys d)\<rparr>)) (\<lambda>_.
     bind_op (sql_write P (\<lambda>d. d\<lparr>db_retry := delete_where (\<lambda>_ row. expired now (ix_expires_at row)) (db_retry d)\<rparr>)) (\<lambda>_.
       sql_write P (\<lambda>d. d\<lparr>db_rates := delete_where (\<lambda>_ row. rt_window_end row \<le> now) (db_rates d)\<rparr>))))))"

section \<open>Tasks\<close>

definition do_get_task :: "'w platform \<Rightarrow> 'w host \<Rightarrow> string \<Rightarrow> ('w, register_task option) do_op" where
  "do_get_task P H tid = clocked H (\<lambda>now.
     bind_op (sql_read P (\<lambda>d. case map_of (db_tasks d) tid of
         None \<Rightarrow> None
       | Some row \<Rightarrow> if expired now (tk_expires_at row) then None else Some (tk_payload row))) (\<lambda>payload.
       return_op (case payload of None \<Rightarrow> None | Some p \<Rightarrow> p_parse_task P p)))"

definition do_find_by_index ::
  "'w platform \<Rightarrow> 'w host \<Rightarrow> (db \<Rightarrow> (string \<times> index_row) list) \<Rightarrow> string \<Rightarrow> ('w, register_task option) do_op" where
  "do_find_by_index P H table v = clocked H (\<lambda>now.
     bind_op (sql_read P (\<lambda>d. case map_of (table d) v of
         None \<Rightarrow> None
       | Some row \<Rightarrow> if expired now (ix_expires_at row) then None else Some (ix_task_id row))) (\<lambda>tid.
       case tid of Some tid \<Rightarrow> do_get_task P H tid | None \<Rightarrow> return_op None))"

definition do_find_by_content :: "'w platform \<Rightarrow> 'w host \<Rightarrow> string \<Rightarrow> ('w, register_task option) do_op" where
  "do_find_by_content P H content_hash = do_find_by_index P H db_content (to_ascii_lowercase content_hash)"

definition do_find_by_public_key :: "'w platform \<Rightarrow> 'w host \<Rightarrow> string \<Rightarrow> ('w, register_task option) do_op" where
  "do_find_by_public_key P H public_key = do_find_by_index P H db_keys (to_ascii_lowercase public_key)"

definition do_find_by_retry_digest :: "'w platform \<Rightarrow> 'w host \<Rightarrow> string \<Rightarrow> ('w, register_task option) do_op" where
  "do_find_by_retry_digest P H digest = do_find_by_index P H db_retry (to_ascii_lowercase digest)"

definition do_record_retry_digest ::
  "'w platform \<Rightarrow> 'w host \<Rightarrow> string \<Rightarrow> string \<Rightarrow> u64 \<Rightarrow> ('w, unit) do_op" where
  "do_record_retry_digest P H digest task_id ttl_secs = clocked H (\<lambda>now.
     sql_write P (\<lambda>d. d\<lparr>db_retry := insert_or_replace (to_ascii_lowercase digest)
       \<lparr>ix_task_id = task_id, ix_expires_at = Some (now + sint ttl_secs * 1000)\<rparr> (db_retry d)\<rparr>))"

text \<open>\<^verbatim>\<open>serde_json::to_string(task)\<close> with its error.\<close>

definition to_payload :: "'w platform \<Rightarrow> register_task \<Rightarrow> ('w, string) do_op" where
  "to_payload P task = lift_op (ok_or ''could not serialize register task'' (p_task_json P task))"

definition do_key_placeholders :: "register_task \<Rightarrow> string list" where
  "do_key_placeholders task =
     map (\<lambda>m. to_ascii_lowercase (m_public_key m)) (t_members task) @ [to_ascii_lowercase (t_group_public_key task)]"

fun claim_keys :: "'w platform \<Rightarrow> string \<Rightarrow> string list \<Rightarrow> ('w, unit) do_op" where
  "claim_keys P tid [] = return_op ()"
| "claim_keys P tid (key # keys) =
     bind_op (sql_write P (\<lambda>d. d\<lparr>db_keys :=
         insert_or_ignore key \<lparr>ix_task_id = tid, ix_expires_at = None\<rparr> (db_keys d)\<rparr>)) (\<lambda>_. claim_keys P tid keys)"

definition new_row :: "register_task \<Rightarrow> string \<Rightarrow> task_row" where
  "new_row task payload =
     \<lparr>tk_payload = payload, tk_status = ''pending'', tk_admitted = False,
      tk_content_hash = to_ascii_lowercase (t_content_hash task), tk_created_at = sint (t_created_at task),
      tk_active = True, tk_expires_at = None\<rparr>"

text \<open>\<^verbatim>\<open>enum Admission\<close>.\<close>

datatype do_admission = AdmittedNew | AdmittedExisting string

definition do_admit :: "'w platform \<Rightarrow> 'w host \<Rightarrow> register_task \<Rightarrow> ('w, do_admission) do_op" where
  "do_admit P H task =
     bind_op (do_find_by_content P H (t_content_hash task)) (\<lambda>found.
       case found of
         Some existing \<Rightarrow> return_op (AdmittedExisting (t_id existing))
       | None \<Rightarrow>
           bind_op (to_payload P task) (\<lambda>payload.
           bind_op (sql_write P (\<lambda>d. d\<lparr>db_tasks := insert_or_replace (t_id task) (new_row task payload) (db_tasks d)\<rparr>)) (\<lambda>_.
           bind_op (sql_write P (\<lambda>d. d\<lparr>db_content := insert_or_replace (to_ascii_lowercase (t_content_hash task))
               \<lparr>ix_task_id = t_id task, ix_expires_at = None\<rparr> (db_content d)\<rparr>)) (\<lambda>_.
           bind_op (claim_keys P (t_id task) (do_key_placeholders task)) (\<lambda>_.
             return_op AdmittedNew)))))"

definition do_enqueue :: "'w platform \<Rightarrow> register_task \<Rightarrow> ('w, unit) do_op" where
  "do_enqueue P task = sql_write P (\<lambda>d.
     d\<lparr>db_queue := db_queue d @ [(db_next_seq d, t_id task)], db_next_seq := db_next_seq d + 1\<rparr>)"

definition do_mark_admitted :: "'w platform \<Rightarrow> 'w host \<Rightarrow> string \<Rightarrow> ('w, register_task option) do_op" where
  "do_mark_admitted P H tid =
     bind_op (do_get_task P H tid) (\<lambda>found.
       case found of
         None \<Rightarrow> return_op None
       | Some before \<Rightarrow>
           if is_terminal (t_status before) then return_op (Some before)
           else
             (let task = before\<lparr>t_admitted := True\<rparr> in
              bind_op (to_payload P task) (\<lambda>payload.
              bind_op (sql_write P (\<lambda>d. d\<lparr>db_tasks := update_where (\<lambda>k _. k = tid)
                  (\<lambda>row. row\<lparr>tk_payload := payload, tk_admitted := True\<rparr>) (db_tasks d)\<rparr>)) (\<lambda>_.
                return_op (Some task)))))"

definition TASK_DONE_TTL_MS :: int where "TASK_DONE_TTL_MS = 7 * 24 * 60 * 60 * 1000"
definition TASK_FAILED_TTL_MS :: int where "TASK_FAILED_TTL_MS = 30 * 24 * 60 * 60 * 1000"

definition do_drop_indexes :: "'w platform \<Rightarrow> string \<Rightarrow> ('w, unit) do_op" where
  "do_drop_indexes P tid =
     bind_op (sql_write P (\<lambda>d. d\<lparr>db_content := delete_where (\<lambda>_ row. ix_task_id row = tid) (db_content d)\<rparr>)) (\<lambda>_.
     bind_op (sql_write P (\<lambda>d. d\<lparr>db_keys := delete_where (\<lambda>_ row. ix_task_id row = tid) (db_keys d)\<rparr>)) (\<lambda>_.
       sql_write P (\<lambda>d. d\<lparr>db_dlq := (if tid \<in> set (db_dlq d) then db_dlq d else db_dlq d @ [tid])\<rparr>)))"

definition do_expire_indexes :: "'w platform \<Rightarrow> string \<Rightarrow> int \<Rightarrow> ('w, unit) do_op" where
  "do_expire_indexes P tid expires_at =
     bind_op (sql_write P (\<lambda>d. d\<lparr>db_content := update_where (\<lambda>_ row. ix_task_id row = tid)
         (\<lambda>row. row\<lparr>ix_expires_at := Some expires_at\<rparr>) (db_content d)\<rparr>)) (\<lambda>_.
       sql_write P (\<lambda>d. d\<lparr>db_keys := update_where (\<lambda>_ row. ix_task_id row = tid)
         (\<lambda>row. row\<lparr>ix_expires_at := Some expires_at\<rparr>) (db_keys d)\<rparr>))"

definition terminal_row :: "string \<Rightarrow> bool \<Rightarrow> int \<Rightarrow> task_row \<Rightarrow> task_row" where
  "terminal_row payload failed expires_at row =
     row\<lparr>tk_payload := payload, tk_status := (if failed then ''failed'' else ''done''), tk_admitted := True,
         tk_active := False, tk_expires_at := Some expires_at\<rparr>"

definition transition_terminal :: "'w platform \<Rightarrow> 'w host \<Rightarrow> register_task \<Rightarrow> int \<Rightarrow> bool \<Rightarrow> ('w, unit) do_op" where
  "transition_terminal P H task ttl_ms failed =
     bind_op (to_payload P task) (\<lambda>payload. clocked H (\<lambda>now.
       let expires_at = now + ttl_ms in
       bind_op (sql_write P (\<lambda>d. d\<lparr>db_tasks :=
           update_where (\<lambda>k _. k = t_id task) (terminal_row payload failed expires_at) (db_tasks d)\<rparr>)) (\<lambda>_.
         if failed then do_drop_indexes P (t_id task) else do_expire_indexes P (t_id task) expires_at)))"

definition do_mark_done ::
  "'w platform \<Rightarrow> 'w host \<Rightarrow> string \<Rightarrow> string option \<Rightarrow> u64 option \<Rightarrow> ('w, register_task option) do_op" where
  "do_mark_done P H tid tx_hash on_chain_id =
     bind_op (do_get_task P H tid) (\<lambda>found.
       case found of
         None \<Rightarrow> return_op None
       | Some task \<Rightarrow>
           (let task = done_task tx_hash on_chain_id task in
            bind_op (transition_terminal P H task TASK_DONE_TTL_MS False) (\<lambda>_. return_op (Some task))))"

definition do_record_transient_failure ::
  "'w platform \<Rightarrow> 'w host \<Rightarrow> string \<Rightarrow> string \<Rightarrow> ('w, register_task option) do_op" where
  "do_record_transient_failure P H tid message =
     bind_op (do_get_task P H tid) (\<lambda>found.
       case found of
         None \<Rightarrow> return_op None
       | Some task \<Rightarrow>
           if is_terminal (t_status task) then return_op (Some task)
           else
             (let task = retried_task message task in
              if 10 \<le> t_retries task
              then
                (let task = exhausted_task task in
                 bind_op (transition_terminal P H task TASK_FAILED_TTL_MS True) (\<lambda>_. return_op (Some task)))
              else
                bind_op (to_payload P task) (\<lambda>payload.
                bind_op (sql_write P (\<lambda>d. d\<lparr>db_tasks :=
                    update_where (\<lambda>k _. k = tid) (\<lambda>row. row\<lparr>tk_payload := payload\<rparr>) (db_tasks d)\<rparr>)) (\<lambda>_.
                  return_op (Some task)))))"

definition do_mark_failed ::
  "'w platform \<Rightarrow> 'w host \<Rightarrow> string \<Rightarrow> string \<Rightarrow> string \<Rightarrow> ('w, register_task option) do_op" where
  "do_mark_failed P H tid class_prefix message =
     bind_op (do_get_task P H tid) (\<lambda>found.
       case found of
         None \<Rightarrow> return_op None
       | Some task \<Rightarrow>
           (let task = failed_task class_prefix message task in
            bind_op (transition_terminal P H task TASK_FAILED_TTL_MS True) (\<lambda>_. return_op (Some task))))"

section \<open>The queue\<close>

text \<open>\<^verbatim>\<open>i64::saturating_sub\<close>.\<close>

definition i64_sub :: "int \<Rightarrow> int \<Rightarrow> int" where
  "i64_sub a b = max (- (2 ^ 63)) (min (2 ^ 63 - 1) (a - b))"

definition oldest_active :: "db \<Rightarrow> int option" where
  "oldest_active d =
     (case map (tk_created_at \<circ> snd) (filter (\<lambda>(_, row). tk_active row) (db_tasks d)) of
        [] \<Rightarrow> None
      | t # ts \<Rightarrow> Some (fold min ts t))"

definition do_queue_stats :: "'w platform \<Rightarrow> 'w host \<Rightarrow> ('w, u64 \<times> u64 \<times> u64) do_op" where
  "do_queue_stats P H =
     bind_op (sql_read P (\<lambda>d. length (filter (\<lambda>(_, row). tk_active row) (db_tasks d)))) (\<lambda>depth.
     bind_op (sql_read P (\<lambda>d. length (db_dlq d))) (\<lambda>dlq.
     bind_op (sql_read P oldest_active) (\<lambda>oldest.
       case oldest of
         None \<Rightarrow> return_op (of_nat depth, of_nat dlq, 0)
       | Some created_at \<Rightarrow> clocked H (\<lambda>now.
           return_op (of_nat depth, of_nat dlq, of_int (max 0 (i64_sub now created_at)))))))"

definition do_queue_len :: "'w platform \<Rightarrow> ('w, u64) do_op" where
  "do_queue_len P = sql_read P (\<lambda>d. of_nat (length (db_queue d)))"

definition do_poll_batch :: "'w platform \<Rightarrow> nat \<Rightarrow> ('w, (int \<times> string) list) do_op" where
  "do_poll_batch P limit = sql_read P (\<lambda>d. take limit (sort_key fst (db_queue d)))"

fun do_delete_batch :: "'w platform \<Rightarrow> (int \<times> string) list \<Rightarrow> ('w, unit) do_op" where
  "do_delete_batch P [] = return_op ()"
| "do_delete_batch P (envelope # batch) =
     bind_op (sql_write P (\<lambda>d. d\<lparr>db_queue := delete_where (\<lambda>seq _. seq = fst envelope) (db_queue d)\<rparr>)) (\<lambda>_.
       do_delete_batch P batch)"

section \<open>Rate counters\<close>

definition bumped :: "int \<Rightarrow> rate_row option \<Rightarrow> rate_row" where
  "bumped now row =
     (case row of
        None \<Rightarrow> \<lparr>rt_count = 1, rt_window_end = now + 60000\<rparr>
      | Some r \<Rightarrow>
          \<lparr>rt_count = (if rt_window_end r \<le> now then 1 else rt_count r + 1),
           rt_window_end = (if rt_window_end r \<le> now then now + 60000 else rt_window_end r)\<rparr>)"

definition bump_minute_counter :: "'w platform \<Rightarrow> 'w host \<Rightarrow> string \<Rightarrow> ('w, int) do_op" where
  "bump_minute_counter P H key = clocked H (\<lambda>now. sql P (\<lambda>d.
     let row = bumped now (map_of (db_rates d) key)
     in (rt_count row, d\<lparr>db_rates := insert_or_replace key row (db_rates d)\<rparr>)))"

section \<open>The broadcast ledger\<close>

definition do_record_pending_tx ::
  "'w platform \<Rightarrow> string \<Rightarrow> u64 \<Rightarrow> string \<Rightarrow> int \<Rightarrow> u32 \<Rightarrow> (u128 \<times> u128) option \<Rightarrow> ('w, unit) do_op" where
  "do_record_pending_tx P role nonce hash sent_at_ms attempts fees = sql_write P (\<lambda>d.
     d\<lparr>db_ledger := insert_or_replace (role, sint nonce)
       \<lparr>lx_hash = hash, lx_sent_at = sent_at_ms, lx_attempts = uint attempts,
        lx_max_fee = map_option (\<lambda>(max_fee, _). decimal (unat max_fee)) fees,
        lx_max_priority = map_option (\<lambda>(_, priority). decimal (unat priority)) fees\<rparr> (db_ledger d)\<rparr>)"

definition tx_ledger_row :: "(string \<times> int) \<times> tx_row \<Rightarrow> ledger_row" where
  "tx_ledger_row = (\<lambda>((role, nonce), row).
     \<lparr>lr_role = role, lr_nonce = of_int (max 0 nonce), lr_hash = lx_hash row,
      lr_sent_at_ms = of_int (max 0 (lx_sent_at row)),
      lr_attempts = of_int (max 0 (min (2 ^ 32 - 1) (lx_attempts row))),
      lr_fees_wei = (case (parse_u128 (lx_max_fee row), parse_u128 (lx_max_priority row)) of
                       (Some max_fee, Some priority) \<Rightarrow> Some (max_fee, priority) | _ \<Rightarrow> None)\<rparr>)"

definition do_list_pending_txs :: "'w platform \<Rightarrow> int \<Rightarrow> ('w, ledger_row list) do_op" where
  "do_list_pending_txs P sent_before_ms = sql_read P (\<lambda>d.
     map tx_ledger_row (filter (\<lambda>(_, row). lx_sent_at row < sent_before_ms) (db_ledger d)))"

definition do_delete_pending_tx :: "'w platform \<Rightarrow> string \<Rightarrow> u64 \<Rightarrow> ('w, unit) do_op" where
  "do_delete_pending_tx P role nonce = sql_write P (\<lambda>d.
     d\<lparr>db_ledger := delete_where (\<lambda>k _. k = (role, sint nonce)) (db_ledger d)\<rparr>)"

section \<open>Alerts and metadata\<close>

definition alert_last_fired :: "'w platform \<Rightarrow> string \<Rightarrow> ('w, u64 option) do_op" where
  "alert_last_fired P kind = sql_read P (\<lambda>d. map_option (\<lambda>t. of_int (max 0 t)) (map_of (db_alerts d) kind))"

definition meta_get :: "'w platform \<Rightarrow> string \<Rightarrow> ('w, int option) do_op" where
  "meta_get P key = sql_read P (\<lambda>d. map_of (db_meta d) key)"

definition meta_set :: "'w platform \<Rightarrow> string \<Rightarrow> int \<Rightarrow> ('w, unit) do_op" where
  "meta_set P key v = sql_write P (\<lambda>d. d\<lparr>db_meta := insert_or_replace key v (db_meta d)\<rparr>)"

definition meta_get_or_insert :: "'w platform \<Rightarrow> string \<Rightarrow> int \<Rightarrow> ('w, int) do_op" where
  "meta_get_or_insert P key v =
     bind_op (meta_get P key) (\<lambda>found.
       case found of
         Some existing \<Rightarrow> return_op existing
       | None \<Rightarrow> bind_op (meta_set P key v) (\<lambda>_. return_op v))"

end
