(* ===== verification/Worker.thy ===== *)
theory Worker
  imports Store_Data Chain_Properties Submission Sentinel
begin

text \<open>
  The queue worker of the server, \<^verbatim>\<open>p256-index-server/src/worker.rs\<close>: it polls envelopes from Iggy,
  holds a batch back while gas is above the cap, drives the batch through the submission program
  with every operation executed against Redis and the chain, and stores the consumer offset when
  the batch advanced.  The state is Redis, the network, the cached nonce, the queue, the count of
  consecutive failures and the pulse; an Iggy client is a parameter.  A loop iteration returns
  \<^const>\<open>None\<close> for a panic, \<^const>\<open>Inl\<close> when \<^verbatim>\<open>run\<close> returns an error, \<^const>\<open>Inr\<close> to go on.
\<close>

section \<open>State\<close>

text \<open>The consumer session: polls answer with the partition and the messages, offset and payload;
  \<open>ig_committed\<close> observes the stored offset of a partition.\<close>

record 'q iggy =
  ig_committed :: "'q \<Rightarrow> nat \<Rightarrow> u64 option"
  ig_poll :: "'q \<Rightarrow> (nat \<times> (u64 \<times> string) list) option \<times> 'q"
  ig_store_offset :: "'q \<Rightarrow> nat \<Rightarrow> u64 \<Rightarrow> bool \<times> 'q"
  ig_get_group :: "'q \<Rightarrow> bool option \<times> 'q"
  ig_create_group :: "'q \<Rightarrow> bool \<times> 'q"

text \<open>Only \<^verbatim>\<open>store_consumer_offset\<close> moves an offset, and only that of its partition, also when its
  answer is lost.\<close>

definition iggy_ok :: "'q iggy \<Rightarrow> bool" where
  "iggy_ok Q =
     (\<forall>q p off.
        ig_committed Q (snd (ig_poll Q q)) = ig_committed Q q
        \<and> ig_committed Q (snd (ig_get_group Q q)) = ig_committed Q q
        \<and> ig_committed Q (snd (ig_create_group Q q)) = ig_committed Q q
        \<and> (fst (ig_store_offset Q q p off)
             \<longrightarrow> ig_committed Q (snd (ig_store_offset Q q p off)) = (ig_committed Q q)(p \<mapsto> off))
        \<and> (ig_committed Q (snd (ig_store_offset Q q p off)) = ig_committed Q q
           \<or> ig_committed Q (snd (ig_store_offset Q q p off)) = (ig_committed Q q)(p \<mapsto> off)))"

record ('s, 'w, 'q) worker =
  w_redis :: 's
  w_net :: "'w net"
  w_nonce :: "u64 option"
  w_queue :: 'q
  w_failures :: u32
  w_pulse :: nat

definition SECOND :: nat where "SECOND = 1000000000"
definition RECEIPT_TIMEOUT :: nat where "RECEIPT_TIMEOUT = 60 * SECOND"
definition GAS_WAIT :: nat where "GAS_WAIT = 15 * SECOND"
definition WORKER_STALL_LIMIT :: nat where "WORKER_STALL_LIMIT = 10 * 60 * SECOND"

text \<open>A store operation, a chain operation, and a sleep, on the worker's state.\<close>

definition on_store :: "('s, 'a) op \<Rightarrow> (('s, 'w, 'q) worker, string, 'a) act" where
  "on_store m st = (let (r, s) = m (w_redis st) in (r, st\<lparr>w_redis := s\<rparr>))"

definition on_chain :: "('w, 'a) chain_op \<Rightarrow> (('s, 'w, 'q) worker, chain_error, 'a) act" where
  "on_chain m st = (let (r, n) = m (w_net st) in (r, st\<lparr>w_net := n\<rparr>))"

definition sleep_for :: "'w host \<Rightarrow> nat \<Rightarrow> ('s, 'w, 'q) worker \<Rightarrow> ('s, 'w, 'q) worker" where
  "sleep_for H d st = (let n = w_net st in st\<lparr>w_net := n\<lparr>n_world := h_sleep H (n_world n) d\<rparr>\<rparr>)"

section \<open>Nonces and the broadcast ledger\<close>

definition acquire :: "'w host \<Rightarrow> chain \<Rightarrow> (('s, 'w, 'q) worker, string, u64) act" where
  "acquire H C st =
     (let (value, st) =
        (case w_nonce st of
           Some n \<Rightarrow> (Inr n, st)
         | None \<Rightarrow>
             (case on_chain (pending_nonce H C RegisterWallet) st of
                (Inl _, st) \<Rightarrow> (Inl ''could not acquire pending chain nonce'', st)
              | (Inr n, st) \<Rightarrow> (Inr n, st)))
      in case value of
           Inl e \<Rightarrow> (Inl e, st)
         | Inr nonce \<Rightarrow> (Inr nonce, st\<lparr>w_nonce := Some (saturating_add nonce 1)\<rparr>))"

definition release :: "('s, 'w, 'q) worker \<Rightarrow> ('s, 'w, 'q) worker" where
  "release st = st\<lparr>w_nonce := None\<rparr>"

text \<open>Both ledger writes are best effort: their answer is ignored.\<close>

definition record_pending ::
  "'s services \<Rightarrow> 'w host \<Rightarrow> u64 \<Rightarrow> string \<Rightarrow> (u128 \<times> u128) option \<Rightarrow> ('s, 'w, 'q) worker \<Rightarrow> ('s, 'w, 'q) worker" where
  "record_pending R H nonce hash fees st =
     (let n = w_net st;
          (now, w) = h_now_ms H (n_world n);
          st = st\<lparr>w_net := n\<lparr>n_world := w\<rparr>\<rparr>
      in snd (on_store (record_pending_tx R (ledger_name RegisterWallet) nonce hash now 0 fees) st))"

definition clear_pending :: "'s services \<Rightarrow> u64 \<Rightarrow> ('s, 'w, 'q) worker \<Rightarrow> ('s, 'w, 'q) worker" where
  "clear_pending R nonce st = snd (on_store (delete_pending_tx R (ledger_name RegisterWallet) nonce) st)"

definition await_receipt ::
  "'s services \<Rightarrow> 'w host \<Rightarrow> u64 \<Rightarrow> string \<Rightarrow> ('s, 'w, 'q) worker \<Rightarrow> tx_outcome \<times> ('s, 'w, 'q) worker" where
  "await_receipt R H nonce hash st =
     (case on_chain (wait_for_receipt H hash RECEIPT_TIMEOUT) st of
        (Inr (Success on_chain_id), st) \<Rightarrow> (Confirmed hash on_chain_id, clear_pending R nonce st)
      | (Inr RevertedReceipt, st) \<Rightarrow> (tx_outcome.Reverted hash, release (clear_pending R nonce st))
      | (Inl e, st) \<Rightarrow> (ReceiptUncertain e, release st))"

definition worker_submit ::
  "externs \<Rightarrow> 's services \<Rightarrow> 'w host \<Rightarrow> chain \<Rightarrow> register_task \<Rightarrow> ('s, 'w, 'q) worker \<Rightarrow> tx_outcome \<times> ('s, 'w, 'q) worker" where
  "worker_submit X R H C task st =
     (case acquire H C st of
        (Inl _, st) \<Rightarrow> (NoncePoolUnavailable, st)
      | (Inr nonce, st) \<Rightarrow>
          (case on_chain (chain_register X H C task nonce) st of
             (Inr b, st) \<Rightarrow> await_receipt R H nonce (bc_hash b) (record_pending R H nonce (bc_hash b) (bc_fees_wei b) st)
           | (Inl e, st) \<Rightarrow> (SendFailed e, release st)))"

section \<open>The shell of the submission program\<close>

definition store_ack :: "string + 'a \<Rightarrow> submission_result" where
  "store_ack r = (case r of Inr _ \<Rightarrow> Persisted | Inl _ \<Rightarrow> StoreUnavailable)"

definition content_answer :: "chain_error + bool \<Rightarrow> submission_result" where
  "content_answer r = (case r of Inr registered \<Rightarrow> ContentChecked registered | Inl _ \<Rightarrow> ChainReadFailed)"

fun load_tasks :: "'s services \<Rightarrow> string list \<Rightarrow> (('s, 'w, 'q) worker, string, register_task option list) act" where
  "load_tasks R [] = return_op []"
| "load_tasks R (i # ids) =
     bind_op (on_store (get_task R i)) (\<lambda>task. bind_op (load_tasks R ids) (\<lambda>tasks. return_op (task # tasks)))"

definition execute ::
  "externs \<Rightarrow> 's services \<Rightarrow> 'w host \<Rightarrow> chain \<Rightarrow> ('s, 'w, 'q) worker \<Rightarrow> submission_operation
     \<Rightarrow> submission_result \<times> ('s, 'w, 'q) worker" where
  "execute X R H C st operation =
     (case operation of
        LoadTasks ids \<Rightarrow>
          (case load_tasks R ids st of
             (Inr tasks, st) \<Rightarrow> (TasksLoaded tasks, st)
           | (Inl _, st) \<Rightarrow> (StoreUnavailable, st))
      | CheckContentRegistered content_hash \<Rightarrow>
          (case parse_b256 X content_hash of
             Inl _ \<Rightarrow> (ChainReadFailed, st)
           | Inr h \<Rightarrow> apfst content_answer (on_chain (is_content_registered X H C h) st))
      | CheckReferenced group_public_key member_public_key \<Rightarrow>
          (case (parse_hex_bytes X group_public_key, parse_hex_bytes X member_public_key) of
             (Inr g, Inr m) \<Rightarrow> apfst content_answer (on_chain (is_referenced X H C g m) st)
           | _ \<Rightarrow> (ChainReadFailed, st))
      | SubmitRegister task \<Rightarrow> apfst Tx (worker_submit X R H C task st)
      | MarkDone task_id tx_hash on_chain_id \<Rightarrow>
          apfst store_ack (on_store (Store.mark_done R task_id tx_hash on_chain_id) st)
      | MarkFailed task_id kind message \<Rightarrow>
          apfst store_ack (on_store (Store.mark_failed R task_id (as_store_class kind) message) st)
      | RecordTransientFailure task_id message \<Rightarrow>
          apfst store_ack (on_store (record_transient_failure R task_id message) st))"

definition process_batch ::
  "externs \<Rightarrow> 's services \<Rightarrow> 'w host \<Rightarrow> chain \<Rightarrow> register_task list \<Rightarrow> ('s, 'w, 'q) worker
     \<Rightarrow> (string + unit) option \<times> ('s, 'w, 'q) worker" where
  "process_batch X R H C queue_tasks st =
     (if queue_tasks = [] then (Some (Inr ()), st)
      else
        (let (out, _, st) = run (execute X R H C) (submission_program X (map t_id queue_tasks)) st
         in (map_option (\<lambda>v. case v of Advance \<Rightarrow> Inr () | Retry reason \<Rightarrow> Inl reason) out, st)))"

section \<open>The consumer loop\<close>

definition ensure_consumer_group :: "'q iggy \<Rightarrow> ('q, string, unit) act" where
  "ensure_consumer_group Q q =
     (case ig_get_group Q q of
        (None, q) \<Rightarrow> (Inl ''could not inspect Iggy consumer group'', q)
      | (Some True, q) \<Rightarrow> (Inr (), q)
      | (Some False, q) \<Rightarrow>
          (case ig_create_group Q q of
             (True, q) \<Rightarrow> (Inr (), q)
           | (False, q) \<Rightarrow>
               (case ig_get_group Q q of
                  (None, q) \<Rightarrow> (Inl ''could not inspect Iggy consumer group'', q)
                | (Some True, q) \<Rightarrow> (Inr (), q)
                | (Some False, q) \<Rightarrow> (Inl ''could not create Iggy consumer group'', q))))"

definition beat :: "'w host \<Rightarrow> ('s, 'w, 'q) worker \<Rightarrow> ('s, 'w, 'q) worker" where
  "beat H st =
     (let n = w_net st; (now, w) = h_instant H (n_world n)
      in st\<lparr>w_net := n\<lparr>n_world := w\<rparr>, w_pulse := now\<rparr>)"

definition stalled :: "nat \<Rightarrow> ('s, 'w, 'q) worker \<Rightarrow> bool" where
  "stalled now st = (WORKER_STALL_LIMIT \<le> now - w_pulse st)"

text \<open>Messages that do not decode are discarded.\<close>

definition decode_messages :: "'s services \<Rightarrow> (u64 \<times> string) list \<Rightarrow> register_task list" where
  "decode_messages R messages = List.map_filter (\<lambda>(_, payload). parse_task R payload) messages"

definition batch_backoff :: "u32 \<Rightarrow> u64" where
  "batch_backoff failures = min (backoff_delay failures) 60"

definition commit_batch ::
  "'q iggy \<Rightarrow> nat \<Rightarrow> u64 \<Rightarrow> (('s, 'w, 'q) worker, string, unit) act" where
  "commit_batch Q part highest_offset st =
     (let (ok, q) = ig_store_offset Q (w_queue st) part highest_offset; st = st\<lparr>w_failures := 0, w_queue := q\<rparr>
      in (if ok then Inr () else Inl ''could not store Iggy consumer offset'', st))"

definition poll_once ::
  "externs \<Rightarrow> 's services \<Rightarrow> 'w host \<Rightarrow> 'q iggy \<Rightarrow> chain \<Rightarrow> ('s, 'w, 'q) worker
     \<Rightarrow> (string + unit) option \<times> ('s, 'w, 'q) worker" where
  "poll_once X R H Q C st =
     (case ig_poll Q (w_queue st) of
        (None, q) \<Rightarrow> (Some (Inl ''could not poll Iggy create tasks''), st\<lparr>w_queue := q\<rparr>)
      | (Some (part, messages), q) \<Rightarrow>
          (let st = beat H (st\<lparr>w_queue := q\<rparr>) in
           if messages = [] then (Some (Inr ()), sleep_for H (SECOND div 4) st)
           else
             (let highest_offset = fst (last messages); tasks = decode_messages R messages in
              case on_chain (fee_plan_of H C) st of
                (Inr (TooExpensive _ _), st) \<Rightarrow> (Some (Inr ()), sleep_for H GAS_WAIT st)
              | (_, st) \<Rightarrow>
                  (case process_batch X R H C tasks st of
                     (None, st) \<Rightarrow> (None, st)
                   | (Some (Inr _), st) \<Rightarrow> apfst Some (commit_batch Q part highest_offset st)
                   | (Some (Inl _), st) \<Rightarrow>
                       (let failures = saturating_add (w_failures st) 1
                        in (Some (Inr ()),
                            sleep_for H (unat (batch_backoff failures) * SECOND) (st\<lparr>w_failures := failures\<rparr>)))))))"

text \<open>The iterations of one session: it ends when an iteration fails, or by a shutdown after \<open>n\<close>
  iterations.\<close>

fun run_loop ::
  "externs \<Rightarrow> 's services \<Rightarrow> 'w host \<Rightarrow> 'q iggy \<Rightarrow> chain \<Rightarrow> nat \<Rightarrow> ('s, 'w, 'q) worker
     \<Rightarrow> (string + unit) option \<times> ('s, 'w, 'q) worker" where
  "run_loop X R H Q C 0 st = (Some (Inr ()), st)"
| "run_loop X R H Q C (Suc n) st =
     (case poll_once X R H Q C st of
        (Some (Inr _), st) \<Rightarrow> run_loop X R H Q C n st
      | (r, st) \<Rightarrow> (r, st))"

text \<open>The supervisor's ladder: the delay before a restart and the count for the next one.\<close>

definition restart_delay :: "nat \<Rightarrow> u32 \<Rightarrow> u64 \<times> u32" where
  "restart_delay session_ns restarts =
     (let restarts = (if 300 * SECOND < session_ns then 0 else restarts)
      in (min (backoff_delay restarts) 60, saturating_add restarts 1))"

end
