(* ===== verification/Worker_Properties.thy ===== *)
theory Worker_Properties
  imports Worker
begin

text \<open>
  What the worker guarantees: the consumer offset moves only past settled tasks, and every write
  attempt keeps the nonce and broadcast-ledger rules.
\<close>

section \<open>Shells of the submission program\<close>

text \<open>A batch that advances: an id of it is settled when the operations that settle tasks and load
  tasks told the truth.\<close>

lemma advance_settled:
  assumes "exec (submission_program X ids) h (Some Advance)" "i \<in> set ids"
    and loads: "\<And>ts. (LoadTasks ids, TasksLoaded ts) \<in> set h \<Longrightarrow>
      G \<or> (\<exists>t. Some t \<in> set ts \<and> t_id t = i \<and> \<not> is_terminal (t_status t))"
    and settles: "\<And>step. step \<in> set h \<Longrightarrow> settles i step \<Longrightarrow> G"
  shows G
  using assms(1)
proof (cases rule: submission_exec_cases)
  case empty
  then show ?thesis using assms(2) by simp
next
  case (unloaded r v)
  then show ?thesis by simp
next
  case (loaded ts tr' x)
  have "G \<or> (\<exists>t. Some t \<in> set ts \<and> t_id t = i \<and> \<not> is_terminal (t_status t))"
    using loads [of ts] loaded(2) by simp
  then show ?thesis
  proof
    assume "\<exists>t. Some t \<in> set ts \<and> t_id t = i \<and> \<not> is_terminal (t_status t)"
    then obtain t where t: "Some t \<in> set ts" "t_id t = i" "\<not> is_terminal (t_status t)" by blast
    obtain u where u: "u \<in> set (canonical [] ts)" "t_id u = i"
      using canonical_spec(3) [OF t(1,3), of "[]"] t(2) by auto
    have "length (filter (settles i) tr') = 1" using loaded(3,4) u by (cases x) (auto simp: batch_ok_def)
    then obtain step where "step \<in> set tr'" "settles i step"
      by (metis One_nat_def filter_False length_0_conv zero_neq_one list.size(3))
    then show ?thesis using settles [of step] loaded(2) by simp
  qed
qed

text \<open>What the batch program relies on in a shell: an invariant, and a notion of ids for which nothing
  is left to do that no operation takes back, that an acknowledged outcome establishes, and that
  covers every loaded id without a pending task.\<close>

locale task_shell =
  fixes handle :: "'st \<Rightarrow> submission_operation \<Rightarrow> submission_result \<times> 'st"
    and inv :: "'st \<Rightarrow> bool"
    and gone :: "'st \<Rightarrow> string \<Rightarrow> bool"
  assumes handle_inv: "inv s \<Longrightarrow> inv (snd (handle s q))"
    and handle_gone: "inv s \<Longrightarrow> gone s i \<Longrightarrow> gone (snd (handle s q)) i"
    and handle_settles: "inv s \<Longrightarrow> handle s q = (r, s') \<Longrightarrow> settles i (q, r) \<Longrightarrow> gone s' i"
    and handle_loads: "inv s \<Longrightarrow> handle s (LoadTasks ids) = (TasksLoaded ts, s') \<Longrightarrow> i \<in> set ids
      \<Longrightarrow> gone s' i \<or> (\<exists>t. Some t \<in> set ts \<and> t_id t = i \<and> \<not> is_terminal (t_status t))"
begin

lemma run_inv: "inv s \<Longrightarrow> run handle p s = (out, tr, s') \<Longrightarrow> inv s'"
  using run_invariant [where I = inv and h = handle] by (metis handle_inv snd_conv)

lemma run_gone: "inv s \<Longrightarrow> gone s i \<Longrightarrow> run handle p s = (out, tr, s') \<Longrightarrow> gone s' i"
  using run_invariant [where I = "\<lambda>s. inv s \<and> gone s i" and h = handle]
  by (metis handle_inv handle_gone snd_conv)

lemma run_settles:
  "inv s \<Longrightarrow> run handle p s = (out, tr, s') \<Longrightarrow> step \<in> set tr \<Longrightarrow> settles i step \<Longrightarrow> gone s' i"
proof (induction p arbitrary: s out tr s')
  case (Ask q k)
  obtain r s1 where h: "handle s q = (r, s1)" by fastforce
  obtain o1 tr1 s2 where k: "run handle (k r) s1 = (o1, tr1, s2)" by (metis prod_cases3)
  have tr: "tr = (q, r) # tr1" "s' = s2" using Ask.prems(2) h k by simp_all
  have inv1: "inv s1" using handle_inv [OF Ask.prems(1), of q] h by simp
  show ?case
  proof (cases "step = (q, r)")
    case True
    then have "gone s1 i" using handle_settles [OF Ask.prems(1) h] Ask.prems(4) by simp
    then show ?thesis using run_gone [OF inv1 _ k] tr by simp
  next
    case False
    then show ?thesis using Ask.IH [OF _ inv1 k] Ask.prems(3,4) tr by (auto simp: rangeI)
  qed
qed auto

lemma run_loads:
  "inv s \<Longrightarrow> run handle p s = (out, tr, s') \<Longrightarrow> (LoadTasks ids, TasksLoaded ts) \<in> set tr \<Longrightarrow> i \<in> set ids
     \<Longrightarrow> gone s' i \<or> (\<exists>t. Some t \<in> set ts \<and> t_id t = i \<and> \<not> is_terminal (t_status t))"
proof (induction p arbitrary: s out tr s')
  case (Ask q k)
  obtain r s1 where h: "handle s q = (r, s1)" by fastforce
  obtain o1 tr1 s2 where k: "run handle (k r) s1 = (o1, tr1, s2)" by (metis prod_cases3)
  have tr: "tr = (q, r) # tr1" "s' = s2" using Ask.prems(2) h k by simp_all
  have inv1: "inv s1" using handle_inv [OF Ask.prems(1), of q] h by simp
  show ?case
  proof (cases "(LoadTasks ids, TasksLoaded ts) = (q, r)")
    case True
    then have "gone s1 i \<or> (\<exists>t. Some t \<in> set ts \<and> t_id t = i \<and> \<not> is_terminal (t_status t))"
      using handle_loads [OF Ask.prems(1)] h Ask.prems(4) by blast
    then show ?thesis using run_gone [OF inv1 _ k] tr by blast
  next
    case False
    then show ?thesis using Ask.IH [OF _ inv1 k] Ask.prems(3,4) tr by (auto simp: rangeI)
  qed
qed auto

lemma advance_gone:
  assumes inv: "inv s" and run: "run handle (submission_program X ids) s = (Some Advance, tr, s')" and i: "i \<in> set ids"
  shows "gone s' i"
  by (rule advance_settled [OF run_exec [OF run] i])
    (erule run_loads [OF inv run _ i], erule (1) run_settles [OF inv run])

end

section \<open>The worker as a shell\<close>

definition worker_inv :: "'s services \<Rightarrow> ('s, 'w, 'q) worker \<Rightarrow> bool" where
  "worker_inv R st = store_inv R (w_redis st)"

definition worker_settled :: "'s services \<Rightarrow> ('s, 'w, 'q) worker \<Rightarrow> string \<Rightarrow> bool" where
  "worker_settled R st i = settled (task_at R (w_redis st) i)"

lemma on_store_simps [simp]:
  "fst (on_store m st) = fst (m (w_redis st))" "w_redis (snd (on_store m st)) = snd (m (w_redis st))"
  "w_net (snd (on_store m st)) = w_net st" "w_nonce (snd (on_store m st)) = w_nonce st"
  "w_queue (snd (on_store m st)) = w_queue st"
  by (simp_all add: on_store_def split_def Let_def)

lemma on_chain_simps [simp]:
  "fst (on_chain f st) = fst (f (w_net st))" "w_net (snd (on_chain f st)) = snd (f (w_net st))"
  "w_redis (snd (on_chain f st)) = w_redis st" "w_nonce (snd (on_chain f st)) = w_nonce st"
  "w_queue (snd (on_chain f st)) = w_queue st"
  by (simp_all add: on_chain_def split_def Let_def)

lemma on_chain_eq:
  "on_chain f st = (r, st') \<Longrightarrow> w_redis st' = w_redis st \<and> w_nonce st' = w_nonce st \<and> w_queue st' = w_queue st
     \<and> f (w_net st) = (r, w_net st')"
  using on_chain_simps [of f st] by (metis fst_conv snd_conv prod.collapse)

lemma acquire_redis [simp]: "w_redis (snd (acquire H C st)) = w_redis st" "w_queue (snd (acquire H C st)) = w_queue st"
  by (auto simp: acquire_def Let_def split: option.split prod.split sum.split dest: on_chain_eq)

lemma release_simps [simp]:
  "w_redis (release st) = w_redis st" "w_net (release st) = w_net st" "w_nonce (release st) = None" "w_queue (release st) = w_queue st"
  by (simp_all add: release_def)

lemma sleep_simps [simp]:
  "w_redis (sleep_for H d st) = w_redis st" "w_nonce (sleep_for H d st) = w_nonce st" "w_queue (sleep_for H d st) = w_queue st"
  by (simp_all add: sleep_for_def Let_def)

lemma beat_simps [simp]:
  "w_redis (beat H st) = w_redis st" "w_nonce (beat H st) = w_nonce st" "w_queue (beat H st) = w_queue st"
  by (simp_all add: beat_def Let_def split_def)

text \<open>A write attempt touches Redis only through the ledger.\<close>

definition ledger_write :: "'s services \<Rightarrow> u64 \<Rightarrow> 's \<Rightarrow> 's \<Rightarrow> bool" where
  "ledger_write R nonce s s' =
     (s' = s \<or> s' = snd (delete_pending_tx R ''register'' nonce s)
      \<or> (\<exists>h sent fees. s' = snd (record_pending_tx R ''register'' nonce h sent 0 fees s)))"

lemma record_pending_write: "ledger_write R nonce (w_redis st) (w_redis (record_pending R H nonce h fees st))"
proof -
  obtain now w where "h_now_ms H (n_world (w_net st)) = (now, w)" by fastforce
  then have "w_redis (record_pending R H nonce h fees st) = snd (record_pending_tx R ''register'' nonce h now 0 fees (w_redis st))"
    by (simp add: record_pending_def ledger_name_def)
  then show ?thesis unfolding ledger_write_def by blast
qed

lemma clear_pending_write: "ledger_write R nonce (w_redis st) (w_redis (clear_pending R nonce st))"
  by (simp add: ledger_write_def clear_pending_def ledger_name_def)

lemma ledger_write_refl [simp]: "ledger_write R nonce s s"
  by (simp add: ledger_write_def)

lemma await_receipt_write:
  "ledger_write R nonce (w_redis st) (w_redis (snd (await_receipt R H nonce h st)))"
proof -
  obtain r st1 where r: "on_chain (wait_for_receipt H h RECEIPT_TIMEOUT) st = (r, st1)" by fastforce
  have "w_redis st1 = w_redis st" using on_chain_eq [OF r] by simp
  then show ?thesis using clear_pending_write [of R nonce st1]
    by (simp add: await_receipt_def r split: sum.split receipt_outcome.split)
qed

lemma worker_submit_writes:
  "\<exists>nonce s1. ledger_write R nonce (w_redis st) s1 \<and> ledger_write R nonce s1 (w_redis (snd (worker_submit X R H C task st)))"
proof -
  obtain a st1 where a: "acquire H C st = (a, st1)" by fastforce
  have r1: "w_redis st1 = w_redis st" using acquire_redis [of H C st] a by simp
  show ?thesis
  proof (cases a)
    case (Inl e)
    then show ?thesis using a r1 by (auto simp: worker_submit_def intro!: exI [of _ "w_redis st"])
  next
    case (Inr nonce)
    obtain b st2 where b: "on_chain (chain_register X H C task nonce) st1 = (b, st2)" by fastforce
    have r2: "w_redis st2 = w_redis st" using on_chain_eq [OF b] r1 by simp
    show ?thesis
    proof (cases b)
      case (Inl e)
      then show ?thesis using a b Inr r2 by (auto simp: worker_submit_def intro!: exI [of _ "w_redis st"])
    next
      case (Inr br)
      let ?st = "record_pending R H nonce (bc_hash br) (bc_fees_wei br) st2"
      have "worker_submit X R H C task st = await_receipt R H nonce (bc_hash br) ?st"
        using a b \<open>a = Inr nonce\<close> Inr by (simp add: worker_submit_def)
      then show ?thesis using record_pending_write [of R nonce st2 H] await_receipt_write [of R nonce ?st H] r2 by metis
    qed
  qed
qed

context redis_laws
begin

lemma ledger_write_keeps:
  assumes "ledger_write R nonce s s'"
  shows "store_inv R s \<Longrightarrow> store_inv R s'" "settled (task_at R s i) \<Longrightarrow> settled (task_at R s' i)"
  using assms record_pending_tx_inv [of s "''register''" nonce] delete_pending_tx_inv [of s "''register''" nonce]
    settled_writes(2,3) [of s i]
  unfolding ledger_write_def by blast+

lemma submit_keeps:
  shows "store_inv R (w_redis st) \<Longrightarrow> store_inv R (w_redis (snd (worker_submit X R H C task st)))"
    "settled (task_at R (w_redis st) i) \<Longrightarrow> settled (task_at R (w_redis (snd (worker_submit X R H C task st))) i)"
  using worker_submit_writes [of R st X H C task] ledger_write_keeps by blast+

lemma load_tasks_keeps:
  assumes "load_tasks R ids st = (r, st')" "store_inv R (w_redis st)"
  shows "store_inv R (w_redis st') \<and> (settled (task_at R (w_redis st) i) \<longrightarrow> settled (task_at R (w_redis st') i))"
  using assms
proof (induction ids arbitrary: st r)
  case (Cons j ids)
  obtain f st1 where f: "on_store (get_task R j) st = (f, st1)" by fastforce
  have s1: "w_redis st1 = snd (get_task R j (w_redis st))" using on_store_simps(2) [of "get_task R j" st] f by simp
  have k1: "store_inv R (w_redis st1)" "settled (task_at R (w_redis st) i) \<Longrightarrow> settled (task_at R (w_redis st1) i)"
    using get_task_inv [OF Cons.prems(2)] settled_get_task s1 by simp_all
  show ?case
  proof (cases f)
    case (Inl e)
    then show ?thesis using Cons.prems(1) f k1 by (auto simp: bind_op_def)
  next
    case (Inr t)
    obtain r2 st2 where l: "load_tasks R ids st1 = (r2, st2)" by fastforce
    have "st' = st2" using Cons.prems(1) f Inr l by (auto simp: bind_op_def return_op_def split: sum.splits)
    then show ?thesis using Cons.IH [OF l [folded \<open>st' = st2\<close>] k1(1)] k1(2) by simp
  qed
qed (simp add: return_op_def)

lemma load_tasks_result:
  assumes "load_tasks R ids st = (Inr ts, st')" "store_inv R (w_redis st)" "i \<in> set ids"
  shows "settled (task_at R (w_redis st') i) \<or> (\<exists>t. Some t \<in> set ts \<and> t_id t = i \<and> \<not> is_terminal (t_status t))"
  using assms
proof (induction ids arbitrary: st ts)
  case (Cons j ids)
  obtain f st1 ts2 where f: "on_store (get_task R j) st = (Inr f, st1)" and l: "load_tasks R ids st1 = (Inr ts2, st')"
    and ts: "ts = f # ts2"
    using Cons.prems(1) unfolding load_tasks.simps bind_op_Inr return_op_Inr by blast
  have g: "get_task R j (w_redis st) = (Inr f, w_redis st1)"
    using on_store_simps(1,2) [of "get_task R j" st] f by (metis fst_conv snd_conv prod.collapse)
  have k1: "store_inv R (w_redis st1)" using get_task_inv [OF Cons.prems(2), of j] g by simp
  show ?case
  proof (cases "i = j")
    case True
    have f': "f = task_at R (w_redis st1) j" by (rule get_task_Inr(2) [OF g])
    show ?thesis
    proof (cases "settled f")
      case True
      then show ?thesis using load_tasks_keeps [OF l k1, of i] f' \<open>i = j\<close> by simp
    next
      case False
      then obtain t where t: "f = Some t" "\<not> is_terminal (t_status t)" by (auto simp: settled_def split: option.splits)
      have "t_id t = j" by (rule pending_of_read(3) [OF Cons.prems(2) g [unfolded t(1)]])
      then show ?thesis using t ts \<open>i = j\<close> by auto
    qed
  next
    case False
    then show ?thesis using Cons.IH [OF l k1] Cons.prems(3) ts by auto
  qed
qed simp

lemma mark_settles:
  assumes "store_inv R s"
  shows "Store.mark_done R i h n s = (Inr x, s') \<Longrightarrow> settled (task_at R s' i)"
    "Store.mark_failed R i c m s = (Inr x, s') \<Longrightarrow> settled (task_at R s' i)"
  using mark_done_result [OF assms, of i h n x s'] mark_failed_result [OF assms, of i c m x s']
  by (auto simp: settled_def split: option.split)

end

locale worker_shell = redis_laws R for R :: "'s services" +
  fixes X :: externs and H :: "'w host" and C :: chain
begin

lemma execute_keeps:
  fixes st :: "('s, 'w, 'q) worker"
  assumes "store_inv R (w_redis st)"
  shows "store_inv R (w_redis (snd (execute X R H C st q)))"
    "settled (task_at R (w_redis st) i) \<Longrightarrow> settled (task_at R (w_redis (snd (execute X R H C st q))) i)"
proof -
  have "store_inv R (w_redis (snd (execute X R H C st q)))
      \<and> (settled (task_at R (w_redis st) i) \<longrightarrow> settled (task_at R (w_redis (snd (execute X R H C st q))) i))"
  proof (cases q)
    case (LoadTasks ids)
    obtain r st1 where l: "load_tasks R ids st = (r, st1)" by fastforce
    then show ?thesis using load_tasks_keeps [OF l assms, of i] LoadTasks by (cases r) (simp_all add: execute_def)
  next
    case (CheckContentRegistered h)
    then show ?thesis using assms by (simp add: execute_def split: sum.split)
  next
    case (CheckReferenced g m)
    then show ?thesis using assms by (simp add: execute_def split: sum.split)
  next
    case (SubmitRegister t)
    then show ?thesis using assms submit_keeps [where st = st and task = t] by (simp add: execute_def)
  next
    case (MarkDone j h n)
    then show ?thesis using mark_done_inv [OF assms] settled_mark_done by (simp add: execute_def)
  next
    case (MarkFailed j k m)
    then show ?thesis using mark_failed_inv [OF assms] settled_mark_failed by (simp add: execute_def)
  next
    case (RecordTransientFailure j m)
    then show ?thesis using record_transient_failure_inv [OF assms] settled_record_transient_failure [OF assms]
      by (simp add: execute_def)
  qed
  then show "store_inv R (w_redis (snd (execute X R H C st q)))"
    "settled (task_at R (w_redis st) i) \<Longrightarrow> settled (task_at R (w_redis (snd (execute X R H C st q))) i)"
    by blast+
qed

lemma execute_settles:
  fixes st :: "('s, 'w, 'q) worker"
  assumes "store_inv R (w_redis st)" "execute X R H C st q = (r, st')" "settles i (q, r)"
  shows "settled (task_at R (w_redis st') i)"
proof (cases q)
  case (MarkDone j h n)
  obtain a s1 where m: "Store.mark_done R j h n (w_redis st) = (a, s1)" by fastforce
  have "r = store_ack a" "w_redis st' = s1" using assms(2) m by (auto simp: MarkDone execute_def on_store_def)
  moreover have "i = j" "r = Persisted" using assms(3) MarkDone by (cases r; simp)+
  ultimately show ?thesis using mark_settles(1) [OF assms(1), of j h n] m by (cases a) (simp_all add: store_ack_def)
next
  case (MarkFailed j k x)
  obtain a s1 where m: "Store.mark_failed R j (as_store_class k) x (w_redis st) = (a, s1)" by fastforce
  have "r = store_ack a" "w_redis st' = s1" using assms(2) m by (auto simp: MarkFailed execute_def on_store_def)
  moreover have "i = j" "r = Persisted" using assms(3) MarkFailed by (cases r; simp)+
  ultimately show ?thesis using mark_settles(2) [OF assms(1), of j "as_store_class k" x] m by (cases a) (simp_all add: store_ack_def)
qed (use assms(3) in simp_all)

lemma execute_loads:
  fixes st :: "('s, 'w, 'q) worker"
  assumes "store_inv R (w_redis st)" "execute X R H C st (LoadTasks ids) = (TasksLoaded ts, st')" "i \<in> set ids"
  shows "settled (task_at R (w_redis st') i) \<or> (\<exists>t. Some t \<in> set ts \<and> t_id t = i \<and> \<not> is_terminal (t_status t))"
proof -
  have "load_tasks R ids st = (Inr ts, st')"
    using assms(2) by (auto simp: execute_def split: prod.splits sum.splits)
  then show ?thesis by (rule load_tasks_result [OF _ assms(1,3)])
qed

end

sublocale worker_shell \<subseteq> batch: task_shell "execute X R H C" "worker_inv R" "worker_settled R"
  by unfold_locales
    (auto simp: worker_inv_def worker_settled_def intro: execute_keeps execute_settles dest: execute_loads)

interpretation ref_worker: worker_shell ref_services ref_externs ref_host sample_signer
  by unfold_locales

section \<open>The consumer offset\<close>

lemma worker_submit_queue: "w_queue (snd (worker_submit X R H C task st)) = w_queue st"
proof -
  have c: "w_queue (clear_pending R n s) = w_queue s" "w_queue (record_pending R H n h f s) = w_queue s" for n s h f
    by (simp_all add: clear_pending_def record_pending_def Let_def split_def)
  have a: "w_queue (snd (await_receipt R H n h s)) = w_queue s" for n h s
    by (auto simp: await_receipt_def c dest: on_chain_eq split: prod.split sum.split receipt_outcome.split)
  obtain r st1 where r: "acquire H C st = (r, st1)" by fastforce
  then have "w_queue st1 = w_queue st" using acquire_redis(2) [of H C st] by simp
  then show ?thesis
    by (auto simp: worker_submit_def r a c dest: on_chain_eq split: prod.split sum.split)
qed

lemma load_tasks_queue: "load_tasks R ids st = (r, st') \<Longrightarrow> w_queue st' = w_queue st"
proof (induction ids arbitrary: st r)
  case (Cons j ids)
  obtain f st1 where f: "on_store (get_task R j) st = (f, st1)" by fastforce
  have q1: "w_queue st1 = w_queue st" using on_store_simps(5) [of "get_task R j" st] f by simp
  show ?case
  proof (cases f)
    case (Inr t)
    obtain r2 st2 where l: "load_tasks R ids st1 = (r2, st2)" by fastforce
    have "st' = st2" using Cons.prems f Inr l by (auto simp: bind_op_def return_op_def split: sum.splits)
    then show ?thesis using Cons.IH l q1 by simp
  qed (use Cons.prems f q1 in \<open>auto simp: bind_op_def\<close>)
qed (simp add: return_op_def)

lemma execute_queue: "w_queue (snd (execute X R H C st q)) = w_queue st"
  by (cases q) (auto simp: execute_def worker_submit_queue dest: load_tasks_queue split: prod.split sum.split)

lemma process_batch_queue:
  assumes "process_batch X R H C tasks st = (r, st')"
  shows "w_queue st' = w_queue st"
proof -
  obtain out tr st1 where run: "run (execute X R H C) (submission_program X (map t_id tasks)) st = (out, tr, st1)"
    by (metis prod_cases3)
  have "w_queue st1 = w_queue st"
    using run_invariant [where I = "\<lambda>s. w_queue s = w_queue st", OF _ _ run] execute_queue by (metis snd_conv)
  then show ?thesis using assms run by (auto simp: process_batch_def split: if_splits)
qed

context worker_shell
begin

lemma process_batch_keeps:
  fixes st :: "('s, 'w, 'q) worker"
  assumes "process_batch X R H C tasks st = (res, st')" "worker_inv R st"
  shows "worker_inv R st'" "\<exists>r. res = Some r" "res = Some (Inr ()) \<Longrightarrow> t \<in> set tasks \<Longrightarrow> worker_settled R st' (t_id t)"
    "worker_settled R st i \<Longrightarrow> worker_settled R st' i"
proof -
  have "worker_inv R st' \<and> (\<exists>r. res = Some r) \<and> (res = Some (Inr ()) \<longrightarrow> t \<in> set tasks \<longrightarrow> worker_settled R st' (t_id t))
     \<and> (worker_settled R st i \<longrightarrow> worker_settled R st' i)"
  proof (cases "tasks = []")
    case True
    then show ?thesis using assms by (auto simp: process_batch_def)
  next
    case False
    obtain out tr st1 where run: "run (execute X R H C) (submission_program X (map t_id tasks)) st = (out, tr, st1)"
      by (metis prod_cases3)
    have res: "res = map_option (\<lambda>v. case v of Advance \<Rightarrow> Inr () | Retry reason \<Rightarrow> Inl reason) out" "st' = st1"
      using assms(1) run False by (simp_all add: process_batch_def)
    have "out \<noteq> None" using run_exec [OF run] by (cases rule: submission_exec_cases) simp_all
    moreover have "out = Some Advance" if "res = Some (Inr ())" using that res(1) by (cases out; simp split: batch_verdict.splits)
    ultimately show ?thesis
      using batch.run_inv [OF assms(2) run] batch.advance_gone [OF assms(2)] batch.run_gone [OF assms(2) _ run] run res by auto
  qed
  then show "worker_inv R st'" "\<exists>r. res = Some r" "res = Some (Inr ()) \<Longrightarrow> t \<in> set tasks \<Longrightarrow> worker_settled R st' (t_id t)"
    "worker_settled R st i \<Longrightarrow> worker_settled R st' i" by blast+
qed

lemma commit_simps:
  "commit_batch Q part off st = (r, st') \<Longrightarrow> w_redis st' = w_redis st \<and> w_queue st' = snd (ig_store_offset Q (w_queue st) part off)"
  by (auto simp: commit_batch_def split_def Let_def)

text \<open>One iteration after a non-empty poll.\<close>

lemma poll_batch:
  fixes st :: "('s, 'w, 'q) worker"
  assumes poll: "poll_once X R H Q C st = (res, st')" and inv: "worker_inv R st"
    and msgs: "ig_poll Q (w_queue st) = (Some (part, messages), q)" "messages \<noteq> []"
  shows "worker_inv R st' \<and> res \<noteq> None \<and> (worker_settled R st i \<longrightarrow> worker_settled R st' i)
    \<and> (w_queue st' = q \<or> w_queue st' = snd (ig_store_offset Q q part (fst (last messages)))
         \<and> (\<forall>t \<in> set (decode_messages R messages). worker_settled R st' (t_id t)))"
proof -
  define st1 where "st1 = beat H (st\<lparr>w_queue := q\<rparr>)"
  obtain fee st2 where fee: "on_chain (fee_plan_of H C) st1 = (fee, st2)" by fastforce
  have st2: "w_redis st2 = w_redis st" "w_queue st2 = q" using on_chain_eq [OF fee] by (simp_all add: st1_def)
  have inv2: "worker_inv R st2" using inv st2 by (simp add: worker_inv_def)
  obtain b st3 where b: "process_batch X R H C (decode_messages R messages) st2 = (b, st3)" by fastforce
  note pb = process_batch_keeps [OF b inv2]
  obtain v where v: "b = Some v" using pb(2) by blast
  have q3: "w_queue st3 = q" using process_batch_queue [OF b] st2 by simp
  have held: ?thesis if "fee = Inr (TooExpensive x y)" for x y
    using poll inv st2 that fee msgs unfolding st1_def by (simp add: poll_once_def Let_def worker_inv_def worker_settled_def) auto
  have go: "poll_once X R H Q C st = (case v of Inr _ \<Rightarrow> apfst Some (commit_batch Q part (fst (last messages)) st3)
      | Inl _ \<Rightarrow> (Some (Inr ()), sleep_for H (unat (batch_backoff (saturating_add (w_failures st3) 1)) * SECOND)
           (st3\<lparr>w_failures := saturating_add (w_failures st3) 1\<rparr>)))"
    if "\<And>x y. fee \<noteq> Inr (TooExpensive x y)"
    using that fee b v msgs unfolding st1_def
    by (auto simp: poll_once_def Let_def split: sum.splits fee_verdict.splits)
  show ?thesis
  proof (cases "\<exists>x y. fee = Inr (TooExpensive x y)")
    case True
    then show ?thesis using held by blast
  next
    case False
    then have eq: "poll_once X R H Q C st = (case v of Inr _ \<Rightarrow> apfst Some (commit_batch Q part (fst (last messages)) st3)
      | Inl _ \<Rightarrow> (Some (Inr ()), sleep_for H (unat (batch_backoff (saturating_add (w_failures st3) 1)) * SECOND)
           (st3\<lparr>w_failures := saturating_add (w_failures st3) 1\<rparr>)))" using go by blast
    show ?thesis
    proof (cases v)
      case (Inl e)
      then show ?thesis using eq poll pb(1) pb(4) [of i] q3 st2(1) by (auto simp: worker_inv_def worker_settled_def)
    next
      case (Inr u)
      obtain c st4 where c: "commit_batch Q part (fst (last messages)) st3 = (c, st4)" by fastforce
      have "res = Some c" "st' = st4" using eq poll Inr c by simp_all
      then show ?thesis
        using commit_simps [OF c] pb(1) pb(3) pb(4) [of i] q3 st2(1) v Inr by (auto simp: worker_inv_def worker_settled_def)
    qed
  qed
qed

lemma poll_keeps:
  fixes st :: "('s, 'w, 'q) worker"
  assumes "poll_once X R H Q C st = (res, st')" "worker_inv R st"
  shows "worker_inv R st'" "res \<noteq> None" "worker_settled R st i \<Longrightarrow> worker_settled R st' i"
proof -
  obtain p q where p: "ig_poll Q (w_queue st) = (p, q)" by fastforce
  have "worker_inv R st' \<and> res \<noteq> None \<and> (worker_settled R st i \<longrightarrow> worker_settled R st' i)"
  proof (cases "\<exists>part messages. p = Some (part, messages) \<and> messages \<noteq> []")
    case True
    then show ?thesis using poll_batch [OF assms] p by blast
  next
    case False
    then show ?thesis using assms p
      by (cases p) (auto simp: poll_once_def Let_def worker_inv_def worker_settled_def)
  qed
  then show "worker_inv R st'" "res \<noteq> None" "worker_settled R st i \<Longrightarrow> worker_settled R st' i" by blast+
qed

lemma run_loop_keeps:
  fixes st :: "('s, 'w, 'q) worker"
  assumes "run_loop X R H Q C n st = (res, st')" "worker_inv R st"
  shows "worker_inv R st' \<and> res \<noteq> None \<and> (worker_settled R st i \<longrightarrow> worker_settled R st' i)"
  using assms
proof (induction n arbitrary: st)
  case (Suc n)
  obtain r st1 where r: "poll_once X R H Q C st = (r, st1)" by fastforce
  note k = poll_keeps [OF r Suc.prems(2)]
  then obtain v where v: "r = Some v" by blast
  show ?case
  proof (cases v)
    case (Inl e)
    then show ?thesis using Suc.prems(1) r v k by auto
  next
    case (Inr u)
    then have "run_loop X R H Q C n st1 = (res, st')" using Suc.prems(1) r v by simp
    then show ?thesis using Suc.IH k by blast
  qed
qed auto

end

text \<open>C7: The consumer offset moves only past settled tasks.  In every iteration of every session that
  starts from a consistent store, with lost Redis commands, failing nodes and any chain answers:
  the iteration does not panic, and if it moves the stored offset then it moves only the polled
  partition's, to the offset of the last polled message, and every polled message that decodes is
  of a task that is then terminal or gone in Redis, and stays so in all later iterations.\<close>

theorem offset_past_settled:
  assumes "services_ok R" "iggy_ok Q" "store_inv R (w_redis st0)"
    and "run_loop X R H Q C n st0 = (Some (Inr ()), st)" "poll_once X R H Q C st = (res, st')"
    and "run_loop X R H Q C m st' = (res', st'')"
  shows "res \<noteq> None \<and> res' \<noteq> None
    \<and> (ig_committed Q (w_queue st') \<noteq> ig_committed Q (w_queue st) \<longrightarrow>
         (\<exists>part messages. fst (ig_poll Q (w_queue st)) = Some (part, messages) \<and> messages \<noteq> []
            \<and> ig_committed Q (w_queue st') = (ig_committed Q (w_queue st))(part \<mapsto> fst (last messages))
            \<and> (\<forall>payload t. payload \<in> snd ` set messages \<and> parse_task R payload = Some t \<longrightarrow>
                 settled (task_at R (w_redis st'') (t_id t)))))"
proof -
  have laws: "worker_shell R" by (rule worker_shell.intro [OF redis_laws_of [OF assms(1)]])
  have inv: "worker_inv R st"
    using worker_shell.run_loop_keeps [OF laws assms(4)] assms(3) by (simp add: worker_inv_def)
  note k = worker_shell.poll_keeps [OF laws assms(5) inv]
  note later = worker_shell.run_loop_keeps [OF laws assms(6) k(1)]
  obtain p q where p: "ig_poll Q (w_queue st) = (p, q)" by fastforce
  have q: "ig_committed Q q = ig_committed Q (w_queue st)"
    using assms(2) p unfolding iggy_ok_def by (metis snd_conv)
  have "\<exists>part messages. p = Some (part, messages) \<and> messages \<noteq> []
      \<and> ig_committed Q (w_queue st') = (ig_committed Q (w_queue st))(part \<mapsto> fst (last messages))
      \<and> (\<forall>payload t. payload \<in> snd ` set messages \<and> parse_task R payload = Some t \<longrightarrow>
           settled (task_at R (w_redis st'') (t_id t)))"
    if moved: "ig_committed Q (w_queue st') \<noteq> ig_committed Q (w_queue st)"
  proof -
    have "\<exists>part messages. p = Some (part, messages) \<and> messages \<noteq> []"
    proof (rule ccontr)
      assume "\<not> ?thesis"
      then have "w_queue st' = q" using assms(5) p by (cases p) (auto simp: poll_once_def Let_def)
      then show False using moved q by simp
    qed
    then obtain part messages where pm: "p = Some (part, messages)" "messages \<noteq> []" by blast
    have b: "w_queue st' = snd (ig_store_offset Q q part (fst (last messages)))"
      "\<forall>t \<in> set (decode_messages R messages). worker_settled R st' (t_id t)"
      using worker_shell.poll_batch [OF laws assms(5) inv p [unfolded pm(1)] pm(2)] moved q by auto
    have "ig_committed Q (w_queue st') = (ig_committed Q q)(part \<mapsto> fst (last messages))"
      using assms(2) moved q unfolding iggy_ok_def b(1) by metis
    moreover have "settled (task_at R (w_redis st'') (t_id t))"
      if "payload \<in> snd ` set messages" "parse_task R payload = Some t" for payload t
    proof -
      have "t \<in> set (decode_messages R messages)"
        using that by (force simp: decode_messages_def List.map_filter_def)
      then have "worker_settled R st' (t_id t)" using b(2) by blast
      then show ?thesis using later [of "t_id t"] by (simp add: worker_settled_def)
    qed
    ultimately show ?thesis using pm q by auto
  qed
  then show ?thesis using k(2) later p by simp
qed

section \<open>A session\<close>

text \<open>A queue that answers polls from a script.\<close>

definition ref_iggy :: "((nat \<Rightarrow> u64 option) \<times> (nat \<times> (u64 \<times> string) list) list) iggy" where
  "ref_iggy =
     \<lparr>ig_committed = fst,
      ig_poll = (\<lambda>(c, ps). case ps of [] \<Rightarrow> (Some (0, []), (c, [])) | p # ps \<Rightarrow> (Some p, (c, ps))),
      ig_store_offset = (\<lambda>(c, ps) p off. (True, (c(p \<mapsto> off), ps))),
      ig_get_group = (\<lambda>q. (Some True, q)),
      ig_create_group = (\<lambda>q. (True, q))\<rparr>"

lemma ref_iggy_ok: "iggy_ok ref_iggy"
  by (auto simp: iggy_ok_def ref_iggy_def split: list.split)

text \<open>A refer task without members cannot be encoded, so its batch fails it.\<close>

definition poison_task :: register_task where
  "poison_task = sample_refer\<lparr>t_members := []\<rparr>"

lemma poison_simps [simp]:
  "t_id poison_task = ''t2''" "t_status poison_task = Pending" "content_question X poison_task = None"
  by (simp_all add: poison_task_def sample_refer_simps content_question_def)

definition poison_store :: ref_state where
  "poison_store = snd (admit ref_services poison_task empty_redis)"

lemma poison_store_ok:
  "rs_faults poison_store = []" "store_inv ref_services poison_store"
  "task_at ref_services poison_store ''t2'' = Some poison_task"
proof -
  show "rs_faults poison_store = []" unfolding poison_store_def by (rule calm_admit) (simp add: empty_redis_def)
  show "store_inv ref_services poison_store" unfolding poison_store_def
    by (rule ref_redis.admit_inv [OF ref_redis.empty_inv]) (simp_all add: string_at_def)
  have "fst (admit ref_services poison_task empty_redis) = Inr (New ''t2'')"
    by (simp add: admit_def ref_services_def bind_op_def run_script_def query_def empty_redis_def admit_script_def
        admission_response_def string_at_def Let_def split: prod.split)
  then show "task_at ref_services poison_store ''t2'' = Some poison_task"
    unfolding poison_store_def by (metis ref_redis.admit_new(2) prod.collapse)
qed

definition poison_payload :: string where
  "poison_payload = the (task_json ref_services poison_task)"

lemma poison_payload_ok: "parse_task ref_services poison_payload = Some poison_task"
  using ref_redis.serde [of poison_task] by (auto simp: poison_payload_def)

definition poison_worker ::
  "(ref_state, ref_world, (nat \<Rightarrow> u64 option) \<times> (nat \<times> (u64 \<times> string) list) list) worker" where
  "poison_worker =
     \<lparr>w_redis = poison_store, w_net = sample_net [], w_nonce = None,
      w_queue = (Map.empty, [(0, [(4, poison_payload)])]), w_failures = 0, w_pulse = 0\<rparr>"

text \<open>No node answers the fee question.\<close>

lemma no_fee: "\<exists>e n. fee_plan_of ref_host sample_signer (sample_net []) = (Inl e, n)"
proof -
  have "ready (sample_net []) []" by (simp add: ready_def sample_net_def roster_new_def)
  then obtain s1 where s1: "write_node ref_host (sample_net []) = (Inr ''w'', s1)" "ready s1 []"
    using ready_select(1) by blast
  have "\<exists>e s2. call_on ref_host ''w'' m q s1 = (Inl e, s2)" for m q
    using s1(2) by (simp add: call_on_def ref_host_def ready_def Let_def)
  then obtain e s2 where "call_on ref_host ''w'' ''eth_getBlockByNumber'' (JArray [JString ''latest'', JBool False]) s1 = (Inl e, s2)"
    by blast
  then show ?thesis using s1(1) by (simp add: fee_plan_of_def base_fee_def base_fee_on_def bind_op_def)
qed

lemma poison_batch:
  fixes st :: "(ref_state, ref_world, 'q) worker"
  assumes "w_redis st = poison_store"
  shows "\<exists>st'. process_batch ref_externs ref_services ref_host sample_signer [poison_task] st = (Some (Inr ()), st') \<and> w_queue st' = w_queue st"
proof -
  obtain f s1 where g: "get_task ref_services ''t2'' poison_store = (Inr f, s1)" "rs_faults s1 = []"
    using calm_faults [OF poison_store_ok(1) calm_get_task] by blast
  have f: "f = Some poison_task"
  proof -
    have "task_key ''t2'' \<notin> r_volatile ref_services poison_store"
      by (rule ref_redis.pending_nonvolatile(1) [where t = poison_task])
        (use poison_store_ok(2,3) in \<open>simp_all add: store_inv_def pending_at_def\<close>)
    then have "task_at ref_services (snd (r_next ref_services poison_store)) ''t2'' = task_at ref_services poison_store ''t2''"
      by (simp add: task_at_def ref_redis.next_keeps(2))
    then show ?thesis using ref_redis.get_task_Inr [OF g(1)] poison_store_ok(3) by simp
  qed
  let ?m = "MarkFailed ''t2'' PoisonFailure ''stored register task cannot be encoded''"
  obtain x s2 where m: "Store.mark_failed ref_services ''t2'' (as_store_class PoisonFailure) ''stored register task cannot be encoded'' s1
      = (Inr x, s2)"
    using calm_faults [OF g(2) calm_mark_failed] by blast
  have e1: "execute ref_externs ref_services ref_host sample_signer st (LoadTasks [''t2'']) = (TasksLoaded [Some poison_task], st\<lparr>w_redis := s1\<rparr>)"
    using g(1) f assms by (simp add: execute_def bind_op_def on_store_def return_op_def)
  have e2: "execute ref_externs ref_services ref_host sample_signer (st\<lparr>w_redis := s1\<rparr>) ?m = (Persisted, st\<lparr>w_redis := s2\<rparr>)"
    using m by (simp add: execute_def on_store_def store_ack_def)
  show ?thesis
    using e1 e2 by (simp add: process_batch_def submission_program_def drive_batch_def task_stage_def check_content_def persist_def)
qed

theorem offset_past_settled_witness:
  "\<exists>res st'. poll_once ref_externs ref_services ref_host ref_iggy sample_signer poison_worker = (res, st')
     \<and> ig_committed ref_iggy (w_queue st') 0 = Some 4 \<and> settled (task_at ref_services (w_redis st') ''t2'')"
proof -
  let ?st = "poison_worker\<lparr>w_queue := (Map.empty, [])\<rparr>"
  obtain e n where fee: "fee_plan_of ref_host sample_signer (sample_net []) = (Inl e, n)" using no_fee by blast
  have beat: "beat ref_host ?st = ?st"
    by (simp add: beat_def poison_worker_def sample_net_def ref_host_def)
  obtain st1 where b: "process_batch ref_externs ref_services ref_host sample_signer [poison_task] (?st\<lparr>w_net := n\<rparr>) = (Some (Inr ()), st1)"
    "w_queue st1 = (Map.empty, [])"
    using poison_batch [of "?st\<lparr>w_net := n\<rparr>"] by (auto simp: poison_worker_def)
  have d: "decode_messages ref_services [(4, poison_payload)] = [poison_task]"
    by (simp add: decode_messages_def List.map_filter_simps poison_payload_ok)
  have poll: "ig_poll ref_iggy (w_queue poison_worker) = (Some (0, [(4, poison_payload)]), (Map.empty, []))"
    by (simp add: ref_iggy_def poison_worker_def)
  have net: "w_net ?st = sample_net []" by (simp add: poison_worker_def)
  have c: "commit_batch ref_iggy 0 4 st1 = (Inr (), st1\<lparr>w_failures := 0, w_queue := ([0 \<mapsto> 4], [])\<rparr>)"
    using b(2) by (simp add: commit_batch_def ref_iggy_def)
  have run: "poll_once ref_externs ref_services ref_host ref_iggy sample_signer poison_worker
      = (Some (Inr ()), st1\<lparr>w_failures := 0, w_queue := ([0 \<mapsto> 4], [])\<rparr>)"
    using fee b(1) c by (simp add: poll_once_def poll beat on_chain_def net d)
  have "store_inv ref_services (w_redis poison_worker)" using poison_store_ok(2) by (simp add: poison_worker_def)
  from offset_past_settled [OF ref_services_ok ref_iggy_ok this run_loop.simps(1) run run_loop.simps(1)]
  show ?thesis using run poll poison_payload_ok by (simp add: ref_iggy_def poison_worker_def)
qed

section \<open>Write attempts\<close>

text \<open>Ledger writes whose answer is ignored change at most their own row.\<close>

definition ledger_entry :: "u64 \<Rightarrow> string \<Rightarrow> u64 \<Rightarrow> u32 \<Rightarrow> (u128 \<times> u128) option \<Rightarrow> pending_tx" where
  "ledger_entry nonce h sent attempts fees =
     \<lparr>px_role = ''register'', px_nonce = nonce, px_hash = h, px_sent_at_ms = sent, px_attempts = attempts,
      px_max_fee_wei = map_option fst fees, px_max_priority_fee_wei = map_option snd fees\<rparr>"

context redis_laws
begin

lemma ledger_query:
  assumes "ledger_ok R s" "\<And>s. ledger_ok R s \<Longrightarrow> ledger_ok R (snd (f s)) \<and> ledger R (snd (f s)) = g (ledger R s)"
  shows "ledger_ok R (snd (query R f s)) \<and> ledger R (snd (query R f s)) \<in> {ledger R s, g (ledger R s)}"
  by (rule query_inv [where P = "\<lambda>t. ledger_ok R t \<and> ledger R t = ledger R s"])
    (use assms ledger_next [OF assms(1)] in auto)

lemma record_ledger_any:
  fixes nonce :: u64
  assumes "ledger_ok R s"
  shows "ledger_ok R (snd (record_pending_tx R ''register'' nonce h sent a fees s))
    \<and> ledger R (snd (record_pending_tx R ''register'' nonce h sent a fees s))
        \<in> {ledger R s, (ledger R s)((''register'', nonce) \<mapsto> ledger_entry nonce h sent a fees)}"
proof -
  let ?e = "\<lparr>pe_hash = h, pe_sent_at_ms = sent, pe_attempts = a,
     pe_max_fee_wei = map_option (\<lambda>(f, _). decimal (unat f)) fees,
     pe_max_priority_fee_wei = map_option (\<lambda>(_, f). decimal (unat f)) fees\<rparr>"
  have "serde_ok R" using ok by (simp add: services_ok_def)
  then obtain p where p: "tx_json R ?e = Some p" unfolding serde_ok_def by blast
  have row: "ledger_entry_row ''register'' nonce ?e = ledger_entry nonce h sent a fees"
    by (cases fees) (simp_all add: ledger_entry_row_def ledger_entry_def parse_u128_def split: prod.split)
  show ?thesis
    unfolding record_pending_tx_def p option.case
    by (rule ledger_query [OF assms, where g = "\<lambda>l. l((''register'', nonce) \<mapsto> ledger_entry nonce h sent a fees)"])
      (use ledger_hset [of _ "''register''" ?e p nonce] p row in simp)
qed

lemma delete_ledger_any:
  fixes nonce :: u64
  assumes "ledger_ok R s"
  shows "ledger_ok R (snd (delete_pending_tx R ''register'' nonce s))
    \<and> ledger R (snd (delete_pending_tx R ''register'' nonce s)) \<in> {ledger R s, (ledger R s)((''register'', nonce) := None)}"
  unfolding delete_pending_tx_def
  by (rule ledger_query [OF assms, where g = "\<lambda>l. l((''register'', nonce) := None)"])
    (use ledger_hdel [of _ "''register''" nonce] in simp)

end

text \<open>The wallet's transaction count that a node answered.\<close>

definition nonce_answered ::
  "'w host \<Rightarrow> chain \<Rightarrow> string \<Rightarrow> (string \<times> json \<times> http_reply) list \<Rightarrow> u64 \<Rightarrow> bool" where
  "nonce_answered H C block ps nonce =
     (\<exists>key v. ch_signer_key C = Some key
        \<and> answered ps ''eth_getTransactionCount'' (JArray [JString (address_text H (key_address H key)), JString block]) v
        \<and> parse_quantity_value H v = Inr nonce)"

lemma nonce_answered_append: "nonce_answered H C block ps n \<or> nonce_answered H C block qs n \<Longrightarrow> nonce_answered H C block (ps @ qs) n"
  unfolding nonce_answered_def using answered_append by (elim disjE exE conjE) blast+

text \<open>Where a nonce comes from: the cache, or the pending count.\<close>

definition nonce_given ::
  "'w host \<Rightarrow> chain \<Rightarrow> u64 option \<Rightarrow> (string \<times> json \<times> http_reply) list \<Rightarrow> u64 \<Rightarrow> bool" where
  "nonce_given H C cached ps nonce =
     (case cached of Some n \<Rightarrow> nonce = n | None \<Rightarrow> nonce_answered H C ''pending'' ps nonce)"

lemma nonce_given_append: "nonce_given H C cached ps nonce \<Longrightarrow> nonce_given H C cached (ps @ qs) nonce"
  using nonce_answered_append [of H C _ ps nonce qs] by (cases cached) (simp_all add: nonce_given_def)

text \<open>A post that broadcasts the task's write, signed at this nonce.\<close>

definition signed_write ::
  "externs \<Rightarrow> 'w host \<Rightarrow> chain \<Rightarrow> register_task \<Rightarrow> u64 \<Rightarrow> string \<times> json \<times> http_reply \<Rightarrow> bool" where
  "signed_write X H C task nonce p =
     (\<exists>key tx signed. ch_signer_key C = Some key \<and> tx_nonce tx = nonce \<and> tx_to tx = ch_registry_address C
        \<and> write_calldata X task = Inr (tx_input tx) \<and> tx_value tx = 0
        \<and> sign_transaction H key tx = Some signed
        \<and> request_of p = rpc_request ''eth_sendRawTransaction'' (JArray [hex_0x X signed]))"

context host_laws
begin

lemma reading_nonce_at: "reading H (nonce_at H C block role) (\<lambda>ps n. nonce_answered H C block ps n)"
proof -
  let ?m = "''eth_getTransactionCount''" and ?q = "\<lambda>a. JArray [JString (address_text H a), JString block]"
  have "reading H (nonce_at H C block role) (\<lambda>ps n. \<exists>qs rs a. ps = qs @ rs \<and> wallet_address H C role = Inr a
      \<and> (\<exists>us vs v. rs = us @ vs \<and> answered us ?m (?q a) v \<and> parse_quantity_value H v = Inr n))"
    unfolding nonce_at_def by (intro reading_bind reading_lift reading_call) simp
  then show ?thesis
  proof (rule reading_mono)
    fix ps n assume "\<exists>qs rs a. ps = qs @ rs \<and> wallet_address H C role = Inr a
      \<and> (\<exists>us vs v. rs = us @ vs \<and> answered us ?m (?q a) v \<and> parse_quantity_value H v = Inr n)"
    then obtain qs us vs a v where h: "ps = qs @ us @ vs" "wallet_address H C role = Inr a" "answered us ?m (?q a) v"
      "parse_quantity_value H v = Inr n" by blast
    obtain key where "ch_signer_key C = Some key" "a = key_address H key"
      using h(2) by (auto simp: wallet_address_def wallet_key_def ok_or_def bind_res_def split: option.splits)
    moreover have "answered ps ?m (?q a) v" unfolding h(1) using h(3) answered_append by blast
    ultimately show "nonce_answered H C block ps n" using h(4) unfolding nonce_answered_def by auto
  qed
qed

lemma reading_pending_nonce: "reading H (pending_nonce H C role) (\<lambda>ps n. nonce_given H C None ps n)"
  using reading_nonce_at [of C "''pending''" role] by (simp add: pending_nonce_def nonce_given_def)

lemma register_sending:
  "sending H (chain_register X H C task nonce) (\<lambda>ps r.
     length (sends ps) \<le> 1 \<and> (\<forall>p \<in> set (sends ps). signed_write X H C task nonce p)
     \<and> (\<forall>b. r = Inr b \<longrightarrow> length (sends ps) = 1))"
  unfolding sending_def
proof (intro allI impI)
  fix s r s' assume run: "chain_register X H C task nonce s = (r, s')"
  show "\<exists>ps. did H s ps s' \<and> length (sends ps) \<le> 1 \<and> (\<forall>p \<in> set (sends ps). signed_write X H C task nonce p)
     \<and> (\<forall>b. r = Inr b \<longrightarrow> length (sends ps) = 1)"
  proof (cases "write_calldata X task")
    case (Inl e)
    then show ?thesis using run did_refl [of s]
      by (intro exI [of _ "[]"]) (auto simp: chain_register_def bind_op_def lift_op_def)
  next
    case (Inr data)
    then have run': "send_contract_transaction X H C RegisterWallet (ch_registry_address C) data nonce s = (r, s')"
      using run by (simp add: chain_register_def bind_op_def lift_op_def)
    obtain ps node where ps: "did H s ps s'" "contract_sent X H C node (ch_registry_address C) data nonce ps r"
      using contract_sending [OF run'] by blast
    show ?thesis
    proof (cases "sends ps = [] \<and> (\<exists>e. r = Inl e)")
      case True
      then show ?thesis using ps(1) by (intro exI [of _ ps]) auto
    next
      case False
      then obtain key g fees sent hash where k: "ch_signer_key C = Some key"
        and b: "broadcast_once X H key \<lparr>tr_to = ch_registry_address C, tr_data = data, tr_value = 0, tr_nonce = nonce,
           tr_gas_limit = g, tr_fees = fees\<rparr> ps sent hash"
        using ps(2) unfolding contract_sent_def by blast
      obtain signed url reply max_fee priority qs where
        sg: "sign_transaction H key \<lparr>tx_chain_id = CHAIN_ID, tx_nonce = nonce, tx_gas_limit = g, tx_max_fee_per_gas = max_fee,
            tx_max_priority_fee_per_gas = priority, tx_to = ch_registry_address C, tx_value = 0, tx_input = data\<rparr> = Some signed"
        and q: "ps = qs @ [(url, rpc_request ''eth_sendRawTransaction'' (JArray [hex_0x X signed]), reply)]" "sends qs = []"
        using b unfolding broadcast_once_def transaction.simps by blast
      let ?p = "(url, rpc_request ''eth_sendRawTransaction'' (JArray [hex_0x X signed]), reply)"
      have "sends ps = [?p]" using q by (simp add: sends_def is_send_def request_of_def rpc_request_def)
      moreover have "signed_write X H C task nonce ?p"
        unfolding signed_write_def using k Inr sg
        by (intro exI [of _ key] exI [of _ "\<lparr>tx_chain_id = CHAIN_ID, tx_nonce = nonce, tx_gas_limit = g, tx_max_fee_per_gas = max_fee,
            tx_max_priority_fee_per_gas = priority, tx_to = ch_registry_address C, tx_value = 0, tx_input = data\<rparr>"] exI [of _ signed])
          (simp add: request_of_def)
      ultimately show ?thesis using ps(1) by (intro exI [of _ ps]) auto
    qed
  qed
qed

lemma reading_receipt:
  "reading H (wait_for_receipt H hash timeout) (\<lambda>ps out.
     \<exists>v. answered ps ''eth_getTransactionReceipt'' (JArray [JString hash]) v \<and> v \<noteq> JNull \<and> receipt_of v = Inr out)"
  unfolding reading_def
proof (intro allI impI)
  fix s r s' assume run: "wait_for_receipt H hash timeout s = (r, s')"
  define s1 where "s1 = s\<lparr>n_world := snd (h_instant H (n_world s))\<rparr>"
  have run1: "receipt_loop H (timeout div RECEIPT_POLL + 2) (fst (h_instant H (n_world s))) timeout hash s1 = (r, s')"
    using run by (simp add: wait_for_receipt_def s1_def split_beta del: receipt_loop.simps)
  obtain ps where ps: "did H s1 ps s'" "sends ps = []"
    "\<forall>out. r = Inr out \<longrightarrow> (\<exists>v. answered ps ''eth_getTransactionReceipt'' (JArray [JString hash]) v \<and> v \<noteq> JNull \<and> receipt_of v = Inr out)"
    using receipt_loop_posts [OF run1] by blast
  have "did H s ps s'" using did_trans [OF did_instant, of s ps s'] ps(1) by (simp add: s1_def)
  then show "\<exists>ps. did H s ps s' \<and> sends ps = [] \<and> (\<forall>out. r = Inr out \<longrightarrow>
      (\<exists>v. answered ps ''eth_getTransactionReceipt'' (JArray [JString hash]) v \<and> v \<noteq> JNull \<and> receipt_of v = Inr out))"
    using ps(2,3) by blast
qed

lemma did_now: "did H s [] (s\<lparr>n_world := snd (h_now_ms H (n_world s))\<rparr>)"
  using ok by (simp add: host_ok_def did_def posted_def same_nodes_def)

end

text \<open>What a write attempt does, by its outcome.\<close>

definition attempt_kept ::
  "'w host \<Rightarrow> u64 \<Rightarrow> tx_outcome \<Rightarrow> (string \<times> json \<times> http_reply) list
     \<Rightarrow> (string \<times> u64 \<Rightarrow> pending_tx option) \<Rightarrow> (string \<times> u64 \<Rightarrow> pending_tx option) \<Rightarrow> bool" where
  "attempt_kept H nonce out ps before after =
     (let row = (''register'', nonce);
          recorded = (\<lambda>h l. l = before \<or> (\<exists>sent fees. l = before(row \<mapsto> ledger_entry nonce h sent 0 fees)));
          receipt = (\<lambda>h r. \<exists>v. answered ps ''eth_getTransactionReceipt'' (JArray [JString h]) v \<and> v \<noteq> JNull \<and> receipt_of v = Inr r)
      in case out of
           Confirmed h oid \<Rightarrow> length (sends ps) = 1 \<and> receipt h (Success oid)
             \<and> (\<exists>l. recorded h l \<and> (after = l \<or> after = l(row := None)))
         | tx_outcome.Reverted h \<Rightarrow> length (sends ps) = 1 \<and> receipt h RevertedReceipt
             \<and> (\<exists>l. recorded h l \<and> (after = l \<or> after = l(row := None)))
         | ReceiptUncertain e \<Rightarrow> length (sends ps) = 1 \<and> (\<exists>h. recorded h after)
         | SendFailed e \<Rightarrow> after = before
         | NoncePoolUnavailable \<Rightarrow> False)"

locale worker_laws = worker_shell R X H C + host_laws H
  for R :: "'s services" and X :: externs and H :: "'w host" and C :: chain
begin

lemma acquire_cases:
  fixes st :: "('s, 'w, 'q) worker"
  assumes "acquire H C st = (a, st')"
  shows "\<exists>ps. did H (w_net st) ps (w_net st') \<and> sends ps = [] \<and> w_redis st' = w_redis st
    \<and> (case a of Inl _ \<Rightarrow> w_nonce st = None \<and> w_nonce st' = None
         | Inr nonce \<Rightarrow> nonce_given H C (w_nonce st) ps nonce \<and> w_nonce st' = Some (saturating_add nonce 1))"
proof (cases "w_nonce st")
  case (Some n)
  then show ?thesis using assms did_refl by (intro exI [of _ "[]"]) (auto simp: acquire_def nonce_given_def)
next
  case None
  obtain r st1 where r: "on_chain (pending_nonce H C RegisterWallet) st = (r, st1)" by fastforce
  note e = on_chain_eq [OF r]
  obtain ps where ps: "did H (w_net st) ps (w_net st1)" "sends ps = []" "\<forall>n. r = Inr n \<longrightarrow> nonce_given H C None ps n"
    using reading_pending_nonce [unfolded reading_def, rule_format, of C RegisterWallet "w_net st" r "w_net st1"] e by blast
  show ?thesis using assms None r e ps by (cases r) (auto simp: acquire_def intro!: exI [of _ ps])
qed

lemma await_cases:
  fixes st :: "('s, 'w, 'q) worker"
  assumes "await_receipt R H nonce h st = (out, st')" "ledger_ok R (w_redis st)"
  shows "\<exists>ps. did H (w_net st) ps (w_net st') \<and> sends ps = [] \<and> ledger_ok R (w_redis st')
    \<and> (let same = (\<lambda>s. ledger R s \<in> {ledger R (w_redis st), (ledger R (w_redis st))((''register'', nonce) := None)});
           receipt = (\<lambda>r. \<exists>v. answered ps ''eth_getTransactionReceipt'' (JArray [JString h]) v \<and> v \<noteq> JNull \<and> receipt_of v = Inr r)
       in case out of
            Confirmed h' oid \<Rightarrow> h' = h \<and> receipt (Success oid) \<and> w_nonce st' = w_nonce st \<and> same (w_redis st')
          | tx_outcome.Reverted h' \<Rightarrow> h' = h \<and> receipt RevertedReceipt \<and> w_nonce st' = None \<and> same (w_redis st')
          | ReceiptUncertain e \<Rightarrow> w_nonce st' = None \<and> w_redis st' = w_redis st
          | _ \<Rightarrow> False)"
proof -
  obtain r st1 where r: "on_chain (wait_for_receipt H h RECEIPT_TIMEOUT) st = (r, st1)" by fastforce
  note e = on_chain_eq [OF r]
  obtain ps where ps: "did H (w_net st) ps (w_net st1)" "sends ps = []"
    "\<forall>out. r = Inr out \<longrightarrow> (\<exists>v. answered ps ''eth_getTransactionReceipt'' (JArray [JString h]) v \<and> v \<noteq> JNull \<and> receipt_of v = Inr out)"
    using reading_receipt [unfolded reading_def, rule_format, of h RECEIPT_TIMEOUT "w_net st" r "w_net st1"] e by blast
  have c: "w_net (clear_pending R nonce st1) = w_net st1" "w_nonce (clear_pending R nonce st1) = w_nonce st"
    "ledger_ok R (w_redis (clear_pending R nonce st1))"
    "ledger R (w_redis (clear_pending R nonce st1)) \<in> {ledger R (w_redis st), (ledger R (w_redis st))((''register'', nonce) := None)}"
    using delete_ledger_any [OF assms(2), of nonce] e by (simp_all add: clear_pending_def ledger_name_def)
  consider (ok) oid where "r = Inr (Success oid)" | (rev) "r = Inr RevertedReceipt" | (err) x where "r = Inl x"
    by (metis sumE receipt_outcome.exhaust)
  then show ?thesis
  proof cases
    case ok
    then show ?thesis using assms r e ps c by (intro exI [of _ ps]) (auto simp: await_receipt_def)
  next
    case rev
    then show ?thesis using assms r e ps c by (intro exI [of _ ps]) (auto simp: await_receipt_def)
  next
    case err
    then show ?thesis using assms r e ps by (intro exI [of _ ps]) (auto simp: await_receipt_def)
  qed
qed

lemma submit_attempt:
  fixes st :: "('s, 'w, 'q) worker"
  assumes sub: "worker_submit X R H C task st = (out, st')" and l: "ledger_ok R (w_redis st)" and out: "out \<noteq> NoncePoolUnavailable"
  shows "\<exists>ps nonce. did H (w_net st) ps (w_net st') \<and> ledger_ok R (w_redis st')
    \<and> nonce_given H C (w_nonce st) ps nonce \<and> length (sends ps) \<le> 1
    \<and> (\<forall>p \<in> set (sends ps). signed_write X H C task nonce p)
    \<and> w_nonce st' = (case out of Confirmed _ _ \<Rightarrow> Some (saturating_add nonce 1) | _ \<Rightarrow> None)
    \<and> attempt_kept H nonce out ps (ledger R (w_redis st)) (ledger R (w_redis st'))"
proof -
  obtain a st1 where a: "acquire H C st = (a, st1)" by fastforce
  obtain nonce where n: "a = Inr nonce" using sub out a by (cases a) (auto simp: worker_submit_def)
  obtain ps1 where p1: "did H (w_net st) ps1 (w_net st1)" "sends ps1 = []" "w_redis st1 = w_redis st"
    "nonce_given H C (w_nonce st) ps1 nonce" "w_nonce st1 = Some (saturating_add nonce 1)"
    using acquire_cases [OF a] n by auto
  have given: "nonce_given H C (w_nonce st) (ps1 @ qs) nonce" for qs
    by (rule nonce_given_append [OF p1(4)])
  obtain b st2 where b: "on_chain (chain_register X H C task nonce) st1 = (b, st2)" by fastforce
  note e2 = on_chain_eq [OF b]
  obtain ps2 where p2: "did H (w_net st1) ps2 (w_net st2)" "length (sends ps2) \<le> 1"
    "\<forall>p \<in> set (sends ps2). signed_write X H C task nonce p" "\<forall>x. b = Inr x \<longrightarrow> length (sends ps2) = 1"
    using register_sending [unfolded sending_def, rule_format, of X C task nonce "w_net st1" b "w_net st2"] e2 by blast
  have d12: "did H (w_net st) (ps1 @ ps2) (w_net st2)" by (rule did_trans [OF p1(1) p2(1)])
  show ?thesis
  proof (cases b)
    case (Inl x)
    then have "out = SendFailed x" "st' = release st2" using sub a n b by (simp_all add: worker_submit_def)
    then show ?thesis using d12 given [of ps2] p1 p2 e2 l
      by (intro exI [of _ "ps1 @ ps2"] exI [of _ nonce]) (simp add: attempt_kept_def)
  next
    case (Inr br)
    define st3 where "st3 = record_pending R H nonce (bc_hash br) (bc_fees_wei br) st2"
    obtain now w where now: "h_now_ms H (n_world (w_net st2)) = (now, w)" by fastforce
    have st3: "w_redis st3 = snd (record_pending_tx R ''register'' nonce (bc_hash br) now 0 (bc_fees_wei br) (w_redis st))"
      "w_net st3 = (w_net st2)\<lparr>n_world := snd (h_now_ms H (n_world (w_net st2)))\<rparr>" "w_nonce st3 = Some (saturating_add nonce 1)"
      using now e2 p1(3,5) by (simp_all add: st3_def record_pending_def ledger_name_def)
    note rec = record_ledger_any [OF l, of nonce "bc_hash br" now 0 "bc_fees_wei br", folded st3(1)]
    have d3: "did H (w_net st) (ps1 @ ps2) (w_net st3)"
      using did_trans [OF d12 did_now] by (simp add: st3(2))
    have aw: "await_receipt R H nonce (bc_hash br) st3 = (out, st')"
      using sub a n b Inr by (simp add: worker_submit_def st3_def)
    obtain ps3 where p3: "did H (w_net st3) ps3 (w_net st')" "sends ps3 = []" "ledger_ok R (w_redis st')"
      and res: "let same = (\<lambda>s. ledger R s \<in> {ledger R (w_redis st3), (ledger R (w_redis st3))((''register'', nonce) := None)});
           receipt = (\<lambda>r. \<exists>v. answered ps3 ''eth_getTransactionReceipt'' (JArray [JString (bc_hash br)]) v \<and> v \<noteq> JNull \<and> receipt_of v = Inr r)
       in case out of
            Confirmed h' oid \<Rightarrow> h' = bc_hash br \<and> receipt (Success oid) \<and> w_nonce st' = w_nonce st3 \<and> same (w_redis st')
          | tx_outcome.Reverted h' \<Rightarrow> h' = bc_hash br \<and> receipt RevertedReceipt \<and> w_nonce st' = None \<and> same (w_redis st')
          | ReceiptUncertain e \<Rightarrow> w_nonce st' = None \<and> w_redis st' = w_redis st3
          | _ \<Rightarrow> False"
      using await_cases [OF aw] rec by blast
    let ?ps = "ps1 @ ps2 @ ps3"
    have d: "did H (w_net st) ?ps (w_net st')" using did_trans [OF d3 p3(1)] by simp
    have one: "length (sends ?ps) = 1" "sends ?ps = sends ps2" using p1(2) p2(4) p3(2) Inr by simp_all
    have ans: "answered ps3 m q v \<Longrightarrow> answered ?ps m q v" for m q v
      using answered_append [of "ps1 @ ps2" m q v ps3] by simp
    have "w_nonce st' = (case out of Confirmed _ _ \<Rightarrow> Some (saturating_add nonce 1) | _ \<Rightarrow> None)"
      using res st3(3) by (cases out) (simp_all add: Let_def)
    moreover have "attempt_kept H nonce out ?ps (ledger R (w_redis st)) (ledger R (w_redis st'))"
    proof -
      have recd: "ledger R (w_redis st3) = ledger R (w_redis st)
          \<or> (\<exists>sent fees. ledger R (w_redis st3) = (ledger R (w_redis st))((''register'', nonce) \<mapsto> ledger_entry nonce (bc_hash br) sent 0 fees))"
        using rec by blast
      show ?thesis
        using res recd one(1) ans unfolding attempt_kept_def Let_def by (cases out) (simp; blast)+
    qed
    ultimately show ?thesis
      using d p3(3) given [of "ps2 @ ps3"] p2(3) one by (intro exI [of _ ?ps] exI [of _ nonce]) simp
  qed
qed

lemma submit_unavailable:
  fixes st :: "('s, 'w, 'q) worker"
  assumes "worker_submit X R H C task st = (NoncePoolUnavailable, st')"
  shows "\<exists>ps. did H (w_net st) ps (w_net st') \<and> sends ps = [] \<and> w_redis st' = w_redis st \<and> w_nonce st = None \<and> w_nonce st' = None"
proof -
  obtain a st1 where a: "acquire H C st = (a, st1)" by fastforce
  have nw: "fst (await_receipt R H n h s) \<noteq> NoncePoolUnavailable" for n h and s :: "('s, 'w, 'q) worker"
    by (simp add: await_receipt_def split: prod.split sum.split receipt_outcome.split)
  show ?thesis
  proof (cases a)
    case (Inl e)
    then show ?thesis using acquire_cases [OF a] assms a by (auto simp: worker_submit_def)
  next
    case (Inr n)
    obtain b st2 where b: "on_chain (chain_register X H C task n) st1 = (b, st2)" by fastforce
    show ?thesis using assms a Inr b nw by (cases b) (auto simp: worker_submit_def, metis fst_conv)
  qed
qed

end

interpretation ref_worker_laws: worker_laws ref_services ref_externs ref_host sample_signer
  by unfold_locales

text \<open>C9: One write attempt keeps the nonce and ledger rules, whatever the nodes answer and whichever
  Redis commands are lost.  Without a nonce nothing is broadcast or recorded.  Otherwise the nonce
  is the cached one or the pending count a node answered; at most one transaction is broadcast,
  the task's write signed at that nonce; the cache moves to the next nonce exactly when a
  successful receipt was answered and is dropped on every other outcome; no ledger row but that
  nonce's changes, it is only removed after a definite receipt, and it is untouched when nothing
  was sent.\<close>

theorem submit_nonce_and_ledger:
  assumes "services_ok R" "host_ok H" "ledger_ok R (w_redis st)" "worker_submit X R H C task st = (out, st')"
  shows "\<exists>ps. posted H (w_net st') = posted H (w_net st) @ ps \<and> ledger_ok R (w_redis st') \<and> length (sends ps) \<le> 1 \<and>
    (if out = NoncePoolUnavailable
     then sends ps = [] \<and> w_redis st' = w_redis st \<and> w_nonce st = None \<and> w_nonce st' = None
     else \<exists>nonce. nonce_given H C (w_nonce st) ps nonce
       \<and> (\<forall>p \<in> set (sends ps). signed_write X H C task nonce p)
       \<and> w_nonce st' = (case out of Confirmed _ _ \<Rightarrow> Some (saturating_add nonce 1) | _ \<Rightarrow> None)
       \<and> attempt_kept H nonce out ps (ledger R (w_redis st)) (ledger R (w_redis st')))"
proof -
  have laws: "worker_laws R H"
    by (intro worker_laws.intro worker_shell.intro redis_laws_of host_laws.intro assms)
  show ?thesis
  proof (cases "out = NoncePoolUnavailable")
    case True
    obtain ps where "did H (w_net st) ps (w_net st')" "sends ps = []" "w_redis st' = w_redis st" "w_nonce st = None" "w_nonce st' = None"
      using worker_laws.submit_unavailable [OF laws assms(4) [unfolded True]] by blast
    then show ?thesis using assms(3) True by (intro exI [of _ ps]) (simp add: did_def)
  next
    case False
    then show ?thesis using worker_laws.submit_attempt [OF laws assms(4,3) False] unfolding did_def by auto
  qed
qed

text \<open>An attempt of the sample task at the cached nonce seven, broadcast and never answered by a receipt.\<close>

definition attempt_worker :: "(ref_state, ref_world, unit) worker" where
  "attempt_worker =
     \<lparr>w_redis = empty_redis, w_net = sample_net sample_replies, w_nonce = Some 7, w_queue = (), w_failures = 0, w_pulse = 0\<rparr>"

lemma unanswered_call:
  assumes "ready s []"
  shows "\<exists>s'. call ref_host m q s = (Inl Unavailable, s')"
proof -
  obtain s1 where s1: "select_on ref_host Read s = (Some ''r'', s1)" "ready s1 []" using ready_select(2) [OF assms] by blast
  have "\<exists>s2. call_on ref_host ''r'' m q s1 = (Inl Unavailable, s2)"
    using s1(2) by (simp add: call_on_def ref_host_def ready_def Let_def)
  then obtain s2 where s2: "call_on ref_host ''r'' m q s1 = (Inl Unavailable, s2)" by blast
  have "read_attempts (n_roster s) = Suc 0" using assms by (simp add: ready_def read_attempts_def MAX_READ_ATTEMPTS_def)
  then show ?thesis using s1 s2 by (simp add: call_def)
qed

lemma unanswered_receipt:
  assumes "ready s []"
  shows "\<exists>s'. wait_for_receipt ref_host h RECEIPT_TIMEOUT s = (Inl Unavailable, s')"
proof -
  have inst: "h_instant ref_host w = (rw_time w, w)" for w by (simp add: ref_host_def)
  obtain s' where c: "call ref_host ''eth_getTransactionReceipt'' (JArray [JString h]) s = (Inl Unavailable, s')"
    using unanswered_call [OF assms] by blast
  have fuel: "RECEIPT_TIMEOUT div RECEIPT_POLL + 2 = Suc 31" by (simp add: RECEIPT_POLL_def RECEIPT_TIMEOUT_def SECOND_def)
  have "0 < RECEIPT_TIMEOUT" by (simp add: RECEIPT_TIMEOUT_def SECOND_def)
  then have "wait_for_receipt ref_host h RECEIPT_TIMEOUT s = (Inl Unavailable, s')"
    unfolding wait_for_receipt_def fuel receipt_loop.simps using c by (simp add: inst Let_def)
  then show ?thesis by blast
qed

theorem submit_nonce_and_ledger_witness:
  "\<exists>st'. worker_submit ref_externs ref_services ref_host sample_signer sample_refer attempt_worker = (ReceiptUncertain Unavailable, st')
     \<and> length (sends (posted ref_host (w_net st'))) = 1 \<and> w_nonce st' = None
     \<and> (\<forall>k. k \<noteq> (''register'', 7) \<longrightarrow> ledger ref_services (w_redis st') k = None)"
proof -
  obtain data where data: "write_calldata ref_externs sample_refer = Inr data" using sample_refer_calldata by blast
  have "ready (sample_net sample_replies) sample_replies" by (simp add: ready_def sample_net_def roster_new_def)
  then obtain b n1 where reg: "chain_register ref_externs ref_host sample_signer sample_refer 7 (sample_net sample_replies) = (Inr b, n1)"
    "ready n1 []"
    using ready_send [of "sample_net sample_replies" ref_externs RegisterWallet "ch_registry_address sample_signer" data 7] data
    by (auto simp: chain_register_def bind_op_def lift_op_def)
  let ?st = "attempt_worker\<lparr>w_nonce := Some 8, w_net := n1\<rparr>"
  let ?st1 = "record_pending ref_services ref_host 7 (bc_hash b) (bc_fees_wei b) ?st"
  have n1: "w_net ?st1 = n1" by (simp add: record_pending_def ref_host_def)
  obtain n2 where wait: "wait_for_receipt ref_host (bc_hash b) RECEIPT_TIMEOUT n1 = (Inl Unavailable, n2)"
    using unanswered_receipt [OF reg(2)] by blast
  have aq: "acquire ref_host sample_signer attempt_worker = (Inr 7, attempt_worker\<lparr>w_nonce := Some 8\<rparr>)"
    by (simp add: acquire_def attempt_worker_def saturating_add_def)
  have oc: "on_chain (chain_register ref_externs ref_host sample_signer sample_refer 7) (attempt_worker\<lparr>w_nonce := Some 8\<rparr>) = (Inr b, ?st)"
    using reg(1) by (simp add: on_chain_def attempt_worker_def)
  have "on_chain (wait_for_receipt ref_host (bc_hash b) RECEIPT_TIMEOUT) ?st1 = (Inl Unavailable, ?st1\<lparr>w_net := n2\<rparr>)"
    using wait n1 by (simp add: on_chain_def)
  then have run: "worker_submit ref_externs ref_services ref_host sample_signer sample_refer attempt_worker
      = (ReceiptUncertain Unavailable, release (?st1\<lparr>w_net := n2\<rparr>))"
    by (simp add: worker_submit_def aq oc await_receipt_def)
  have l: "ledger_ok ref_services (w_redis attempt_worker)" "ledger ref_services (w_redis attempt_worker) = Map.empty"
    using empty_ledger by (simp_all add: attempt_worker_def)
  have p: "posted ref_host (w_net attempt_worker) = []" by (simp add: posted_def sample_net_def ref_host_def attempt_worker_def)
  have "w_nonce attempt_worker = Some 7" by (simp add: attempt_worker_def)
  then show ?thesis
    using submit_nonce_and_ledger [OF ref_services_ok ref_host_ok l(1) run] p run unfolding l(2)
    by (fastforce simp: attempt_kept_def nonce_given_def Let_def)
qed

end
