(* ===== verification/Maintenance.thy ===== *)
theory Maintenance
  imports Worker_Properties Rescue
begin

text \<open>
  The unstick sweep of \<^verbatim>\<open>p256-index-server/src/maintenance.rs\<close>: it lists the broadcasts older than
  two minutes, reads the base fee and the confirmed nonce, and executes the plan of \<^verbatim>\<open>rescue.rs\<close>
  against the ledger, the chain and the throttled operator alerts.  The state is Redis, the
  network, the time of the last alert of each kind, and the alerts raised so far, to Telegram or to
  the log.  The runway alert and the heartbeat compute with floating point and are not modelled.
\<close>

datatype alert_kind = StuckAlert | GasCapped | RpcAlert | DlqAlert | LowRunway

record ('s, 'w) maintenance =
  mt_redis :: 's
  mt_net :: "'w net"
  mt_last_alert :: "alert_kind \<Rightarrow> nat option"
  mt_alerts :: "(alert_kind \<times> string) list"

definition store_do :: "('s, 'a) op \<Rightarrow> (('s, 'w) maintenance, string, 'a) act" where
  "store_do m st = (let (r, s) = m (mt_redis st) in (r, st\<lparr>mt_redis := s\<rparr>))"

definition chain_do :: "('w, 'a) chain_op \<Rightarrow> (('s, 'w) maintenance, chain_error, 'a) act" where
  "chain_do m st = (let (r, n) = m (mt_net st) in (r, st\<lparr>mt_net := n\<rparr>))"

definition read_instant :: "'w host \<Rightarrow> ('s, 'w) maintenance \<Rightarrow> nat \<times> ('s, 'w) maintenance" where
  "read_instant H st =
     (let n = mt_net st; (now, w) = h_instant H (n_world n) in (now, st\<lparr>mt_net := n\<lparr>n_world := w\<rparr>\<rparr>))"

section \<open>Throttled alerts\<close>

definition alert_throttled ::
  "'w host \<Rightarrow> alert_kind \<Rightarrow> string \<Rightarrow> ('s, 'w) maintenance \<Rightarrow> ('s, 'w) maintenance" where
  "alert_throttled H kind message st =
     (let (throttled, st) =
        (case mt_last_alert st kind of
           None \<Rightarrow> (False, st)
         | Some at \<Rightarrow> (let (now, st) = read_instant H st in (now - at < unat ALERT_THROTTLE_MS * 1000000, st)))
      in if throttled then st
         else
           (let (now, st) = read_instant H st
            in st\<lparr>mt_last_alert := (mt_last_alert st)(kind \<mapsto> now), mt_alerts := mt_alerts st @ [(kind, message)]\<rparr>))"

section \<open>The sweep\<close>

definition rescue_row :: "pending_tx \<Rightarrow> ledger_row" where
  "rescue_row row =
     \<lparr>lr_role = px_role row, lr_nonce = px_nonce row, lr_hash = px_hash row, lr_sent_at_ms = px_sent_at_ms row,
      lr_attempts = px_attempts row,
      lr_fees_wei = (case (px_max_fee_wei row, px_max_priority_fee_wei row) of
                       (Some max_fee, Some priority) \<Rightarrow> Some (max_fee, priority) | _ \<Rightarrow> None)\<rparr>"

definition gas_capped_alert :: "string \<Rightarrow> u64 \<Rightarrow> u256 \<Rightarrow> u256 \<Rightarrow> string" where
  "gas_capped_alert role nonce required cap =
     [CHR 0xF0, CHR 0x9F, CHR 0x9B, CHR 0x91]
     @ '' [webauthnp256-publickey-index] stuck '' @ role @ '' nonce '' @ decimal (unat nonce) @ '' needs ''
     @ decimal (unat required) @ '' wei to replace, above the '' @ decimal (unat cap)
     @ '' wei cap. Raise P256_INDEX_MAX_GAS_PRICE_WEI or intervene manually.''"

definition previous_plan :: "(u128 \<times> u128) option \<Rightarrow> fee_plan option" where
  "previous_plan previous_fees =
     map_option (\<lambda>(max_fee, priority). \<lparr>max_fee_per_gas = ucast max_fee, max_priority_fee_per_gas = ucast priority\<rparr>) previous_fees"

definition original_identity :: "string \<Rightarrow> u64 \<Rightarrow> ledger_row list \<Rightarrow> u64 \<Rightarrow> string \<times> u64" where
  "original_identity role nonce stuck_rows now =
     (case find (\<lambda>row. lr_role row = role \<and> lr_nonce row = nonce) stuck_rows of
        Some row \<Rightarrow> (lr_hash row, lr_sent_at_ms row)
      | None \<Rightarrow> ([], now))"

definition replace_stuck ::
  "externs \<Rightarrow> 's services \<Rightarrow> 'w host \<Rightarrow> chain \<Rightarrow> wallet_role \<Rightarrow> u256 \<Rightarrow> ledger_row list \<Rightarrow> u64
     \<Rightarrow> u64 \<Rightarrow> u32 \<Rightarrow> (u128 \<times> u128) option \<Rightarrow> ('s, 'w) maintenance \<Rightarrow> ('s, 'w) maintenance" where
  "replace_stuck X R H C role base stuck_rows now nonce attempts_after previous_fees st =
     (case plan_replacement (previous_plan previous_fees) base (ucast DEFAULT_TIP_WEI) (ch_max_gas_price_wei C)
             (saturating_sub attempts_after 1) of
        TooExpensive required cap \<Rightarrow>
          alert_throttled H GasCapped (gas_capped_alert (ledger_name role) nonce required cap) st
      | Send fees \<Rightarrow>
          (let bid = fees_wei fees;
               (row_hash, sent_at) = original_identity (ledger_name role) nonce stuck_rows now
           in case chain_do (cancel_stuck_nonce X H C role nonce fees) st of
                (Inr cancel_hash, st) \<Rightarrow>
                  snd (store_do (record_pending_tx R (ledger_name role) nonce cancel_hash now attempts_after bid) st)
              | (Inl e, st) \<Rightarrow>
                  if is_replacement_underpriced e
                  then snd (store_do (record_pending_tx R (ledger_name role) nonce row_hash sent_at attempts_after bid) st)
                  else st))"

definition execute_action ::
  "externs \<Rightarrow> 's services \<Rightarrow> 'w host \<Rightarrow> chain \<Rightarrow> wallet_role \<Rightarrow> u256 \<Rightarrow> ledger_row list \<Rightarrow> u64
     \<Rightarrow> rescue_action \<Rightarrow> ('s, 'w) maintenance \<Rightarrow> ('s, 'w) maintenance" where
  "execute_action X R H C role base stuck_rows now action st =
     (case action of
        DropConsumedRow nonce \<Rightarrow> snd (store_do (delete_pending_tx R (ledger_name role) nonce) st)
      | Escalate message \<Rightarrow> alert_throttled H StuckAlert message st
      | Replace nonce attempts_after previous_fees \<Rightarrow>
          replace_stuck X R H C role base stuck_rows now nonce attempts_after previous_fees st)"

definition sweep_role ::
  "externs \<Rightarrow> 's services \<Rightarrow> 'w host \<Rightarrow> chain \<Rightarrow> u256 \<Rightarrow> ledger_row list \<Rightarrow> u64
     \<Rightarrow> wallet_role \<Rightarrow> ('s, 'w) maintenance \<Rightarrow> ('s, 'w) maintenance" where
  "sweep_role X R H C base stuck_rows now role st =
     (case chain_do (confirmed_nonce H C role) st of
        (Inl _, st) \<Rightarrow> st
      | (Inr confirmed, st) \<Rightarrow>
          fold (execute_action X R H C role base stuck_rows now) (plan_role_sweep (ledger_name role) confirmed stuck_rows now) st)"

definition unstick_sweep ::
  "externs \<Rightarrow> 's services \<Rightarrow> 'w host \<Rightarrow> chain \<Rightarrow> ('s, 'w) maintenance \<Rightarrow> ('s, 'w) maintenance" where
  "unstick_sweep X R H C st =
     (let n = mt_net st;
          (now, w) = h_now_ms H (n_world n);
          st = st\<lparr>mt_net := n\<lparr>n_world := w\<rparr>\<rparr>;
          sent_before = saturating_sub now STUCK_TX_AGE_MS
      in case store_do (list_pending_txs R sent_before) st of
           (Inl _, st) \<Rightarrow> st
         | (Inr rows, st) \<Rightarrow>
             (let stuck_rows = map rescue_row rows
              in if stuck_rows = [] then st
                 else
                   (case chain_do (base_fee H) st of
                      (Inl _, st) \<Rightarrow> st
                    | (Inr base, st) \<Rightarrow> fold (sweep_role X R H C base stuck_rows now) [RegisterWallet] st)))"

section \<open>Alerts that need no floating point\<close>

definition rpc_circuit_alert :: string where
  "rpc_circuit_alert =
     [CHR 0xE2, CHR 0x9A, CHR 0xA0, CHR 0xEF, CHR 0xB8, CHR 0x8F]
     @ '' [webauthnp256-publickey-index] all chain RPC read endpoints are in cooldown (circuit open) ''
     @ [CHR 0xE2, CHR 0x80, CHR 0x94] @ '' queries may be served stale.''"

text \<open>The first two checks of \<^verbatim>\<open>check_alerts\<close>: the RPC circuit and the dead-letter count.\<close>

definition check_queue_alerts ::
  "'s services \<Rightarrow> 'w host \<Rightarrow> ('s, 'w) maintenance \<Rightarrow> ('s, 'w) maintenance" where
  "check_queue_alerts R H st =
     (let (circuit, n) = rpc_circuit_state H (mt_net st);
          st = st\<lparr>mt_net := n\<rparr>;
          st = (if circuit = ''open'' then alert_throttled H RpcAlert rpc_circuit_alert st else st);
          n = mt_net st;
          (now, w) = h_now_ms H (n_world n);
          (stats, st) = store_do (queue_stats_op R now) (st\<lparr>mt_net := n\<lparr>n_world := w\<rparr>\<rparr>)
      in case stats of
           Inl _ \<Rightarrow> st
         | Inr s \<Rightarrow>
             if DLQ_ALERT_THRESHOLD \<le> qs_dlq_count s
             then alert_throttled H DlqAlert (dlq_alert (qs_dlq_count s)) st
             else st)"

section \<open>What a sweep does\<close>

text \<open>A post that broadcasts a zero-value self-transfer at this nonce and price.\<close>

definition cancel_post ::
  "externs \<Rightarrow> 'w host \<Rightarrow> chain \<Rightarrow> u64 \<Rightarrow> fee_plan \<Rightarrow> string \<times> json \<times> http_reply \<Rightarrow> bool" where
  "cancel_post X H C nonce fees p =
     (\<exists>key max_fee priority signed.
        ch_signer_key C = Some key
        \<and> try_narrow (max_fee_per_gas fees) = Some max_fee \<and> try_narrow (max_priority_fee_per_gas fees) = Some priority
        \<and> sign_transaction H key
            \<lparr>tx_chain_id = CHAIN_ID, tx_nonce = nonce, tx_gas_limit = 21000, tx_max_fee_per_gas = max_fee,
             tx_max_priority_fee_per_gas = priority, tx_to = key_address H key, tx_value = 0, tx_input = []\<rparr> = Some signed
        \<and> request_of p = rpc_request ''eth_sendRawTransaction'' (JArray [hex_0x X signed]))"

text \<open>The price of a replacement.\<close>

definition replacement_price :: "chain \<Rightarrow> u256 \<Rightarrow> u32 \<Rightarrow> (u128 \<times> u128) option \<Rightarrow> fee_plan \<Rightarrow> bool" where
  "replacement_price C base attempts previous fees =
     (plan_replacement (previous_plan previous) base (ucast DEFAULT_TIP_WEI) (ch_max_gas_price_wei C)
        (saturating_sub attempts 1) = Send fees)"

text \<open>What an action may leave in its ledger row.\<close>

definition row_moved :: "chain \<Rightarrow> u256 \<Rightarrow> rescue_action \<Rightarrow> string \<times> u64 \<Rightarrow> pending_tx option \<Rightarrow> bool" where
  "row_moved C base action k row =
     (case action of
        DropConsumedRow n \<Rightarrow> k = (''register'', n) \<and> row = None
      | Escalate _ \<Rightarrow> False
      | Replace n attempts previous \<Rightarrow>
          k = (''register'', n)
          \<and> (\<exists>h sent fees. replacement_price C base attempts previous fees
               \<and> row = Some (ledger_entry n h sent attempts (fees_wei fees))))"

text \<open>A post that replaces a nonce as one of the actions asks.\<close>

definition cancels ::
  "externs \<Rightarrow> 'w host \<Rightarrow> chain \<Rightarrow> u256 \<Rightarrow> rescue_action list \<Rightarrow> string \<times> json \<times> http_reply \<Rightarrow> bool" where
  "cancels X H C base actions p =
     (\<exists>n attempts previous fees. Replace n attempts previous \<in> set actions
        \<and> replacement_price C base attempts previous fees \<and> cancel_post X H C n fees p)"

lemma cancels_mono: "cancels X H C base as p \<Longrightarrow> set as \<subseteq> set bs \<Longrightarrow> cancels X H C base bs p"
  unfolding cancels_def by blast

definition actions_done ::
  "externs \<Rightarrow> 's services \<Rightarrow> 'w host \<Rightarrow> chain \<Rightarrow> u256 \<Rightarrow> rescue_action list
     \<Rightarrow> ('s, 'w) maintenance \<Rightarrow> ('s, 'w) maintenance \<Rightarrow> bool" where
  "actions_done X R H C base actions st st' =
     (\<exists>ps. did H (mt_net st) ps (mt_net st') \<and> ledger_ok R (mt_redis st')
        \<and> length (sends ps) \<le> length (replacements actions)
        \<and> (\<forall>p \<in> set (sends ps). cancels X H C base actions p)
        \<and> (\<forall>k. ledger R (mt_redis st') k = ledger R (mt_redis st) k
             \<or> (\<exists>a \<in> set actions. row_moved C base a k (ledger R (mt_redis st') k))))"

lemma store_do_simps [simp]:
  "mt_redis (snd (store_do m st)) = snd (m (mt_redis st))" "mt_net (snd (store_do m st)) = mt_net st"
  by (simp_all add: store_do_def split_def Let_def)

lemma chain_do_eq:
  "chain_do f st = (r, st') \<Longrightarrow> mt_redis st' = mt_redis st \<and> f (mt_net st) = (r, mt_net st')"
  by (auto simp: chain_do_def split_def Let_def)

context worker_laws
begin

lemma instant_did: "read_instant H st = (now, st') \<Longrightarrow> did H (mt_net st) [] (mt_net st') \<and> mt_redis st' = mt_redis st"
  using did_instant [of "mt_net st"] by (auto simp: read_instant_def Let_def split_def)

lemma alert_did:
  fixes st :: "('s, 'w) maintenance"
  shows "did H (mt_net st) [] (mt_net (alert_throttled H kind m st)) \<and> mt_redis (alert_throttled H kind m st) = mt_redis st"
proof -
  have two: "did H (mt_net st) [] (mt_net b) \<and> mt_redis b = mt_redis st"
    if "did H (mt_net st) [] (mt_net a) \<and> mt_redis a = mt_redis st" "read_instant H a = (now, b)" for now and a b :: "('s, 'w) maintenance"
    using that instant_did [OF that(2)] did_trans [of "mt_net st" "[]" "mt_net a" "[]" "mt_net b"] by simp
  obtain now1 st1 where i1: "read_instant H st = (now1, st1)" by fastforce
  obtain now2 st2 where i2: "read_instant H st1 = (now2, st2)" by fastforce
  have d1: "did H (mt_net st) [] (mt_net st1) \<and> mt_redis st1 = mt_redis st" by (rule instant_did [OF i1])
  have d2: "did H (mt_net st) [] (mt_net st2) \<and> mt_redis st2 = mt_redis st" by (rule two [OF d1 i2])
  show ?thesis using d1 d2 i1 i2 by (simp add: alert_throttled_def Let_def split: option.split)
qed

lemma cancel_sending:
  "sending H (cancel_stuck_nonce X H C role nonce fees) (\<lambda>ps r.
     length (sends ps) \<le> 1 \<and> (\<forall>p \<in> set (sends ps). cancel_post X H C nonce fees p))"
  unfolding sending_def
proof (intro allI impI)
  fix s r s' assume run: "cancel_stuck_nonce X H C role nonce fees s = (r, s')"
  show "\<exists>ps. did H s ps s' \<and> length (sends ps) \<le> 1 \<and> (\<forall>p \<in> set (sends ps). cancel_post X H C nonce fees p)"
  proof (cases "ch_signer_key C")
    case None
    then show ?thesis using run did_refl
      by (intro exI [of _ "[]"]) (auto simp: cancel_stuck_nonce_def wallet_address_def wallet_key_def ok_or_def bind_res_def bind_op_def lift_op_def)
  next
    case (Some key)
    let ?tr = "\<lparr>tr_to = key_address H key, tr_data = [], tr_value = 0, tr_nonce = nonce, tr_gas_limit = 21000, tr_fees = fees\<rparr>"
    obtain u s1 where u: "write_node H s = (u, s1)" by fastforce
    note d1 = did_write_node(1) [OF u]
    have eq: "(case u of Inl e \<Rightarrow> (Inl e, s1) | Inr url \<Rightarrow> send_transaction_on X H url key ?tr s1) = (r, s')"
      using run Some u
      by (auto simp: cancel_stuck_nonce_def send_transaction_def wallet_address_def wallet_key_def ok_or_def bind_res_def bind_op_def
          lift_op_def split: sum.splits)
    show ?thesis
    proof (cases u)
      case (Inl e)
      then show ?thesis using eq d1 by (intro exI [of _ "[]"]) auto
    next
      case (Inr url)
      then have send: "send_transaction_on X H url key ?tr s1 = (r, s')" using eq by simp
      consider "s' = s1" | signed reply max_fee priority where
         "try_narrow (max_fee_per_gas fees) = Some max_fee" "try_narrow (max_priority_fee_per_gas fees) = Some priority"
         "sign_transaction H key
           \<lparr>tx_chain_id = CHAIN_ID, tx_nonce = nonce, tx_gas_limit = 21000, tx_max_fee_per_gas = max_fee,
            tx_max_priority_fee_per_gas = priority, tx_to = key_address H key, tx_value = 0, tx_input = []\<rparr> = Some signed"
         "did H s1 [(url, rpc_request ''eth_sendRawTransaction'' (JArray [hex_0x X signed]), reply)] s'"
        using did_send_on [OF send] unfolding transaction.simps by blast
      then show ?thesis
      proof cases
        case 1
        then show ?thesis using d1 by (intro exI [of _ "[]"]) auto
      next
        case (2 signed reply max_fee priority)
        let ?p = "(url, rpc_request ''eth_sendRawTransaction'' (JArray [hex_0x X signed]), reply)"
        have "cancel_post X H C nonce fees ?p" unfolding cancel_post_def using Some 2 by (auto simp: request_of_def)
        moreover have "did H s [?p] s'" using did_trans [OF d1 2(4)] by simp
        moreover have "sends [?p] = [?p]" by (simp add: sends_def is_send_def request_of_def rpc_request_def)
        ultimately show ?thesis by (intro exI [of _ "[?p]"]) simp
      qed
    qed
  qed
qed

lemma done_one:
  assumes "did H (mt_net st) ps (mt_net st')" "ledger_ok R (mt_redis st')" "length (sends ps) \<le> length (replacements [a])"
    "\<forall>p \<in> set (sends ps). cancels X H C base [a] p"
    "\<forall>k. ledger R (mt_redis st') k = ledger R (mt_redis st) k \<or> row_moved C base a k (ledger R (mt_redis st') k)"
  shows "actions_done X R H C base [a] st st'"
  unfolding actions_done_def by (rule exI [of _ ps]) (use assms in simp)

lemma row_updated:
  assumes "l \<in> {l0, l0(key := v)}" "row_moved C base a key v"
  shows "l k = l0 k \<or> row_moved C base a k (l k)"
  using assms by (cases "k = key") auto

lemma replace_done:
  fixes st :: "('s, 'w) maintenance"
  assumes l: "ledger_ok R (mt_redis st)"
  shows "actions_done X R H C base [Replace n attempts previous] st
    (replace_stuck X R H C RegisterWallet base rows now n attempts previous st)"
proof (cases "plan_replacement (previous_plan previous) base (ucast DEFAULT_TIP_WEI) (ch_max_gas_price_wei C) (saturating_sub attempts 1)")
  case (TooExpensive required cap)
  then show ?thesis using alert_did [of st GasCapped] l
    by (intro done_one [where ps = "[]"]) (auto simp: replace_stuck_def)
next
  case (Send fees)
  then have price: "replacement_price C base attempts previous fees" by (simp add: replacement_price_def)
  obtain r st1 where c: "chain_do (cancel_stuck_nonce X H C RegisterWallet n fees) st = (r, st1)" by fastforce
  note e = chain_do_eq [OF c]
  obtain ps where ps: "did H (mt_net st) ps (mt_net st1)" "length (sends ps) \<le> 1" "\<forall>p \<in> set (sends ps). cancel_post X H C n fees p"
    using cancel_sending [unfolded sending_def, rule_format, of RegisterWallet n fees "mt_net st" r "mt_net st1"] e by blast
  have rec: "ledger_ok R (snd (record_pending_tx R ''register'' n h sent attempts (fees_wei fees) (mt_redis st1)))
      \<and> (\<forall>k. ledger R (snd (record_pending_tx R ''register'' n h sent attempts (fees_wei fees) (mt_redis st1))) k = ledger R (mt_redis st) k
         \<or> row_moved C base (Replace n attempts previous) k
             (ledger R (snd (record_pending_tx R ''register'' n h sent attempts (fees_wei fees) (mt_redis st1))) k))" for h sent
  proof -
    have "row_moved C base (Replace n attempts previous) (''register'', n) (Some (ledger_entry n h sent attempts (fees_wei fees)))"
      using price unfolding row_moved_def by auto
    then show ?thesis
      using record_ledger_any [of "mt_redis st1" n h sent attempts "fees_wei fees"] l e row_updated by auto
  qed
  obtain h sent where oi: "original_identity ''register'' n rows now = (h, sent)" by fastforce
  have "replace_stuck X R H C RegisterWallet base rows now n attempts previous st =
     (case r of Inr ch \<Rightarrow> snd (store_do (record_pending_tx R ''register'' n ch now attempts (fees_wei fees)) st1)
      | Inl e \<Rightarrow> if is_replacement_underpriced e
          then snd (store_do (record_pending_tx R ''register'' n h sent attempts (fees_wei fees)) st1) else st1)"
    using Send c oi by (simp add: replace_stuck_def ledger_name_def split: sum.split)
  moreover have "\<forall>p \<in> set (sends ps). cancels X H C base [Replace n attempts previous] p"
    using ps(3) price unfolding cancels_def by auto
  ultimately show ?thesis
    using ps(1,2) rec l e by (intro done_one [where ps = ps]) (auto split: sum.split)
qed

lemma action_done:
  fixes st :: "('s, 'w) maintenance"
  assumes l: "ledger_ok R (mt_redis st)"
  shows "actions_done X R H C base [a] st (execute_action X R H C RegisterWallet base rows now a st)"
proof (cases a)
  case (DropConsumedRow n)
  have "row_moved C base a (''register'', n) None" using DropConsumedRow by (simp add: row_moved_def)
  then show ?thesis using delete_ledger_any [OF l, of n] did_refl DropConsumedRow row_updated
    by (intro done_one [where ps = "[]"]) (auto simp: execute_action_def ledger_name_def)
next
  case (Escalate m)
  then show ?thesis using alert_did [of st StuckAlert m] l
    by (intro done_one [where ps = "[]"]) (auto simp: execute_action_def)
next
  case (Replace n attempts previous)
  then show ?thesis using replace_done [OF l] by (simp add: execute_action_def)
qed

lemma done_append:
  assumes "actions_done X R H C base as st st1" "actions_done X R H C base bs st1 st2"
  shows "actions_done X R H C base (as @ bs) st st2"
proof -
  obtain ps where p: "did H (mt_net st) ps (mt_net st1)" "length (sends ps) \<le> length (replacements as)"
    "\<forall>p \<in> set (sends ps). cancels X H C base as p"
    "\<forall>k. ledger R (mt_redis st1) k = ledger R (mt_redis st) k \<or> (\<exists>a \<in> set as. row_moved C base a k (ledger R (mt_redis st1) k))"
    using assms(1) unfolding actions_done_def by blast
  obtain qs where q: "did H (mt_net st1) qs (mt_net st2)" "ledger_ok R (mt_redis st2)" "length (sends qs) \<le> length (replacements bs)"
    "\<forall>p \<in> set (sends qs). cancels X H C base bs p"
    "\<forall>k. ledger R (mt_redis st2) k = ledger R (mt_redis st1) k \<or> (\<exists>a \<in> set bs. row_moved C base a k (ledger R (mt_redis st2) k))"
    using assms(2) unfolding actions_done_def by blast
  show ?thesis
    unfolding actions_done_def
  proof (intro exI [of _ "ps @ qs"] conjI)
    show "did H (mt_net st) (ps @ qs) (mt_net st2)" by (rule did_trans [OF p(1) q(1)])
    show "\<forall>k. ledger R (mt_redis st2) k = ledger R (mt_redis st) k \<or> (\<exists>a \<in> set (as @ bs). row_moved C base a k (ledger R (mt_redis st2) k))"
    proof
      fix k
      show "ledger R (mt_redis st2) k = ledger R (mt_redis st) k \<or> (\<exists>a \<in> set (as @ bs). row_moved C base a k (ledger R (mt_redis st2) k))"
        using p(4) [rule_format, of k] q(5) [rule_format, of k] by auto
    qed
    show "\<forall>p \<in> set (sends (ps @ qs)). cancels X H C base (as @ bs) p"
      using p(3) q(4) cancels_mono [of X H C base as _ "as @ bs"] cancels_mono [of X H C base bs _ "as @ bs"] by auto
  qed (use p(2) q(2,3) in simp_all)
qed

lemma fold_done:
  fixes st :: "('s, 'w) maintenance"
  assumes "ledger_ok R (mt_redis st)"
  shows "actions_done X R H C base as st (fold (execute_action X R H C RegisterWallet base rows now) as st)"
  using assms
proof (induction as arbitrary: st)
  case Nil
  then show ?case using did_refl by (auto simp: actions_done_def intro!: exI [of _ "[]"])
next
  case (Cons a as)
  note one = action_done [OF Cons.prems, of base a rows now]
  have "ledger_ok R (mt_redis (execute_action X R H C RegisterWallet base rows now a st))"
    using one unfolding actions_done_def by blast
  then show ?case using done_append [OF one Cons.IH] by simp
qed

end

section \<open>The whole sweep\<close>

text \<open>A price under the cap that a node takes as a replacement of the row's broadcast.\<close>

definition outbids :: "chain \<Rightarrow> pending_tx \<Rightarrow> fee_plan \<Rightarrow> bool" where
  "outbids C row fees =
     (max_fee_per_gas fees \<le> ch_max_gas_price_wei C \<and> max_priority_fee_per_gas fees \<le> max_fee_per_gas fees
      \<and> (\<forall>f t. px_max_fee_wei row = Some f \<and> px_max_priority_fee_wei row = Some t \<longrightarrow>
           unat f < unat (max_fee_per_gas fees) \<and> 110 * unat f \<le> 100 * unat (max_fee_per_gas fees)
           \<and> unat t < unat (max_priority_fee_per_gas fees) \<and> 110 * unat t \<le> 100 * unat (max_priority_fee_per_gas fees)))"

lemma price_outbids:
  assumes "replacement_price C base attempts (lr_fees_wei (rescue_row row)) fees"
    and "0 < ch_max_gas_price_wei C" "unat (ch_max_gas_price_wei C) < 2 ^ 128"
  shows "outbids C row fees"
proof -
  have cap: "1 \<le> ch_max_gas_price_wei C" using assms(2) by (simp add: word_less_nat_alt word_le_nat_alt)
  note send = plan_replacement_Send [OF assms(1) [unfolded replacement_price_def] cap]
  have fee: "unat (max_fee_per_gas fees) < 2 ^ 128" using send(5) assms(3) by (simp add: word_le_nat_alt)
  have tip: "unat (max_priority_fee_per_gas fees) < 2 ^ 128" using send(4) fee by (simp add: word_le_nat_alt)
  have pos: "1 \<le> max_fee_per_gas fees" using send(3,4) by simp
  have "unat f < unat (max_fee_per_gas fees) \<and> 110 * unat f \<le> 100 * unat (max_fee_per_gas fees)
      \<and> unat t < unat (max_priority_fee_per_gas fees) \<and> 110 * unat t \<le> 100 * unat (max_priority_fee_per_gas fees)"
    if "px_max_fee_wei row = Some f" "px_max_priority_fee_wei row = Some t" for f t
  proof -
    have prev: "previous_bid (previous_plan (lr_fees_wei (rescue_row row))) base tip0 a =
        \<lparr>max_fee_per_gas = ucast f, max_priority_fee_per_gas = ucast t\<rparr>" for tip0 a
      using that by (simp add: rescue_row_def previous_plan_def previous_bid_def)
    have u: "unat (ucast f :: u256) = unat f" "unat (ucast t :: u256) = unat t"
      using unsigned_less [of f, where ?'a = nat] unsigned_less [of t, where ?'a = nat]
      by (simp_all add: unsigned_ucast_eq take_bit_nat_eq_self)
    show ?thesis
      using bid_floor_outbids [OF send(1) fee pos] bid_floor_outbids [OF send(2) tip send(3)]
      unfolding prev fee_plan.simps by (simp add: u word_less_nat_alt)
  qed
  then show ?thesis unfolding outbids_def using send(4,5) by blast
qed

lemma in_replacements: "Replace n a f \<in> set as \<longleftrightarrow> (n, a, f) \<in> set (replacements as)"
  by (induction as) (auto split: rescue_action.splits)

lemma in_drops: "DropConsumedRow n \<in> set as \<longleftrightarrow> n \<in> set (drops as)"
  by (induction as) (auto split: rescue_action.splits)

lemma plan_rows:
  fixes role confirmed rows now
  defines "plan \<equiv> plan_role_sweep role confirmed rows now"
  shows "length (replacements plan) \<le> 5"
    "Replace n a f \<in> set plan \<Longrightarrow> \<exists>row \<in> set rows. lr_role row = role \<and> lr_nonce row = n \<and> confirmed \<le> n
       \<and> a = lr_attempts row + 1 \<and> f = lr_fees_wei row"
    "DropConsumedRow n \<in> set plan \<Longrightarrow> \<exists>row \<in> set rows. lr_role row = role \<and> lr_nonce row = n \<and> n < confirmed"
proof -
  show "length (replacements plan) \<le> 5"
    by (simp add: plan_def plan_role_sweep_def sweep_replacements MAX_UNSTICK_PER_CYCLE_def)
  show "\<exists>row \<in> set rows. lr_role row = role \<and> lr_nonce row = n \<and> confirmed \<le> n \<and> a = lr_attempts row + 1 \<and> f = lr_fees_wei row"
    if "Replace n a f \<in> set plan"
    using that unfolding in_replacements plan_def plan_role_sweep_def sweep_replacements
    by (auto dest!: in_set_takeD simp: not_less)
  show "\<exists>row \<in> set rows. lr_role row = role \<and> lr_nonce row = n \<and> n < confirmed" if "DropConsumedRow n \<in> set plan"
    using that unfolding in_drops plan_def plan_role_sweep_def sweep_drops by auto
qed

lemma ledger_key: "ledger R s (role, n) = Some row \<Longrightarrow> px_role row = role \<and> px_nonce row = n"
  by (auto simp: ledger_def ledger_entry_row_def split: if_splits option.splits)

text \<open>The ledger row of a nonce, when it was broadcast more than two minutes before.\<close>

definition stale_row :: "'s services \<Rightarrow> 's \<Rightarrow> u64 \<Rightarrow> u64 \<Rightarrow> pending_tx \<Rightarrow> bool" where
  "stale_row R s now n row =
     (ledger R s (''register'', n) = Some row \<and> px_sent_at_ms row < saturating_sub now STUCK_TX_AGE_MS)"

text \<open>What a sweep with this base fee and confirmed nonce did.\<close>

definition swept ::
  "externs \<Rightarrow> 's services \<Rightarrow> 'w host \<Rightarrow> chain \<Rightarrow> u64 \<Rightarrow> u64 \<Rightarrow> (string \<times> json \<times> http_reply) list \<Rightarrow> 's \<Rightarrow> 's \<Rightarrow> bool" where
  "swept X R H C now confirmed ps s s' =
     (length (sends ps) \<le> 5
      \<and> (\<forall>p \<in> set (sends ps). \<exists>n row fees. stale_row R s now n row \<and> confirmed \<le> n
           \<and> outbids C row fees \<and> cancel_post X H C n fees p)
      \<and> (\<forall>k. ledger R s' k = ledger R s k
           \<or> (\<exists>n row. k = (''register'', n) \<and> stale_row R s now n row
                \<and> (n < confirmed \<and> ledger R s' k = None
                   \<or> confirmed \<le> n \<and> (\<exists>h sent fees. outbids C row fees
                        \<and> ledger R s' k = Some (ledger_entry n h sent (px_attempts row + 1) (fees_wei fees)))))))"

context worker_laws
begin

lemma list_any:
  assumes "ledger_ok R s"
  shows "ledger_ok R (snd (list_pending_txs R before s)) \<and> ledger R (snd (list_pending_txs R before s)) = ledger R s"
proof -
  have "snd (list_pending_txs R before s) = snd (r_next R s)"
    using query_read [of "\<lambda>s. r_hgetall R s broadcast_ledger_key" s]
    by (auto simp: list_pending_txs_def bind_op_def return_op_def split: prod.split sum.split)
  then show ?thesis using ledger_next [OF assms] by simp
qed

lemma reading_base_fee: "reading H (base_fee H) (\<lambda>ps base. \<exists>url. base_answered H url ps base)"
  unfolding base_fee_def
  by (rule reading_mono, rule reading_bind, rule reading_write_node, rule reading_base) auto

lemma swept_of_actions:
  fixes st st' :: "('s, 'w) maintenance"
  assumes acts: "actions_done X R H C base (plan_role_sweep ''register'' confirmed (map rescue_row rows) now) st st'"
    and rows: "set rows = {row \<in> ran (ledger R (mt_redis st)). px_sent_at_ms row < saturating_sub now STUCK_TX_AGE_MS}"
    and cap: "0 < ch_max_gas_price_wei C" "unat (ch_max_gas_price_wei C) < 2 ^ 128"
  shows "\<exists>ps. did H (mt_net st) ps (mt_net st') \<and> ledger_ok R (mt_redis st') \<and> swept X R H C now confirmed ps (mt_redis st) (mt_redis st')"
proof -
  let ?plan = "plan_role_sweep ''register'' confirmed (map rescue_row rows) now"
  have stale: "stale_row R (mt_redis st) now (px_nonce row) row" if "row \<in> set rows" "px_role row = ''register''" for row
  proof -
    have "row \<in> ran (ledger R (mt_redis st))" using that(1) unfolding rows by blast
    then obtain role n where "ledger R (mt_redis st) (role, n) = Some row" by (auto simp: ran_def)
    then show ?thesis using ledger_key [of R "mt_redis st" role n row] that rows by (simp add: stale_row_def)
  qed
  have rep: "\<exists>row. stale_row R (mt_redis st) now n row \<and> confirmed \<le> n \<and> a = px_attempts row + 1 \<and> f = lr_fees_wei (rescue_row row)"
    if in_plan: "Replace n a f \<in> set ?plan" for n a f
  proof -
    obtain r where r: "r \<in> set (map rescue_row rows)" "lr_role r = ''register''" "lr_nonce r = n" "confirmed \<le> n"
      "a = lr_attempts r + 1" "f = lr_fees_wei r" using plan_rows(2) [OF in_plan] by blast
    obtain row where row: "row \<in> set rows" "r = rescue_row row" using r(1) by auto
    have "px_role row = ''register''" "px_nonce row = n" "a = px_attempts row + 1"
      using r row(2) by (simp_all add: rescue_row_def)
    then show ?thesis using stale [OF row(1)] r(4,6) row(2) by blast
  qed
  have drop: "\<exists>row. stale_row R (mt_redis st) now n row \<and> n < confirmed" if in_plan: "DropConsumedRow n \<in> set ?plan" for n
  proof -
    obtain r where r: "r \<in> set (map rescue_row rows)" "lr_role r = ''register''" "lr_nonce r = n" "n < confirmed"
      using plan_rows(3) [OF in_plan] by blast
    obtain row where row: "row \<in> set rows" "r = rescue_row row" using r(1) by auto
    have "px_role row = ''register''" "px_nonce row = n" using r row(2) by (simp_all add: rescue_row_def)
    then show ?thesis using stale [OF row(1)] r(4) by blast
  qed
  obtain ps where ps: "did H (mt_net st) ps (mt_net st')" "ledger_ok R (mt_redis st')"
    "length (sends ps) \<le> length (replacements ?plan)" "\<forall>p \<in> set (sends ps). cancels X H C base ?plan p"
    "\<forall>k. ledger R (mt_redis st') k = ledger R (mt_redis st) k \<or> (\<exists>a \<in> set ?plan. row_moved C base a k (ledger R (mt_redis st') k))"
    using acts unfolding actions_done_def by blast
  have "length (sends ps) \<le> 5" using ps(3) plan_rows(1) order_trans by blast
  moreover have "\<exists>n row fees. stale_row R (mt_redis st) now n row \<and> confirmed \<le> n \<and> outbids C row fees \<and> cancel_post X H C n fees p"
    if sent: "p \<in> set (sends ps)" for p
  proof -
    obtain n a f fees where c: "Replace n a f \<in> set ?plan" "replacement_price C base a f fees" "cancel_post X H C n fees p"
      using ps(4) sent unfolding cancels_def by blast
    obtain row where "stale_row R (mt_redis st) now n row" "confirmed \<le> n" "f = lr_fees_wei (rescue_row row)"
      using rep [OF c(1)] by blast
    then show ?thesis using price_outbids [OF _ cap] c(2,3) by blast
  qed
  moreover have "ledger R (mt_redis st') k = ledger R (mt_redis st) k
       \<or> (\<exists>n row. k = (''register'', n) \<and> stale_row R (mt_redis st) now n row
            \<and> (n < confirmed \<and> ledger R (mt_redis st') k = None
               \<or> confirmed \<le> n \<and> (\<exists>h sent fees. outbids C row fees
                    \<and> ledger R (mt_redis st') k = Some (ledger_entry n h sent (px_attempts row + 1) (fees_wei fees)))))" for k
  proof (cases "ledger R (mt_redis st') k = ledger R (mt_redis st) k")
    case False
    then obtain a where a: "a \<in> set ?plan" "row_moved C base a k (ledger R (mt_redis st') k)" using ps(5) by blast
    show ?thesis
    proof (cases a)
      case (DropConsumedRow n)
      then show ?thesis using drop [of n] a by (auto simp: row_moved_def)
    next
      case (Replace n att f)
      obtain h sent fees where m: "k = (''register'', n)" "replacement_price C base att f fees"
        "ledger R (mt_redis st') k = Some (ledger_entry n h sent att (fees_wei fees))"
        using a(2) Replace unfolding row_moved_def by auto
      obtain row where r: "stale_row R (mt_redis st) now n row" "confirmed \<le> n" "att = px_attempts row + 1" "f = lr_fees_wei (rescue_row row)"
        using rep a(1) Replace by blast
      show ?thesis using m r price_outbids [OF _ cap] by blast
    qed (use a(2) in \<open>simp add: row_moved_def\<close>)
  qed blast
  ultimately show ?thesis unfolding swept_def using ps(1,2) by blast
qed

end

text \<open>C10: The unstick sweep rescues only stuck nonces, within its bounds, whatever the nodes answer and
  whichever Redis commands are lost.  Either it broadcasts nothing and moves no ledger row, or a
  node answered the wallet's confirmed nonce and: at most five transactions are broadcast, each a
  zero-value self-transfer at an unconsumed nonce whose row is older than two minutes, at a price
  under the configured cap that exceeds the recorded bid by at least 10% on both fee fields; and a
  ledger row changes only if it is that old, by being removed when its nonce is consumed, or
  rewritten with one more attempt and such a price when it is not.\<close>

theorem sweep_bounded_rescue:
  assumes "services_ok R" "host_ok H" "ledger_ok R (mt_redis st)"
    and "0 < ch_max_gas_price_wei C" "unat (ch_max_gas_price_wei C) < 2 ^ 128"
    and "unstick_sweep X R H C st = st'"
  shows "\<exists>ps. posted H (mt_net st') = posted H (mt_net st) @ ps \<and> ledger_ok R (mt_redis st')
    \<and> (sends ps = [] \<and> ledger R (mt_redis st') = ledger R (mt_redis st)
       \<or> (\<exists>confirmed. nonce_answered H C ''latest'' ps confirmed
            \<and> swept X R H C (fst (h_now_ms H (n_world (mt_net st)))) confirmed ps (mt_redis st) (mt_redis st')))"
proof -
  have laws: "worker_laws R H"
    by (intro worker_laws.intro worker_shell.intro redis_laws_of host_laws.intro assms)
  note host = host_laws.intro [OF assms(2)]
  define now where "now = fst (h_now_ms H (n_world (mt_net st)))"
  define st1 where "st1 = st\<lparr>mt_net := (mt_net st)\<lparr>n_world := snd (h_now_ms H (n_world (mt_net st)))\<rparr>\<rparr>"
  let ?before = "saturating_sub now STUCK_TX_AGE_MS"
  obtain r st2 where r: "store_do (list_pending_txs R ?before) st1 = (r, st2)" by fastforce
  have st2: "mt_redis st2 = snd (list_pending_txs R ?before (mt_redis st))" "mt_net st2 = mt_net st1"
    "list_pending_txs R ?before (mt_redis st) = (r, mt_redis st2)"
    using r by (auto simp: store_do_def st1_def split_def Let_def)
  note l2 = worker_laws.list_any [OF laws assms(3), of ?before, folded st2(1)]
  have d2: "did H (mt_net st) [] (mt_net st2)" using host_laws.did_now [OF host, of "mt_net st"] by (simp add: st2(2) st1_def)
  have quiet: ?thesis if "did H (mt_net st2) ps (mt_net st')" "sends ps = []" "mt_redis st' = mt_redis st2" for ps
    using host_laws.did_trans [OF host d2 that(1)] that(2,3) l2 by (intro exI [of _ ps]) (simp add: did_def)
  show ?thesis
  proof (cases r)
    case (Inl e)
    then have "st' = st2" using assms(6) r by (auto simp: unstick_sweep_def st1_def now_def split_def Let_def)
    then show ?thesis using quiet [of "[]"] host_laws.did_refl [OF host] by simp
  next
    case (Inr rows)
    let ?rows = "map rescue_row rows"
    obtain b st3 where b: "chain_do (base_fee H) st2 = (b, st3)" by fastforce
    note e3 = chain_do_eq [OF b]
    obtain ps3 where p3: "did H (mt_net st2) ps3 (mt_net st3)" "sends ps3 = []"
      using worker_laws.reading_base_fee [OF laws, unfolded reading_def, rule_format, of "mt_net st2" b "mt_net st3"] e3 by blast
    have eq: "st' = (if rows = [] then st2 else case b of Inl _ \<Rightarrow> st3 | Inr base \<Rightarrow> sweep_role X R H C base ?rows now RegisterWallet st3)"
      using assms(6) r b Inr by (auto simp: unstick_sweep_def st1_def now_def split_def Let_def split: sum.split)
    show ?thesis
    proof (cases "rows = [] \<or> (\<exists>e. b = Inl e)")
      case True
      then show ?thesis using eq quiet [of "[]"] quiet [of ps3] p3 e3 host_laws.did_refl [OF host] by auto
    next
      case False
      then obtain base where base: "b = Inr base" by (cases b) auto
      obtain c st4 where c: "chain_do (confirmed_nonce H C RegisterWallet) st3 = (c, st4)" by fastforce
      note e4 = chain_do_eq [OF c]
      obtain ps4 where p4: "did H (mt_net st3) ps4 (mt_net st4)" "sends ps4 = []" "\<forall>n. c = Inr n \<longrightarrow> nonce_answered H C ''latest'' ps4 n"
        using host_laws.reading_nonce_at [OF host, unfolded reading_def, rule_format, of C "''latest''" RegisterWallet "mt_net st3" c "mt_net st4"] e4
        unfolding confirmed_nonce_def by blast
      note d4 = host_laws.did_trans [OF host p3(1) p4(1)]
      have eq4: "st' = (case c of Inl _ \<Rightarrow> st4 | Inr confirmed \<Rightarrow>
          fold (execute_action X R H C RegisterWallet base ?rows now) (plan_role_sweep ''register'' confirmed ?rows now) st4)"
        using eq False base c by (simp add: sweep_role_def ledger_name_def split: sum.split)
      show ?thesis
      proof (cases c)
        case (Inl e)
        then show ?thesis using eq4 quiet [of "ps3 @ ps4"] d4 p3 p4 e3 e4 by simp
      next
        case (Inr confirmed)
        have same: "mt_redis st4 = mt_redis st2" using e3 e4 by simp
        have "actions_done X R H C base (plan_role_sweep ''register'' confirmed ?rows now) st4 st'"
          using worker_laws.fold_done [OF laws, of st4] l2 same eq4 Inr by simp
        moreover have "set rows = {row \<in> ran (ledger R (mt_redis st4)). px_sent_at_ms row < ?before}"
          using redis_laws.list_ledger(1,3) [OF redis_laws_of [OF assms(1)] assms(3)] st2(3) \<open>r = Inr rows\<close> same by auto
        ultimately obtain ps where ps: "did H (mt_net st4) ps (mt_net st')" "ledger_ok R (mt_redis st')"
          "swept X R H C now confirmed ps (mt_redis st4) (mt_redis st')"
          using worker_laws.swept_of_actions [OF laws _ _ assms(4,5)] by blast
        let ?ps = "[] @ (ps3 @ ps4) @ ps"
        have "did H (mt_net st) ?ps (mt_net st')"
          by (rule host_laws.did_trans [OF host d2 host_laws.did_trans [OF host d4 ps(1)]])
        moreover have "sends ?ps = sends ps" using p3(2) p4(2) by simp
        moreover have "nonce_answered H C ''latest'' ?ps confirmed"
          using p4(3) Inr nonce_answered_append [of H C "''latest''"] by simp
        moreover have "ledger R (mt_redis st4) = ledger R (mt_redis st)" using l2 same by simp
        ultimately show ?thesis
          using ps(2,3) unfolding now_def [symmetric]
          by (intro exI [of _ ?ps] conjI disjI2 exI [of _ confirmed]) (simp_all add: did_def swept_def stale_row_def)
      qed
    qed
  qed
qed

text \<open>A row at nonce two hundred, sent three minutes before; the chain has confirmed one hundred.\<close>

definition stuck_store :: ref_state where
  "stuck_store = snd (record_pending_tx ref_services ''register'' 200 ''0xaa'' 1000 0 (Some (30, 2)) empty_redis)"

definition stuck_row :: pending_tx where
  "stuck_row = ledger_entry 200 ''0xaa'' 1000 0 (Some (30, 2))"

lemma calm_record: "calm (record_pending_tx ref_services role n h sent a fees)"
  unfolding record_pending_tx_def ref_serde option.case by (rule calm_query) simp

lemma stuck_store_ok:
  "rs_faults stuck_store = []" "ledger_ok ref_services stuck_store" "ledger ref_services stuck_store = [(''register'', 200) \<mapsto> stuck_row]"
proof -
  obtain x s where r: "record_pending_tx ref_services ''register'' 200 ''0xaa'' 1000 0 (Some (30, 2)) empty_redis = (Inr x, s)" "rs_faults s = []"
    using calm_faults [of empty_redis, OF _ calm_record [of "''register''" 200 "''0xaa''" 1000 0 "Some (30, 2)"]]
    by (auto simp: empty_redis_def)
  have s: "s = stuck_store" using r(1) by (simp add: stuck_store_def)
  show "rs_faults stuck_store = []" using r(2) s by simp
  have "CHR '':'' \<notin> set ''register''" by simp
  note l = ref_redis.record_ledger [OF empty_ledger(1) this r(1), unfolded s empty_ledger(2)]
  show "ledger_ok ref_services stuck_store" by (rule l(2))
  show "ledger ref_services stuck_store = [(''register'', 200) \<mapsto> stuck_row]"
    using l(1) by (simp add: stuck_row_def ledger_entry_def)
qed

definition stuck_replies :: "http_reply list" where
  "stuck_replies = map result_body [JObject [(''baseFeePerGas'', JString ''100'')], JString ''100'', JString ''0xabc'']"

definition stuck_maintenance :: "(ref_state, ref_world) maintenance" where
  "stuck_maintenance =
     \<lparr>mt_redis = stuck_store,
      mt_net = \<lparr>n_roster = roster_new [''r''] [''w''], n_world = \<lparr>rw_posts = [], rw_replies = stuck_replies, rw_time = 200000000000\<rparr>\<rparr>,
      mt_last_alert = Map.empty, mt_alerts = []\<rparr>"

lemma stuck_ready: "ready (mt_net stuck_maintenance) stuck_replies"
  by (simp add: stuck_maintenance_def ready_def roster_new_def)

lemma ready_base_fee:
  assumes "ready s (result_body (JObject [(''baseFeePerGas'', JString ''100'')]) # rs)"
  shows "\<exists>s1. base_fee ref_host s = (Inr 100, s1) \<and> ready s1 rs"
proof -
  obtain s1 where s1: "write_node ref_host s = (Inr ''w'', s1)" "ready s1 (result_body (JObject [(''baseFeePerGas'', JString ''100'')]) # rs)"
    using ready_select(1) [OF assms] by blast
  obtain s2 where "call_on ref_host ''w'' ''eth_getBlockByNumber'' (JArray [JString ''latest'', JBool False]) s1
      = (Inr (JObject [(''baseFeePerGas'', JString ''100'')]), s2)" "ready s2 rs"
    using ready_call_on [OF s1(2)] by blast
  then show ?thesis using s1(1) by (simp add: base_fee_def base_fee_on_def bind_op_def lift_op_def ref_parse)
qed

lemma ready_confirmed:
  assumes "ready s (result_body (JString ''100'') # rs)"
  shows "\<exists>s1. confirmed_nonce ref_host sample_signer role s = (Inr 100, s1) \<and> ready s1 rs"
proof -
  let ?q = "JArray [JString (address_text ref_host (key_address ref_host [1, 2, 3])), JString ''latest'']"
  obtain s1 where "call ref_host ''eth_getTransactionCount'' ?q s = (Inr (JString ''100''), s1)" "ready s1 rs"
    using ready_call [OF assms] by blast
  then show ?thesis
    by (simp add: confirmed_nonce_def nonce_at_def wallet_address_def wallet_key_def sample_signer_def ok_or_def bind_res_def
        bind_op_def lift_op_def ref_parse)
qed

lemma ready_cancel:
  fixes f t :: u128
  assumes "ready s [result_body (JString ''0xabc'')]" "try_narrow (max_fee_per_gas fees) = Some f" "try_narrow (max_priority_fee_per_gas fees) = Some t"
  shows "\<exists>s1. cancel_stuck_nonce X ref_host sample_signer role n fees s = (Inr ''0xabc'', s1)"
proof -
  obtain s1 where s1: "write_node ref_host s = (Inr ''w'', s1)" "ready s1 [result_body (JString ''0xabc'')]"
    using ready_select(1) [OF assms(1)] by blast
  obtain signed where sg: "sign_eip1559 ref_host [1, 2, 3] n 21000 fees (key_address ref_host [1, 2, 3]) 0 [] = Inr signed"
    using assms(2,3) by (simp add: sign_eip1559_def ref_host_def)
  obtain s2 where "call_on ref_host ''w'' ''eth_sendRawTransaction'' (JArray [hex_0x X signed]) s1 = (Inr (JString ''0xabc''), s2)"
    using ready_call_on [OF s1(2)] by blast
  then show ?thesis using s1(1) sg
    by (simp add: cancel_stuck_nonce_def send_transaction_def send_transaction_on_def wallet_address_def wallet_key_def
        sample_signer_def ok_or_def bind_res_def bind_op_def lift_op_def)
qed

lemma stuck_price:
  "plan_replacement (Some \<lparr>max_fee_per_gas = 30, max_priority_fee_per_gas = 2\<rparr>) 100 (ucast DEFAULT_TIP_WEI) 100000 0
     = Send \<lparr>max_fee_per_gas = 1200, max_priority_fee_per_gas = 1000\<rparr>"
proof -
  have "strictly_above 30 MIN_REPLACEMENT_NUM MIN_REPLACEMENT_DEN = 33" "strictly_above 2 MIN_REPLACEMENT_NUM MIN_REPLACEMENT_DEN = 3"
    "strictly_above 30 REPLACEMENT_NUM REPLACEMENT_DEN = 45" "strictly_above 2 REPLACEMENT_NUM REPLACEMENT_DEN = 3"
    "headroom_price 100 1000 = 1200" "saturating_add 100 3 = (103 :: u256)" "(ucast DEFAULT_TIP_WEI :: u256) = 1000"
    by (simp_all add: strictly_above_def headroom_price_def gas_consts saturating_add_def
        saturating_mul_def saturating_sub_def DEFAULT_TIP_WEI_def)
  note prices = this
  show ?thesis
    unfolding plan_replacement_def previous_bid_def option.case fee_plan.simps prices
    by (simp add: Let_def prices)
qed

theorem sweep_bounded_rescue_witness:
  "\<exists>st' ps confirmed. unstick_sweep ref_externs ref_services ref_host sample_signer stuck_maintenance = st'
     \<and> posted ref_host (mt_net st') = ps \<and> length (sends ps) \<le> 5
     \<and> nonce_answered ref_host sample_signer ''latest'' ps confirmed
     \<and> ledger ref_services (mt_redis st') (''register'', 200) = Some (ledger_entry 200 ''0xabc'' 200000 1 (Some (1200, 1000)))"
proof -
  let ?st = stuck_maintenance
  let ?fees = "\<lparr>max_fee_per_gas = 1200, max_priority_fee_per_gas = 1000\<rparr>"
  have now: "h_now_ms ref_host (n_world (mt_net ?st)) = (200000, n_world (mt_net ?st))"
    by (simp add: ref_host_def stuck_maintenance_def)
  have before: "saturating_sub 200000 STUCK_TX_AGE_MS = (80000 :: u64)"
    by (simp add: STUCK_TX_AGE_MS_def saturating_sub_def)
  have redis: "mt_redis ?st = stuck_store" by (simp add: stuck_maintenance_def)
  have "calm (list_pending_txs ref_services 80000)"
    unfolding list_pending_txs_def by (intro calm_bind calm_query calm_return) simp
  then obtain rows s1 where l: "list_pending_txs ref_services 80000 stuck_store = (Inr rows, s1)" "rs_faults s1 = []"
    using calm_faults [OF stuck_store_ok(1)] by blast
  note ll = ref_redis.list_ledger [OF stuck_store_ok(2) l(1)]
  have "px_sent_at_ms stuck_row < 80000" by (simp add: stuck_row_def ledger_entry_def)
  moreover have "ran [(''register'', 200 :: u64) \<mapsto> stuck_row] = {stuck_row}" by simp
  ultimately have set: "set rows = {stuck_row}" using ll(1) unfolding stuck_store_ok(3) by blast
  have "length rows = Suc 0" using distinct_card [OF ll(2)] unfolding set by simp
  then obtain row where "rows = [row]" unfolding length_Suc_conv length_0_conv by blast
  then have rows: "rows = [stuck_row]" using set by simp
  obtain n1 where n1: "base_fee ref_host (mt_net ?st) = (Inr 100, n1)" "ready n1 (tl stuck_replies)"
    using ready_base_fee [of "mt_net ?st" "tl stuck_replies"] stuck_ready by (auto simp: stuck_replies_def)
  obtain n2 where n2: "confirmed_nonce ref_host sample_signer RegisterWallet n1 = (Inr 100, n2)" "ready n2 [result_body (JString ''0xabc'')]"
    using ready_confirmed [of n1 "[result_body (JString ''0xabc'')]"] n1(2) by (auto simp: stuck_replies_def)
  have nar: "try_narrow (max_fee_per_gas ?fees) = Some (1200 :: u128)" "try_narrow (max_priority_fee_per_gas ?fees) = Some (1000 :: u128)"
    by (simp_all add: try_narrow_def)
  obtain n3 where n3: "cancel_stuck_nonce ref_externs ref_host sample_signer RegisterWallet 200 ?fees n2 = (Inr ''0xabc'', n3)"
    using ready_cancel [OF n2(2) nar] by blast
  have fw: "fees_wei ?fees = Some (1200, 1000)" using nar by (simp add: fees_wei_def)
  obtain x s2 where rec: "record_pending_tx ref_services ''register'' 200 ''0xabc'' 200000 1 (Some (1200, 1000)) s1 = (Inr x, s2)"
    using calm_faults [OF l(2) calm_record] by blast
  have plan: "plan_role_sweep ''register'' 100 (map rescue_row rows) 200000 = [Replace 200 1 (Some (30, 2))]"
    by (simp add: rows plan_role_sweep_def rescue_row_def stuck_row_def ledger_entry_def UNSTICK_ALERT_ATTEMPTS_def
        UNSTICK_ALERT_AGE_MS_def MAX_UNSTICK_PER_CYCLE_def saturating_sub_def Let_def)
  have price: "plan_replacement (previous_plan (Some (30, 2))) 100 (ucast DEFAULT_TIP_WEI) (ch_max_gas_price_wei sample_signer) (saturating_sub 1 1) = Send ?fees"
    using stuck_price by (simp add: previous_plan_def sample_signer_def saturating_sub_def)
  obtain st' where st': "unstick_sweep ref_externs ref_services ref_host sample_signer ?st = st'" by simp
  have "mt_redis st' = s2"
    using l(1) n1(1) n2(1) n3 rec plan price rows fw
    by (simp add: st' [symmetric] unstick_sweep_def now before redis store_do_def chain_do_def sweep_role_def ledger_name_def
        execute_action_def replace_stuck_def original_identity_def Let_def split_def)
  then have led: "ledger ref_services (mt_redis st') (''register'', 200) = Some (ledger_entry 200 ''0xabc'' 200000 1 (Some (1200, 1000)))"
    using ref_redis.record_ledger(1) [OF ll(4) _ rec] by (simp add: ledger_entry_def)
  have old: "ledger ref_services (mt_redis ?st) (''register'', 200) = Some stuck_row" by (simp add: redis stuck_store_ok(3))
  have cap: "0 < ch_max_gas_price_wei sample_signer" "unat (ch_max_gas_price_wei sample_signer) < 2 ^ 128"
    by (simp_all add: sample_signer_def)
  have lok: "ledger_ok ref_services (mt_redis ?st)" using stuck_store_ok(2) redis by simp
  have ne: "ledger ref_services (mt_redis st') \<noteq> ledger ref_services (mt_redis ?st)"
    using led old by (auto simp: stuck_row_def ledger_entry_def)
  have p0: "posted ref_host (mt_net ?st) = []" by (simp add: posted_def stuck_maintenance_def ref_host_def)
  obtain ps confirmed where "posted ref_host (mt_net st') = ps" "nonce_answered ref_host sample_signer ''latest'' ps confirmed" "length (sends ps) \<le> 5"
    using sweep_bounded_rescue [OF ref_services_ok ref_host_ok lok cap st'] ne unfolding p0 swept_def by auto
  then show ?thesis using st' led by blast
qed

end
