(* ===== verification/Cf_Submitter.thy ===== *)
theory Cf_Submitter
  imports Cf_Store Admission Worker_Properties Maintenance
begin

text \<open>
  The handlers of the Durable Object, the second half of \<^verbatim>\<open>p256-index-cf/src/submitter.rs\<close>: the shells of
  the admission and submission programs over the SQLite store and the chain, one write attempt, the
  alarm that consumes the queue, the requests, and the maintenance pass.  \<open>conf\<close> is the outcome of
  \<^verbatim>\<open>CfConfig::from_env\<close> and \<^verbatim>\<open>Chain::new\<close>: an error, or the global write limit and the chain.  A handler
  is split where the object awaits: what runs before the first chain call, one operation of a
  program at a time, and what runs after the program; \<open>fetch\<close> and \<open>alarm\<close> compose them.
\<close>

type_synonym do_conf = "string + (u64 \<times> chain)"

definition do_net :: "('w, 'a) chain_op \<Rightarrow> ('w submitter, chain_error, 'a) act" where
  "do_net m st = (let (r, n) = m (sb_net st) in (r, st\<lparr>sb_net := n\<rparr>))"

section \<open>Alarms\<close>

definition schedule :: "'w platform \<Rightarrow> u64 \<Rightarrow> ('w, unit) do_op" where
  "schedule P delay_ms st =
     (let n = sb_net st; (ok, w) = p_alarm_api P (n_world n); st = st\<lparr>sb_net := n\<lparr>n_world := w\<rparr>\<rparr>
      in if ok then (Inr (), st\<lparr>sb_alarm := Some delay_ms\<rparr>) else (Inl ''could not set the alarm'', st))"

definition get_alarm :: "'w platform \<Rightarrow> ('w, u64 option) do_op" where
  "get_alarm P st =
     (let n = sb_net st; (ok, w) = p_alarm_api P (n_world n); st = st\<lparr>sb_net := n\<lparr>n_world := w\<rparr>\<rparr>
      in if ok then (Inr (sb_alarm st), st) else (Inl ''could not read the alarm'', st))"

definition ensure_alarm :: "'w platform \<Rightarrow> ('w, unit) do_op" where
  "ensure_alarm P =
     bind_op (get_alarm P) (\<lambda>armed. if armed = None then schedule P 0 else return_op ())"

section \<open>Admission\<close>

definition found_answer :: "string + register_task option \<Rightarrow> admission_result" where
  "found_answer r = (case r of Inr task \<Rightarrow> TaskFound task | Inl _ \<Rightarrow> admission_result.StoreUnavailable)"

definition bool_answer :: "chain_error + bool \<Rightarrow> admission_result" where
  "bool_answer r = (case r of Inr b \<Rightarrow> ChainBool b | Inl _ \<Rightarrow> admission_result.ChainReadFailed)"

definition execute_admission ::
  "externs \<Rightarrow> 'w platform \<Rightarrow> 'w host \<Rightarrow> u64 \<Rightarrow> chain \<Rightarrow> string \<Rightarrow> 'w submitter \<Rightarrow> admission_operation
     \<Rightarrow> admission_result \<times> 'w submitter" where
  "execute_admission X P H global_write_limit C ip_hash st operation =
     (case operation of
        AllowIpCreate \<Rightarrow>
          apfst (\<lambda>r. case r of Inr count \<Rightarrow> Allowed (count \<le> 5) | Inl _ \<Rightarrow> admission_result.StoreUnavailable)
            (bump_minute_counter P H (''create:'' @ ip_hash) st)
      | FindTaskByContent content_hash \<Rightarrow> apfst found_answer (do_find_by_content P H content_hash st)
      | FindTaskByRetryDigest digest \<Rightarrow> apfst found_answer (do_find_by_retry_digest P H digest st)
      | RecordRetryDigest digest task_id \<Rightarrow>
          apfst (\<lambda>r. case r of Inr _ \<Rightarrow> admission_result.Persisted | Inl _ \<Rightarrow> admission_result.StoreUnavailable)
            (do_record_retry_digest P H digest task_id RETRY_COALESCE_TTL_SECS st)
      | admission_operation.CheckContentRegistered content_hash \<Rightarrow>
          (case parse_b256 X content_hash of
             Inl _ \<Rightarrow> (admission_result.ChainReadFailed, st)
           | Inr h \<Rightarrow> apfst bool_answer (do_net (cf_is_content_registered X H C h) st))
      | admission_operation.CheckReferenced group_public_key member_public_key \<Rightarrow>
          (case (parse_hex_bytes X group_public_key, parse_hex_bytes X member_public_key) of
             (Inr g, Inr m) \<Rightarrow> apfst bool_answer (do_net (cf_is_referenced X H C g m) st)
           | _ \<Rightarrow> (admission_result.ChainReadFailed, st))
      | CheckGroupExists group_public_key \<Rightarrow>
          (case parse_hex_bytes X group_public_key of
             Inl _ \<Rightarrow> (admission_result.ChainReadFailed, st)
           | Inr g \<Rightarrow>
               apfst (\<lambda>r. case r of Inr unit \<Rightarrow> ChainBool (unit \<noteq> None) | Inl _ \<Rightarrow> admission_result.ChainReadFailed)
                 (do_net (cf_unit_by_group_key X H C g) st))
      | FindTaskByKey key_hash \<Rightarrow> apfst found_answer (do_find_by_public_key P H key_hash st)
      | QueueDepth \<Rightarrow>
          apfst (\<lambda>r. case r of Inr (depth, _, _) \<Rightarrow> Depth depth | Inl _ \<Rightarrow> admission_result.StoreUnavailable)
            (do_queue_stats P H st)
      | AllowGlobalCreate \<Rightarrow>
          apfst (\<lambda>r. case r of Inr count \<Rightarrow> Allowed (of_int count \<le> global_write_limit)
                            | Inl _ \<Rightarrow> admission_result.StoreUnavailable)
            (bump_minute_counter P H ''create:global'' st)
      | Admit task \<Rightarrow>
          apfst (\<lambda>r. case r of
              Inr AdmittedNew \<Rightarrow> Admitted admit_outcome.New
            | Inr (AdmittedExisting i) \<Rightarrow> Admitted (admit_outcome.Existing i)
            | Inl _ \<Rightarrow> admission_result.StoreUnavailable) (do_admit P H task st)
      | LoadTask i \<Rightarrow> apfst found_answer (do_get_task P H i st)
      | Enqueue task \<Rightarrow>
          apfst (\<lambda>r. case r of Inr _ \<Rightarrow> Enqueued | Inl _ \<Rightarrow> QueueUnavailable) (do_enqueue P task st)
      | MarkAdmitted i \<Rightarrow> apfst found_answer (do_mark_admitted P H i st))"

text \<open>The opening of every request and alarm.\<close>

definition open_db :: "'w platform \<Rightarrow> 'w host \<Rightarrow> ('w, unit) do_op" where
  "open_db P H = bind_op (bootstrap P) (\<lambda>_. purge_expired P H)"

type_synonym admission_prog = "(admission_operation, admission_result, admission_outcome) prog"

text \<open>\<^verbatim>\<open>run_admission\<close> up to its first effect: the program of this request.\<close>

definition begin_admission ::
  "externs \<Rightarrow> 'w platform \<Rightarrow> 'w host \<Rightarrow> do_conf \<Rightarrow> admission_request \<Rightarrow> string \<Rightarrow> ('w, admission_prog) do_op" where
  "begin_admission X P H conf request new_task_id =
     bind_op (open_db P H) (\<lambda>_.
     bind_op (lift_op conf) (\<lambda>(_, C). clocked H (\<lambda>now.
       return_op (admission_program X request new_task_id (of_int now) CHAIN_ID (domain_registry_address H C)))))"

definition finish_admission :: "'w platform \<Rightarrow> admission_outcome \<Rightarrow> ('w, unit) do_op" where
  "finish_admission P outcome =
     (case outcome of
        Queued _ status \<Rightarrow> if is_terminal status then return_op () else ensure_alarm P
      | _ \<Rightarrow> return_op ())"

section \<open>Submission\<close>

definition do_acquire_nonce :: "'w host \<Rightarrow> chain \<Rightarrow> ('w submitter, unit, u64) act" where
  "do_acquire_nonce H C st =
     (let (synced, st) =
        (case sb_nonce st of
           Some n \<Rightarrow> (Inr n, st)
         | None \<Rightarrow>
             (case do_net (cf_pending_nonce H C RegisterWallet) st of
                (Inl _, st) \<Rightarrow> (Inl (), st)
              | (Inr n, st) \<Rightarrow> (Inr n, st\<lparr>sb_nonce := Some n\<rparr>)))
      in case synced of
           Inl e \<Rightarrow> (Inl e, st)
         | Inr nonce \<Rightarrow> (Inr nonce, st\<lparr>sb_nonce := Some (saturating_add nonce 1)\<rparr>))"

definition do_await_receipt ::
  "'w platform \<Rightarrow> 'w host \<Rightarrow> u64 \<Rightarrow> string \<Rightarrow> 'w submitter \<Rightarrow> tx_outcome \<times> 'w submitter" where
  "do_await_receipt P H nonce hash st =
     (case do_net (cf_wait_for_receipt H hash 60000) st of
        (Inr (Success on_chain_id), st) \<Rightarrow>
          (Confirmed hash on_chain_id, snd (do_delete_pending_tx P (ledger_name RegisterWallet) nonce st))
      | (Inr RevertedReceipt, st) \<Rightarrow>
          (tx_outcome.Reverted hash,
           (snd (do_delete_pending_tx P (ledger_name RegisterWallet) nonce st))\<lparr>sb_nonce := None\<rparr>)
      | (Inl e, st) \<Rightarrow> (ReceiptUncertain e, st\<lparr>sb_nonce := None\<rparr>))"

definition do_submit ::
  "externs \<Rightarrow> 'w platform \<Rightarrow> 'w host \<Rightarrow> chain \<Rightarrow> register_task \<Rightarrow> 'w submitter \<Rightarrow> tx_outcome \<times> 'w submitter" where
  "do_submit X P H C task st =
     (case do_acquire_nonce H C st of
        (Inl _, st) \<Rightarrow> (NoncePoolUnavailable, st)
      | (Inr nonce, st) \<Rightarrow>
          (case do_net (cf_register X H C task nonce) st of
             (Inr b, st) \<Rightarrow>
               (let (now, st) = now_ms H st;
                    st = snd (do_record_pending_tx P (ledger_name RegisterWallet) nonce (bc_hash b) now 0 (bc_fees_wei b) st)
                in do_await_receipt P H nonce (bc_hash b) st)
           | (Inl e, st) \<Rightarrow> (SendFailed e, st\<lparr>sb_nonce := None\<rparr>)))"

fun do_load_tasks :: "'w platform \<Rightarrow> 'w host \<Rightarrow> string list \<Rightarrow> ('w, register_task option list) do_op" where
  "do_load_tasks P H [] = return_op []"
| "do_load_tasks P H (i # ids) =
     bind_op (do_get_task P H i) (\<lambda>task. bind_op (do_load_tasks P H ids) (\<lambda>tasks. return_op (task # tasks)))"

definition execute_submission ::
  "externs \<Rightarrow> 'w platform \<Rightarrow> 'w host \<Rightarrow> chain \<Rightarrow> 'w submitter \<Rightarrow> submission_operation
     \<Rightarrow> submission_result \<times> 'w submitter" where
  "execute_submission X P H C st operation =
     (case operation of
        LoadTasks ids \<Rightarrow>
          (case do_load_tasks P H ids st of
             (Inr tasks, st) \<Rightarrow> (TasksLoaded tasks, st)
           | (Inl _, st) \<Rightarrow> (submission_result.StoreUnavailable, st))
      | submission_operation.CheckContentRegistered content_hash \<Rightarrow>
          (case parse_b256 X content_hash of
             Inl _ \<Rightarrow> (submission_result.ChainReadFailed, st)
           | Inr h \<Rightarrow> apfst content_answer (do_net (cf_is_content_registered X H C h) st))
      | submission_operation.CheckReferenced group_public_key member_public_key \<Rightarrow>
          (case (parse_hex_bytes X group_public_key, parse_hex_bytes X member_public_key) of
             (Inr g, Inr m) \<Rightarrow> apfst content_answer (do_net (cf_is_referenced X H C g m) st)
           | _ \<Rightarrow> (submission_result.ChainReadFailed, st))
      | SubmitRegister task \<Rightarrow> apfst Tx (do_submit X P H C task st)
      | MarkDone task_id tx_hash on_chain_id \<Rightarrow>
          apfst store_ack (do_mark_done P H task_id tx_hash on_chain_id st)
      | MarkFailed task_id kind message \<Rightarrow>
          apfst store_ack (do_mark_failed P H task_id (as_store_class kind) message st)
      | RecordTransientFailure task_id message \<Rightarrow>
          apfst store_ack (do_record_transient_failure P H task_id message st))"

section \<open>The alarm\<close>

definition POLL_BATCH_SIZE :: nat where "POLL_BATCH_SIZE = 50"

text \<open>The alarm up to its batch: \<^const>\<open>None\<close> when there is nothing to process now.  An alarm that fires
  is no longer armed.\<close>

definition begin_alarm ::
  "'w platform \<Rightarrow> 'w host \<Rightarrow> do_conf \<Rightarrow> ('w, ((int \<times> string) list \<times> chain) option) do_op" where
  "begin_alarm P H conf st =
     bind_op (open_db P H) (\<lambda>_.
     bind_op (lift_op conf) (\<lambda>(_, C).
       if \<not> has_signer C then return_op None
       else (\<lambda>st. case do_net (cf_fee_plan H C) st of
           (Inr (TooExpensive _ _), st) \<Rightarrow> bind_op (schedule P 15000) (\<lambda>_. return_op None) st
         | (_, st) \<Rightarrow>
             bind_op (do_poll_batch P POLL_BATCH_SIZE) (\<lambda>batch.
               return_op (if batch = [] then None else Some (batch, C))) st))) (st\<lparr>sb_alarm := None\<rparr>)"

definition finish_alarm ::
  "'w platform \<Rightarrow> (int \<times> string) list \<Rightarrow> batch_verdict option \<Rightarrow> ('w, unit) do_op" where
  "finish_alarm P batch verdict st =
     (case verdict of
        Some Advance \<Rightarrow>
          bind_op (do_delete_batch P batch) (\<lambda>_.
          bind_op (do_queue_len P) (\<lambda>len. if 0 < len then schedule P 0 else return_op ())) (st\<lparr>sb_failures := 0\<rparr>)
      | _ \<Rightarrow>
          (let failures = saturating_add (sb_failures st) 1
           in schedule P (min (backoff_delay failures) 60 * 1000) (st\<lparr>sb_failures := failures\<rparr>)))"

definition alarm ::
  "externs \<Rightarrow> 'w platform \<Rightarrow> 'w host \<Rightarrow> do_conf \<Rightarrow> ('w, unit) do_op" where
  "alarm X P H conf =
     bind_op (begin_alarm P H conf) (\<lambda>batch. case batch of
         None \<Rightarrow> return_op ()
       | Some (batch, C) \<Rightarrow> (\<lambda>st.
           let (verdict, _, st) = run (execute_submission X P H C) (submission_program X (map snd batch)) st
           in finish_alarm P batch verdict st))"

section \<open>Maintenance\<close>

text \<open>A read that fails counts as never fired; an alert whose time cannot be stored is not sent.\<close>

definition do_alert_throttled :: "'w platform \<Rightarrow> 'w host \<Rightarrow> string \<Rightarrow> string \<Rightarrow> 'w submitter \<Rightarrow> 'w submitter" where
  "do_alert_throttled P H kind message st =
     (let (now, st) = now_ms H st;
          (r, st) = alert_last_fired P kind st;
          last_fired = (case r of Inr t \<Rightarrow> t | Inl _ \<Rightarrow> None)
      in if \<not> alert_due last_fired (of_int now) then st
         else
           (case sql_write P (\<lambda>d. d\<lparr>db_alerts := insert_or_replace kind now (db_alerts d)\<rparr>) st of
              (Inl _, st) \<Rightarrow> st
            | (Inr _, st) \<Rightarrow> st\<lparr>sb_sent := sb_sent st @ [(kind, message)]\<rparr>))"

definition do_replace_stuck ::
  "externs \<Rightarrow> 'w platform \<Rightarrow> 'w host \<Rightarrow> chain \<Rightarrow> wallet_role \<Rightarrow> u256 \<Rightarrow> ledger_row list \<Rightarrow> int
     \<Rightarrow> u64 \<Rightarrow> u32 \<Rightarrow> (u128 \<times> u128) option \<Rightarrow> 'w submitter \<Rightarrow> 'w submitter" where
  "do_replace_stuck X P H C role base rows now nonce attempts_after previous_fees st =
     (case plan_replacement (previous_plan previous_fees) base (ucast DEFAULT_TIP_WEI) (ch_max_gas_price_wei C)
             (saturating_sub attempts_after 1) of
        TooExpensive required cap \<Rightarrow>
          do_alert_throttled P H ''gas-capped'' (gas_capped_alert (ledger_name role) nonce required cap) st
      | Send fees \<Rightarrow>
          (let bid = fees_wei fees;
               (row_hash, sent_at) =
                 (case find (\<lambda>row. lr_role row = ledger_name role \<and> lr_nonce row = nonce) rows of
                    Some row \<Rightarrow> (lr_hash row, sint (lr_sent_at_ms row))
                  | None \<Rightarrow> ([], now))
           in case do_net (cf_cancel_stuck_nonce X H C role nonce fees) st of
                (Inr cancel_hash, st) \<Rightarrow>
                  snd (do_record_pending_tx P (ledger_name role) nonce cancel_hash now attempts_after bid st)
              | (Inl e, st) \<Rightarrow>
                  if is_replacement_underpriced e
                  then snd (do_record_pending_tx P (ledger_name role) nonce row_hash sent_at attempts_after bid st)
                  else st))"

definition do_action ::
  "externs \<Rightarrow> 'w platform \<Rightarrow> 'w host \<Rightarrow> chain \<Rightarrow> wallet_role \<Rightarrow> u256 \<Rightarrow> ledger_row list \<Rightarrow> int
     \<Rightarrow> rescue_action \<Rightarrow> 'w submitter \<Rightarrow> 'w submitter" where
  "do_action X P H C role base rows now action st =
     (case action of
        DropConsumedRow nonce \<Rightarrow> snd (do_delete_pending_tx P (ledger_name role) nonce st)
      | Escalate message \<Rightarrow> do_alert_throttled P H ''stuck'' message st
      | Replace nonce attempts_after previous_fees \<Rightarrow>
          do_replace_stuck X P H C role base rows now nonce attempts_after previous_fees st)"

definition do_sweep_role ::
  "externs \<Rightarrow> 'w platform \<Rightarrow> 'w host \<Rightarrow> chain \<Rightarrow> u256 \<Rightarrow> ledger_row list \<Rightarrow> int
     \<Rightarrow> wallet_role \<Rightarrow> 'w submitter \<Rightarrow> 'w submitter" where
  "do_sweep_role X P H C base rows now role st =
     (case do_net (cf_confirmed_nonce H C role) st of
        (Inl _, st) \<Rightarrow> st
      | (Inr confirmed, st) \<Rightarrow>
          fold (do_action X P H C role base rows now)
            (plan_role_sweep (ledger_name role) confirmed rows (of_int now)) st)"

definition do_unstick_sweep :: "externs \<Rightarrow> 'w platform \<Rightarrow> 'w host \<Rightarrow> chain \<Rightarrow> 'w submitter \<Rightarrow> 'w submitter" where
  "do_unstick_sweep X P H C st =
     (let (now, st) = now_ms H st
      in case do_list_pending_txs P (i64_sub now (sint STUCK_TX_AGE_MS)) st of
           (Inl _, st) \<Rightarrow> st
         | (Inr rows, st) \<Rightarrow>
             if rows = [] then st
             else
               (case do_net (cf_base_fee H) st of
                  (Inl _, st) \<Rightarrow> st
                | (Inr base, st) \<Rightarrow> fold (do_sweep_role X P H C base rows now) [RegisterWallet] st))"

text \<open>The checks of \<^verbatim>\<open>check_alerts\<close> that need no floating point: the RPC circuit and the dead-letter
  count.\<close>

definition do_check_alerts :: "'w platform \<Rightarrow> 'w host \<Rightarrow> 'w submitter \<Rightarrow> 'w submitter" where
  "do_check_alerts P H st =
     (let (circuit, n) = cf_rpc_circuit_state H (sb_net st);
          st = st\<lparr>sb_net := n\<rparr>;
          st = (if circuit = ''open'' then do_alert_throttled P H ''rpc'' rpc_circuit_alert st else st)
      in case do_queue_stats P H st of
           (Inl _, st) \<Rightarrow> st
         | (Inr (_, dlq_count, _), st) \<Rightarrow>
             if DLQ_ALERT_THRESHOLD \<le> dlq_count then do_alert_throttled P H ''dlq'' (dlq_alert dlq_count) st else st)"

definition HEARTBEAT_INTERVAL_MS :: int where "HEARTBEAT_INTERVAL_MS = 24 * 60 * 60 * 1000"

text \<open>The gate of \<^verbatim>\<open>maybe_heartbeat\<close>, with its writes: whether the message is built and sent.\<close>

definition heartbeat_gate :: "'w platform \<Rightarrow> 'w host \<Rightarrow> 'w submitter \<Rightarrow> bool \<times> 'w submitter" where
  "heartbeat_gate P H st =
     (let (now, st) = now_ms H st;
          (_, st) = meta_get_or_insert P ''started_at'' now st;
          (r, st) = meta_get P ''last_heartbeat'' st;
          last = (case r of Inr t \<Rightarrow> t | Inl _ \<Rightarrow> None);
          due = (case last of Some at \<Rightarrow> HEARTBEAT_INTERVAL_MS \<le> i64_sub now at | None \<Rightarrow> True)
      in if \<not> due then (False, st)
         else
           (case meta_set P ''last_heartbeat'' now st of
              (Inl _, st) \<Rightarrow> (False, st)
            | (Inr _, st) \<Rightarrow> (True, st)))"

definition maintenance_pass ::
  "externs \<Rightarrow> 'w platform \<Rightarrow> 'w host \<Rightarrow> do_conf \<Rightarrow> ('w, string) do_op" where
  "maintenance_pass X P H conf =
     bind_op (lift_op conf) (\<lambda>(_, C) st.
       if \<not> has_signer C then (Inr ''idle: no signer'', st)
       else
         (Inr ''maintenance pass complete'',
          snd (heartbeat_gate P H (do_check_alerts P H (do_unstick_sweep X P H C st)))))"

section \<open>Requests\<close>

datatype do_request =
    AdmitCall admission_request string              \<comment> \<open>the request and the hash of the client's address\<close>
  | TaskById string
  | FindByKey string
  | AllowRead string
  | Maintain
  | Stats
  | UnknownRoute

datatype do_response =
    AdmissionReply admission_outcome
  | TaskReply "register_task option"
  | AllowedReply bool
  | StatsReply u64 u64 u64 bool
  | TextReply string
  | NotFound

definition do_stats :: "'w platform \<Rightarrow> 'w host \<Rightarrow> do_conf \<Rightarrow> ('w, do_response) do_op" where
  "do_stats P H conf =
     bind_op (do_queue_stats P H) (\<lambda>(depth, dlq, oldest_age_ms).
     bind_op (get_alarm P) (\<lambda>armed.
     bind_op (lift_op conf) (\<lambda>(_, C).
       return_op (StatsReply depth dlq oldest_age_ms (has_signer C \<and> 0 < depth \<and> armed = None)))))"

text \<open>The routes other than admission.\<close>

definition serve ::
  "externs \<Rightarrow> 'w platform \<Rightarrow> 'w host \<Rightarrow> do_conf \<Rightarrow> do_request \<Rightarrow> ('w, do_response) do_op" where
  "serve X P H conf request =
     bind_op (open_db P H) (\<lambda>_.
       case request of
         TaskById tid \<Rightarrow> bind_op (do_get_task P H tid) (\<lambda>task. return_op (TaskReply task))
       | FindByKey key \<Rightarrow> bind_op (do_find_by_public_key P H key) (\<lambda>task. return_op (TaskReply task))
       | AllowRead ip_hash \<Rightarrow>
           bind_op (bump_minute_counter P H (''read:'' @ ip_hash)) (\<lambda>count. return_op (AllowedReply (count \<le> 120)))
       | Maintain \<Rightarrow> bind_op (maintenance_pass X P H conf) (\<lambda>report. return_op (TextReply report))
       | Stats \<Rightarrow> do_stats P H conf
       | _ \<Rightarrow> return_op NotFound)"

definition fetch ::
  "externs \<Rightarrow> 'w platform \<Rightarrow> 'w host \<Rightarrow> do_conf \<Rightarrow> string \<Rightarrow> do_request \<Rightarrow> ('w, do_response) do_op" where
  "fetch X P H conf new_task_id request =
     (case request of
        AdmitCall body ip_hash \<Rightarrow>
          bind_op (begin_admission X P H conf body new_task_id) (\<lambda>program.
          bind_op (lift_op conf) (\<lambda>(limit, C) st.
            let (outcome, _, st) = run (execute_admission X P H limit C ip_hash) program st
            in case outcome of
                 None \<Rightarrow> (Inl ''admission never settled'', st)
               | Some outcome \<Rightarrow>
                   bind_op (finish_admission P outcome) (\<lambda>_. return_op (AdmissionReply outcome)) st))
      | _ \<Rightarrow> serve X P H conf request)"

end
