(* ===== verification/Cf_Laws.thy ===== *)
theory Cf_Laws
  imports Cf_Submitter
begin

text \<open>
  What the operations of the Durable Object do to its tasks and its queue.  \<open>stored\<close> is the task a row
  holds; a task that reads as missing or is terminal is settled; an admitted pending task is waiting.
  Most operations are quiet: they settle tasks but never take a settled one back, never make one wait,
  and leave the queue alone.  The others are admission, enqueueing, marking admitted, and deleting a
  batch.
\<close>

section \<open>Tables\<close>

lemma map_of_update_where:
  "map_of (update_where p f rows) k = map_option (\<lambda>v. if p k v then f v else v) (map_of rows k)"
  by (induction rows) (auto simp: update_where_def)

lemma update_where_keys [simp]: "map fst (update_where p f rows) = map fst rows"
  by (induction rows) (auto simp: update_where_def)

lemma map_of_delete_where:
  "distinct (map fst rows) \<Longrightarrow>
     map_of (delete_where p rows) k = (case map_of rows k of None \<Rightarrow> None | Some v \<Rightarrow> if p k v then None else Some v)"
  by (induction rows) (auto simp: delete_where_def map_of_eq_None_iff image_iff split: option.splits)

lemma delete_where_distinct: "distinct (map fst rows) \<Longrightarrow> distinct (map fst (delete_where p rows))"
  by (induction rows) (auto simp: delete_where_def)

lemma delete_where_subset: "set (delete_where p rows) \<subseteq> set rows"
  by (auto simp: delete_where_def)

lemma map_of_insert_or_replace: "map_of (insert_or_replace k v rows) = (map_of rows)(k \<mapsto> v)"
proof
  fix i
  have "map_of (filter (\<lambda>(k', _). k' \<noteq> k) rows) i = (if i = k then None else map_of rows i)"
    by (induction rows) auto
  then show "map_of (insert_or_replace k v rows) i = ((map_of rows)(k \<mapsto> v)) i"
    by (simp add: insert_or_replace_def map_add_def split: option.split)
qed

lemma insert_or_replace_keys: "fst ` set (insert_or_replace k v rows) = insert k (fst ` set rows)"
  by (auto simp: insert_or_replace_def image_iff)

lemma insert_or_replace_distinct: "distinct (map fst rows) \<Longrightarrow> distinct (map fst (insert_or_replace k v rows))"
proof -
  assume "distinct (map fst rows)"
  moreover have "map fst (filter (\<lambda>(k', _). k' \<noteq> k) rows) = filter (\<lambda>k'. k' \<noteq> k) (map fst rows)"
    by (induction rows) auto
  ultimately show ?thesis by (simp add: insert_or_replace_def)
qed

section \<open>Tasks\<close>

definition stored :: "'w platform \<Rightarrow> db \<Rightarrow> string \<Rightarrow> register_task option" where
  "stored P d i = (case map_of (db_tasks d) i of None \<Rightarrow> None | Some row \<Rightarrow> p_parse_task P (tk_payload row))"

text \<open>A row holds the task of its key, and only a finished task has an expiry.\<close>

definition db_wf :: "'w platform \<Rightarrow> db \<Rightarrow> bool" where
  "db_wf P d =
     (distinct (map fst (db_tasks d))
      \<and> (\<forall>i row t. map_of (db_tasks d) i = Some row \<longrightarrow> p_parse_task P (tk_payload row) = Some t
           \<longrightarrow> t_id t = i \<and> (is_terminal (t_status t) \<or> tk_expires_at row = None)))"

definition db_settled :: "'w platform \<Rightarrow> db \<Rightarrow> string \<Rightarrow> bool" where
  "db_settled P d i = (\<forall>t. stored P d i = Some t \<longrightarrow> is_terminal (t_status t))"

definition waiting :: "'w platform \<Rightarrow> db \<Rightarrow> string \<Rightarrow> bool" where
  "waiting P d i = (\<exists>t. stored P d i = Some t \<and> t_admitted t \<and> \<not> is_terminal (t_status t))"

definition queued :: "db \<Rightarrow> string \<Rightarrow> bool" where
  "queued d i = (i \<in> snd ` set (db_queue d))"

definition task_ids :: "db \<Rightarrow> string set" where
  "task_ids d = fst ` set (db_tasks d)"

lemma stored_task_ids: "stored P d i = Some t \<Longrightarrow> i \<in> task_ids d"
  by (auto simp: stored_def task_ids_def split: option.splits dest: map_of_SomeD intro: rev_image_eqI)

lemma wf_row:
  "db_wf P d \<Longrightarrow> map_of (db_tasks d) i = Some row \<Longrightarrow> p_parse_task P (tk_payload row) = Some t
     \<Longrightarrow> t_id t = i \<and> (is_terminal (t_status t) \<or> tk_expires_at row = None)"
  by (simp add: db_wf_def)

lemma wf_stored_id: "db_wf P d \<Longrightarrow> stored P d i = Some t \<Longrightarrow> t_id t = i"
  by (auto simp: db_wf_def stored_def split: option.splits)

definition quiet :: "'w platform \<Rightarrow> db \<Rightarrow> db \<Rightarrow> bool" where
  "quiet P d d' =
     (db_wf P d \<longrightarrow>
        db_wf P d' \<and> db_queue d' = db_queue d \<and> db_next_seq d' = db_next_seq d \<and> task_ids d' \<subseteq> task_ids d
        \<and> (\<forall>i. db_settled P d i \<longrightarrow> db_settled P d' i) \<and> (\<forall>i. waiting P d' i \<longrightarrow> waiting P d i))"

lemma quiet_refl [simp]: "quiet P d d"
  by (simp add: quiet_def)

lemma quiet_trans: "quiet P d d' \<Longrightarrow> quiet P d' d'' \<Longrightarrow> quiet P d d''"
  unfolding quiet_def by auto

lemma quiet_same:
  assumes "db_tasks d' = db_tasks d" "db_queue d' = db_queue d" "db_next_seq d' = db_next_seq d"
  shows "quiet P d d'"
  using assms by (simp add: quiet_def db_wf_def db_settled_def waiting_def stored_def task_ids_def)

lemma stored_where_deleted:
  assumes "db_wf P d"
  shows "stored P (d\<lparr>db_tasks := delete_where p (db_tasks d)\<rparr>) i
    = (case map_of (db_tasks d) i of None \<Rightarrow> None | Some row \<Rightarrow> if p i row then None else stored P d i)"
  using assms by (auto simp: stored_def db_wf_def map_of_delete_where split: option.splits)

lemma quiet_purge: "quiet P d (d\<lparr>db_tasks := delete_where p (db_tasks d)\<rparr>)" (is "quiet P d ?d")
  unfolding quiet_def
proof (intro impI)
  assume wf: "db_wf P d"
  have "db_wf P ?d"
    using wf unfolding db_wf_def
    by (auto simp: map_of_delete_where delete_where_distinct split: option.splits if_splits)
  moreover have "task_ids ?d \<subseteq> task_ids d"
    using delete_where_subset by (fastforce simp: task_ids_def)
  moreover have "stored P ?d i = None \<or> stored P ?d i = stored P d i" for i
    using stored_where_deleted [OF wf, of p i] by (auto simp: stored_def split: option.splits if_splits)
  then have "db_settled P d i \<longrightarrow> db_settled P ?d i" "waiting P ?d i \<longrightarrow> waiting P d i" for i
    unfolding db_settled_def waiting_def by (metis option.distinct(1))+
  ultimately show "db_wf P ?d \<and> db_queue ?d = db_queue d \<and> db_next_seq ?d = db_next_seq d
      \<and> task_ids ?d \<subseteq> task_ids d \<and> (\<forall>i. db_settled P d i \<longrightarrow> db_settled P ?d i) \<and> (\<forall>i. waiting P ?d i \<longrightarrow> waiting P d i)"
    by simp
qed

text \<open>Rewriting the payload of one row.\<close>

lemma rewritten:
  assumes wf: "db_wf P d" and parse: "\<And>row. p_parse_task P (tk_payload (f row)) = Some t"
    and keyed: "t_id t = i" and expiry: "\<And>row. is_terminal (t_status t) \<or> tk_expires_at (f row) = tk_expires_at row"
    and pending: "\<not> is_terminal (t_status t) \<Longrightarrow> \<not> db_settled P d i"
  defines "d' \<equiv> d\<lparr>db_tasks := update_where (\<lambda>k _. k = i) f (db_tasks d)\<rparr>"
  shows "stored P d' j = (if j = i \<and> i \<in> task_ids d then Some t else stored P d j)"
    and "db_wf P d'" and "task_ids d' = task_ids d"
proof -
  have keys: "i \<in> task_ids d \<longleftrightarrow> map_of (db_tasks d) i \<noteq> None"
    by (simp add: task_ids_def map_of_eq_None_iff)
  show "stored P d' j = (if j = i \<and> i \<in> task_ids d then Some t else stored P d j)"
    unfolding keys by (auto simp: stored_def d'_def map_of_update_where parse split: option.splits)
  have "tk_expires_at row = None" if row: "map_of (db_tasks d) i = Some row" and t: "\<not> is_terminal (t_status t)" for row
  proof -
    obtain u where "p_parse_task P (tk_payload row) = Some u" "\<not> is_terminal (t_status u)"
      using pending [OF t] row by (auto simp: db_settled_def stored_def)
    then show ?thesis using wf_row [OF wf row] by auto
  qed
  note fresh = this
  have none: "is_terminal (t_status t) \<or> tk_expires_at row = None" if "map_of (db_tasks d) i = Some row" for row
    by (cases "is_terminal (t_status t)") (use that fresh in simp_all)
  have "t_id u = j \<and> (is_terminal (t_status u) \<or> tk_expires_at row' = None)"
    if r: "map_of (db_tasks d') j = Some row'" and u: "p_parse_task P (tk_payload row') = Some u" for j row' u
  proof -
    obtain row where row: "map_of (db_tasks d) j = Some row" "row' = (if j = i then f row else row)"
      using r by (auto simp: d'_def map_of_update_where)
    show ?thesis
    proof (cases "j = i")
      case True
      then have "u = t" using u row(2) parse [of row] by simp
      then show ?thesis using True keyed none [of row] row expiry [of row] by auto
    next
      case False
      then show ?thesis using wf row u unfolding db_wf_def by simp
    qed
  qed
  moreover have "distinct (map fst (db_tasks d'))" using wf by (simp add: db_wf_def d'_def)
  ultimately show "db_wf P d'" unfolding db_wf_def by blast
  show "task_ids d' = task_ids d"
    using update_where_keys [of "\<lambda>k _. k = i" f "db_tasks d"] by (simp add: task_ids_def d'_def flip: set_map)
qed

lemma quiet_rewrite:
  assumes parse: "\<And>row. p_parse_task P (tk_payload (f row)) = Some t"
    and keyed: "t_id t = i" and expiry: "\<And>row. is_terminal (t_status t) \<or> tk_expires_at (f row) = tk_expires_at row"
    and pending: "\<not> is_terminal (t_status t) \<Longrightarrow> \<exists>u. stored P d i = Some u \<and> \<not> is_terminal (t_status u) \<and> t_admitted u = t_admitted t"
  shows "quiet P d (d\<lparr>db_tasks := update_where (\<lambda>k _. k = i) f (db_tasks d)\<rparr>)" (is "quiet P d ?d")
  unfolding quiet_def
proof (intro impI)
  assume wf: "db_wf P d"
  have unsettled: "\<not> db_settled P d i" if "\<not> is_terminal (t_status t)"
    using pending [OF that] by (auto simp: db_settled_def)
  note r = rewritten [OF wf parse keyed expiry unsettled]
  have "db_settled P d j \<longrightarrow> db_settled P ?d j" for j
    using unsettled by (auto simp: db_settled_def r(1))
  moreover have "waiting P ?d j \<longrightarrow> waiting P d j" for j
    using pending by (auto simp: waiting_def r(1) split: if_splits)
  ultimately show "db_wf P ?d \<and> db_queue ?d = db_queue d \<and> db_next_seq ?d = db_next_seq d
      \<and> task_ids ?d \<subseteq> task_ids d \<and> (\<forall>i. db_settled P d i \<longrightarrow> db_settled P ?d i) \<and> (\<forall>i. waiting P ?d i \<longrightarrow> waiting P d i)"
    using r(2,3) by simp
qed

section \<open>Quiet operations\<close>

text \<open>The operation is quiet, and from a well-formed database its results satisfy \<open>Q\<close>.\<close>

definition does ::
  "'w platform \<Rightarrow> ('w submitter, 'e, 'a) act \<Rightarrow> ('a \<Rightarrow> bool) \<Rightarrow> bool" where
  "does P m Q =
     (\<forall>st. quiet P (sb_db st) (sb_db (snd (m st)))
        \<and> (db_wf P (sb_db st) \<longrightarrow> (\<forall>x. fst (m st) = Inr x \<longrightarrow> Q x)))"

lemma does_quiet: "does P m Q \<Longrightarrow> quiet P (sb_db st) (sb_db (snd (m st)))"
  by (simp add: does_def)

lemma does_result: "does P m Q \<Longrightarrow> db_wf P (sb_db st) \<Longrightarrow> m st = (Inr x, st') \<Longrightarrow> Q x"
  by (metis does_def fst_conv)

lemma does_mono: "does P m Q \<Longrightarrow> (\<And>x. Q x \<Longrightarrow> R x) \<Longrightarrow> does P m R"
  by (simp add: does_def)

lemma does_return [intro]: "Q a \<Longrightarrow> does P (return_op a) Q"
  by (simp add: does_def return_op_def)

lemma does_lift [intro]: "(\<And>a. r = Inr a \<Longrightarrow> Q a) \<Longrightarrow> does P (lift_op r) Q"
  by (simp add: does_def lift_op_def)

lemma does_bind:
  assumes "does P m Q" "\<And>a. Q a \<Longrightarrow> does P (f a) R"
  shows "does P (bind_op m f) R"
  unfolding does_def
proof
  fix st
  obtain r st1 where m: "m st = (r, st1)" by fastforce
  have q: "quiet P (sb_db st) (sb_db st1)" using does_quiet [OF assms(1), of st] m by simp
  have goal: "quiet P (sb_db st) (sb_db (snd (bind_op m f st)))
      \<and> (\<forall>x. fst (bind_op m f st) = Inr x \<longrightarrow> R x)" if wf: "db_wf P (sb_db st)"
  proof (cases r)
    case (Inl e)
    then show ?thesis using m q by (simp add: bind_op_def)
  next
    case (Inr a)
    have fa: "does P (f a) R" using assms(2) does_result [OF assms(1) wf] m Inr by blast
    have "db_wf P (sb_db st1)" using q wf by (simp add: quiet_def)
    then show ?thesis
      using m Inr quiet_trans [OF q does_quiet [OF fa]] fa by (simp add: bind_op_def does_def)
  qed
  then show "quiet P (sb_db st) (sb_db (snd (bind_op m f st)))
      \<and> (db_wf P (sb_db st) \<longrightarrow> (\<forall>x. fst (bind_op m f st) = Inr x \<longrightarrow> R x))"
    by (cases "db_wf P (sb_db st)") (simp_all add: quiet_def)
qed

lemma does_seq: "does P m (\<lambda>_. True) \<Longrightarrow> (\<And>a. does P (f a) R) \<Longrightarrow> does P (bind_op m f) R"
  by (rule does_bind)

lemma does_any: "does P m Q \<Longrightarrow> does P m (\<lambda>_. True)"
  by (rule does_mono) simp_all

lemma sql_db:
  "sb_db (snd (sql P statement st)) = sb_db st \<or> sb_db (snd (sql P statement st)) = snd (statement (sb_db st))"
  by (simp add: sql_def Let_def split_def split: sql_fate.split)

lemma sql_Inr: "fst (sql P statement st) = Inr a \<Longrightarrow> a = fst (statement (sb_db st)) \<and> sb_db (snd (sql P statement st)) = snd (statement (sb_db st))"
  by (simp add: sql_def Let_def split_def split: sql_fate.splits)

lemma does_sql:
  assumes "\<And>d. quiet P d (snd (statement d))" "\<And>d. db_wf P d \<Longrightarrow> Q (fst (statement d))"
  shows "does P (sql P statement) Q"
  unfolding does_def using sql_db [of P statement] sql_Inr [of P statement] assms by (metis quiet_refl)

lemma does_write [intro]: "(\<And>d. quiet P d (f d)) \<Longrightarrow> does P (sql_write P f) (\<lambda>_. True)"
  unfolding sql_write_def by (rule does_sql) simp_all

lemma does_read [intro]: "(\<And>d. db_wf P d \<Longrightarrow> Q (f d)) \<Longrightarrow> does P (sql_read P f) Q"
  unfolding sql_read_def by (rule does_sql) simp_all

lemma now_ms_db [simp]: "sb_db (snd (now_ms H st)) = sb_db st"
  by (simp add: now_ms_def Let_def split_def)

lemma does_clocked [intro]: "(\<And>now. does P (f now) Q) \<Longrightarrow> does P (clocked H f) Q"
  unfolding does_def clocked_def by (simp add: Let_def split_def) (metis now_ms_db)

lemma do_net_db [simp]: "sb_db (snd (do_net m st)) = sb_db st"
  by (simp add: do_net_def Let_def split_def)

lemma does_net [intro]: "does P (do_net m) (\<lambda>_. True)"
  by (simp add: does_def)

lemma does_schedule [intro]: "does P (schedule P' d) (\<lambda>_. True)" "does P (get_alarm P') (\<lambda>_. True)"
  by (simp_all add: does_def schedule_def get_alarm_def Let_def split_def)

lemma quiet_fields [simp]:
  "quiet P d (d\<lparr>db_content := c\<rparr>)" "quiet P d (d\<lparr>db_keys := k\<rparr>)" "quiet P d (d\<lparr>db_retry := r\<rparr>)"
  "quiet P d (d\<lparr>db_rates := m\<rparr>)" "quiet P d (d\<lparr>db_ledger := l\<rparr>)" "quiet P d (d\<lparr>db_alerts := a\<rparr>)"
  "quiet P d (d\<lparr>db_meta := e\<rparr>)" "quiet P d (d\<lparr>db_dlq := q\<rparr>)" 
  by (rule quiet_same; simp)+

lemma does_open: "does P (open_db P H) (\<lambda>_. True)"
  unfolding open_db_def bootstrap_def purge_expired_def
  by (intro does_seq does_write does_clocked quiet_purge quiet_fields quiet_refl)

lemma does_indexes: "does P (do_drop_indexes P i) (\<lambda>_. True)" "does P (do_expire_indexes P i e) (\<lambda>_. True)"
  unfolding do_drop_indexes_def do_expire_indexes_def by (intro does_seq does_write quiet_fields)+

section \<open>Reading tasks\<close>

lemma sql_read_eq: "sql_read P f st = (r, st') \<Longrightarrow> sb_db st' = sb_db st \<and> (\<forall>a. r = Inr a \<longrightarrow> a = f (sb_db st))"
  using sql_db [of P "\<lambda>d. (f d, d)" st] sql_Inr [of P "\<lambda>d. (f d, d)" st] by (auto simp: sql_read_def)

lemma do_get_task_eq:
  assumes "do_get_task P H i st = (r, st')"
  shows "sb_db st' = sb_db st"
    and "db_wf P (sb_db st) \<Longrightarrow> r = Inr (Some t) \<Longrightarrow> stored P (sb_db st) i = Some t"
    and "db_wf P (sb_db st) \<Longrightarrow> r = Inr None \<Longrightarrow> db_settled P (sb_db st) i"
proof -
  obtain now st1 where now: "now_ms H st = (now, st1)" by fastforce
  let ?f = "\<lambda>d. case map_of (db_tasks d) i of
         None \<Rightarrow> None
       | Some row \<Rightarrow> if expired now (tk_expires_at row) then None else Some (tk_payload row)"
  obtain a st2 where rd: "sql_read P ?f st1 = (a, st2)" by fastforce
  have db1: "sb_db st1 = sb_db st" using now_ms_db [of H st] now by simp
  have eqs: "sb_db st2 = sb_db st" "\<And>p. a = Inr p \<Longrightarrow> p = ?f (sb_db st)"
    using sql_read_eq [OF rd] db1 by simp_all
  have r: "st' = st2" "r = (case a of Inl e \<Rightarrow> Inl e
      | Inr p \<Rightarrow> Inr (case p of None \<Rightarrow> None | Some p \<Rightarrow> p_parse_task P p))"
    using assms now rd by (auto simp: do_get_task_def clocked_def bind_op_def return_op_def split: sum.splits)
  show "sb_db st' = sb_db st" using eqs r by simp
  show "stored P (sb_db st) i = Some t" if "r = Inr (Some t)"
    using that eqs(2) r(2) by (cases a) (auto simp: stored_def split: option.splits if_splits)
  show "db_settled P (sb_db st) i" if wf: "db_wf P (sb_db st)" and none: "r = Inr None"
    unfolding db_settled_def
  proof (intro allI impI)
    fix u
    assume u: "stored P (sb_db st) i = Some u"
    obtain row where row: "map_of (db_tasks (sb_db st)) i = Some row" "p_parse_task P (tk_payload row) = Some u"
      using u by (auto simp: stored_def split: option.splits)
    obtain p where p: "a = Inr p" using none r(2) by (cases a) auto
    have "expired now (tk_expires_at row)"
      using none r(2) p eqs(2) [OF p] row by (auto split: if_splits)
    then have "tk_expires_at row \<noteq> None" by (auto simp: expired_def split: option.splits)
    then show "is_terminal (t_status u)" using wf_row [OF wf row] by auto
  qed
qed

lemma do_find_by_index_eq:
  assumes "do_find_by_index P H table v st = (r, st')"
  shows "sb_db st' = sb_db st"
    and "db_wf P (sb_db st) \<Longrightarrow> r = Inr (Some t) \<Longrightarrow> \<exists>i. stored P (sb_db st) i = Some t"
proof -
  obtain now st1 where now: "now_ms H st = (now, st1)" by fastforce
  let ?f = "\<lambda>d. case map_of (table d) v of
         None \<Rightarrow> None
       | Some row \<Rightarrow> if expired now (ix_expires_at row) then None else Some (ix_task_id row)"
  obtain a st2 where rd: "sql_read P ?f st1 = (a, st2)" by fastforce
  have db2: "sb_db st2 = sb_db st" using sql_read_eq [OF rd] now_ms_db [of H st] now by simp
  have "sb_db st' = sb_db st \<and> (db_wf P (sb_db st) \<longrightarrow> r = Inr (Some t) \<longrightarrow> (\<exists>i. stored P (sb_db st) i = Some t))"
  proof (cases "\<exists>i. a = Inr (Some i)")
    case True
    then obtain i where i: "a = Inr (Some i)" ..
    have "do_get_task P H i st2 = (r, st')"
      using assms now rd i by (simp add: do_find_by_index_def clocked_def bind_op_def)
    then show ?thesis using do_get_task_eq(1,2) db2 by metis
  next
    case False
    then have "st' = st2" "r \<noteq> Inr (Some t)"
      using assms now rd
      by (auto simp: do_find_by_index_def clocked_def bind_op_def return_op_def split: sum.splits option.splits)
    then show ?thesis using db2 by simp
  qed
  then show "sb_db st' = sb_db st"
    "db_wf P (sb_db st) \<Longrightarrow> r = Inr (Some t) \<Longrightarrow> \<exists>i. stored P (sb_db st) i = Some t"
    by simp_all
qed

lemma does_get_task: "does P (do_get_task P H i) (\<lambda>r. \<forall>t. r = Some t \<longrightarrow> t_id t = i)"
  unfolding does_def
proof (intro allI conjI impI)
  fix st
  obtain r st' where g: "do_get_task P H i st = (r, st')" by fastforce
  show "quiet P (sb_db st) (sb_db (snd (do_get_task P H i st)))" using do_get_task_eq(1) [OF g] g by simp
  fix x t
  assume "db_wf P (sb_db st)" "fst (do_get_task P H i st) = Inr x" "x = Some t"
  then show "t_id t = i" using do_get_task_eq(2) [OF g] g wf_stored_id by auto
qed

text \<open>The tables that decide which tasks are waiting.\<close>

definition core :: "db \<Rightarrow> (string \<times> task_row) list \<times> (int \<times> string) list \<times> int" where
  "core d = (db_tasks d, db_queue d, db_next_seq d)"

lemma core_fields [simp]:
  "core (d\<lparr>db_content := c\<rparr>) = core d" "core (d\<lparr>db_keys := k\<rparr>) = core d"
  by (simp_all add: core_def)

section \<open>Terminal transitions\<close>

locale platform_laws =
  fixes P :: "'w platform"
  assumes ok: "platform_ok P"
begin

lemma does_payload: "does P (to_payload P t) (\<lambda>p. p_parse_task P p = Some t)"
  unfolding to_payload_def using ok by (intro does_lift) (auto simp: platform_ok_def ok_or_def split: option.splits)

lemma quiet_terminal:
  assumes "is_terminal (t_status t)" "p_parse_task P p = Some t"
  shows "quiet P d (d\<lparr>db_tasks := update_where (\<lambda>k _. k = t_id t) (terminal_row p failed e) (db_tasks d)\<rparr>)"
  using assms by (intro quiet_rewrite [of _ _ t]) (simp_all add: terminal_row_def)

lemma does_terminal:
  assumes "is_terminal (t_status t)"
  shows "does P (transition_terminal P H t ttl failed) (\<lambda>_. True)"
  unfolding transition_terminal_def Let_def
  by (rule does_bind [OF does_payload], rule does_clocked, rule does_seq)
    (auto intro: quiet_terminal [OF assms] does_indexes)

lemma terminal_settles:
  assumes t: "is_terminal (t_status t)" and wf: "db_wf P (sb_db st)"
    and run: "transition_terminal P H t ttl failed st = (Inr x, st')"
  shows "db_settled P (sb_db st') (t_id t)"
proof -
  obtain p where p: "p_task_json P t = Some p"
    using run by (auto simp: transition_terminal_def to_payload_def bind_op_def lift_op_def ok_or_def split: option.splits)
  then have parse: "p_parse_task P p = Some t" using ok by (simp add: platform_ok_def)
  obtain now st1 where now: "now_ms H st = (now, st1)" by fastforce
  let ?f = "\<lambda>d. d\<lparr>db_tasks := update_where (\<lambda>k _. k = t_id t) (terminal_row p failed (now + ttl)) (db_tasks d)\<rparr>"
  let ?rest = "if failed then do_drop_indexes P (t_id t) else do_expire_indexes P (t_id t) (now + ttl)"
  have "bind_op (sql_write P ?f) (\<lambda>_. ?rest) st1 = (Inr x, st')"
    using run now p by (simp add: transition_terminal_def to_payload_def bind_op_def lift_op_def ok_or_def clocked_def Let_def)
  then obtain y st2 where w: "sql_write P ?f st1 = (Inr y, st2)" and rest: "?rest st2 = (Inr x, st')"
    unfolding bind_op_Inr by blast
  have d2: "sb_db st2 = ?f (sb_db st)"
    using sql_Inr [of P "\<lambda>d. ((), ?f d)" st1] w now_ms_db [of H st] now by (simp add: sql_write_def)
  have "db_settled P (sb_db st2) (t_id t)"
    using t parse by (auto simp: db_settled_def stored_def d2 map_of_update_where terminal_row_def split: option.splits)
  moreover have "db_wf P (sb_db st2)"
    using quiet_terminal [OF t parse, of "sb_db st"] wf unfolding d2 quiet_def by blast
  moreover have "quiet P (sb_db st2) (sb_db st')"
  proof -
    have "sb_db st' = sb_db (snd (?rest st2))" using rest by simp
    then show ?thesis
      using does_quiet [OF does_indexes(1) [of P "t_id t"], of st2]
        does_quiet [OF does_indexes(2) [of P "t_id t" "now + ttl"], of st2] by (simp split: if_splits)
  qed
  ultimately show ?thesis by (simp add: quiet_def)
qed

lemma terminal_tasks [simp]:
  "t_id (done_task h n t) = t_id t" "t_status (done_task h n t) = DoneStatus"
  "t_id (failed_task c m t) = t_id t" "t_status (failed_task c m t) = Failed"
  "t_id (retried_task m t) = t_id t" "t_status (retried_task m t) = t_status t" "t_admitted (retried_task m t) = t_admitted t"
  "t_id (exhausted_task t) = t_id t" "t_status (exhausted_task t) = Failed"
  by (simp_all add: done_task_def failed_task_def retried_task_def exhausted_task_def)

text \<open>The shape of \<^verbatim>\<open>mark_done\<close> and \<^verbatim>\<open>mark_failed\<close>: load a task, make it terminal, store it.\<close>

lemma does_finish:
  assumes "\<And>t. is_terminal (t_status (f t))"
  shows "does P (bind_op (do_get_task P H i) (\<lambda>found. case found of None \<Rightarrow> return_op None
      | Some t \<Rightarrow> (let t = f t in bind_op (transition_terminal P H t ttl failed) (\<lambda>_. return_op (Some t))))) (\<lambda>_. True)"
  by (rule does_bind [OF does_get_task])
    (auto simp: Let_def split: option.split intro!: does_seq does_terminal assms)

lemma finish_settles:
  assumes fin: "\<And>t. is_terminal (t_status (f t))" and id: "\<And>t. t_id (f t) = t_id t" and wf: "db_wf P (sb_db st)"
    and run: "bind_op (do_get_task P H i) (\<lambda>found. case found of None \<Rightarrow> return_op None
      | Some t \<Rightarrow> (let t = f t in bind_op (transition_terminal P H t ttl failed) (\<lambda>_. return_op (Some t)))) st = (Inr x, st')"
  shows "db_settled P (sb_db st') i"
proof -
  obtain r st1 where g: "do_get_task P H i st = (Inr r, st1)"
    and k: "(case r of None \<Rightarrow> return_op None
      | Some t \<Rightarrow> (let t = f t in bind_op (transition_terminal P H t ttl failed) (\<lambda>_. return_op (Some t)))) st1 = (Inr x, st')"
    using run unfolding bind_op_Inr by blast
  note g' = do_get_task_eq [OF g]
  show ?thesis
  proof (cases r)
    case None
    then show ?thesis using k g'(1) g'(3) [OF wf] by (simp add: return_op_def)
  next
    case (Some t)
    have t: "t_id t = i" using wf_stored_id [OF wf] g'(2) [OF wf] Some by blast
    obtain y st2 where tt: "transition_terminal P H (f t) ttl failed st1 = (Inr y, st2)" and st2: "st' = st2"
      using k Some by (auto simp: Let_def bind_op_Inr return_op_def)
    have "db_wf P (sb_db st1)" using wf g'(1) by simp
    from terminal_settles [OF fin this tt] show ?thesis using t id st2 by simp
  qed
qed

lemma does_mark: "does P (do_mark_done P H i h n) (\<lambda>_. True)" "does P (do_mark_failed P H i c m) (\<lambda>_. True)"
  unfolding do_mark_done_def do_mark_failed_def by (intro does_finish; simp)+

lemma mark_settles:
  assumes "db_wf P (sb_db st)"
  shows "do_mark_done P H i h n st = (Inr x, st') \<Longrightarrow> db_settled P (sb_db st') i"
    "do_mark_failed P H i c m st = (Inr x, st') \<Longrightarrow> db_settled P (sb_db st') i"
  using finish_settles [of "done_task h n" st H i TASK_DONE_TTL_MS False x st', OF _ _ assms]
    finish_settles [of "failed_task c m" st H i TASK_FAILED_TTL_MS True x st', OF _ _ assms]
  by (simp_all add: do_mark_done_def do_mark_failed_def)

lemma quiet_transient: "quiet P (sb_db st) (sb_db (snd (do_record_transient_failure P H i m st)))"
proof (cases "db_wf P (sb_db st)")
  case wf: True
  obtain r st1 where g: "do_get_task P H i st = (r, st1)" by fastforce
  note g' = do_get_task_eq [OF g]
  show ?thesis
  proof (cases "\<exists>t. r = Inr (Some t) \<and> \<not> is_terminal (t_status t)")
    case False
    then have "sb_db (snd (do_record_transient_failure P H i m st)) = sb_db st"
      using g'(1) g by (auto simp: do_record_transient_failure_def bind_op_def return_op_def split: sum.splits option.splits)
    then show ?thesis by simp
  next
    case True
    then obtain t where t: "r = Inr (Some t)" "\<not> is_terminal (t_status t)" by blast
    have stored: "stored P (sb_db st1) i = Some t" "t_id t = i"
      using g'(1) g'(2) [OF wf t(1)] wf_stored_id [OF wf] by simp_all
    let ?t = "retried_task m t"
    show ?thesis
    proof (cases "10 \<le> t_retries ?t")
      case True
      have "does P (bind_op (transition_terminal P H (exhausted_task ?t) TASK_FAILED_TTL_MS True)
          (\<lambda>_. return_op (Some (exhausted_task ?t)))) (\<lambda>_. True)" (is "does P ?m _")
        by (intro does_seq does_terminal does_return) simp_all
      moreover have "do_record_transient_failure P H i m st = ?m st1"
        using g t True by (simp add: do_record_transient_failure_def bind_op_def Let_def)
      ultimately show ?thesis using does_quiet [of P ?m _ st1] g'(1) by simp
    next
      case False
      let ?f = "\<lambda>p d. d\<lparr>db_tasks := update_where (\<lambda>k _. k = i) (\<lambda>row. row\<lparr>tk_payload := p\<rparr>) (db_tasks d)\<rparr>"
      have eq: "do_record_transient_failure P H i m st =
          bind_op (to_payload P ?t) (\<lambda>p. bind_op (sql_write P (?f p)) (\<lambda>_. return_op (Some ?t))) st1"
        using g t False by (simp add: do_record_transient_failure_def bind_op_def Let_def)
      show ?thesis
      proof (cases "p_task_json P ?t")
        case None
        then show ?thesis using eq g'(1) by (simp add: to_payload_def bind_op_def lift_op_def ok_or_def)
      next
        case (Some p)
        have "p_parse_task P p = Some ?t" using ok Some by (simp add: platform_ok_def)
        then have "quiet P (sb_db st1) (?f p (sb_db st1))"
          using stored t(2) by (intro quiet_rewrite [of _ _ ?t]) simp_all
        moreover obtain w st2 where w: "sql_write P (?f p) st1 = (w, st2)" by fastforce
        moreover have "sb_db st2 = sb_db st1 \<or> sb_db st2 = ?f p (sb_db st1)"
          using sql_db [of P "\<lambda>d. ((), ?f p d)" st1] w by (simp add: sql_write_def)
        moreover have "snd (do_record_transient_failure P H i m st) = st2"
          using eq Some w by (cases w) (simp_all add: to_payload_def bind_op_def lift_op_def ok_or_def return_op_def)
        ultimately show ?thesis using g'(1) by (metis quiet_refl)
      qed
    qed
  qed
qed (simp add: quiet_def)

section \<open>The shells\<close>

lemma quiet_ledger:
  "quiet P (sb_db st) (sb_db (snd (do_record_pending_tx P role nonce h sent k fees st)))"
  "quiet P (sb_db st) (sb_db (snd (do_delete_pending_tx P role nonce st)))"
  unfolding do_record_pending_tx_def do_delete_pending_tx_def
  by (rule does_quiet [OF does_write], simp)+

lemma quiet_rates: "does P (bump_minute_counter P H key) (\<lambda>_. True)"
  unfolding bump_minute_counter_def Let_def by (intro does_clocked does_sql) simp_all

lemma does_stats: "does P (do_queue_stats P H) (\<lambda>_. True)"
  unfolding do_queue_stats_def
  by (intro does_seq does_read TrueI) (auto split: option.split intro: does_clocked)

lemma do_net_eq: "do_net m st = (r, st') \<Longrightarrow> sb_db st' = sb_db st"
  using do_net_db [of m st] by simp

lemma quiet_await: "quiet P (sb_db st) (sb_db (snd (do_await_receipt P H nonce h st)))"
proof -
  obtain r st1 where r: "do_net (cf_wait_for_receipt H h 60000) st = (r, st1)" by fastforce
  show ?thesis
    using do_net_eq [OF r] quiet_ledger(2) [of st1 "ledger_name RegisterWallet" nonce]
    by (simp add: do_await_receipt_def r split: sum.split receipt_outcome.split)
qed

lemma acquire_db: "do_acquire_nonce H C st = (r, st') \<Longrightarrow> sb_db st' = sb_db st"
  by (auto simp: do_acquire_nonce_def Let_def split: option.splits prod.splits sum.splits dest: do_net_eq)

lemma quiet_submit: "quiet P (sb_db st) (sb_db (snd (do_submit X P H C task st)))"
proof -
  obtain a st1 where a: "do_acquire_nonce H C st = (a, st1)" by fastforce
  show ?thesis
  proof (cases a)
    case (Inl e)
    then show ?thesis using a acquire_db [OF a] by (simp add: do_submit_def)
  next
    case (Inr nonce)
    obtain b st2 where b: "do_net (cf_register X H C task nonce) st1 = (b, st2)" by fastforce
    have d2: "sb_db st2 = sb_db st" using do_net_eq [OF b] acquire_db [OF a] by simp
    show ?thesis
    proof (cases b)
      case (Inl e)
      then show ?thesis using a b \<open>a = Inr nonce\<close> d2 by (simp add: do_submit_def)
    next
      case (Inr br)
      obtain now st3 where now: "now_ms H st2 = (now, st3)" by fastforce
      let ?st = "snd (do_record_pending_tx P (ledger_name RegisterWallet) nonce (bc_hash br) now 0 (bc_fees_wei br) st3)"
      have "sb_db st3 = sb_db st" using now_ms_db [of H st2] now d2 by simp
      moreover have "do_submit X P H C task st = do_await_receipt P H nonce (bc_hash br) ?st"
        using a b now \<open>a = Inr nonce\<close> Inr by (simp add: do_submit_def)
      ultimately show ?thesis
        using quiet_trans [OF quiet_ledger(1) [of st3 "ledger_name RegisterWallet" nonce "bc_hash br" now 0 "bc_fees_wei br"]
            quiet_await [of _ H nonce "bc_hash br"]] by simp
    qed
  qed
qed

lemma load_tasks_eq:
  assumes "do_load_tasks P H ids st = (r, st')"
  shows "sb_db st' = sb_db st
    \<and> (db_wf P (sb_db st) \<longrightarrow> (\<forall>ts i. r = Inr ts \<longrightarrow> i \<in> set ids \<longrightarrow>
         db_settled P (sb_db st) i \<or> (\<exists>t. Some t \<in> set ts \<and> t_id t = i \<and> \<not> is_terminal (t_status t))))"
  using assms
proof (induction ids arbitrary: st r st')
  case (Cons j ids)
  obtain f st1 where f: "do_get_task P H j st = (f, st1)" by fastforce
  note f' = do_get_task_eq [OF f]
  show ?case
  proof (cases f)
    case (Inl e)
    then show ?thesis using Cons.prems f f'(1) by (auto simp: bind_op_def)
  next
    case (Inr x)
    obtain r2 st2 where l: "do_load_tasks P H ids st1 = (r2, st2)" by fastforce
    have eq: "st' = st2" "r = (case r2 of Inl e \<Rightarrow> Inl e | Inr ts \<Rightarrow> Inr (x # ts))"
      using Cons.prems f Inr l by (auto simp: bind_op_def return_op_def split: sum.splits)
    have head: "db_settled P (sb_db st) j \<or> (\<exists>t. x = Some t \<and> t_id t = j \<and> \<not> is_terminal (t_status t))"
      if wf: "db_wf P (sb_db st)"
    proof (cases x)
      case None
      then show ?thesis using f'(3) [OF wf] Inr by simp
    next
      case (Some t)
      then have "stored P (sb_db st) j = Some t" using f'(2) [OF wf] Inr by simp
      then show ?thesis using wf_stored_id [OF wf] Some by (auto simp: db_settled_def)
    qed
    show ?thesis
      using Cons.IH [OF l] eq f'(1) head by (auto split: sum.splits)
  qed
qed (simp add: return_op_def)

lemma quiet_execute_submission: "quiet P (sb_db st) (sb_db (snd (execute_submission X P H C st q)))"
proof (cases q)
  case (LoadTasks ids)
  obtain r st1 where l: "do_load_tasks P H ids st = (r, st1)" by fastforce
  then show ?thesis using load_tasks_eq [OF l] LoadTasks by (simp add: execute_submission_def split: sum.split)
qed (use quiet_submit [of st X H C] does_quiet [OF does_mark(1), of st H] does_quiet [OF does_mark(2), of st H]
      quiet_transient [of st H] in \<open>auto simp: execute_submission_def split: sum.split\<close>)

lemma execute_submission_settles:
  assumes wf: "db_wf P (sb_db st)" and ex: "execute_submission X P H C st q = (r, st')" and s: "settles i (q, r)"
  shows "db_settled P (sb_db st') i"
proof (cases q)
  case (MarkDone j h n)
  obtain a st1 where m: "do_mark_done P H j h n st = (a, st1)" by fastforce
  have "r = store_ack a" "st' = st1" using ex m by (auto simp: MarkDone execute_submission_def)
  moreover have "i = j" "r = Persisted" using s MarkDone by (cases r; simp)+
  ultimately show ?thesis using mark_settles(1) [OF wf, of H j h n] m by (cases a) (simp_all add: store_ack_def)
next
  case (MarkFailed j k x)
  obtain a st1 where m: "do_mark_failed P H j (as_store_class k) x st = (a, st1)" by fastforce
  have "r = store_ack a" "st' = st1" using ex m by (auto simp: MarkFailed execute_submission_def)
  moreover have "i = j" "r = Persisted" using s MarkFailed by (cases r; simp)+
  ultimately show ?thesis using mark_settles(2) [OF wf, of H j "as_store_class k" x] m by (cases a) (simp_all add: store_ack_def)
qed (use s in simp_all)

lemma execute_submission_loads:
  assumes wf: "db_wf P (sb_db st)" and ex: "execute_submission X P H C st (LoadTasks ids) = (TasksLoaded ts, st')"
    and i: "i \<in> set ids"
  shows "db_settled P (sb_db st') i \<or> (\<exists>t. Some t \<in> set ts \<and> t_id t = i \<and> \<not> is_terminal (t_status t))"
proof -
  obtain r st1 where l: "do_load_tasks P H ids st = (r, st1)" by fastforce
  have "r = Inr ts" "st' = st1" using ex l by (auto simp: execute_submission_def split: sum.splits)
  then show ?thesis using load_tasks_eq [OF l] wf i by simp
qed

section \<open>Requests and maintenance\<close>

lemma sql_write_eq:
  "sql_write P f st = (r, st') \<Longrightarrow> (sb_db st' = sb_db st \<or> sb_db st' = f (sb_db st)) \<and> (r = Inr u \<longrightarrow> sb_db st' = f (sb_db st))"
  using sql_db [of P "\<lambda>d. ((), f d)" st] sql_Inr [of P "\<lambda>d. ((), f d)" st] by (auto simp: sql_write_def)

lemma quiet_alert: "quiet P (sb_db st) (sb_db (do_alert_throttled P H kind m st))"
proof -
  obtain now st1 where now: "now_ms H st = (now, st1)" by fastforce
  obtain r st2 where r: "alert_last_fired P kind st1 = (r, st2)" by fastforce
  let ?f = "\<lambda>d. d\<lparr>db_alerts := insert_or_replace kind now (db_alerts d)\<rparr>"
  obtain w st3 where w: "sql_write P ?f st2 = (w, st3)" by fastforce
  have "sb_db st2 = sb_db st"
    using sql_read_eq [OF r [unfolded alert_last_fired_def]] now_ms_db [of H st] now by simp
  moreover have "quiet P (sb_db st2) (sb_db st3)" using sql_write_eq [OF w] by auto
  ultimately show ?thesis by (simp add: do_alert_throttled_def now r w split: sum.split)
qed

lemma quiet_action: "quiet P (sb_db st) (sb_db (do_action X P H C role base rows now a st))"
proof (cases a)
  case (Replace nonce attempts previous)
  show ?thesis
  proof (cases "plan_replacement (previous_plan previous) base (ucast DEFAULT_TIP_WEI) (ch_max_gas_price_wei C)
             (saturating_sub attempts 1)")
    case (Send fees)
    obtain e st1 where e: "do_net (cf_cancel_stuck_nonce X H C role nonce fees) st = (e, st1)" by fastforce
    show ?thesis
      using do_net_eq [OF e] quiet_ledger(1) [of st1]
      by (auto simp: do_action_def do_replace_stuck_def Replace Send e Let_def split: sum.split prod.split)
  next
    case (TooExpensive required cap)
    then show ?thesis by (simp add: do_action_def do_replace_stuck_def Replace quiet_alert)
  qed
qed (simp_all add: do_action_def quiet_alert quiet_ledger)

lemma quiet_fold: "(\<And>a st. quiet P (sb_db st) (sb_db (f a st))) \<Longrightarrow> quiet P (sb_db st) (sb_db (fold f as st))"
  by (induction "as" arbitrary: st) (auto intro: quiet_trans)

lemma quiet_sweep: "quiet P (sb_db st) (sb_db (do_unstick_sweep X P H C st))"
proof -
  obtain now st1 where now: "now_ms H st = (now, st1)" by fastforce
  obtain r st2 where r: "do_list_pending_txs P (i64_sub now (sint STUCK_TX_AGE_MS)) st1 = (r, st2)" by fastforce
  obtain b st3 where b: "do_net (cf_base_fee H) st2 = (b, st3)" by fastforce
  have d: "sb_db st3 = sb_db st" "sb_db st2 = sb_db st"
    using sql_read_eq [OF r [unfolded do_list_pending_txs_def]] now_ms_db [of H st] now do_net_eq [OF b] by simp_all
  have role: "quiet P (sb_db s) (sb_db (do_sweep_role X P H C base rows now role s))" for base rows role s
  proof -
    obtain c s1 where c: "do_net (cf_confirmed_nonce H C role) s = (c, s1)" by fastforce
    show ?thesis
      using do_net_eq [OF c] quiet_fold [of "do_action X P H C role base rows now" s1, OF quiet_action]
      by (simp add: do_sweep_role_def c split: sum.split)
  qed
  show ?thesis
    using d role [of st3] by (auto simp: do_unstick_sweep_def now r b split: sum.split)
qed

lemma quiet_check_alerts: "quiet P (sb_db st) (sb_db (do_check_alerts P H st))"
proof -
  obtain circuit n where c: "cf_rpc_circuit_state H (sb_net st) = (circuit, n)" by fastforce
  let ?st = "if circuit = ''open'' then do_alert_throttled P H ''rpc'' rpc_circuit_alert (st\<lparr>sb_net := n\<rparr>) else st\<lparr>sb_net := n\<rparr>"
  obtain r st2 where r: "do_queue_stats P H ?st = (r, st2)" by fastforce
  have "quiet P (sb_db st) (sb_db ?st)" using quiet_alert [of "st\<lparr>sb_net := n\<rparr>" H "''rpc''" rpc_circuit_alert] by simp
  moreover have "quiet P (sb_db ?st) (sb_db st2)" using does_quiet [OF does_stats, of ?st H] r by simp
  ultimately have q: "quiet P (sb_db st) (sb_db st2)" by (rule quiet_trans)
  have "do_check_alerts P H st = st2 \<or> (\<exists>m. do_check_alerts P H st = do_alert_throttled P H ''dlq'' m st2)"
    using r by (auto simp: do_check_alerts_def c Let_def split: sum.split)
  then show ?thesis using q quiet_trans [OF q quiet_alert] by auto
qed

lemma quiet_heartbeat: "quiet P (sb_db st) (sb_db (snd (heartbeat_gate P H st)))"
proof -
  obtain now st1 where now: "now_ms H st = (now, st1)" by fastforce
  obtain a st2 where a: "meta_get_or_insert P ''started_at'' now st1 = (a, st2)" by fastforce
  obtain b st3 where b: "meta_get P ''last_heartbeat'' st2 = (b, st3)" by fastforce
  obtain c st4 where c: "meta_set P ''last_heartbeat'' now st3 = (c, st4)" by fastforce
  have "does P (meta_get_or_insert P ''started_at'' now) (\<lambda>_. True)"
    unfolding meta_get_or_insert_def meta_get_def meta_set_def
    by (rule does_seq) (auto intro!: does_seq split: option.split)
  then have "quiet P (sb_db st) (sb_db st2)"
    using does_quiet [of P _ _ st1] a now_ms_db [of H st] now by (metis snd_conv)
  moreover have "sb_db st3 = sb_db st2" using sql_read_eq [OF b [unfolded meta_get_def]] by simp
  moreover have "quiet P (sb_db st3) (sb_db st4)" using sql_write_eq [OF c [unfolded meta_set_def]] by auto
  moreover have "snd (heartbeat_gate P H st) = st3 \<or> snd (heartbeat_gate P H st) = st4"
    by (auto simp: heartbeat_gate_def now a b c Let_def split: sum.split)
  ultimately show ?thesis using quiet_trans by metis
qed

lemma quiet_find: "quiet P (sb_db st) (sb_db (snd (do_find_by_index P H table v st)))"
  using do_find_by_index_eq(1) [of P H table v st] by (metis prod.collapse quiet_refl)

lemma quiet_serve: "does P (serve X P H conf request) (\<lambda>_. True)"
proof -
  have pass: "does P (maintenance_pass X P H conf) (\<lambda>_. True)"
    unfolding maintenance_pass_def
    by (rule does_seq, rule does_lift, rule TrueI)
      (auto simp: does_def intro: quiet_trans [OF quiet_trans [OF quiet_sweep quiet_check_alerts] quiet_heartbeat] split: prod.split)
  have find: "does P (do_find_by_public_key P H key) (\<lambda>_. True)" for key
    unfolding do_find_by_public_key_def does_def by (simp add: quiet_find)
  have stats: "does P (do_stats P H conf) (\<lambda>_. True)"
    unfolding do_stats_def by (auto intro!: does_seq does_stats split: prod.split)
  show ?thesis
    unfolding serve_def
    by (rule does_seq [OF does_open], cases request)
      (auto intro!: does_seq pass find stats quiet_rates does_any [OF does_get_task])
qed

lemma quiet_begin_admission: "does P (begin_admission X P H conf request n) (\<lambda>_. True)"
  unfolding begin_admission_def by (rule does_seq [OF does_open], rule does_seq) (auto split: prod.split)

lemma quiet_finish_admission: "does P (finish_admission P outcome) (\<lambda>_. True)"
  unfolding finish_admission_def ensure_alarm_def by (auto split: admission_outcome.split intro!: does_seq)

section \<open>Admission and the queue\<close>

lemma claim_keys_core: "core (sb_db (snd (claim_keys P i keys st))) = core (sb_db st)"
proof (induction keys arbitrary: st)
  case (Cons key keys)
  let ?f = "\<lambda>d. d\<lparr>db_keys := insert_or_ignore key \<lparr>ix_task_id = i, ix_expires_at = None\<rparr> (db_keys d)\<rparr>"
  obtain r st1 where w: "sql_write P ?f st = (r, st1)" by fastforce
  have "core (sb_db st1) = core (sb_db st)" using sql_write_eq [OF w] by auto
  then show ?case using Cons.IH [of st1] by (simp add: bind_op_def w split: sum.split)
qed (simp add: return_op_def)

lemma do_admit_core:
  assumes "do_admit P H t st = (r, st')"
  shows "core (sb_db st') = core (sb_db st)
    \<or> (\<exists>p. p_parse_task P p = Some t \<and> core (sb_db st') =
          (insert_or_replace (t_id t) (new_row t p) (db_tasks (sb_db st)), db_queue (sb_db st), db_next_seq (sb_db st)))"
proof -
  obtain f st1 where f: "do_find_by_content P H (t_content_hash t) st = (f, st1)" by fastforce
  have d1: "sb_db st1 = sb_db st" using do_find_by_index_eq(1) [OF f [unfolded do_find_by_content_def]] .
  show ?thesis
  proof (cases "f = Inr None \<and> p_task_json P t \<noteq> None")
    case False
    then have "st' = st1"
      using assms f by (auto simp: do_admit_def bind_op_def return_op_def to_payload_def lift_op_def ok_or_def
          split: sum.splits option.splits)
    then show ?thesis using d1 by simp
  next
    case True
    then obtain p where p: "f = Inr None" "p_task_json P t = Some p" by auto
    let ?f = "\<lambda>d. d\<lparr>db_tasks := insert_or_replace (t_id t) (new_row t p) (db_tasks d)\<rparr>"
    let ?g = "\<lambda>d. d\<lparr>db_content := insert_or_replace (to_ascii_lowercase (t_content_hash t))
               \<lparr>ix_task_id = t_id t, ix_expires_at = None\<rparr> (db_content d)\<rparr>"
    obtain a st2 where a: "sql_write P ?f st1 = (a, st2)" by fastforce
    obtain b st3 where b: "sql_write P ?g st2 = (b, st3)" by fastforce
    obtain c st4 where c: "claim_keys P (t_id t) (do_key_placeholders t) st3 = (c, st4)" by fastforce
    have "core (sb_db st3) = core (sb_db st2)" using sql_write_eq [OF b] by auto
    moreover have "core (sb_db st4) = core (sb_db st3)"
      using claim_keys_core [of "t_id t" "do_key_placeholders t" st3] c by simp
    moreover have "st' = st2 \<or> st' = st3 \<or> st' = st4"
      using assms f p a b c
      by (cases a; cases b; cases c) (simp_all add: do_admit_def bind_op_def return_op_def to_payload_def lift_op_def ok_or_def)
    moreover have "core (sb_db st2) = core (sb_db st) \<or> core (sb_db st2) = core (?f (sb_db st))"
      using sql_write_eq [OF a] d1 by auto
    moreover have "p_parse_task P p = Some t" using ok p(2) by (simp add: platform_ok_def)
    ultimately show ?thesis by (auto simp: core_def)
  qed
qed

text \<open>A new pending task that is not admitted yet.\<close>

lemma admit_effect:
  assumes "do_admit P H t st = (r, st')" "db_wf P (sb_db st)" "\<not> t_admitted t"
  shows "db_wf P (sb_db st')" "db_queue (sb_db st') = db_queue (sb_db st)" "db_next_seq (sb_db st') = db_next_seq (sb_db st)"
    "task_ids (sb_db st') \<subseteq> insert (t_id t) (task_ids (sb_db st))"
    "\<And>i. i \<noteq> t_id t \<Longrightarrow> stored P (sb_db st') i = stored P (sb_db st) i"
    "\<And>i. waiting P (sb_db st') i \<Longrightarrow> waiting P (sb_db st) i"
proof -
  let ?d = "sb_db st" and ?d' = "sb_db st'"
  have all: "db_wf P ?d' \<and> db_queue ?d' = db_queue ?d \<and> db_next_seq ?d' = db_next_seq ?d
    \<and> task_ids ?d' \<subseteq> insert (t_id t) (task_ids ?d) \<and> (\<forall>i. i \<noteq> t_id t \<longrightarrow> stored P ?d' i = stored P ?d i)
    \<and> (\<forall>i. waiting P ?d' i \<longrightarrow> waiting P ?d i)"
    using do_admit_core [OF assms(1)]
  proof
    assume "core ?d' = core ?d"
    then show ?thesis using assms(2)
      by (auto simp: core_def db_wf_def task_ids_def stored_def waiting_def)
  next
    assume "\<exists>p. p_parse_task P p = Some t \<and> core ?d' =
          (insert_or_replace (t_id t) (new_row t p) (db_tasks ?d), db_queue ?d, db_next_seq ?d)"
    then obtain p where p: "p_parse_task P p = Some t"
      and tasks: "db_tasks ?d' = insert_or_replace (t_id t) (new_row t p) (db_tasks ?d)"
      and rest: "db_queue ?d' = db_queue ?d" "db_next_seq ?d' = db_next_seq ?d"
      by (auto simp: core_def)
    have stored: "stored P ?d' i = (if i = t_id t then Some t else stored P ?d i)" for i
      using p by (simp add: stored_def tasks map_of_insert_or_replace new_row_def)
    have "db_wf P ?d'"
      using assms(2) p wf_row [OF assms(2)]
      by (auto simp: db_wf_def tasks map_of_insert_or_replace insert_or_replace_distinct new_row_def split: if_splits)
    then show ?thesis
      using assms(3) stored rest
      by (auto simp: waiting_def task_ids_def tasks insert_or_replace_keys split: if_splits)
  qed
  then show "db_wf P ?d'" "db_queue ?d' = db_queue ?d" "db_next_seq ?d' = db_next_seq ?d"
    "task_ids ?d' \<subseteq> insert (t_id t) (task_ids ?d)"
    "\<And>i. i \<noteq> t_id t \<Longrightarrow> stored P ?d' i = stored P ?d i"
    "\<And>i. waiting P ?d' i \<Longrightarrow> waiting P ?d i"
    by blast+
qed

lemma enqueue_effect:
  assumes "do_enqueue P t st = (r, st')"
  shows "db_tasks (sb_db st') = db_tasks (sb_db st)"
    "sb_db st' = sb_db st \<or> db_queue (sb_db st') = db_queue (sb_db st) @ [(db_next_seq (sb_db st), t_id t)]
       \<and> db_next_seq (sb_db st') = db_next_seq (sb_db st) + 1"
    "r = Inr u \<Longrightarrow> queued (sb_db st') (t_id t)"
  using sql_write_eq [OF assms [unfolded do_enqueue_def], of u] by (auto simp: queued_def)

lemma mark_admitted_effect:
  assumes run: "do_mark_admitted P H i st = (r, st')" and wf: "db_wf P (sb_db st)"
  shows "db_wf P (sb_db st')" "db_queue (sb_db st') = db_queue (sb_db st)" "db_next_seq (sb_db st') = db_next_seq (sb_db st)"
    "task_ids (sb_db st') = task_ids (sb_db st)"
    "\<And>j. db_settled P (sb_db st') j = db_settled P (sb_db st) j"
    "\<And>j. waiting P (sb_db st') j \<Longrightarrow> waiting P (sb_db st) j \<or> j = i"
    "r = Inr (Some t) \<Longrightarrow> stored P (sb_db st') i = Some t \<and> (t_admitted t \<or> is_terminal (t_status t))"
proof -
  obtain f st1 where f: "do_get_task P H i st = (f, st1)" by fastforce
  note f' = do_get_task_eq [OF f]
  let ?d = "sb_db st" and ?d' = "sb_db st'"
  have all: "db_wf P ?d' \<and> db_queue ?d' = db_queue ?d \<and> db_next_seq ?d' = db_next_seq ?d \<and> task_ids ?d' = task_ids ?d
    \<and> (\<forall>j. db_settled P ?d' j = db_settled P ?d j) \<and> (\<forall>j. waiting P ?d' j \<longrightarrow> waiting P ?d j \<or> j = i)
    \<and> (\<forall>t. r = Inr (Some t) \<longrightarrow> stored P ?d' i = Some t \<and> (t_admitted t \<or> is_terminal (t_status t)))"
  proof (cases "\<exists>u. f = Inr (Some u) \<and> \<not> is_terminal (t_status u)")
    case False
    then have "st' = st1 \<and> (\<forall>t. r = Inr (Some t) \<longrightarrow> f = Inr (Some t) \<and> is_terminal (t_status t))"
      using run f by (auto simp: do_mark_admitted_def bind_op_def return_op_def split: sum.splits option.splits)
    then show ?thesis using f'(1) f'(2) [OF wf] wf by auto
  next
    case True
    then obtain u where u: "f = Inr (Some u)" "\<not> is_terminal (t_status u)" by blast
    have su: "stored P ?d i = Some u" "t_id u = i" using f'(2) [OF wf u(1)] wf_stored_id [OF wf] by blast+
    let ?t = "u\<lparr>t_admitted := True\<rparr>"
    let ?g = "\<lambda>p d. d\<lparr>db_tasks := update_where (\<lambda>k _. k = i) (\<lambda>row. row\<lparr>tk_payload := p, tk_admitted := True\<rparr>) (db_tasks d)\<rparr>"
    show ?thesis
    proof (cases "p_task_json P ?t")
      case None
      then have "st' = st1 \<and> (\<forall>x. r \<noteq> Inr x)"
        using run f u by (auto simp: do_mark_admitted_def bind_op_def to_payload_def lift_op_def ok_or_def Let_def)
      then show ?thesis using f'(1) wf by simp
    next
      case (Some p)
      obtain w st2 where w: "sql_write P (?g p) st1 = (w, st2)" by fastforce
      have eq: "st' = st2" "\<And>x. r = Inr x \<Longrightarrow> x = Some ?t \<and> (\<exists>y. w = Inr y)"
        using run f u Some w
        by (cases w; simp add: do_mark_admitted_def bind_op_def to_payload_def lift_op_def ok_or_def Let_def return_op_def)+
      have parse: "p_parse_task P p = Some ?t" using ok Some by (simp add: platform_ok_def)
      have unsettled: "\<not> db_settled P ?d i" using su u(2) by (auto simp: db_settled_def)
      note rw = rewritten [OF wf, of "\<lambda>row. row\<lparr>tk_payload := p, tk_admitted := True\<rparr>" ?t i]
      have i: "i \<in> task_ids ?d" by (rule stored_task_ids [OF su(1)])
      have st: "stored P (?g p ?d) j = (if j = i then Some ?t else stored P ?d j)" for j
        using rw(1) [of j] parse su unsettled i by simp
      have good: "db_wf P (?g p ?d)" "task_ids (?g p ?d) = task_ids ?d"
        using rw(2,3) parse su unsettled by simp_all
      have settled: "db_settled P (?g p ?d) j = db_settled P ?d j" for j
        using st [of j] su u(2) by (simp add: db_settled_def)
      have waits: "\<forall>j. waiting P (?g p ?d) j \<longrightarrow> waiting P ?d j \<or> j = i"
        using st by (simp add: waiting_def)
      have "?d' = ?d \<or> ?d' = ?g p ?d" "w = Inr y \<Longrightarrow> ?d' = ?g p ?d" for y
        using sql_write_eq [OF w, of y] f'(1) eq(1) by auto
      then show ?thesis using good settled waits wf st [of i] eq(2) by auto
    qed
  qed
  then show "db_wf P ?d'" "db_queue ?d' = db_queue ?d" "db_next_seq ?d' = db_next_seq ?d" "task_ids ?d' = task_ids ?d"
    "\<And>j. db_settled P ?d' j = db_settled P ?d j" "\<And>j. waiting P ?d' j \<Longrightarrow> waiting P ?d j \<or> j = i"
    "r = Inr (Some t) \<Longrightarrow> stored P ?d' i = Some t \<and> (t_admitted t \<or> is_terminal (t_status t))"
    by blast+
qed

lemma delete_batch_effect:
  assumes "do_delete_batch P batch st = (r, st')"
  shows "db_tasks (sb_db st') = db_tasks (sb_db st) \<and> db_next_seq (sb_db st') = db_next_seq (sb_db st)
    \<and> set (db_queue (sb_db st')) \<subseteq> set (db_queue (sb_db st))
    \<and> (\<forall>e \<in> set (db_queue (sb_db st)). fst e \<notin> fst ` set batch \<longrightarrow> e \<in> set (db_queue (sb_db st')))
    \<and> (distinct (map fst (db_queue (sb_db st))) \<longrightarrow> distinct (map fst (db_queue (sb_db st'))))"
  using assms
proof (induction batch arbitrary: st)
  case (Cons e batch)
  let ?f = "\<lambda>d. d\<lparr>db_queue := delete_where (\<lambda>seq _. seq = fst e) (db_queue d)\<rparr>"
  obtain w st1 where w: "sql_write P ?f st = (w, st1)" by fastforce
  have one: "db_tasks (sb_db st1) = db_tasks (sb_db st) \<and> db_next_seq (sb_db st1) = db_next_seq (sb_db st)
    \<and> set (db_queue (sb_db st1)) \<subseteq> set (db_queue (sb_db st))
    \<and> (\<forall>x \<in> set (db_queue (sb_db st)). fst x \<noteq> fst e \<longrightarrow> x \<in> set (db_queue (sb_db st1)))
    \<and> (distinct (map fst (db_queue (sb_db st))) \<longrightarrow> distinct (map fst (db_queue (sb_db st1))))"
  proof -
    have "sb_db st1 = sb_db st \<or> sb_db st1 = ?f (sb_db st)" using sql_write_eq [OF w] by auto
    moreover have "x \<in> set (delete_where (\<lambda>seq _. seq = fst e) (db_queue (sb_db st)))"
      if "x \<in> set (db_queue (sb_db st))" "fst x \<noteq> fst e" for x
      using that by (auto simp: delete_where_def)
    ultimately show ?thesis using delete_where_subset delete_where_distinct by fastforce
  qed
  show ?case
  proof (cases w)
    case (Inl x)
    then show ?thesis using Cons.prems w one by (auto simp: bind_op_def)
  next
    case (Inr x)
    then have "do_delete_batch P batch st1 = (r, st')" using Cons.prems w by (simp add: bind_op_def)
    from Cons.IH [OF this] one show ?thesis by auto
  qed
qed (simp add: return_op_def)

lemma schedule_db [simp]: "sb_db (snd (schedule P d st)) = sb_db st"
  by (simp add: schedule_def Let_def split_def)

lemma begin_alarm_effect:
  assumes run: "begin_alarm P H conf st = (r, st')"
  shows "quiet P (sb_db st) (sb_db st')"
    "r = Inr (Some (batch, C)) \<Longrightarrow> (\<exists>limit. conf = Inr (limit, C)) \<and> set batch \<subseteq> set (db_queue (sb_db st'))"
proof -
  let ?st = "st\<lparr>sb_alarm := None\<rparr>"
  obtain a st1 where a: "open_db P H ?st = (a, st1)" by fastforce
  have q1: "quiet P (sb_db st) (sb_db st1)" using does_quiet [OF does_open, of P ?st H] a by simp
  have "quiet P (sb_db st) (sb_db st') \<and> (r = Inr (Some (batch, C)) \<longrightarrow>
      (\<exists>limit. conf = Inr (limit, C)) \<and> set batch \<subseteq> set (db_queue (sb_db st')))"
  proof (cases "\<exists>x limit C'. a = Inr x \<and> conf = Inr (limit, C') \<and> has_signer C'")
    case False
    then have "st' = st1 \<and> r \<noteq> Inr (Some (batch, C))"
      using run a
      by (cases a; cases conf) (auto simp: begin_alarm_def bind_op_def lift_op_def return_op_def split: prod.splits if_splits)
    then show ?thesis using q1 by simp
  next
    case True
    then obtain x limit C' where c: "a = Inr x" "conf = Inr (limit, C')" "has_signer C'" by blast
    obtain f st2 where f: "do_net (cf_fee_plan H C') st1 = (f, st2)" by fastforce
    have d2: "sb_db st2 = sb_db st1" by (rule do_net_eq [OF f])
    show ?thesis
    proof (cases "\<exists>required cap. f = Inr (TooExpensive required cap)")
      case True
      then have "r \<noteq> Inr (Some (batch, C)) \<and> st' = snd (schedule P 15000 st2)"
        using run a c f by (auto simp: begin_alarm_def bind_op_def lift_op_def return_op_def split: prod.splits sum.splits)
      then show ?thesis using q1 d2 by simp
    next
      case False
      obtain b st3 where b: "do_poll_batch P POLL_BATCH_SIZE st2 = (b, st3)" by fastforce
      have d3: "sb_db st3 = sb_db st2" "\<And>q. b = Inr q \<Longrightarrow> q = take POLL_BATCH_SIZE (sort_key fst (db_queue (sb_db st2)))"
        using sql_read_eq [OF b [unfolded do_poll_batch_def]] by simp_all
      have "st' = st3 \<and> (r = Inr (Some (batch, C)) \<longrightarrow> b = Inr batch \<and> C = C')"
        using run a c f b False
        by (cases f; cases b) (auto simp: begin_alarm_def bind_op_def lift_op_def return_op_def split: fee_verdict.splits if_splits)
      moreover have "set (take POLL_BATCH_SIZE (sort_key fst q)) \<subseteq> set q" for q :: "(int \<times> string) list"
        by (metis set_sort set_take_subset)
      ultimately show ?thesis using q1 d2 d3 c(2) by auto
    qed
  qed
  then show "quiet P (sb_db st) (sb_db st')"
    "r = Inr (Some (batch, C)) \<Longrightarrow> (\<exists>limit. conf = Inr (limit, C)) \<and> set batch \<subseteq> set (db_queue (sb_db st'))"
    by blast+
qed

lemma finish_alarm_effect:
  assumes "finish_alarm P batch v st = (r, st')"
  shows "v \<noteq> Some Advance \<Longrightarrow> sb_db st' = sb_db st"
    "\<exists>x st1. do_delete_batch P batch (st\<lparr>sb_failures := 0\<rparr>) = (x, st1) \<and> (v = Some Advance \<longrightarrow> sb_db st' = sb_db st1)"
proof -
  show "sb_db st' = sb_db st" if "v \<noteq> Some Advance"
  proof -
    let ?st = "st\<lparr>sb_failures := saturating_add (sb_failures st) 1\<rparr>"
    have "snd (finish_alarm P batch v st) = snd (schedule P (min (backoff_delay (saturating_add (sb_failures st) 1)) 60 * 1000) ?st)"
      using that by (simp add: finish_alarm_def Let_def split: option.split batch_verdict.split)
    then show ?thesis using assms by simp
  qed
  obtain x st1 where x: "do_delete_batch P batch (st\<lparr>sb_failures := 0\<rparr>) = (x, st1)" by fastforce
  obtain l st2 where l: "do_queue_len P st1 = (l, st2)" by fastforce
  have d2: "sb_db st2 = sb_db st1" using sql_read_eq [OF l [unfolded do_queue_len_def]] by simp
  have "sb_db st' = sb_db st1" if "v = Some Advance"
  proof -
    have "snd (finish_alarm P batch v st) \<in> {st1, st2, snd (schedule P 0 st2)}"
      using x l that by (auto simp: finish_alarm_def bind_op_def return_op_def split: sum.split)
    then show ?thesis using assms d2 by auto
  qed
  then show "\<exists>x st1. do_delete_batch P batch (st\<lparr>sb_failures := 0\<rparr>) = (x, st1) \<and> (v = Some Advance \<longrightarrow> sb_db st' = sb_db st1)"
    using x by blast
qed

end

sublocale platform_laws \<subseteq>
  batch: task_shell "execute_submission X P H C" "\<lambda>st. db_wf P (sb_db st)" "\<lambda>st. db_settled P (sb_db st)"
  for X :: externs and H :: "'w host" and C :: chain
  by unfold_locales
    (use quiet_execute_submission in \<open>auto simp: quiet_def intro: execute_submission_settles dest: execute_submission_loads\<close>)

section \<open>A concrete instance\<close>

text \<open>A platform whose statements run, with the serde of the server's sample services.\<close>

definition ref_platform :: "ref_world platform" where
  "ref_platform =
     \<lparr>p_fate = (\<lambda>w. (Ran, w)), p_alarm_api = (\<lambda>w. (True, w)),
      p_task_json = task_json ref_services, p_parse_task = parse_task ref_services\<rparr>"

lemma ref_platform_ok: "platform_ok ref_platform"
proof -
  have "serde_ok ref_services" using ref_services_ok by (simp add: services_ok_def)
  then show ?thesis
    unfolding platform_ok_def serde_ok_def by (simp add: ref_platform_def) (metis option.inject)
qed

interpretation ref_object: platform_laws ref_platform
  by unfold_locales (rule ref_platform_ok)

end
