(* ===== verification/Cf_Object.thy ===== *)
theory Cf_Object
  imports Cf_Laws
begin

text \<open>
  The Durable Object as a concurrent system.  A request or an alarm that awaits the network gives way to
  others, so at any time there are admissions under way, at most one alarm, and the state they share.
  A step opens a request, performs one operation of one program, or finishes one; it may also be a
  request that is not an admission, or the loss of everything in memory.  Maintenance and a write
  attempt await the network too, but the tables they write are not those of the other handlers; each
  is one step.
\<close>

section \<open>Steps\<close>

record session =
  ss_ip :: string
  ss_id :: string
  ss_program :: admission_prog
  ss_history :: admission_history
  ss_rest :: admission_prog

record batch_run =
  br_batch :: "(int \<times> string) list"
  br_history :: submission_history
  br_rest :: "(submission_operation, submission_result, batch_verdict) prog"

text \<open>\<open>ob_ids\<close> are the ids \<^verbatim>\<open>Uuid::new_v4\<close> returned so far; it never returns one again.\<close>

record 'w object =
  ob_state :: "'w submitter"
  ob_sessions :: "session list"
  ob_run :: "batch_run option"
  ob_ids :: "string set"

inductive object_step ::
  "externs \<Rightarrow> 'w platform \<Rightarrow> 'w host \<Rightarrow> do_conf \<Rightarrow> 'w object \<Rightarrow> 'w object \<Rightarrow> bool"
  for X :: externs and P :: "'w platform" and H :: "'w host" and conf :: do_conf where
  admit_begin: "n \<notin> ob_ids ob \<Longrightarrow> begin_admission X P H conf request n (ob_state ob) = (Inr p, st) \<Longrightarrow>
    object_step X P H conf ob
      (ob\<lparr>ob_state := st,
          ob_sessions := ob_sessions ob @ [\<lparr>ss_ip = ip, ss_id = n, ss_program = p, ss_history = [], ss_rest = p\<rparr>],
          ob_ids := insert n (ob_ids ob)\<rparr>)"
| admit_refused: "begin_admission X P H conf request n (ob_state ob) = (Inl e, st) \<Longrightarrow>
    object_step X P H conf ob (ob\<lparr>ob_state := st\<rparr>)"
| admit_work: "ob_sessions ob = ss1 @ s # ss2 \<Longrightarrow> ss_rest s = Ask q k \<Longrightarrow> conf = Inr (limit, C) \<Longrightarrow>
    execute_admission X P H limit C (ss_ip s) (ob_state ob) q = (r, st) \<Longrightarrow>
    object_step X P H conf ob
      (ob\<lparr>ob_state := st, ob_sessions := ss1 @ s\<lparr>ss_history := ss_history s @ [(q, r)], ss_rest := k r\<rparr> # ss2\<rparr>)"
| admit_end: "ob_sessions ob = ss1 @ s # ss2 \<Longrightarrow> ss_rest s = Done outcome \<Longrightarrow>
    finish_admission P outcome (ob_state ob) = (x, st) \<Longrightarrow>
    object_step X P H conf ob (ob\<lparr>ob_state := st, ob_sessions := ss1 @ ss2\<rparr>)"
| alarm_begin: "ob_run ob = None \<Longrightarrow> begin_alarm P H conf (ob_state ob) = (Inr (Some (batch, C)), st) \<Longrightarrow>
    object_step X P H conf ob
      (ob\<lparr>ob_state := st,
          ob_run := Some \<lparr>br_batch = batch, br_history = [], br_rest = submission_program X (map snd batch)\<rparr>\<rparr>)"
| alarm_idle: "ob_run ob = None \<Longrightarrow> begin_alarm P H conf (ob_state ob) = (x, st) \<Longrightarrow>
    object_step X P H conf ob (ob\<lparr>ob_state := st\<rparr>)"
| alarm_work: "ob_run ob = Some b \<Longrightarrow> br_rest b = Ask q k \<Longrightarrow> conf = Inr (limit, C) \<Longrightarrow>
    execute_submission X P H C (ob_state ob) q = (r, st) \<Longrightarrow>
    object_step X P H conf ob
      (ob\<lparr>ob_state := st, ob_run := Some (b\<lparr>br_history := br_history b @ [(q, r)], br_rest := k r\<rparr>)\<rparr>)"
| alarm_end: "ob_run ob = Some b \<Longrightarrow> br_rest b = Done verdict \<Longrightarrow>
    finish_alarm P (br_batch b) (Some verdict) (ob_state ob) = (x, st) \<Longrightarrow>
    object_step X P H conf ob (ob\<lparr>ob_state := st, ob_run := None\<rparr>)"
| other_request: "serve X P H conf request (ob_state ob) = (x, st) \<Longrightarrow>
    object_step X P H conf ob (ob\<lparr>ob_state := st\<rparr>)"
| eviction:
    "object_step X P H conf ob
      (ob\<lparr>ob_state := (ob_state ob)\<lparr>sb_failures := 0, sb_nonce := None\<rparr>, ob_sessions := [], ob_run := None\<rparr>)"

inductive reachable ::
  "externs \<Rightarrow> 'w platform \<Rightarrow> 'w host \<Rightarrow> do_conf \<Rightarrow> 'w object \<Rightarrow> bool"
  for X :: externs and P :: "'w platform" and H :: "'w host" and conf :: do_conf where
  initial: "sb_db (ob_state ob) = empty_db \<Longrightarrow> ob_sessions ob = [] \<Longrightarrow> ob_run ob = None \<Longrightarrow>
    reachable X P H conf ob"
| steps: "reachable X P H conf ob \<Longrightarrow> object_step X P H conf ob ob' \<Longrightarrow> reachable X P H conf ob'"

section \<open>Programs under way\<close>

text \<open>Whatever the rest of a program does completes an execution that began with this history.\<close>

definition resumes :: "('op, 'res, 'a) prog \<Rightarrow> ('op, 'res) history \<Rightarrow> ('op, 'res, 'a) prog \<Rightarrow> bool" where
  "resumes p h rest = (\<forall>tr out. exec rest tr out \<longrightarrow> exec p (h @ tr) out)"

lemma exec_total: "\<exists>tr out. exec p tr out"
proof (induction p)
  case (Ask q k)
  then obtain tr out where "exec (k undefined) tr out" by blast
  then show ?case by (blast intro: exec_ask)
qed (blast intro: exec.intros)+

lemma resumes_start: "resumes p [] p"
  by (simp add: resumes_def)

lemma resumes_ask: "resumes p h (Ask q k) \<Longrightarrow> resumes p (h @ [(q, r)]) (k r)"
  by (auto simp: resumes_def intro: exec_ask)

lemma resumes_done: "resumes p h (Done a) \<Longrightarrow> exec p h (Some a)"
  by (auto simp: resumes_def)

lemma resumes_next:
  assumes "resumes p h (Ask q k)"
  obtains tr out where "exec p (h @ (q, r) # tr) out"
proof -
  obtain tr out where "exec (k r) tr out" using exec_total by blast
  then have "exec p (h @ (q, r) # tr) out" using assms by (auto simp: resumes_def intro: exec_ask)
  then show thesis by (rule that)
qed

text \<open>An admission asks the store to admit at most once.\<close>

definition asked_admit :: "admission_history \<Rightarrow> bool" where
  "asked_admit h = list_ex (\<lambda>(q, r). case q of Admit _ \<Rightarrow> True | _ \<Rightarrow> False) h"

definition admits_once :: "admission_history \<Rightarrow> admission_operation \<times> admission_result \<Rightarrow> bool" where
  "admits_once past step = (case fst step of Admit _ \<Rightarrow> \<not> asked_admit past | _ \<Rightarrow> True)"

lemma admit_validated_once: "wlp (settle (admit_validated X task ch)) (\<lambda>tr out. guarded admits_once [] tr) []"
  unfolding wlp_settle
  by (cases "t_kind task"; cases "t_members task")
    (simp_all add: admission_program_defs all_admission_result wlp_bind_flow Let_def admits_once_def asked_admit_def)

lemma admission_step:
  assumes "externs_ok X" "exec (admission_program X request n now chain_id registry) (h @ (q, r) # tr) out"
  obtains task ch where "fresh_task task n now" "allowed_step X task ch h (q, r)" "admits_once h (q, r)"
  using assms
proof (cases rule: admission_exec_cases)
  case (valid task ch a)
  have "exec (settle (admit_validated X task ch)) (h @ (q, r) # tr) out"
    using assms(2) valid(1) by (simp add: admission_program_def drive_admission_def)
  then have once: "guarded admits_once [] (h @ (q, r) # tr)"
    using wlp_sound [OF admit_validated_once] by blast
  have "guarded (allowed_step X task ch) [] (h @ (q, r) # tr)" using valid(6) by (simp add: admission_ok_def)
  from that [OF valid(4) guarded_step [OF this] guarded_step [OF once]] show thesis .
qed simp

lemma admission_queued:
  assumes "externs_ok X" "exec (admission_program X request n now chain_id registry) h (Some (Queued i s))"
  shows "queued_backed h i s"
  using assms
proof (cases rule: admission_exec_cases)
  case (valid task ch a)
  then show ?thesis by (simp add: admission_ok_def)
qed simp

section \<open>The invariant\<close>

text \<open>An id for which nothing can be lost: it has an envelope in the queue, or nothing is left to do.\<close>

definition safe :: "'w platform \<Rightarrow> db \<Rightarrow> string \<Rightarrow> bool" where
  "safe P d i = (queued d i \<or> db_settled P d i)"

text \<open>The ids of the tasks an admission has met.\<close>

definition touched :: "admission_history \<Rightarrow> string set" where
  "touched h = {t_id t | t. (\<exists>q. (q, TaskFound (Some t)) \<in> set h) \<or> (\<exists>r. (Enqueue t, r) \<in> set h) \<or> (\<exists>r. (Admit t, r) \<in> set h)}"

definition step_backed :: "'w platform \<Rightarrow> db \<Rightarrow> admission_operation \<times> admission_result \<Rightarrow> bool" where
  "step_backed P d step =
     ((\<forall>t. step = (Enqueue t, Enqueued) \<longrightarrow> safe P d (t_id t))
      \<and> (\<forall>t. snd step = TaskFound (Some t)
           \<and> (t_admitted t \<or> is_terminal (t_status t) \<or> (\<exists>j. fst step = MarkAdmitted j)) \<longrightarrow> safe P d (t_id t)))"

text \<open>\<open>K\<close> are the ids in use: an id is in use only once its own admission has asked the store.\<close>

definition session_ok :: "externs \<Rightarrow> 'w platform \<Rightarrow> db \<Rightarrow> string set \<Rightarrow> session \<Rightarrow> bool" where
  "session_ok X P d K s =
     ((\<exists>request now registry. ss_program s = admission_program X request (ss_id s) now CHAIN_ID registry)
      \<and> resumes (ss_program s) (ss_history s) (ss_rest s)
      \<and> (ss_id s \<in> K \<longrightarrow> asked_admit (ss_history s))
      \<and> touched (ss_history s) \<subseteq> K
      \<and> (\<forall>step \<in> set (ss_history s). step_backed P d step))"

definition run_ok :: "externs \<Rightarrow> 'w platform \<Rightarrow> db \<Rightarrow> string set \<Rightarrow> batch_run \<Rightarrow> bool" where
  "run_ok X P d K b =
     (let ids = map snd (br_batch b) in
      resumes (submission_program X ids) (br_history b) (br_rest b)
      \<and> set ids \<subseteq> K
      \<and> (\<forall>i \<in> set ids. \<forall>step \<in> set (br_history b). settles i step \<longrightarrow> db_settled P d i)
      \<and> (\<forall>i \<in> set ids. \<forall>ts. (LoadTasks ids, TasksLoaded ts) \<in> set (br_history b) \<longrightarrow>
           db_settled P d i \<or> (\<exists>t. Some t \<in> set ts \<and> t_id t = i \<and> \<not> is_terminal (t_status t)))
      \<and> (\<forall>(n, i) \<in> set (br_batch b). n < db_next_seq d \<and> (\<forall>j. (n, j) \<in> set (db_queue d) \<longrightarrow> j = i)))"

definition queue_wf :: "db \<Rightarrow> bool" where
  "queue_wf d = (distinct (map fst (db_queue d)) \<and> (\<forall>e \<in> set (db_queue d). fst e < db_next_seq d))"

definition db_ok :: "'w platform \<Rightarrow> db \<Rightarrow> string set \<Rightarrow> bool" where
  "db_ok P d K =
     (db_wf P d \<and> queue_wf d \<and> (\<forall>i. waiting P d i \<longrightarrow> queued d i) \<and> task_ids d \<subseteq> K \<and> snd ` set (db_queue d) \<subseteq> K)"

definition object_ok :: "externs \<Rightarrow> 'w platform \<Rightarrow> 'w object \<Rightarrow> bool" where
  "object_ok X P ob =
     (\<exists>K. K \<subseteq> ob_ids ob \<and> db_ok P (sb_db (ob_state ob)) K
        \<and> distinct (map ss_id (ob_sessions ob)) \<and> ss_id ` set (ob_sessions ob) \<subseteq> ob_ids ob
        \<and> (\<forall>s \<in> set (ob_sessions ob). session_ok X P (sb_db (ob_state ob)) K s)
        \<and> (\<forall>b. ob_run ob = Some b \<longrightarrow> run_ok X P (sb_db (ob_state ob)) K b))"

text \<open>What a step may do to the tables under the feet of the others.\<close>

definition moves :: "'w platform \<Rightarrow> string set \<Rightarrow> db \<Rightarrow> db \<Rightarrow> bool" where
  "moves P K d d' =
     ((\<forall>i \<in> K. safe P d i \<longrightarrow> safe P d' i) \<and> (\<forall>i \<in> K. db_settled P d i \<longrightarrow> db_settled P d' i)
      \<and> db_next_seq d \<le> db_next_seq d' \<and> (\<forall>e \<in> set (db_queue d'). fst e < db_next_seq d \<longrightarrow> e \<in> set (db_queue d)))"

lemma touchedI:
  "(q, TaskFound (Some t)) \<in> set h \<Longrightarrow> t_id t \<in> touched h" "(Enqueue t, r) \<in> set h \<Longrightarrow> t_id t \<in> touched h"
  "(Admit t, r) \<in> set h \<Longrightarrow> t_id t \<in> touched h"
  unfolding touched_def by blast+

lemma touched_snoc:
  "touched h \<subseteq> K \<Longrightarrow> (\<And>t. r = TaskFound (Some t) \<or> q = Enqueue t \<or> q = Admit t \<Longrightarrow> t_id t \<in> K) \<Longrightarrow>
     touched (h @ [(q, r)]) \<subseteq> K"
  unfolding touched_def by (simp add: subset_iff) metis

lemma step_backed_moves:
  assumes "step_backed P d step" "moves P K d d'" "touched h \<subseteq> K" "step \<in> set h"
  shows "step_backed P d' step"
proof -
  obtain q r where step: "step = (q, r)" by (cases step)
  have "t_id t \<in> K" if "step = (Enqueue t, Enqueued) \<or> snd step = TaskFound (Some t)" for t
    using that assms(3,4) step touchedI(1) [of q t h] touchedI(2) [of t Enqueued h] by auto
  then show ?thesis using assms(1,2) unfolding step_backed_def moves_def by blast
qed

lemma session_moves:
  assumes "session_ok X P d K s" "moves P K d d'" "K \<subseteq> K'" "ss_id s \<in> K' \<Longrightarrow> ss_id s \<in> K"
  shows "session_ok X P d' K' s"
  using assms step_backed_moves [OF _ assms(2), of _ "ss_history s"]
  unfolding session_ok_def by blast

lemma run_moves:
  assumes "run_ok X P d K b" "moves P K d d'" "K \<subseteq> K'"
  shows "run_ok X P d' K' b"
proof -
  have "n < db_next_seq d' \<and> (\<forall>j. (n, j) \<in> set (db_queue d') \<longrightarrow> j = i)" if "(n, i) \<in> set (br_batch b)" for n i
  proof -
    have "n < db_next_seq d" "\<And>j. (n, j) \<in> set (db_queue d) \<Longrightarrow> j = i"
      using assms(1) that by (auto simp: run_ok_def Let_def)
    then show ?thesis using assms(2) by (fastforce simp: moves_def)
  qed
  then show ?thesis
    using assms unfolding run_ok_def moves_def Let_def by blast
qed

lemma quiet_moves:
  assumes "quiet P d d'" "db_ok P d K"
  shows "moves P K d d'" "db_ok P d' K"
proof -
  have q: "db_wf P d'" "db_queue d' = db_queue d" "db_next_seq d' = db_next_seq d" "task_ids d' \<subseteq> task_ids d"
    "\<And>i. db_settled P d i \<Longrightarrow> db_settled P d' i" "\<And>i. waiting P d' i \<Longrightarrow> waiting P d i"
    using assms by (auto simp: quiet_def db_ok_def)
  show "moves P K d d'" using q by (auto simp: moves_def safe_def queued_def)
  show "db_ok P d' K" using q assms(2) by (auto simp: db_ok_def queue_wf_def queued_def)
qed

text \<open>An operation that leaves the queue alone and answers with stored tasks only.\<close>

definition faithful_step :: "'w platform \<Rightarrow> db \<Rightarrow> admission_result \<Rightarrow> db \<Rightarrow> bool" where
  "faithful_step P d r d' =
     (quiet P d d' \<and> (\<forall>t. db_wf P d \<and> r = TaskFound (Some t) \<longrightarrow> d' = d \<and> stored P d (t_id t) = Some t))"

context platform_laws
begin

lemma object_quiet:
  assumes "object_ok X P ob" "quiet P (sb_db (ob_state ob)) (sb_db st)"
  shows "object_ok X P (ob\<lparr>ob_state := st\<rparr>)"
proof -
  obtain K where K: "K \<subseteq> ob_ids ob" "db_ok P (sb_db (ob_state ob)) K" "distinct (map ss_id (ob_sessions ob))"
    "ss_id ` set (ob_sessions ob) \<subseteq> ob_ids ob" "\<forall>s \<in> set (ob_sessions ob). session_ok X P (sb_db (ob_state ob)) K s"
    "\<forall>b. ob_run ob = Some b \<longrightarrow> run_ok X P (sb_db (ob_state ob)) K b"
    using assms(1) unfolding object_ok_def by blast
  note m = quiet_moves [OF assms(2) K(2)]
  have "\<forall>s \<in> set (ob_sessions ob). session_ok X P (sb_db st) K s"
    using session_moves [OF _ m(1) order_refl] K(5) by blast
  moreover have "\<forall>b. ob_run ob = Some b \<longrightarrow> run_ok X P (sb_db st) K b"
    using run_moves [OF _ m(1) order_refl] K(6) by blast
  ultimately show ?thesis unfolding object_ok_def using K(1,3,4) m(2) by (intro exI [of _ K]) simp
qed

lemma object_forget:
  assumes "object_ok X P ob" "ob_sessions ob = ss1 @ s # ss2"
  shows "object_ok X P (ob\<lparr>ob_sessions := ss1 @ ss2\<rparr>)"
proof -
  obtain K where "K \<subseteq> ob_ids ob" "db_ok P (sb_db (ob_state ob)) K" "distinct (map ss_id (ob_sessions ob))"
    "ss_id ` set (ob_sessions ob) \<subseteq> ob_ids ob" "\<forall>s \<in> set (ob_sessions ob). session_ok X P (sb_db (ob_state ob)) K s"
    "\<forall>b. ob_run ob = Some b \<longrightarrow> run_ok X P (sb_db (ob_state ob)) K b"
    using assms(1) unfolding object_ok_def by blast
  then show ?thesis unfolding object_ok_def using assms(2) by (intro exI [of _ K]) auto
qed

lemma object_admit_begin:
  assumes ok: "object_ok X P ob" and n: "n \<notin> ob_ids ob"
    and opened: "begin_admission X P H conf request n (ob_state ob) = (Inr p, st)"
  shows "object_ok X P (ob\<lparr>ob_state := st,
          ob_sessions := ob_sessions ob @ [\<lparr>ss_ip = ip, ss_id = n, ss_program = p, ss_history = [], ss_rest = p\<rparr>],
          ob_ids := insert n (ob_ids ob)\<rparr>)"
proof -
  have "quiet P (sb_db (ob_state ob)) (sb_db st)"
    using does_quiet [OF quiet_begin_admission [of X H conf request n], of "ob_state ob"] opened by simp
  from object_quiet [OF ok this]
  obtain K where K: "K \<subseteq> ob_ids ob" "db_ok P (sb_db st) K" "distinct (map ss_id (ob_sessions ob))"
    "ss_id ` set (ob_sessions ob) \<subseteq> ob_ids ob" "\<forall>s \<in> set (ob_sessions ob). session_ok X P (sb_db st) K s"
    "\<forall>b. ob_run ob = Some b \<longrightarrow> run_ok X P (sb_db st) K b"
    unfolding object_ok_def by auto
  have "\<exists>now registry. p = admission_program X request n now CHAIN_ID registry"
    using opened by (auto simp: begin_admission_def bind_op_def lift_op_def clocked_def return_op_def Let_def
        split: prod.splits sum.splits)
  then have "session_ok X P (sb_db st) K \<lparr>ss_ip = ip, ss_id = n, ss_program = p, ss_history = [], ss_rest = p\<rparr>"
    using K(1) n by (auto simp: session_ok_def resumes_start touched_def)
  then show ?thesis
    unfolding object_ok_def using K n by (intro exI [of _ K]) auto
qed

lemma object_alarm_begin:
  assumes ok: "object_ok X P ob" and opened: "begin_alarm P H conf (ob_state ob) = (Inr (Some (batch, C)), st)"
  shows "object_ok X P (ob\<lparr>ob_state := st,
          ob_run := Some \<lparr>br_batch = batch, br_history = [], br_rest = submission_program X (map snd batch)\<rparr>\<rparr>)"
proof -
  note e = begin_alarm_effect [OF opened]
  from object_quiet [OF ok e(1)]
  obtain K where K: "K \<subseteq> ob_ids ob" "db_ok P (sb_db st) K" "distinct (map ss_id (ob_sessions ob))"
    "ss_id ` set (ob_sessions ob) \<subseteq> ob_ids ob" "\<forall>s \<in> set (ob_sessions ob). session_ok X P (sb_db st) K s"
    unfolding object_ok_def by auto
  have batch: "set batch \<subseteq> set (db_queue (sb_db st))" using e(2) by blast
  have "n < db_next_seq (sb_db st) \<and> (\<forall>j. (n, j) \<in> set (db_queue (sb_db st)) \<longrightarrow> j = i)" if "(n, i) \<in> set batch" for n i
    using that batch K(2) eq_key_imp_eq_value [of "db_queue (sb_db st)" n i]
    by (fastforce simp: db_ok_def queue_wf_def)
  moreover have "snd ` set batch \<subseteq> K" using image_mono [OF batch, of snd] K(2) unfolding db_ok_def by (meson subset_trans)
  ultimately have "run_ok X P (sb_db st) K \<lparr>br_batch = batch, br_history = [], br_rest = submission_program X (map snd batch)\<rparr>"
    by (auto simp: run_ok_def Let_def resumes_start)
  then show ?thesis
    unfolding object_ok_def using K by (intro exI [of _ K]) auto
qed

lemma object_alarm_work:
  assumes ok: "object_ok X P ob" and run: "ob_run ob = Some b" "br_rest b = Ask q k"
    and ex: "execute_submission X P H C (ob_state ob) q = (r, st)"
  shows "object_ok X P (ob\<lparr>ob_state := st, ob_run := Some (b\<lparr>br_history := br_history b @ [(q, r)], br_rest := k r\<rparr>)\<rparr>)"
proof -
  have wf: "db_wf P (sb_db (ob_state ob))" using ok by (auto simp: object_ok_def db_ok_def)
  have "quiet P (sb_db (ob_state ob)) (sb_db st)"
    using quiet_execute_submission [of "ob_state ob" X H C q] ex by simp
  from object_quiet [OF ok this]
  obtain K where K: "K \<subseteq> ob_ids ob" "db_ok P (sb_db st) K" "distinct (map ss_id (ob_sessions ob))"
    "ss_id ` set (ob_sessions ob) \<subseteq> ob_ids ob" "\<forall>s \<in> set (ob_sessions ob). session_ok X P (sb_db st) K s"
    "run_ok X P (sb_db st) K b"
    using run(1) unfolding object_ok_def by auto
  have settles: "settles i (q, r) \<Longrightarrow> db_settled P (sb_db st) i" for i
    by (rule execute_submission_settles [OF wf ex])
  have loads: "db_settled P (sb_db st) i \<or> (\<exists>t. Some t \<in> set ts \<and> t_id t = i \<and> \<not> is_terminal (t_status t))"
    if "(LoadTasks (map snd (br_batch b)), TasksLoaded ts) = (q, r)" "i \<in> set (map snd (br_batch b))" for ts i
    using execute_submission_loads [OF wf, of X H C "map snd (br_batch b)" ts st i] ex that by simp
  have "run_ok X P (sb_db st) K (b\<lparr>br_history := br_history b @ [(q, r)], br_rest := k r\<rparr>)"
  proof -
    have "db_settled P (sb_db st) i \<or> (\<exists>t. Some t \<in> set ts \<and> t_id t = i \<and> \<not> is_terminal (t_status t))"
      if "i \<in> set (map snd (br_batch b))"
        "(LoadTasks (map snd (br_batch b)), TasksLoaded ts) \<in> set (br_history b @ [(q, r)])" for i ts
    proof (cases "(LoadTasks (map snd (br_batch b)), TasksLoaded ts) = (q, r)")
      case True
      then show ?thesis by (rule loads [OF _ that(1)])
    next
      case False
      then show ?thesis using that K(6) unfolding run_ok_def Let_def by auto
    qed
    moreover have "resumes (submission_program X (map snd (br_batch b))) (br_history b @ [(q, r)]) (k r)"
      using K(6) run(2) by (simp add: run_ok_def Let_def resumes_ask)
    ultimately show ?thesis using K(6) settles unfolding run_ok_def Let_def by auto
  qed
  then show ?thesis
    unfolding object_ok_def using K by (intro exI [of _ K]) auto
qed

lemma delete_moves:
  assumes "do_delete_batch P batch st = (x, st')" "db_ok P (sb_db st) K"
    and rows: "\<And>n i j. (n, i) \<in> set batch \<Longrightarrow> (n, j) \<in> set (db_queue (sb_db st)) \<Longrightarrow> j = i"
    and settled: "\<And>i. i \<in> snd ` set batch \<Longrightarrow> db_settled P (sb_db st) i"
  shows "moves P K (sb_db st) (sb_db st')" "db_ok P (sb_db st') K"
proof -
  let ?d = "sb_db st" and ?d' = "sb_db st'"
  have e: "db_tasks ?d' = db_tasks ?d" "db_next_seq ?d' = db_next_seq ?d" "set (db_queue ?d') \<subseteq> set (db_queue ?d)"
    "\<And>n i. (n, i) \<in> set (db_queue ?d) \<Longrightarrow> n \<notin> fst ` set batch \<Longrightarrow> (n, i) \<in> set (db_queue ?d')"
    "distinct (map fst (db_queue ?d)) \<Longrightarrow> distinct (map fst (db_queue ?d'))"
    using delete_batch_effect [OF assms(1)] by auto
  have same: "stored P ?d' = stored P ?d" "task_ids ?d' = task_ids ?d"
    by (simp_all add: fun_eq_iff stored_def task_ids_def e(1))
  have kept: "queued ?d' i \<or> db_settled P ?d i" if queued: "queued ?d i" for i
  proof -
    obtain n where n: "(n, i) \<in> set (db_queue ?d)" using queued by (auto simp: queued_def)
    show ?thesis
    proof (cases "n \<in> fst ` set batch")
      case True
      then obtain j where j: "(n, j) \<in> set batch" by auto
      then have "i = j" using rows n by blast
      then show ?thesis using settled [of i] j by force
    next
      case False
      then have "i \<in> snd ` set (db_queue ?d')" using imageI [OF e(4) [OF n], of snd] by simp
      then show ?thesis by (simp add: queued_def)
    qed
  qed
  have settled_same: "db_settled P ?d' i = db_settled P ?d i" for i by (simp add: db_settled_def same)
  show "moves P K ?d ?d'"
    unfolding moves_def safe_def settled_same using kept e(2,3) by auto
  have "queued ?d' i" if "waiting P ?d' i" for i
  proof -
    have "waiting P ?d i" using that by (simp add: waiting_def same)
    then have "queued ?d i" "\<not> db_settled P ?d i" using assms(2) by (auto simp: db_ok_def waiting_def db_settled_def)
    then show ?thesis using kept by blast
  qed
  moreover have "db_wf P ?d'" using assms(2) e(1) by (simp add: db_ok_def db_wf_def)
  moreover have "queue_wf ?d'" using assms(2) e(2,3,5) by (auto simp: db_ok_def queue_wf_def)
  moreover have "task_ids ?d' \<subseteq> K" using assms(2) same(2) by (simp add: db_ok_def)
  moreover have "snd ` set (db_queue ?d') \<subseteq> K"
    using image_mono [OF e(3), of snd] assms(2) unfolding db_ok_def by (meson subset_trans)
  ultimately show "db_ok P ?d' K" by (simp add: db_ok_def)
qed

lemma object_alarm_end:
  assumes ok: "object_ok X P ob" and run: "ob_run ob = Some b" "br_rest b = Done v"
    and fin: "finish_alarm P (br_batch b) (Some v) (ob_state ob) = (x, st)"
  shows "object_ok X P (ob\<lparr>ob_state := st, ob_run := None\<rparr>)"
proof -
  let ?d = "sb_db (ob_state ob)"
  obtain K where K: "K \<subseteq> ob_ids ob" "db_ok P ?d K" "distinct (map ss_id (ob_sessions ob))"
    "ss_id ` set (ob_sessions ob) \<subseteq> ob_ids ob" "\<forall>s \<in> set (ob_sessions ob). session_ok X P ?d K s"
    "run_ok X P ?d K b"
    using ok run(1) unfolding object_ok_def by blast
  have "moves P K ?d (sb_db st) \<and> db_ok P (sb_db st) K"
  proof (cases "v = Advance")
    case False
    then have "sb_db st = ?d" using finish_alarm_effect(1) [OF fin] by simp
    then show ?thesis using K(2) quiet_moves [of P ?d ?d K] by simp
  next
    case True
    obtain y st1 where del: "do_delete_batch P (br_batch b) ((ob_state ob)\<lparr>sb_failures := 0\<rparr>) = (y, st1)"
      and st1: "sb_db st = sb_db st1"
      using finish_alarm_effect(2) [OF fin] True by blast
    have prog: "exec (submission_program X (map snd (br_batch b))) (br_history b) (Some Advance)"
      using resumes_done K(6) run(2) True by (auto simp: run_ok_def Let_def)
    have settled: "db_settled P ?d i" if i: "i \<in> snd ` set (br_batch b)" for i
    proof (rule advance_settled [OF prog])
      show "i \<in> set (map snd (br_batch b))" using i by simp
      show "db_settled P ?d i \<or> (\<exists>t. Some t \<in> set ts \<and> t_id t = i \<and> \<not> is_terminal (t_status t))"
        if "(LoadTasks (map snd (br_batch b)), TasksLoaded ts) \<in> set (br_history b)" for ts
        using K(6) i that unfolding run_ok_def Let_def by auto
      show "db_settled P ?d i" if "step \<in> set (br_history b)" "settles i step" for step
        using K(6) i that unfolding run_ok_def Let_def by auto
    qed
    have rows: "j = i" if "(n, i) \<in> set (br_batch b)" "(n, j) \<in> set (db_queue ?d)" for n i j
      using K(6) that unfolding run_ok_def Let_def by blast
    show ?thesis using delete_moves [OF del, of K] K(2) rows settled st1 by simp
  qed
  then have m: "moves P K ?d (sb_db st)" "db_ok P (sb_db st) K" by blast+
  have "\<forall>s \<in> set (ob_sessions ob). session_ok X P (sb_db st) K s"
    using session_moves [OF _ m(1) order_refl] K(5) by blast
  then show ?thesis
    unfolding object_ok_def using K(1,3,4) m(2) by (intro exI [of _ K]) simp
qed

section \<open>The operations of an admission\<close>

lemma session_advance:
  assumes K: "K \<subseteq> ob_ids ob" "distinct (map ss_id (ob_sessions ob))" "ss_id ` set (ob_sessions ob) \<subseteq> ob_ids ob"
    "\<forall>s \<in> set (ob_sessions ob). session_ok X P (sb_db (ob_state ob)) K s"
    "\<forall>b. ob_run ob = Some b \<longrightarrow> run_ok X P (sb_db (ob_state ob)) K b"
    and s: "ob_sessions ob = ss1 @ s # ss2" "ss_rest s = Ask q k"
    and d': "moves P K (sb_db (ob_state ob)) (sb_db st)" "db_ok P (sb_db st) K'" "K \<subseteq> K'" "K' \<subseteq> insert (ss_id s) K"
    and step: "step_backed P (sb_db st) (q, r)" "touched (ss_history s @ [(q, r)]) \<subseteq> K'"
      "ss_id s \<in> K' \<Longrightarrow> asked_admit (ss_history s @ [(q, r)])"
  shows "object_ok X P
    (ob\<lparr>ob_state := st, ob_sessions := ss1 @ s\<lparr>ss_history := ss_history s @ [(q, r)], ss_rest := k r\<rparr> # ss2\<rparr>)"
proof -
  let ?s = "s\<lparr>ss_history := ss_history s @ [(q, r)], ss_rest := k r\<rparr>"
  have so: "session_ok X P (sb_db (ob_state ob)) K s" using K(4) s(1) by simp
  have others: "session_ok X P (sb_db st) K' u" if "u \<in> set ss1 \<union> set ss2" for u
  proof -
    have "ss_id u \<in> ss_id ` set ss1 \<union> ss_id ` set ss2" "ss_id s \<notin> ss_id ` set ss1 \<union> ss_id ` set ss2"
      using K(2) s(1) that by auto
    then have "ss_id u \<noteq> ss_id s" by metis
    then have "ss_id u \<in> K' \<Longrightarrow> ss_id u \<in> K" using d'(4) by blast
    then show ?thesis using session_moves [OF _ d'(1,3), of X u] K(4) s(1) that by auto
  qed
  have old: "step_backed P (sb_db st) x" if "x \<in> set (ss_history s)" for x
    using so that step_backed_moves [OF _ d'(1) _ that] unfolding session_ok_def by blast
  have "session_ok X P (sb_db st) K' ?s"
    using so s(2) step old unfolding session_ok_def by (auto simp: resumes_ask)
  moreover have "\<forall>b. ob_run ob = Some b \<longrightarrow> run_ok X P (sb_db st) K' b"
    using K(5) run_moves [OF _ d'(1,3)] by blast
  moreover have "K' \<subseteq> ob_ids ob" using d'(4) K(1,3) s(1) by auto
  ultimately show ?thesis
    unfolding object_ok_def using K(2,3) s(1) d'(2) others by (intro exI [of _ K']) auto
qed

lemma faithful_answer:
  assumes "does P m Q" "\<And>a t. g a \<noteq> TaskFound (Some t)" "apfst g (m st) = (r, st')"
  shows "faithful_step P (sb_db st) r (sb_db st')"
proof -
  have "r = g (fst (m st))" "st' = snd (m st)" using assms(3) by (simp_all add: prod_eq_iff)
  then show ?thesis using does_quiet [OF assms(1), of st] assms(2) by (simp add: faithful_step_def)
qed

lemma faithful_found:
  assumes "found_answer a = r" "d' = d" "\<And>t. db_wf P d \<Longrightarrow> a = Inr (Some t) \<Longrightarrow> \<exists>i. stored P d i = Some t"
  shows "faithful_step P d r d'"
proof -
  have "stored P d (t_id t) = Some t" if wf: "db_wf P d" and r: "r = TaskFound (Some t)" for t
  proof -
    have "a = Inr (Some t)" using assms(1) r by (simp add: found_answer_def split: sum.splits)
    then obtain i where "stored P d i = Some t" using assms(3) wf by blast
    then show ?thesis using wf_stored_id [OF wf] by simp
  qed
  then show ?thesis using assms(2) by (simp add: faithful_step_def)
qed

lemma faithful_find:
  assumes "apfst found_answer (do_find_by_index P H table v st) = (r, st')"
  shows "faithful_step P (sb_db st) r (sb_db st')"
proof -
  obtain a st1 where a: "do_find_by_index P H table v st = (a, st1)" by fastforce
  have "found_answer a = r" "st1 = st'" using assms a by simp_all
  then show ?thesis using faithful_found do_find_by_index_eq [OF a] by metis
qed

lemma faithful_same: "(\<And>t. r \<noteq> TaskFound (Some t)) \<Longrightarrow> faithful_step P d r d"
  by (simp add: faithful_step_def)

lemma faithful_net:
  fixes st :: "'w submitter"
  assumes "apfst bool_answer (do_net m st) = (r, st')"
  shows "faithful_step P (sb_db st) r (sb_db st')"
  using assms by (rule faithful_answer [OF does_net, rotated]) (simp add: bool_answer_def split: sum.split)

lemma execute_admission_faithful:
  assumes ex: "execute_admission X P H limit C ip st q = (r, st')"
    and q: "\<And>t. q \<noteq> Admit t" "\<And>t. q \<noteq> Enqueue t" "\<And>i. q \<noteq> MarkAdmitted i"
  shows "faithful_step P (sb_db st) r (sb_db st')"
proof (cases q)
  case (LoadTask i)
  obtain a st1 where a: "do_get_task P H i st = (a, st1)" by fastforce
  have eq: "found_answer a = r" "st1 = st'" using ex a by (simp_all add: LoadTask execute_admission_def)
  show ?thesis using faithful_found [OF eq(1), of "sb_db st'" "sb_db st"] do_get_task_eq [OF a] eq(2) by blast
next
  case (FindTaskByContent c)
  then show ?thesis using ex by (auto simp: execute_admission_def do_find_by_content_def intro: faithful_find)
next
  case (FindTaskByRetryDigest c)
  then show ?thesis using ex by (auto simp: execute_admission_def do_find_by_retry_digest_def intro: faithful_find)
next
  case (FindTaskByKey c)
  then show ?thesis using ex by (auto simp: execute_admission_def do_find_by_public_key_def intro: faithful_find)
next
  case AllowIpCreate
  show ?thesis using ex unfolding AllowIpCreate execute_admission_def admission_operation.case
    by (rule faithful_answer [OF quiet_rates, rotated]) (simp split: sum.split)
next
  case AllowGlobalCreate
  show ?thesis using ex unfolding AllowGlobalCreate execute_admission_def admission_operation.case
    by (rule faithful_answer [OF quiet_rates, rotated]) (simp split: sum.split)
next
  case QueueDepth
  show ?thesis using ex unfolding QueueDepth execute_admission_def admission_operation.case
    by (rule faithful_answer [OF does_stats, rotated]) (simp split: sum.split prod.split)
next
  case (RecordRetryDigest digest i)
  have "does P (do_record_retry_digest P H digest i RETRY_COALESCE_TTL_SECS) (\<lambda>_. True)"
    unfolding do_record_retry_digest_def by (intro does_clocked does_write quiet_fields)
  note a = faithful_answer [OF this, rotated]
  show ?thesis using ex unfolding RecordRetryDigest execute_admission_def admission_operation.case
    by (rule a) (simp split: sum.split)
next
  case (CheckContentRegistered c)
  note e = ex [unfolded CheckContentRegistered execute_admission_def admission_operation.case]
  show ?thesis
  proof (cases "parse_b256 X c")
    case Inl
    then show ?thesis using e by (auto intro: faithful_same)
  next
    case (Inr h)
    show ?thesis using e unfolding Inr sum.case by (rule faithful_net)
  qed
next
  case (CheckReferenced g m)
  note e = ex [unfolded CheckReferenced execute_admission_def admission_operation.case]
  show ?thesis
  proof (cases "\<exists>a b. parse_hex_bytes X g = Inr a \<and> parse_hex_bytes X m = Inr b")
    case True
    then obtain a b where ab: "parse_hex_bytes X g = Inr a" "parse_hex_bytes X m = Inr b" by blast
    show ?thesis using e unfolding ab sum.case prod.case by (rule faithful_net)
  next
    case False
    then show ?thesis using e by (auto intro: faithful_same split: sum.splits)
  qed
next
  case (CheckGroupExists g)
  note e = ex [unfolded CheckGroupExists execute_admission_def admission_operation.case]
  show ?thesis
  proof (cases "parse_hex_bytes X g")
    case Inl
    then show ?thesis using e by (auto intro: faithful_same)
  next
    case (Inr h)
    show ?thesis using e unfolding Inr sum.case
      by (rule faithful_answer [OF does_net, rotated]) (simp split: sum.split)
  qed
qed (use q in blast)+

lemma faithful_backed:
  assumes "faithful_step P d r d'" "db_ok P d K" "\<And>t. q \<noteq> Enqueue t" "\<And>i. q \<noteq> MarkAdmitted i"
  shows "step_backed P d' (q, r)" "r = TaskFound (Some t) \<Longrightarrow> t_id t \<in> K"
proof -
  have found: "d' = d \<and> stored P d (t_id t) = Some t" if "r = TaskFound (Some t)" for t
    using assms(1,2) that by (simp add: faithful_step_def db_ok_def)
  have "safe P d' (t_id t)" if r: "r = TaskFound (Some t)" "t_admitted t \<or> is_terminal (t_status t)" for t
  proof (cases "is_terminal (t_status t)")
    case True
    then show ?thesis using found [OF r(1)] by (simp add: safe_def db_settled_def)
  next
    case False
    then have "waiting P d (t_id t)" using found [OF r(1)] r(2) by (simp add: waiting_def)
    then show ?thesis using assms(2) found [OF r(1)] by (simp add: db_ok_def safe_def)
  qed
  then show "step_backed P d' (q, r)" using assms(3,4) by (auto simp: step_backed_def)
  show "t_id t \<in> K" if "r = TaskFound (Some t)"
    using found [OF that] stored_task_ids assms(2) unfolding db_ok_def by blast
qed

lemma admit_moves:
  assumes run: "do_admit P H t st = (r, st')" and ok: "db_ok P (sb_db st) K"
    and t: "\<not> t_admitted t" "t_id t \<notin> K"
  shows "moves P K (sb_db st) (sb_db st')" "db_ok P (sb_db st') (insert (t_id t) K)"
proof -
  have wf: "db_wf P (sb_db st)" using ok by (simp add: db_ok_def)
  note e = admit_effect [OF run wf t(1)]
  have "db_settled P (sb_db st') i = db_settled P (sb_db st) i" if "i \<in> K" for i
  proof -
    have "i \<noteq> t_id t" using t(2) that by blast
    then show ?thesis using e(5) by (simp add: db_settled_def)
  qed
  then show "moves P K (sb_db st) (sb_db st')" by (simp add: moves_def safe_def queued_def e(2,3))
  show "db_ok P (sb_db st') (insert (t_id t) K)"
    using ok e(1-4,6) by (auto simp: db_ok_def queue_wf_def queued_def)
qed

lemma enqueue_moves:
  assumes run: "do_enqueue P t st = (r, st')" and ok: "db_ok P (sb_db st) K" and t: "t_id t \<in> K"
  shows "moves P K (sb_db st) (sb_db st')" "db_ok P (sb_db st') K"
proof -
  note e = enqueue_effect [OF run]
  have same: "stored P (sb_db st') = stored P (sb_db st)" "task_ids (sb_db st') = task_ids (sb_db st)"
    by (simp_all add: fun_eq_iff stored_def task_ids_def e(1))
  have settled_same: "db_settled P (sb_db st') = db_settled P (sb_db st)" "waiting P (sb_db st') = waiting P (sb_db st)"
    by (simp_all add: fun_eq_iff db_settled_def waiting_def same)
  have wf: "db_wf P (sb_db st')" using ok e(1) by (simp add: db_ok_def db_wf_def)
  have new: "n < db_next_seq (sb_db st)" if "(n, i) \<in> set (db_queue (sb_db st))" for n i
    using ok that by (force simp: db_ok_def queue_wf_def)
  show "moves P K (sb_db st) (sb_db st')"
    using e(2) unfolding moves_def safe_def settled_same by (auto simp: queued_def)
  have "queue_wf (sb_db st')" using e(2) ok new by (force simp: db_ok_def queue_wf_def)
  moreover have "\<And>i. queued (sb_db st) i \<Longrightarrow> queued (sb_db st') i" using e(2) by (auto simp: queued_def)
  moreover have "snd ` set (db_queue (sb_db st')) \<subseteq> K"
  proof -
    have "snd ` set (db_queue (sb_db st)) \<subseteq> K" using ok by (simp add: db_ok_def)
    then show ?thesis using e(2) t by (elim disjE) simp_all
  qed
  moreover have "task_ids (sb_db st) \<subseteq> K" "\<And>i. waiting P (sb_db st) i \<Longrightarrow> queued (sb_db st) i"
    using ok by (simp_all add: db_ok_def)
  ultimately show "db_ok P (sb_db st') K"
    using wf unfolding db_ok_def same(2) settled_same by simp
qed

lemma mark_moves:
  assumes run: "do_mark_admitted P H i st = (r, st')" and ok: "db_ok P (sb_db st) K"
    and i: "safe P (sb_db st) i"
  shows "moves P K (sb_db st) (sb_db st')" "db_ok P (sb_db st') K"
    "r = Inr (Some t) \<Longrightarrow> t_id t = i \<and> safe P (sb_db st') i"
proof -
  have wf: "db_wf P (sb_db st)" using ok by (simp add: db_ok_def)
  note e = mark_admitted_effect [OF run wf]
  have safe_same: "safe P (sb_db st') j = safe P (sb_db st) j" for j by (simp add: safe_def queued_def e(2,5))
  show "moves P K (sb_db st) (sb_db st')" by (simp add: moves_def safe_same e(2,3,5))
  have "queued (sb_db st') j" if w: "waiting P (sb_db st') j" for j
  proof (cases "waiting P (sb_db st) j")
    case True
    then show ?thesis using ok e(2) by (simp add: db_ok_def queued_def)
  next
    case False
    then have "j = i" using e(6) [OF w] by blast
    moreover have "\<not> db_settled P (sb_db st') j" using w by (auto simp: waiting_def db_settled_def)
    ultimately show ?thesis using i e(2,5) by (simp add: safe_def queued_def)
  qed
  then show "db_ok P (sb_db st') K" using ok e(1-4) by (simp add: db_ok_def queue_wf_def)
  show "t_id t = i \<and> safe P (sb_db st') i" if "r = Inr (Some t)"
    using e(7) [OF that] wf_stored_id [OF e(1)] i safe_same by blast
qed

lemma object_admit_work:
  assumes X: "externs_ok X" and ok: "object_ok X P ob" and s: "ob_sessions ob = ss1 @ s # ss2" "ss_rest s = Ask q k"
    and ex: "execute_admission X P H limit C (ss_ip s) (ob_state ob) q = (r, st)"
  shows "object_ok X P
    (ob\<lparr>ob_state := st, ob_sessions := ss1 @ s\<lparr>ss_history := ss_history s @ [(q, r)], ss_rest := k r\<rparr> # ss2\<rparr>)"
proof -
  let ?d = "sb_db (ob_state ob)" and ?h = "ss_history s"
  obtain K where K: "K \<subseteq> ob_ids ob" "distinct (map ss_id (ob_sessions ob))" "ss_id ` set (ob_sessions ob) \<subseteq> ob_ids ob"
    "\<forall>s \<in> set (ob_sessions ob). session_ok X P ?d K s" "\<forall>b. ob_run ob = Some b \<longrightarrow> run_ok X P ?d K b"
    and d: "db_ok P ?d K"
    using ok unfolding object_ok_def by blast
  have so: "session_ok X P ?d K s" using K(4) s(1) by simp
  then obtain request now registry where prog: "ss_program s = admission_program X request (ss_id s) now CHAIN_ID registry"
    and res: "resumes (ss_program s) ?h (Ask q k)" and t: "touched ?h \<subseteq> K" "ss_id s \<in> K \<Longrightarrow> asked_admit ?h"
    and backed: "\<And>step. step \<in> set ?h \<Longrightarrow> step_backed P ?d step"
    using s(2) unfolding session_ok_def by auto
  obtain tr out where "exec (admission_program X request (ss_id s) now CHAIN_ID registry) (?h @ (q, r) # tr) out"
    using resumes_next [OF res] prog by metis
  from admission_step [OF X this] obtain task ch where
    task: "fresh_task task (ss_id s) now" and allowed: "allowed_step X task ch ?h (q, r)" and once: "admits_once ?h (q, r)" .
  note advance = session_advance [OF K s]
  have own: "asked_admit (?h @ [(q, r)])" if "ss_id s \<in> K" using t(2) that by (simp add: asked_admit_def)
  have rest: ?thesis if q: "\<And>t. q \<noteq> Admit t" "\<And>t. q \<noteq> Enqueue t" "\<And>i. q \<noteq> MarkAdmitted i"
  proof -
    have f: "faithful_step P ?d r (sb_db st)" using execute_admission_faithful [OF ex q] .
    note m = quiet_moves [of P ?d "sb_db st" K, OF _ d] and b = faithful_backed [OF f d q(2,3)]
    have "touched (?h @ [(q, r)]) \<subseteq> K" by (rule touched_snoc [OF t(1)]) (use b(2) q in auto)
    then show ?thesis using f b(1) own
      by (intro advance [OF m(1) m(2) order_refl subset_insertI]) (simp_all add: faithful_step_def)
  qed
  show ?thesis
  proof (cases q)
    case (Admit u)
    have u: "\<not> t_admitted u" "t_id u = ss_id s" "\<not> asked_admit ?h"
      using allowed once task by (auto simp: Admit allowed_step_def admits_once_def fresh_task_def)
    have run: "do_admit P H u (ob_state ob) = (fst (do_admit P H u (ob_state ob)), st)"
      and r: "\<And>x. r \<noteq> TaskFound x"
      using ex by (auto simp: Admit execute_admission_def prod_eq_iff split: sum.splits do_admission.splits)
    have "t_id u \<notin> K" using u(2,3) t(2) by auto
    note m = admit_moves [OF run d u(1) this]
    have "touched (?h @ [(q, r)]) \<subseteq> insert (t_id u) K"
      by (rule touched_snoc [OF subset_insertI2 [OF t(1)]]) (use r in \<open>auto simp: Admit\<close>)
    then show ?thesis using advance [OF m] u(2) r by (simp add: step_backed_def Admit asked_admit_def subset_insertI)
  next
    case (Enqueue u)
    have "t_id u \<in> touched ?h"
      using allowed by (auto simp: Enqueue allowed_step_def answered_def list_ex_iff intro: touchedI)
    then have u: "t_id u \<in> K" using t(1) by blast
    have run: "do_enqueue P u (ob_state ob) = (fst (do_enqueue P u (ob_state ob)), st)"
      and r: "\<And>x. r \<noteq> TaskFound x" "r = Enqueued \<Longrightarrow> \<exists>v. fst (do_enqueue P u (ob_state ob)) = Inr v"
      using ex by (auto simp: Enqueue execute_admission_def prod_eq_iff split: sum.splits)
    note m = enqueue_moves [OF run d u]
    have "r = Enqueued \<Longrightarrow> safe P (sb_db st) (t_id u)" using enqueue_effect(3) [OF run] r(2) by (auto simp: safe_def)
    then have "step_backed P (sb_db st) (q, r)" using r(1) by (auto simp: step_backed_def Enqueue)
    moreover have "touched (?h @ [(q, r)]) \<subseteq> K" by (rule touched_snoc [OF t(1)]) (use r(1) u in \<open>auto simp: Enqueue\<close>)
    ultimately show ?thesis using advance [OF m order_refl subset_insertI] own by blast
  next
    case (MarkAdmitted i)
    obtain u where u: "(Enqueue u, Enqueued) \<in> set ?h" "i = t_id u"
      using allowed unfolding MarkAdmitted allowed_step_def answered_def list_ex_iff fst_conv admission_operation.case
      by clarify (simp split: admission_operation.split_asm)
    have i: "safe P ?d i" "i \<in> K" using backed [OF u(1)] touchedI(2) [OF u(1)] t(1) u(2) by (auto simp: step_backed_def)
    have run: "do_mark_admitted P H i (ob_state ob) = (fst (do_mark_admitted P H i (ob_state ob)), st)"
      and r: "\<And>u. r = TaskFound (Some u) \<Longrightarrow> fst (do_mark_admitted P H i (ob_state ob)) = Inr (Some u)"
      using ex by (auto simp: MarkAdmitted execute_admission_def found_answer_def prod_eq_iff split: sum.splits)
    note m = mark_moves [OF run d i(1)]
    have found: "t_id v = i" "safe P (sb_db st) i" if "r = TaskFound (Some v)" for v using m(3) [OF r [OF that]] by blast+
    then have "step_backed P (sb_db st) (q, r)" unfolding step_backed_def MarkAdmitted by simp
    moreover have "touched (?h @ [(q, r)]) \<subseteq> K"
      using found(1) i(2) unfolding MarkAdmitted by (intro touched_snoc [OF t(1)]) auto
    ultimately show ?thesis using advance [OF m(1,2) order_refl subset_insertI] own by blast
  qed (rule rest; simp)+
qed

end

section \<open>Every interleaving\<close>

context platform_laws
begin

lemma object_step_ok:
  assumes X: "externs_ok X" and step: "object_step X P H conf ob ob'" and ok: "object_ok X P ob"
  shows "object_ok X P ob'"
  using step
proof cases
  case (admit_begin n request p st ip)
  then show ?thesis using object_admit_begin [OF ok] by simp
next
  case (admit_refused request n e st)
  then show ?thesis using object_quiet [OF ok] does_quiet [OF quiet_begin_admission [of X H conf request n], of "ob_state ob"] by simp
next
  case (admit_work ss1 s ss2 q k limit C r st)
  then show ?thesis using object_admit_work [OF X ok] by simp
next
  case (admit_end ss1 s ss2 outcome x st)
  have "quiet P (sb_db (ob_state ob)) (sb_db st)"
    using does_quiet [OF quiet_finish_admission [of outcome], of "ob_state ob"] admit_end by simp
  then show ?thesis using object_forget [OF object_quiet [OF ok], of st ss1 s ss2] admit_end by simp
next
  case (alarm_begin batch C st)
  then show ?thesis using object_alarm_begin [OF ok] by simp
next
  case (alarm_idle x st)
  then show ?thesis using object_quiet [OF ok begin_alarm_effect(1)] by simp
next
  case (alarm_work b q k limit C r st)
  then show ?thesis using object_alarm_work [OF ok] by simp
next
  case (alarm_end b verdict x st)
  then show ?thesis using object_alarm_end [OF ok] by simp
next
  case (other_request request x st)
  then show ?thesis using object_quiet [OF ok] does_quiet [OF quiet_serve [of X H conf request], of "ob_state ob"] by simp
next
  case eviction
  have "object_ok X P (ob\<lparr>ob_state := (ob_state ob)\<lparr>sb_failures := 0, sb_nonce := None\<rparr>\<rparr>)"
    by (rule object_quiet [OF ok]) simp
  then show ?thesis unfolding eviction object_ok_def by auto
qed

lemma reachable_ok:
  assumes "reachable X P H conf ob" "externs_ok X"
  shows "object_ok X P ob"
  using assms
proof induction
  case (initial ob)
  then have "db_ok P (sb_db (ob_state ob)) {}"
    by (simp add: db_ok_def db_wf_def queue_wf_def waiting_def stored_def task_ids_def empty_db_def)
  then show ?case using initial by (simp add: object_ok_def) blast
next
  case (steps ob ob')
  then show ?case using object_step_ok by blast
qed

lemma reachable_backed:
  assumes "reachable X P H conf ob" "externs_ok X" "s \<in> set (ob_sessions ob)" "ss_rest s = Done (Queued i status)"
  shows "safe P (sb_db (ob_state ob)) i"
proof -
  obtain K where s: "session_ok X P (sb_db (ob_state ob)) K s"
    using reachable_ok [OF assms(1,2)] assms(3) unfolding object_ok_def by blast
  then obtain request now registry where "exec (admission_program X request (ss_id s) now CHAIN_ID registry) (ss_history s) (Some (Queued i status))"
    using resumes_done [of "ss_program s" "ss_history s" "Queued i status"] assms(4) unfolding session_ok_def by auto
  then have "queued_backed (ss_history s) i status" using admission_queued [OF assms(2)] by blast
  then obtain q t where t: "(q, TaskFound (Some t)) \<in> set (ss_history s)" "i = t_id t"
    "t_admitted t \<or> is_terminal (t_status t) \<or> (\<exists>j. q = MarkAdmitted j)"
    unfolding queued_backed_def answered_def list_ex_iff
    by (fastforce split: admission_result.splits option.splits admission_operation.splits)
  then show ?thesis using s unfolding session_ok_def step_backed_def by fastforce
qed

end

text \<open>C8: Whatever requests, alarms, maintenance passes and evictions interleave in the Durable Object, between
  the operations of the admissions and of the batch under way, with every statement free to fail before
  or after it ran: a task that is stored, admitted and not finished has an envelope in the queue, so an
  alarm will take it up; and an admission that is about to answer Queued answers for a task that
  has an envelope or is finished.\<close>

theorem cf_no_task_lost:
  assumes "externs_ok X" "platform_ok P" "reachable X P H conf ob"
  shows "(\<forall>i t. stored P (sb_db (ob_state ob)) i = Some t \<and> t_admitted t \<and> \<not> is_terminal (t_status t) \<longrightarrow>
        (\<exists>seq. (seq, i) \<in> set (db_queue (sb_db (ob_state ob)))))
    \<and> (\<forall>s \<in> set (ob_sessions ob). \<forall>i status. ss_rest s = Done (Queued i status) \<longrightarrow>
        (\<exists>seq. (seq, i) \<in> set (db_queue (sb_db (ob_state ob))))
        \<or> (\<forall>t. stored P (sb_db (ob_state ob)) i = Some t \<longrightarrow> is_terminal (t_status t)))"
proof -
  have P: "platform_laws P" by unfold_locales (rule assms(2))
  have envelope: "queued d i \<longleftrightarrow> (\<exists>seq. (seq, i) \<in> set (db_queue d))" for d i by (force simp: queued_def)
  have "queued (sb_db (ob_state ob)) i" if "waiting P (sb_db (ob_state ob)) i" for i
    using platform_laws.reachable_ok [OF P assms(3,1)] that by (auto simp: object_ok_def db_ok_def)
  then show ?thesis
    using platform_laws.reachable_backed [OF P assms(3,1)]
    unfolding safe_def db_settled_def waiting_def envelope by blast
qed

text \<open>An admission served on its own is a sequence of these steps.\<close>

lemma reachable_run:
  assumes "reachable X P H (Inr (limit, C)) ob" "ob_sessions ob = ss1 @ s # ss2"
    "run (execute_admission X P H limit C (ss_ip s)) (ss_rest s) (ob_state ob) = (Some outcome, tr, st)"
  shows "reachable X P H (Inr (limit, C))
    (ob\<lparr>ob_state := st, ob_sessions := ss1 @ s\<lparr>ss_history := ss_history s @ tr, ss_rest := Done outcome\<rparr> # ss2\<rparr>)"
  using assms
proof (induction "ss_rest s" arbitrary: ob s tr)
  case (Done a)
  then have "tr = []" "outcome = a" "st = ob_state ob" by (metis run.simps(1) Pair_inject option.inject)+
  moreover have "ob\<lparr>ob_sessions := ss1 @ s # ss2\<rparr> = ob" unfolding Done.prems(2) [symmetric] by simp
  ultimately show ?case using Done.prems(1) Done.hyps by simp
next
  case (Ask q k)
  obtain r st1 where r: "execute_admission X P H limit C (ss_ip s) (ob_state ob) q = (r, st1)" by fastforce
  obtain tr1 where tr1: "run (execute_admission X P H limit C (ss_ip s)) (k r) st1 = (Some outcome, tr1, st)"
    "tr = (q, r) # tr1"
    using Ask.prems(3) unfolding Ask.hyps(2) [symmetric] by (auto simp: r split: prod.splits)
  let ?s = "s\<lparr>ss_history := ss_history s @ [(q, r)], ss_rest := k r\<rparr>"
  have "reachable X P H (Inr (limit, C)) (ob\<lparr>ob_state := st1, ob_sessions := ss1 @ ?s # ss2\<rparr>)"
    using Ask.prems(1) object_step.admit_work [OF Ask.prems(2) Ask.hyps(2) [symmetric] refl r] by (rule reachable.steps)
  from Ask.hyps(1) [of ?s, OF _ this] show ?case using tr1 by simp
next
  case Panic
  then show ?case by (metis run.simps(3) Pair_inject option.distinct(1))
qed

text \<open>A healthy object serves the sample registration: the chain cannot be read, and the task is
  stored, queued and marked.\<close>

definition sample_host :: "ref_world host" where
  "sample_host = ref_host\<lparr>address_text := (\<lambda>_. sample_registry_text), h_now_ms := (\<lambda>w. (7, w))\<rparr>"

definition sample_state :: "db \<Rightarrow> ref_world submitter" where
  "sample_state d =
     \<lparr>sb_db = d, sb_net = \<lparr>n_roster = roster_new [] [], n_world = \<lparr>rw_posts = [], rw_replies = [], rw_time = 0\<rparr>\<rparr>,
      sb_failures = 0, sb_nonce = None, sb_alarm = None, sb_sent = []\<rparr>"

definition sample_program :: admission_prog where
  "sample_program = admission_program ref_externs (RegisterRequest (register_request_of sample_register)) ''t1'' 7
     CHAIN_ID sample_registry_text"

lemma sample_clock: "clocked sample_host f (sample_state d) = f 7 (sample_state d)"
  by (simp add: clocked_def now_ms_def sample_host_def sample_state_def)

lemma sample_sql: "sql ref_platform f (sample_state d) = (Inr (fst (f d)), sample_state (snd (f d)))"
  by (simp add: sql_def ref_platform_def sample_state_def split_def Let_def)

lemma sample_write: "sql_write ref_platform f (sample_state d) = (Inr (), sample_state (f d))"
  by (simp add: sql_write_def sample_sql)

lemma sample_read: "sql_read ref_platform f (sample_state d) = (Inr (f d), sample_state d)"
  by (simp add: sql_read_def sample_sql)

lemmas sample_ops = sample_clock sample_sql sample_write sample_read bind_op_def return_op_def lift_op_def

lemma sample_begin:
  "begin_admission ref_externs ref_platform sample_host (Inr (100, sample_signer))
     (RegisterRequest (register_request_of sample_register)) ''t1'' (sample_state empty_db) = (Inr sample_program, sample_state empty_db)"
  by (simp add: begin_admission_def open_db_def bootstrap_def purge_expired_def sample_ops sample_program_def
      domain_registry_address_def sample_host_def [THEN arg_cong, of address_text] empty_db_def delete_where_def)

lemma sample_round: "p_task_json ref_platform t = Some (number (task_tuple t))"
  "p_parse_task ref_platform (number (task_tuple t)) = Some t"
  using ref_platform_ok by (simp_all add: platform_ok_def ref_platform_def ref_services_def)

lemma sample_chain_down:
  "do_net (cf_is_content_registered X sample_host sample_signer h) (sample_state d) = (Inl Unavailable, sample_state d)"
  by (simp add: do_net_def cf_is_content_registered_def cf_read_def cf_call_contract_def cf_call_def bind_op_def
    sample_state_def read_attempts_def roster_new_def)

lemma sample_rate:
  assumes "map_of (db_rates d) key = None"
  shows "bump_minute_counter ref_platform sample_host key (sample_state d)
     = (Inr 1, sample_state (d\<lparr>db_rates := insert_or_replace key (bumped 7 None) (db_rates d)\<rparr>))"
  by (simp add: bump_minute_counter_def sample_ops Let_def assms bumped_def)

lemma sample_absent:
  "db_content d = [] \<Longrightarrow> do_find_by_content ref_platform sample_host c (sample_state d) = (Inr None, sample_state d)"
  "db_retry d = [] \<Longrightarrow> do_find_by_retry_digest ref_platform sample_host c (sample_state d) = (Inr None, sample_state d)"
  by (simp_all add: do_find_by_content_def do_find_by_retry_digest_def do_find_by_index_def sample_ops)

lemma sample_admit:
  assumes "db_content d = []"
  shows "\<exists>ks. do_admit ref_platform sample_host sample_register (sample_state d)
    = (Inr AdmittedNew, sample_state (d\<lparr>db_tasks := insert_or_replace ''t1'' (new_row sample_register (number (task_tuple sample_register))) (db_tasks d),
        db_content := [(to_ascii_lowercase (t_content_hash sample_register), \<lparr>ix_task_id = ''t1'', ix_expires_at = None\<rparr>)],
        db_keys := ks\<rparr>))"
  by (simp add: do_admit_def sample_absent assms to_payload_def sample_round ok_or_def sample_ops do_key_placeholders_def
      sample_register_fields sample_register_id insert_or_replace_def) (intro exI, rule refl)

lemma sample_runs:
  "\<exists>tr d. run (execute_admission ref_externs ref_platform sample_host 100 sample_signer ''ip'') sample_program (sample_state empty_db) = (Some (Queued ''t1'' Pending), tr, sample_state d)
     \<and> stored ref_platform d ''t1'' = Some (sample_register\<lparr>t_admitted := True\<rparr>)"
proof -
  obtain ks where ks: "do_admit ref_platform sample_host sample_register (sample_state d)
    = (Inr AdmittedNew, sample_state (d\<lparr>db_tasks := insert_or_replace ''t1'' (new_row sample_register (number (task_tuple sample_register))) (db_tasks d),
        db_content := [(to_ascii_lowercase (t_content_hash sample_register), \<lparr>ix_task_id = ''t1'', ix_expires_at = None\<rparr>)],
        db_keys := ks d\<rparr>))" if "db_content d = []" for d
    using sample_admit by metis
  have chain: "CHAIN_ID = sample_chain" by (simp add: CHAIN_ID_def sample_chain_def)
  have check: "(case parse_b256 ref_externs c of Inl _ \<Rightarrow> (admission_result.ChainReadFailed, sample_state d)
       | Inr h \<Rightarrow> apfst bool_answer (do_net (cf_is_content_registered ref_externs sample_host sample_signer h) (sample_state d)))
     = (admission_result.ChainReadFailed, sample_state d)" for d c
    by (simp add: sample_chain_down bool_answer_def split: sum.split)
  show ?thesis
    by (simp add: sample_program_def admission_program_def drive_admission_def chain sample_validates
      admission_program_defs Let_def sample_register_fields sample_register_id MAX_ACTIVE_QUEUE_DEPTH_def check
      execute_admission_def empty_db_def sample_rate sample_absent found_answer_def insert_or_replace_def
      ks do_queue_stats_def oldest_active_def sample_ops do_record_retry_digest_def do_enqueue_def do_mark_admitted_def do_get_task_def
      sample_round new_row_def expired_def sample_register_id to_payload_def ok_or_def update_where_def stored_def)
      (intro exI conjI, rule refl, simp add: sample_round)
qed

theorem cf_no_task_lost_witness:
  "\<exists>ob t. reachable ref_externs ref_platform sample_host (Inr (100, sample_signer)) ob
     \<and> (\<exists>s \<in> set (ob_sessions ob). ss_rest s = Done (Queued ''t1'' Pending))
     \<and> stored ref_platform (sb_db (ob_state ob)) ''t1'' = Some t \<and> t_admitted t
     \<and> (\<exists>seq. (seq, ''t1'') \<in> set (db_queue (sb_db (ob_state ob))))"
proof -
  let ?s = "\<lparr>ss_ip = ''ip'', ss_id = ''t1'', ss_program = sample_program, ss_history = [], ss_rest = sample_program\<rparr>"
  let ?ob = "\<lparr>ob_state = sample_state empty_db, ob_sessions = [], ob_run = None, ob_ids = {}\<rparr>"
  obtain tr d where run: "run (execute_admission ref_externs ref_platform sample_host 100 sample_signer ''ip'') sample_program
      (sample_state empty_db) = (Some (Queued ''t1'' Pending), tr, sample_state d)"
    and stored: "stored ref_platform d ''t1'' = Some (sample_register\<lparr>t_admitted := True\<rparr>)"
    using sample_runs by blast
  let ?reach = "reachable ref_externs ref_platform sample_host (Inr (100, sample_signer))"
  have "?reach ?ob" by (rule reachable.initial) (simp_all add: sample_state_def)
  then have "?reach (?ob\<lparr>ob_state := sample_state empty_db, ob_sessions := ob_sessions ?ob @ [?s], ob_ids := insert ''t1'' (ob_ids ?ob)\<rparr>)"
    by (rule reachable.steps [OF _ object_step.admit_begin [where request = "RegisterRequest (register_request_of sample_register)"]])
      (simp_all add: sample_begin)
  then have "?reach \<lparr>ob_state = sample_state empty_db, ob_sessions = [?s], ob_run = None, ob_ids = {''t1''}\<rparr>" by simp
  from reachable_run [OF this, of "[]" ?s "[]"] run
  have r: "?reach \<lparr>ob_state = sample_state d, ob_sessions = [?s\<lparr>ss_history := tr, ss_rest := Done (Queued ''t1'' Pending)\<rparr>], ob_run = None, ob_ids = {''t1''}\<rparr>"
    (is "reachable _ _ _ _ ?last") by simp
  have d: "sb_db (ob_state ?last) = d" by (simp add: sample_state_def)
  have "\<exists>seq. (seq, ''t1'') \<in> set (db_queue d)"
    using cf_no_task_lost [OF ref_externs_ok ref_platform_ok r] stored sample_register_id(2) unfolding d by auto
  then show ?thesis using r stored d by (intro exI [of _ ?last] exI [of _ "sample_register\<lparr>t_admitted := True\<rparr>"]) simp
qed

end
