(* ===== verification/Cf_Alarm.thy ===== *)
theory Cf_Alarm
  imports Cf_Object
begin

text \<open>
  The Durable Object has no loop: what it queued is processed only when its alarm fires.  An answer that
  promises processing is given with an alarm armed, and, in an object that has a signer, an alarm that
  ends well leaves an empty queue or is armed again; an alarm that ends in an error is retried by the
  platform.  Without a signer the object is a read-only deployment: the alarm leaves the queue as it is
  and is not armed again until the next admission.
\<close>

section \<open>Arming\<close>

lemma schedule_armed: "schedule P delay st = (Inr x, st') \<Longrightarrow> sb_alarm st' \<noteq> None"
  by (auto simp: schedule_def Let_def split: prod.splits if_splits)

lemma schedule_queue: "schedule P delay st = (r, st') \<Longrightarrow> sb_db st' = sb_db st"
  by (auto simp: schedule_def Let_def split: prod.splits if_splits)

lemma ensure_armed: "ensure_alarm P st = (Inr x, st') \<Longrightarrow> sb_alarm st' \<noteq> None"
  unfolding ensure_alarm_def bind_op_def
  by (auto simp: get_alarm_def return_op_def Let_def dest: schedule_armed split: prod.splits sum.splits if_splits)

lemma finish_admission_armed:
  "finish_admission P (Queued i status) st = (Inr x, st') \<Longrightarrow> \<not> is_terminal status \<Longrightarrow> sb_alarm st' \<noteq> None"
  by (simp add: finish_admission_def ensure_armed)

lemma finish_alarm_armed:
  assumes fin: "finish_alarm P batch verdict st = (Inr x, st')" and len: "length (db_queue (sb_db st')) < 2 ^ 64"
  shows "db_queue (sb_db st') = [] \<or> sb_alarm st' \<noteq> None"
proof (cases "verdict = Some Advance")
  case False
  then show ?thesis using fin schedule_armed
    by (auto simp: finish_alarm_def Let_def split: option.splits batch_verdict.splits)
next
  case True
  then obtain st1 n st2 where n: "do_queue_len P st1 = (Inr n, st2)"
    and rest: "(if 0 < n then schedule P 0 else return_op ()) st2 = (Inr x, st')"
    using fin by (auto simp: finish_alarm_def bind_op_def split: prod.splits sum.splits)
  have n': "n = of_nat (length (db_queue (sb_db st2)))"
    using sql_read_eq [OF n [unfolded do_queue_len_def]] by simp
  show ?thesis
  proof (cases "0 < n")
    case True
    then show ?thesis using rest schedule_armed by auto
  next
    case False
    then have "st' = st2" "n = 0" using rest by (auto simp: return_op_def word_gt_0)
    then have "unat (of_nat (length (db_queue (sb_db st'))) :: u64) = 0" using n' by simp
    then show ?thesis using len by (simp add: unat_of_nat)
  qed
qed

lemma begin_alarm_idle:
  assumes idle: "begin_alarm P H (Inr (limit, C)) st = (Inr None, st')" and signer: "has_signer C"
  shows "db_queue (sb_db st') = [] \<or> sb_alarm st' \<noteq> None"
proof -
  obtain st1 v st2 where v: "do_net (cf_fee_plan H C) st1 = (v, st2)"
    and rest: "(case v of Inr (TooExpensive _ _) \<Rightarrow> bind_op (schedule P 15000) (\<lambda>_. return_op None) st2
         | _ \<Rightarrow> bind_op (do_poll_batch P POLL_BATCH_SIZE) (\<lambda>batch. return_op (if batch = [] then None else Some (batch, C))) st2)
       = (Inr None, st')"
    using idle signer
    by (auto simp: begin_alarm_def bind_op_def lift_op_def split: prod.splits sum.splits fee_verdict.splits)
  have poll: ?thesis if "bind_op (do_poll_batch P POLL_BATCH_SIZE) (\<lambda>batch. return_op (if batch = [] then None else Some (batch, C))) st2
      = (Inr None, st')"
  proof -
    have b: "do_poll_batch P POLL_BATCH_SIZE st2 = (Inr [], st')"
      using that by (auto simp: bind_op_def return_op_def split: prod.splits sum.splits if_splits)
    then have "sb_db st' = sb_db st2" "take POLL_BATCH_SIZE (sort_key fst (db_queue (sb_db st2))) = []"
      using sql_read_eq [OF b [unfolded do_poll_batch_def]] by auto
    then show ?thesis by (auto simp: POLL_BATCH_SIZE_def min_def split: if_splits simp flip: length_0_conv)
  qed
  show ?thesis
  proof (cases "\<exists>a b. v = Inr (TooExpensive a b)")
    case True
    then show ?thesis using rest by (auto simp: bind_op_def return_op_def dest: schedule_armed split: prod.splits sum.splits)
  next
    case False
    then show ?thesis using rest poll by (auto split: sum.splits fee_verdict.splits)
  qed
qed

text \<open>Opening the database purges expired rows; it neither touches the queue nor arms an alarm.\<close>

definition keeps_queue :: "('w, 'a) do_op \<Rightarrow> bool" where
  "keeps_queue m = (\<forall>st. db_queue (sb_db (snd (m st))) = db_queue (sb_db st) \<and> sb_alarm (snd (m st)) = sb_alarm st)"

lemma keeps_queue_write: "(\<And>d. db_queue (f d) = db_queue d) \<Longrightarrow> keeps_queue (sql_write P f)"
  by (auto simp: keeps_queue_def sql_write_def sql_def Let_def split: prod.split sql_fate.split)

lemma keeps_queue_bind: "keeps_queue m \<Longrightarrow> (\<And>a. keeps_queue (f a)) \<Longrightarrow> keeps_queue (bind_op m f)"
  by (auto simp: keeps_queue_def bind_op_def split: prod.split sum.split) (metis snd_conv)+

lemma keeps_queue_clocked: "(\<And>now. keeps_queue (f now)) \<Longrightarrow> keeps_queue (clocked H f)"
  by (simp add: keeps_queue_def clocked_def now_ms_def Let_def split: prod.split)

lemma keeps_queue_open: "keeps_queue (open_db P H)"
  unfolding open_db_def bootstrap_def purge_expired_def
  by (intro keeps_queue_bind keeps_queue_clocked keeps_queue_write) simp_all

lemma begin_alarm_unsigned:
  assumes "begin_alarm P H (Inr (limit, C)) st = (Inr batch, st')" "\<not> has_signer C"
  shows "batch = None \<and> db_queue (sb_db st') = db_queue (sb_db st) \<and> sb_alarm st' = None"
proof -
  obtain x where "open_db P H (st\<lparr>sb_alarm := None\<rparr>) = (Inr x, st')" "batch = None"
    using assms by (auto simp: begin_alarm_def bind_op_def lift_op_def return_op_def split: prod.splits sum.splits)
  then show ?thesis
    using keeps_queue_open [of P H, unfolded keeps_queue_def, rule_format, of "st\<lparr>sb_alarm := None\<rparr>"] by simp
qed

text \<open>C39: An admission answered with Queued for a task that is not finished is answered with an alarm
  armed, signer or not.  An alarm of an object with a signer that ends without an error leaves the queue
  empty or an alarm armed, whether the market is too expensive, the batch advanced, or it has to be
  retried.  An alarm of an object without a signer that ends without an error leaves the queue exactly as
  it was and no alarm armed: the queue waits for the next admission.\<close>

theorem cf_queue_never_idle:
  "(fetch X P H (Inr (limit, C)) n (AdmitCall body ip) st = (Inr (AdmissionReply (Queued i status)), st') \<and> \<not> is_terminal status
        \<longrightarrow> sb_alarm st' \<noteq> None)
    \<and> (alarm X P H (Inr (limit, C)) st = (Inr (), st') \<and> has_signer C \<and> length (db_queue (sb_db st')) < 2 ^ 64
        \<longrightarrow> db_queue (sb_db st') = [] \<or> sb_alarm st' \<noteq> None)
    \<and> (alarm X P H (Inr (limit, C)) st = (Inr (), st') \<and> \<not> has_signer C
        \<longrightarrow> db_queue (sb_db st') = db_queue (sb_db st) \<and> sb_alarm st' = None)"
proof (intro conjI impI; elim conjE)
  assume "fetch X P H (Inr (limit, C)) n (AdmitCall body ip) st = (Inr (AdmissionReply (Queued i status)), st')"
    and s: "\<not> is_terminal status"
  then obtain st1 where "finish_admission P (Queued i status) st1 = (Inr (), st')"
    by (auto simp: fetch_def bind_op_def lift_op_def return_op_def Let_def split: prod.splits sum.splits option.splits)
  then show "sb_alarm st' \<noteq> None" using s by (rule finish_admission_armed)
next
  assume a: "alarm X P H (Inr (limit, C)) st = (Inr (), st')"
  then obtain batch st1 where b: "begin_alarm P H (Inr (limit, C)) st = (Inr batch, st1)"
    by (auto simp: alarm_def bind_op_def split: prod.splits sum.splits)
  have idle: "st1 = st'" if "batch = None" using a b that by (simp add: alarm_def bind_op_def return_op_def)
  { assume signer: "has_signer C" and len: "length (db_queue (sb_db st')) < 2 ^ 64"
    show "db_queue (sb_db st') = [] \<or> sb_alarm st' \<noteq> None"
    proof (cases batch)
      case None
      then show ?thesis using begin_alarm_idle b signer idle by blast
    next
      case (Some bc)
      then obtain verdict st2 where "finish_alarm P (fst bc) verdict st2 = (Inr (), st')"
        using a b by (auto simp: alarm_def bind_op_def Let_def split: prod.splits)
      then show ?thesis using len by (rule finish_alarm_armed)
    qed }
  assume "\<not> has_signer C"
  then show "db_queue (sb_db st') = db_queue (sb_db st)" "sb_alarm st' = None"
    using begin_alarm_unsigned [OF b] idle by auto
qed

text \<open>A stray envelope in the queue, with and without a signer.\<close>

abbreviation sample_queued :: "ref_world submitter" where
  "sample_queued \<equiv> sample_state (empty_db\<lparr>db_queue := [(1, ''t9'')]\<rparr>)"

abbreviation sample_unsigned :: chain where
  "sample_unsigned \<equiv> sample_signer\<lparr>ch_signer_key := None\<rparr>"

lemma sample_unarmed: "sample_state d\<lparr>sb_alarm := None\<rparr> = sample_state d" "sb_db (sample_state d) = d" "sb_alarm (sample_state d) = None"
  by (simp_all add: sample_state_def)

lemma sample_open: "open_db ref_platform sample_host sample_queued = (Inr (), sample_queued)"
  by (simp add: open_db_def bootstrap_def purge_expired_def sample_ops empty_db_def delete_where_def)

lemma sample_idle: "alarm X ref_platform sample_host (Inr (100, sample_unsigned)) sample_queued = (Inr (), sample_queued)"
  by (simp add: alarm_def begin_alarm_def sample_unarmed sample_open bind_op_def lift_op_def return_op_def has_signer_def)

theorem cf_queue_never_idle_witness:
  "(\<exists>st'. fetch ref_externs ref_platform sample_host (Inr (100, sample_signer)) ''t1''
      (AdmitCall (RegisterRequest (register_request_of sample_register)) ''ip'') (sample_state empty_db)
        = (Inr (AdmissionReply (Queued ''t1'' Pending)), st') \<and> sb_alarm st' \<noteq> None)
    \<and> db_queue (sb_db (snd (alarm ref_externs ref_platform sample_host (Inr (100, sample_unsigned)) sample_queued))) = [(1, ''t9'')]"
proof -
  obtain tr d where run: "run (execute_admission ref_externs ref_platform sample_host 100 sample_signer ''ip'') sample_program
      (sample_state empty_db) = (Some (Queued ''t1'' Pending), tr, sample_state d)"
    using sample_runs by blast
  note armed = cf_queue_never_idle [of ref_externs ref_platform sample_host 100 sample_signer "''t1''"
      "RegisterRequest (register_request_of sample_register)" "''ip''" "sample_state empty_db" "''t1''" Pending]
  have "\<exists>st'. finish_admission ref_platform (Queued ''t1'' Pending) (sample_state d) = (Inr (), st')"
    by (simp add: finish_admission_def ensure_alarm_def get_alarm_def bind_op_def schedule_def return_op_def ref_platform_def Let_def)
  then obtain st' where "fetch ref_externs ref_platform sample_host (Inr (100, sample_signer)) ''t1''
      (AdmitCall (RegisterRequest (register_request_of sample_register)) ''ip'') (sample_state empty_db)
        = (Inr (AdmissionReply (Queued ''t1'' Pending)), st')"
    using run by (auto simp: fetch_def bind_op_def sample_begin lift_op_def return_op_def)
  then have first: "\<exists>st'. fetch ref_externs ref_platform sample_host (Inr (100, sample_signer)) ''t1''
      (AdmitCall (RegisterRequest (register_request_of sample_register)) ''ip'') (sample_state empty_db)
        = (Inr (AdmissionReply (Queued ''t1'' Pending)), st') \<and> sb_alarm st' \<noteq> None"
    using armed [of st'] by auto
  have "\<not> has_signer sample_unsigned" by (simp add: has_signer_def)
  then have "db_queue (sb_db sample_queued) = [(1, ''t9'')]"
    using cf_queue_never_idle [of ref_externs ref_platform sample_host 100 sample_unsigned] sample_idle [of ref_externs] by (simp add: sample_unarmed)
  then show ?thesis using first by (simp add: sample_idle)
qed

end
