(* ===== verification/Spec2Isabelle.thy ===== *)
theory Spec2Isabelle
  imports Wire Gas Rescue Roster Sentinel Commitments Coalescing Submission Lookup Fetch Store_Data Cf_Alarm
begin

text \<open>
  Verification of the P-256 public key index.

  \<^bold>\<open>The program.\<close>  The service accepts groups of P-256 passkeys (\<^verbatim>\<open>register\<close>) and later references to a
  group (\<^verbatim>\<open>refer\<close>), checks every possession proof, queues the request durably and lands it in one
  transaction on the registry contract; it answers queries from a cache in front of the chain.  Its
  parts, as the repository has them:

  \<^item> \<^verbatim>\<open>p256-registrar\<close>, the pure core: the protocol's digests and calldata, proof verification, and three
    decision programs (admission, submission, lookup) that ask a shell for every effect;
  \<^item> \<^verbatim>\<open>p256-index-server\<close>, one shell: Redis, an Iggy queue, a worker, an RPC pool, a maintenance loop;
  \<^item> \<^verbatim>\<open>p256-index-cf\<close>, the other shell: a Cloudflare Durable Object with SQLite tables and an alarm.

  An admission validates the request, asks the store and the chain whether it is known, stores the
  task, puts an envelope in the queue and marks the task admitted.  A worker (or the alarm) loads a
  batch of envelopes, asks the chain what has landed, submits what has not, and persists one outcome
  per task before the queue moves on.  Maintenance replaces transactions that stay pending.

  \<^bold>\<open>Foundations.\<close>
  \<^item> \<open>Prelude\<close>: bytes, UTF-8 strings, fixed-width integers and the Rust library functions the sources
    call, with their lemmas; \<open>Utf8\<close>: \<^verbatim>\<open>from_utf8_lossy\<close>; \<open>Json\<close>: \<^verbatim>\<open>serde_json::Value\<close>;
    \<open>Ops\<close>: fallible operations on a state.
  \<^item> \<open>Program\<close>: a decision program as a finite tree of operations and continuations.  \<open>exec\<close> relates a
    program to a trace under some answers, \<open>wlp\<close> to all of them, \<open>run\<close> executes it against a shell.
    Every program is finite, so every run ends.
  \<^item> \<open>Externs\<close>, \<open>Redis\<close>, \<open>Host\<close> and the platform of \<open>Cf_Store\<close>: code outside the repository.  Each is a
    record of functions that the definitions take as an argument; what is relied on is a named
    predicate (\<open>externs_ok\<close>, \<open>services_ok\<close>, \<open>host_ok\<close>) and a locale (\<open>externs_laws\<close>, \<open>redis_laws\<close>,
    \<open>host_laws\<close>, \<open>platform_laws\<close>), and each locale is interpreted on a concrete instance, so the hypotheses
    of the theorems can hold.

  \<^bold>\<open>The core, \<^verbatim>\<open>p256-registrar/src\<close>.\<close>
  \<^item> \<open>Sol_Types\<close>, \<open>Protocol\<close>, \<open>Wire\<close> (\<^verbatim>\<open>protocol.rs\<close>), \<open>Task\<close> (\<^verbatim>\<open>task.rs\<close>), \<open>Verify\<close> (\<^verbatim>\<open>verify.rs\<close>).
    \<open>Commitments\<close> shows what a signature and a content hash commit to, relative to the injectivity
    of the digests on the strings at hand.
  \<^item> \<open>Validation\<close> and \<open>Admission\<close> (\<^verbatim>\<open>admission.rs\<close>).  Validation accepts only what the contract's bounds and
    proof checks allow, and what it accepts it accepts again unchanged.  An admission run changes the
    store or the queue only after every gate, and its outcome is backed by the answers it received.
    \<open>Coalescing\<close>: chain reads are fail-open, and the retry digest identifies resubmissions.
  \<^item> \<open>Submission\<close> (\<^verbatim>\<open>submission.rs\<close>).  Each operation of a batch is earned by those before it, a batch
    advances only when every task is settled, and a run asks at most six operations per task.
  \<^item> \<open>Lookup\<close> (\<^verbatim>\<open>lookup.rs\<close>).  The five query flows are one read-through policy; outcomes are backed.
  \<^item> \<open>Gas\<close>, \<open>Rescue\<close>, \<open>Roster\<close>, \<open>Sentinel\<close> (the files of these names): fee plans and replacement bids in
    256-bit arithmetic, the sweep plan, node rotation and cooldown, back-off and alert throttles.
  \<^item> \<open>Samples\<close>: concrete points, proofs and tasks for the witnesses.

  \<^bold>\<open>The server, \<^verbatim>\<open>p256-index-server/src\<close>.\<close>
  \<^item> \<open>Store\<close> (\<^verbatim>\<open>store.rs\<close>): one definition per operation over Redis commands; a Lua script is one atomic
    command.  \<open>Store_Laws\<close> and \<open>Store_Properties\<close>: the invariant over every history with lost commands
    and expiring keys, admission by content, no revival of terminal tasks, the retry budget.
    \<open>Store_Data\<close>: rate counters, cache, ledger and placeholders.
  \<^item> \<open>Chain\<close> (\<^verbatim>\<open>chain.rs\<close>), \<open>Chain_Properties\<close>: fail-over (which reply decides a pool read, where retries go,
    which nodes cool afterwards), the conditions of a broadcast on the node it is posted to, the receipt
    loop.  Parsers, error classification, fee planning and signing that both shells' \<^verbatim>\<open>chain.rs\<close> repeat are
    defined once, here.
  \<^item> \<open>Fetch\<close> (\<^verbatim>\<open>execute_fetch\<close> of \<^verbatim>\<open>http.rs\<close>): the chain reads a lookup asks for, and that what is served and cached
    under a page is that page.
  \<^item> \<open>Worker\<close> (\<^verbatim>\<open>worker.rs\<close>), \<open>Worker_Properties\<close>: the submission program run against Redis and the chain;
    the consumer offset moves only past settled tasks; nonce and ledger rules of a write attempt.
  \<^item> \<open>Maintenance\<close> (\<^verbatim>\<open>maintenance.rs\<close>): the unstick sweep and the throttled alerts.

  \<^bold>\<open>The Durable Object, \<^verbatim>\<open>p256-index-cf/src\<close>.\<close>
  \<^item> \<open>Cf_Chain\<close> (\<^verbatim>\<open>chain.rs\<close>): a port of the server's chain access, shown to compute the same.
  \<^item> \<open>Cf_Store\<close>, \<open>Cf_Submitter\<close> (\<^verbatim>\<open>submitter.rs\<close>): the tables with one definition per store operation, and
    the handlers.  \<open>Cf_Laws\<close>: what each operation does to tasks and queue.
  \<^item> \<open>Cf_Object\<close>: requests, alarms, maintenance, failures and evictions as an interleaving step relation;
    every admitted unfinished task stays in the queue or in the batch being processed.  \<open>Cf_Alarm\<close>: a
    queue with work has an alarm, in an object that has a signer.

  \<^bold>\<open>Bounds and fuel.\<close>  The receipt loops take fuel: the timeout divided by the two-second poll, plus two.
  \<open>receipt_wait_ends\<close> shows that for a clock that advances over a sleep this is enough and that more fuel
  changes nothing.  The Durable Object waits by the wall clock, which may be set back, so its receipt loop
  has the same fuel but no such theorem.  The worker's loop runs until shutdown; its fuel is the number of iterations before
  the shutdown, and its theorems hold for every number.  All other recursion is structural.  A \<^verbatim>\<open>usize\<close>
  cursor is 64 bits wide, as on the server (32 on wasm, where it wraps earlier); times in SQL rows are
  integers of any size.

  \<^bold>\<open>Not modelled.\<close>
  \<^item> The floating-point runway estimate and the heartbeat text of \<^verbatim>\<open>sentinel.rs\<close>, and the alerts of both
    shells that use them.
  \<^item> The rest of the HTTP router (\<^verbatim>\<open>http.rs\<close>) and the edge router (\<^verbatim>\<open>edge.rs\<close>, \<^verbatim>\<open>proto.rs\<close>, with its copy of
    \<^verbatim>\<open>execute_fetch\<close>): request parsing, rendering and headers around the admission and lookup programs.
  \<^item> Queue and Telegram clients, configuration and process set-up: connection code and environment
    variables; the queue and the configured values are parameters.
  \<^item> The contracts, the replay and migration tools and the live probes: they run outside the service, which
    sees the contract through its interface and through chain answers.
  \<^item> Log lines.
\<close>

end
